(* ===== verification/Prelude.thy ===== *)
theory Prelude
  imports Main "HOL-Library.Word" "HOL-Library.Sublist" "HOL-Library.AList"
    "HOL-Library.Char_ord" "HOL-Library.List_Lexorder"
begin

text \<open>
  Shared vocabulary of the development: machine integers, results, strings and the list loops
  that several components use.

  A Rust \<open>String\<close> is its UTF-8 byte sequence, so a \<^typ>\<open>char\<close> of this development is a byte; length,
  splitting on an ASCII character, prefix tests, substring replacement and the \<open>is_ascii_*\<close>
  predicates are then exact. \<open>trim\<close> removes ASCII white space, \<open>to_lowercase\<close>
  folds ASCII letters. A \<open>Result<A, E>\<close> is \<open>E + A\<close> with \<open>Inl\<close> the error. A \<open>HashMap\<close> or
  \<open>BTreeMap\<close> that is iterated is an association list in iteration order; one that is only looked
  up is a HOL map.
\<close>

section \<open>Machine integers and containers\<close>

type_synonym u8 = "8 word"
type_synonym u16 = "16 word"
type_synonym u32 = "32 word"
type_synonym u64 = "64 word"
type_synonym i64 = "64 word"
type_synonym ('k, 'v) hashmap = "('k \<times> 'v) list"

named_theorems result_simps \<open>inversion and evaluation of results\<close>
named_theorems str_simps \<open>facts on strings the components share\<close>
named_theorems table_simps \<open>facts on row tables\<close>

text \<open>\<open>saturating_add\<close> of an unsigned integer.\<close>

definition saturating_add :: "'w::len word \<Rightarrow> 'w word \<Rightarrow> 'w word" where
  "saturating_add a b = (if unat a + unat b < 2 ^ LENGTH('w) then a + b else - 1)"

lemma unat_saturating_add:
  "unat (saturating_add (a :: 'w::len word) b) = min (unat a + unat b) (2 ^ LENGTH('w) - 1)"
proof (cases "unat a + unat b < 2 ^ LENGTH('w)")
  case True
  then show ?thesis by (simp add: saturating_add_def unat_word_ariths)
next
  case False
  moreover have "unat (- 1 :: 'w word) = 2 ^ LENGTH('w) - 1" by (simp add: unsigned_minus_1_eq_mask mask_eq_exp_minus_1)
  ultimately show ?thesis by (simp add: saturating_add_def)
qed

section \<open>Results\<close>

definition rbind :: "'e + 'a \<Rightarrow> ('a \<Rightarrow> 'e + 'b) \<Rightarrow> 'e + 'b" where
  "rbind r f = (case r of Inl e \<Rightarrow> Inl e | Inr x \<Rightarrow> f x)"

definition ensure :: "bool \<Rightarrow> 'e \<Rightarrow> 'e + unit" where
  "ensure b e = (if b then Inr () else Inl e)"

definition ok_or :: "'a option \<Rightarrow> 'e \<Rightarrow> 'e + 'a" where
  "ok_or r e = (case r of None \<Rightarrow> Inl e | Some x \<Rightarrow> Inr x)"

definition map_err :: "('e \<Rightarrow> 'f) \<Rightarrow> 'e + 'a \<Rightarrow> 'f + 'a" where
  "map_err f r = (case r of Inl e \<Rightarrow> Inl (f e) | Inr x \<Rightarrow> Inr x)"

definition is_ok :: "'e + 'a \<Rightarrow> bool" where
  "is_ok r = (case r of Inl _ \<Rightarrow> False | Inr _ \<Rightarrow> True)"

primrec rmap :: "('a \<Rightarrow> 'e + 'b) \<Rightarrow> 'a list \<Rightarrow> 'e + 'b list" where
  "rmap f [] = Inr []"
| "rmap f (x # xs) = rbind (f x) (\<lambda>y. rbind (rmap f xs) (\<lambda>ys. Inr (y # ys)))"

lemma rbind_Inl [simp]: "rbind (Inl e) f = Inl e"
  by (simp add: rbind_def)

lemma rbind_Inr [simp]: "rbind (Inr x) f = f x"
  by (simp add: rbind_def)

lemma rbind_eq_Inr [result_simps]: "rbind r f = Inr y \<longleftrightarrow> (\<exists>x. r = Inr x \<and> f x = Inr y)"
  by (simp add: rbind_def split: sum.splits)

lemma rbind_eq_Inl [result_simps]:
  "rbind r f = Inl e \<longleftrightarrow> r = Inl e \<or> (\<exists>x. r = Inr x \<and> f x = Inl e)"
  by (simp add: rbind_def split: sum.splits)

lemma ensure_simps [simp]: "ensure True e = Inr ()" "ensure False e = Inl e"
  by (simp_all add: ensure_def)

lemma ensure_eq_Inr [result_simps]: "ensure b e = Inr u \<longleftrightarrow> b"
  by (simp add: ensure_def)

lemma ensure_eq_Inl [result_simps]: "ensure b e = Inl e' \<longleftrightarrow> \<not> b \<and> e' = e"
  by (auto simp add: ensure_def)

lemma ok_or_simps [simp]: "ok_or None e = Inl e" "ok_or (Some x) e = Inr x"
  by (simp_all add: ok_or_def)

lemma ok_or_eq_Inr [result_simps]: "ok_or r e = Inr x \<longleftrightarrow> r = Some x"
  by (simp add: ok_or_def split: option.splits)

lemma ok_or_eq_Inl [result_simps]: "ok_or r e = Inl e' \<longleftrightarrow> r = None \<and> e' = e"
  by (auto simp add: ok_or_def split: option.splits)

lemma map_err_simps [simp]: "map_err f (Inl e) = Inl (f e)" "map_err f (Inr x) = Inr x"
  by (simp_all add: map_err_def)

lemma map_err_eq_Inr [result_simps]: "map_err f r = Inr x \<longleftrightarrow> r = Inr x"
  by (cases r) simp_all

lemma map_err_eq_Inl [result_simps]: "map_err f r = Inl e \<longleftrightarrow> (\<exists>e'. r = Inl e' \<and> e = f e')"
  by (cases r) auto

lemma is_ok_simps [simp]: "is_ok (Inl e) = False" "is_ok (Inr x) = True"
  by (simp_all add: is_ok_def)

lemma is_ok_iff [result_simps]: "is_ok r \<longleftrightarrow> (\<exists>x. r = Inr x)"
  by (cases r) simp_all

lemma rmap_eq_Inr: "rmap f xs = Inr ys \<longleftrightarrow> list_all2 (\<lambda>x y. f x = Inr y) xs ys"
  by (induction xs arbitrary: ys) (auto simp: result_simps list_all2_Cons1)

lemma rmap_eq_Inl: "rmap f xs = Inl e \<Longrightarrow> \<exists>x \<in> set xs. f x = Inl e"
  by (induction xs) (auto simp: result_simps)

section \<open>Strings\<close>

definition starts_with :: "string \<Rightarrow> string \<Rightarrow> bool" where
  "starts_with s p = prefix p s"

definition ends_with :: "string \<Rightarrow> string \<Rightarrow> bool" where
  "ends_with s p = prefix (rev p) (rev s)"

definition strip_prefix :: "string \<Rightarrow> string \<Rightarrow> string option" where
  "strip_prefix s p = (if prefix p s then Some (drop (length p) s) else None)"

lemma strip_prefix_append [simp]: "strip_prefix (p @ s) p = Some s"
  by (simp add: strip_prefix_def)

lemma strip_prefix_eq_Some [str_simps]: "strip_prefix s p = Some r \<longleftrightarrow> s = p @ r"
  by (auto simp: strip_prefix_def prefix_def)

fun contains_str :: "string \<Rightarrow> string \<Rightarrow> bool" where
  "contains_str [] p = (p = [])"
| "contains_str (x # xs) p = (prefix p (x # xs) \<or> contains_str xs p)"

lemma contains_str_iff: "contains_str s p \<longleftrightarrow> sublist p s"
  by (induction s) (auto simp: sublist_Cons_right)

fun join :: "string \<Rightarrow> string list \<Rightarrow> string" where
  "join sep [] = []"
| "join sep [x] = x"
| "join sep (x # y # ys) = x @ sep @ join sep (y # ys)"

fun split_on :: "char \<Rightarrow> string \<Rightarrow> string list" where
  "split_on c [] = [[]]"
| "split_on c (x # xs) =
     (if x = c then [] # split_on c xs
      else (case split_on c xs of [] \<Rightarrow> [[x]] | y # ys \<Rightarrow> (x # y) # ys))"

lemma split_on_nonempty [simp]: "split_on c s \<noteq> []"
  by (induction s) (auto split: list.splits)

lemma split_on_absent [simp]: "c \<notin> set s \<Longrightarrow> split_on c s = [s]"
  by (induction s) auto

lemma split_on_append [simp]: "c \<notin> set x \<Longrightarrow> split_on c (x @ c # s) = x # split_on c s"
  by (induction x) auto

lemma split_on_join: "xs \<noteq> [] \<Longrightarrow> (\<forall>x \<in> set xs. c \<notin> set x) \<Longrightarrow> split_on c (join [c] xs) = xs"
  by (induction "[c]" xs rule: join.induct) auto

lemma join_split_on: "join [c] (split_on c s) = s"
proof (induction s)
  case (Cons x s)
  obtain y ys where "split_on c s = y # ys" by (cases "split_on c s") auto
  with Cons show ?case by (cases ys) auto
qed simp

lemma split_on_parts: "p \<in> set (split_on c s) \<Longrightarrow> c \<notin> set p"
  by (induction s arbitrary: p) (auto split: list.splits if_splits)

text \<open>\<open>str::split_once\<close>.\<close>

fun split_once :: "char \<Rightarrow> string \<Rightarrow> (string \<times> string) option" where
  "split_once c [] = None"
| "split_once c (x # xs) =
     (if x = c then Some ([], xs) else map_option (\<lambda>(a, b). (x # a, b)) (split_once c xs))"

lemma split_once_sep [simp]: "c \<notin> set a \<Longrightarrow> split_once c (a @ c # b) = Some (a, b)"
  by (induction a) auto

lemma append_sep_inject:
  assumes "c \<notin> set a" "c \<notin> set b"
  shows "a @ c # x = b @ c # y \<longleftrightarrow> a = b \<and> x = y"
  using assms
proof (induction a arbitrary: b)
  case Nil
  then show ?case by (cases b) auto
next
  case (Cons a as)
  then show ?case by (cases b) auto
qed

text \<open>\<open>str::lines\<close>.\<close>

definition strip_cr :: "string \<Rightarrow> string" where
  "strip_cr l = (if l \<noteq> [] \<and> last l = CHR 0x0D then butlast l else l)"

definition str_lines :: "string \<Rightarrow> string list" where
  "str_lines t = map strip_cr (let ls = split_on (CHR 0x0A) t in if last ls = [] then butlast ls else ls)"

text \<open>\<open>env::var(k).unwrap_or_else\<close>.\<close>

definition env_or :: "(string \<rightharpoonup> string) \<Rightarrow> string \<Rightarrow> string \<Rightarrow> string" where
  "env_or env k dflt = (case env k of Some v \<Rightarrow> v | None \<Rightarrow> dflt)"

text \<open>\<open>str::replace\<close> with a non-empty pattern.\<close>

function replace_all :: "string \<Rightarrow> string \<Rightarrow> string \<Rightarrow> string" where
  "replace_all pat rep [] = []"
| "replace_all pat rep (x # xs) =
     (if pat \<noteq> [] \<and> prefix pat (x # xs)
      then rep @ replace_all pat rep (drop (length pat) (x # xs))
      else x # replace_all pat rep xs)"
  by pat_completeness auto
termination
  by (relation "measure (\<lambda>(_, _, s). length s)") (auto simp: prefix_def)

definition is_ws :: "char \<Rightarrow> bool" where
  "is_ws c = ((of_char c :: nat) = 32 \<or> (9 \<le> (of_char c :: nat) \<and> (of_char c :: nat) \<le> 13))"

definition trim :: "string \<Rightarrow> string" where
  "trim s = rev (dropWhile is_ws (rev (dropWhile is_ws s)))"

definition is_digit :: "char \<Rightarrow> bool" where
  "is_digit c = (48 \<le> (of_char c :: nat) \<and> (of_char c :: nat) \<le> 57)"

definition is_lower :: "char \<Rightarrow> bool" where
  "is_lower c = (97 \<le> (of_char c :: nat) \<and> (of_char c :: nat) \<le> 122)"

definition is_upper :: "char \<Rightarrow> bool" where
  "is_upper c = (65 \<le> (of_char c :: nat) \<and> (of_char c :: nat) \<le> 90)"

definition is_alpha :: "char \<Rightarrow> bool" where
  "is_alpha c = (is_lower c \<or> is_upper c)"

definition is_alnum :: "char \<Rightarrow> bool" where
  "is_alnum c = (is_alpha c \<or> is_digit c)"

definition lower_char :: "char \<Rightarrow> char" where
  "lower_char c = (if is_upper c then char_of ((of_char c :: nat) + 32) else c)"

definition upper_char :: "char \<Rightarrow> char" where
  "upper_char c = (if is_lower c then char_of ((of_char c :: nat) - 32) else c)"

definition to_lowercase :: "string \<Rightarrow> string" where
  "to_lowercase s = map lower_char s"

lemma of_char_less_256 [simp]: "(of_char c :: nat) < 256"
  by (metis char_of_eq_iff nat_of_char_less_256)

lemma lower_char_not_upper [simp]: "\<not> is_upper (lower_char c)"
  by (auto simp: lower_char_def is_upper_def)

lemma lower_char_idem [simp]: "lower_char (lower_char c) = lower_char c"
  by (simp add: lower_char_def [of "lower_char c"])

lemma to_lowercase_idem [simp]: "to_lowercase (to_lowercase s) = to_lowercase s"
  by (simp add: to_lowercase_def)

lemma length_to_lowercase [simp]: "length (to_lowercase s) = length s"
  by (simp add: to_lowercase_def)

section \<open>Decimal numbers\<close>

definition digit_char :: "nat \<Rightarrow> char" where
  "digit_char d = char_of (48 + d)"

definition digit_val :: "char \<Rightarrow> nat" where
  "digit_val c = of_char c - 48"

fun show_nat :: "nat \<Rightarrow> string" where
  "show_nat n = (if n < 10 then [digit_char n] else show_nat (n div 10) @ [digit_char (n mod 10)])"

declare show_nat.simps [simp del]

definition dec_value :: "string \<Rightarrow> nat" where
  "dec_value ds = fold (\<lambda>c acc. acc * 10 + digit_val c) ds 0"

text \<open>\<open>str::parse\<close> to an unsigned integer of width \<open>'w\<close>: an optional plus sign, at least one digit,
  no overflow.\<close>

definition parse_uint :: "string \<Rightarrow> 'w::len word option" where
  "parse_uint s =
    (let ds = (if s \<noteq> [] \<and> hd s = CHR ''+'' then tl s else s) in
     if ds = [] \<or> \<not> list_all is_digit ds then None
     else if dec_value ds < 2 ^ LENGTH('w) then Some (of_nat (dec_value ds)) else None)"

definition show_word :: "'w::len word \<Rightarrow> string" where
  "show_word w = show_nat (unat w)"

lemma digit_char_numeral [simp]:
  "digit_char 0 = CHR ''0''" "digit_char (Suc 0) = CHR ''1''" "digit_char 1 = CHR ''1''"
  "digit_char 2 = CHR ''2''" "digit_char 3 = CHR ''3''" "digit_char 4 = CHR ''4''"
  "digit_char 5 = CHR ''5''" "digit_char 6 = CHR ''6''" "digit_char 7 = CHR ''7''"
  "digit_char 8 = CHR ''8''" "digit_char 9 = CHR ''9''"
  by code_simp+

lemma digit_char_digit [simp]: "d < 10 \<Longrightarrow> is_digit (digit_char d)"
  by (simp add: is_digit_def digit_char_def)

lemma digit_val_char [simp]: "d < 10 \<Longrightarrow> digit_val (digit_char d) = d"
  by (simp add: digit_val_def digit_char_def)

lemma show_nat_digits: "list_all is_digit (show_nat n)"
  by (induction n rule: show_nat.induct) (subst show_nat.simps, auto)

lemma show_nat_nonempty [simp]: "show_nat n \<noteq> []"
  by (subst show_nat.simps) simp

lemma dec_value_snoc [simp]: "dec_value (ds @ [c]) = dec_value ds * 10 + digit_val c"
  by (simp add: dec_value_def)

lemma dec_value_show_nat [simp]: "dec_value (show_nat n) = n"
proof (induction n rule: show_nat.induct)
  case (1 n)
  show ?case
  proof (cases "n < 10")
    case True
    then show ?thesis by (subst show_nat.simps) (simp add: dec_value_def)
  next
    case False
    with 1 have "dec_value (show_nat (n div 10)) = n div 10" by simp
    with False show ?thesis by (subst show_nat.simps) simp
  qed
qed

lemma show_nat_inj: "show_nat m = show_nat n \<longleftrightarrow> m = n"
  by (metis dec_value_show_nat)

lemma digit_not_plus: "is_digit c \<Longrightarrow> c \<noteq> CHR ''+''"
  by (auto simp: is_digit_def)

lemma show_word_digits [str_simps]: "list_all is_digit (show_word w)"
  by (simp add: show_word_def show_nat_digits)

lemma digits_no_char: "list_all is_digit ds \<Longrightarrow> \<not> is_digit c \<Longrightarrow> c \<notin> set ds"
  by (auto simp: list_all_iff)

lemma show_word_no_char: "\<not> is_digit c \<Longrightarrow> c \<notin> set (show_word w)"
  by (rule digits_no_char [OF show_word_digits])

lemma show_word_nonempty [simp]: "show_word w \<noteq> []"
  by (simp add: show_word_def)

lemma show_word_inj [simp]: "show_word v = show_word w \<longleftrightarrow> v = w"
  by (auto simp: show_word_def show_nat_inj dest: unsigned_word_eqI)

lemma parse_show_word [simp]: "parse_uint (show_word w) = Some w"
proof -
  have "hd (show_word w) \<noteq> CHR ''+''"
    using show_word_digits [of w] by (cases "show_word w") (auto dest: digit_not_plus)
  then show ?thesis
    by (simp add: parse_uint_def show_word_digits) (simp add: show_word_def)
qed

text \<open>Signed 64-bit integers as \<^typ>\<open>int\<close>: \<open>str::parse\<close> with an optional sign, and \<open>Display\<close>.\<close>

definition parse_i64 :: "string \<Rightarrow> int option" where
  "parse_i64 s =
    (let neg = (s \<noteq> [] \<and> hd s = CHR ''-'');
         ds = (if s \<noteq> [] \<and> (hd s = CHR ''-'' \<or> hd s = CHR ''+'') then tl s else s);
         v = (if neg then - int (dec_value ds) else int (dec_value ds))
     in if ds = [] \<or> \<not> list_all is_digit ds then None
        else if - (2 ^ 63) \<le> v \<and> v < 2 ^ 63 then Some v else None)"

definition show_int :: "int \<Rightarrow> string" where
  "show_int i = (if i < 0 then ''-'' @ show_nat (nat (- i)) else show_nat (nat i))"

lemma parse_show_int: "- (2 ^ 63) \<le> i \<Longrightarrow> i < 2 ^ 63 \<Longrightarrow> parse_i64 (show_int i) = Some i"
proof -
  have hd: "hd (show_nat n) \<noteq> CHR ''-'' \<and> hd (show_nat n) \<noteq> CHR ''+''" for n
    using show_nat_digits [of n] by (cases "show_nat n") (auto simp: is_digit_def)
  assume "- (2 ^ 63) \<le> i" "i < 2 ^ 63"
  then show ?thesis
    by (cases "i < 0") (simp_all add: parse_i64_def show_int_def Let_def show_nat_digits hd)
qed

section \<open>Ordered maps\<close>

text \<open>A \<open>BTreeMap\<close> that is iterated: an association list in key order.\<close>

definition btree_insert :: "'k::linorder \<Rightarrow> 'v \<Rightarrow> ('k \<times> 'v) list \<Rightarrow> ('k \<times> 'v) list" where
  "btree_insert k v m =
    takeWhile (\<lambda>p. fst p < k) m @ (k, v) # dropWhile (\<lambda>p. fst p \<le> k) m"

definition btree_extend :: "('k::linorder \<times> 'v) list \<Rightarrow> ('k \<times> 'v) list \<Rightarrow> ('k \<times> 'v) list" where
  "btree_extend m kvs = fold (\<lambda>p acc. btree_insert (fst p) (snd p) acc) kvs m"

abbreviation btree :: "('k::linorder \<times> 'v) list \<Rightarrow> bool" where
  "btree m \<equiv> sorted_wrt (<) (map fst m)"

lemma takeWhile_lt_btree:
  "btree m \<Longrightarrow> takeWhile (\<lambda>p. fst p < k) m = filter (\<lambda>p. fst p < k) m"
  by (induction m) (auto intro!: filter_False [symmetric])

lemma dropWhile_le_btree:
  "btree m \<Longrightarrow> dropWhile (\<lambda>p. fst p \<le> k) m = filter (\<lambda>p. k < fst p) m"
  by (induction m) (auto intro!: filter_True [symmetric])

lemma btree_insert_filter:
  "btree m \<Longrightarrow> btree_insert k v m = filter (\<lambda>p. fst p < k) m @ (k, v) # filter (\<lambda>p. k < fst p) m"
  by (simp add: btree_insert_def takeWhile_lt_btree dropWhile_le_btree)

lemma btree_filter: "btree m \<Longrightarrow> btree (filter P m)"
  by (induction m) auto

lemma btree_btree_insert: "btree m \<Longrightarrow> btree (btree_insert k v m)"
  by (auto simp: btree_insert_filter sorted_wrt_append btree_filter)

lemma map_of_filter_lt: "map_of (filter (\<lambda>p. P (fst p)) m) x = (if P x then map_of m x else None)"
  by (induction m) auto

lemma map_of_btree_insert: "btree m \<Longrightarrow> map_of (btree_insert k v m) = (map_of m)(k \<mapsto> v)"
  by (auto simp: btree_insert_filter fun_eq_iff map_add_def
      map_of_filter_lt [of "\<lambda>x. x < k"] map_of_filter_lt [of "\<lambda>x. k < x"] split: option.splits)

lemma btree_btree_extend: "btree m \<Longrightarrow> btree (btree_extend m kvs)"
  unfolding btree_extend_def by (induction kvs arbitrary: m) (auto simp: btree_btree_insert)

lemma map_of_btree_extend:
  "btree m \<Longrightarrow> distinct (map fst kvs) \<Longrightarrow> map_of (btree_extend m kvs) = map_of m ++ map_of kvs"
proof (induction kvs arbitrary: m)
  case (Cons p kvs)
  have "map_of (btree_extend (btree_insert (fst p) (snd p) m) kvs) =
      map_of (btree_insert (fst p) (snd p) m) ++ map_of kvs"
    using Cons by (simp add: btree_btree_insert)
  moreover have "map_of kvs (fst p) = None" using Cons.prems(2) by (simp add: map_of_eq_None_iff)
  ultimately show ?case
    using Cons.prems(1)
    by (auto simp: btree_extend_def map_of_btree_insert map_add_def fun_eq_iff split: option.splits)
qed (simp add: btree_extend_def)

section \<open>UTF-8\<close>

definition in_range :: "nat \<Rightarrow> nat \<Rightarrow> char \<Rightarrow> bool" where
  "in_range lo hi c = (lo \<le> of_char c \<and> of_char c \<le> hi)"

text \<open>\<open>String::from_utf8\<close> accepts exactly the well-formed sequences.\<close>

fun valid_utf8 :: "string \<Rightarrow> bool" where
  "valid_utf8 [] = True"
| "valid_utf8 [a] = in_range 0 127 a"
| "valid_utf8 [a, b] =
     (if in_range 0 127 a then valid_utf8 [b] else in_range 194 223 a \<and> in_range 128 191 b)"
| "valid_utf8 [a, b, c] =
     (if in_range 0 127 a then valid_utf8 [b, c]
      else if in_range 194 223 a then in_range 128 191 b \<and> valid_utf8 [c]
      else in_range 128 191 c \<and>
        ((in_range 224 224 a \<and> in_range 160 191 b) \<or> (in_range 237 237 a \<and> in_range 128 159 b)
         \<or> ((in_range 225 236 a \<or> in_range 238 239 a) \<and> in_range 128 191 b)))"
| "valid_utf8 (a # b # c # d # cs) =
     (if in_range 0 127 a then valid_utf8 (b # c # d # cs)
      else if in_range 194 223 a then in_range 128 191 b \<and> valid_utf8 (c # d # cs)
      else if in_range 224 239 a then in_range 128 191 c \<and>
        ((in_range 224 224 a \<and> in_range 160 191 b) \<or> (in_range 237 237 a \<and> in_range 128 159 b)
         \<or> ((in_range 225 236 a \<or> in_range 238 239 a) \<and> in_range 128 191 b)) \<and> valid_utf8 (d # cs)
      else in_range 128 191 c \<and> in_range 128 191 d \<and>
        ((in_range 240 240 a \<and> in_range 144 191 b) \<or> (in_range 244 244 a \<and> in_range 128 143 b)
         \<or> (in_range 241 243 a \<and> in_range 128 191 b)) \<and> valid_utf8 cs)"

section \<open>List loops\<close>

text \<open>The \<open>HashSet\<close>-guarded loop that keeps the first occurrence of each element.\<close>

fun dedup_seen :: "'a list \<Rightarrow> 'a list \<Rightarrow> 'a list" where
  "dedup_seen seen [] = []"
| "dedup_seen seen (x # xs) =
     (if x \<in> set seen then dedup_seen seen xs else x # dedup_seen (x # seen) xs)"

lemma set_dedup_seen [simp]: "set (dedup_seen seen xs) = set xs - set seen"
  by (induction xs arbitrary: seen) auto

lemma distinct_dedup_seen [simp]: "distinct (dedup_seen seen xs)"
  by (induction xs arbitrary: seen) auto

lemma dedup_seen_distinct: "distinct xs \<Longrightarrow> set xs \<inter> set seen = {} \<Longrightarrow> dedup_seen seen xs = xs"
  by (induction xs arbitrary: seen) auto

lemma dedup_seen_cong:
  "(\<And>x. x \<in> set xs \<Longrightarrow> x \<in> set a \<longleftrightarrow> x \<in> set b) \<Longrightarrow> dedup_seen a xs = dedup_seen b xs"
proof (induction xs arbitrary: a b)
  case (Cons x xs)
  have "dedup_seen a xs = dedup_seen b xs" "dedup_seen (x # a) xs = dedup_seen (x # b) xs"
    using Cons.prems by (auto intro!: Cons.IH)
  then show ?case using Cons.prems [of x] by simp
qed simp

lemma dedup_seen_append: "dedup_seen a (xs @ ys) = dedup_seen a xs @ dedup_seen (xs @ a) ys"
proof (induction xs arbitrary: a)
  case (Cons x xs)
  have "dedup_seen (xs @ a) ys = dedup_seen (x # xs @ a) ys" if "x \<in> set a"
    using that by (intro dedup_seen_cong) auto
  moreover have "dedup_seen (xs @ x # a) ys = dedup_seen (x # xs @ a) ys"
    by (intro dedup_seen_cong) auto
  ultimately show ?case using Cons by simp
qed simp

lemma subseq_dedup_seen: "subseq (dedup_seen seen xs) xs"
  by (induction xs arbitrary: seen) (auto intro: subseq_order.trans)

text \<open>The first element a predicate accepts, as \<open>Iterator::find\<close>.\<close>

lemma find_None_ball [table_simps]: "find P xs = None \<longleftrightarrow> (\<forall>x \<in> set xs. \<not> P x)"
  by (auto simp: find_None_iff)

lemma find_append [table_simps]:
  "find P (xs @ ys) = (case find P xs of None \<Rightarrow> find P ys | Some x \<Rightarrow> Some x)"
  by (induction xs) auto

lemma find_SomeD: "find P xs = Some x \<Longrightarrow> x \<in> set xs \<and> P x"
  by (auto simp: find_Some_iff)

end
