(* ===== verification/RegistryDb.thy ===== *)
theory RegistryDb
  imports Prelude
begin

text \<open>
  The cluster's Postgres database (\<open>crates/registry-db/src/lib.rs\<close>): the missions, grants, users,
  linked accounts, signing key and refresh tokens tables as lists of rows in insertion order, and
  one definition per function of the crate. A statement returns \<open>Inl\<close> when the database does not
  answer or a primary-key or foreign-key constraint of the schema refuses it; a transaction that
  fails leaves the tables as they were. A UUID is its text form, a time stamp an integer; the clock
  (\<open>now()\<close>) and fresh UUIDs (\<open>Uuid::now_v7()\<close>) are arguments.
\<close>

section \<open>Schema\<close>

type_synonym uuid = string

datatype json =
    JNull
  | JBool bool
  | JNumber string
  | JString string
  | JArray "json list"
  | JObject "(string \<times> json) list"

record mission_row =
  mi_id :: uuid
  mi_name :: string
  mi_filesize :: int
  mi_created_at :: int
  mi_created_by :: string
  mi_metadata :: json

record linked_account =
  la_provider :: string
  la_provider_user_id :: string
  la_user_id :: uuid
  la_display_name :: string

record refresh_token_row =
  rt_token_hash :: string
  rt_user_id :: uuid
  rt_expires_at :: int
  rt_revoked_at :: "int option"

record db =
  db_up :: bool
  missions :: "mission_row list"
  acl_grants :: "(string \<times> string list) list"
  users :: "(uuid \<times> int) list"
  linked_accounts :: "linked_account list"
  signing_keys :: "u8 list option"
  refresh_tokens :: "refresh_token_row list"

datatype db_error = DbUnavailable | UniqueViolation | ForeignKeyViolation

record acl_subject_row =
  as_subject :: string
  as_scopes :: "string list"
  as_providers :: "string list"
  as_provider_user_ids :: "string list"
  as_display_names :: "string list"

text \<open>Every statement first needs a connection from the pool.\<close>

definition query :: "db \<Rightarrow> 'a \<Rightarrow> db_error + 'a" where
  "query d x = (if db_up d then Inr x else Inl DbUnavailable)"

text \<open>\<open>connect\<close> creates the tables when they are missing.\<close>

definition empty_db :: db where
  "empty_db = \<lparr>db_up = True, missions = [], acl_grants = [], users = [], linked_accounts = [],
     signing_keys = None, refresh_tokens = []\<rparr>"

section \<open>Missions\<close>

text \<open>\<open>serde_json\<close>'s rendering of a non-string value is a parameter.\<close>

definition metadata_map :: "(json \<Rightarrow> string) \<Rightarrow> json \<Rightarrow> (string, string) hashmap" where
  "metadata_map render v =
    (case v of
       JObject kvs \<Rightarrow> map (\<lambda>(k, x). (k, case x of JString s \<Rightarrow> s | _ \<Rightarrow> render x)) kvs
     | _ \<Rightarrow> [])"

definition upsert_mission ::
  "int \<Rightarrow> uuid \<Rightarrow> string \<Rightarrow> int \<Rightarrow> string \<Rightarrow> json \<Rightarrow> db \<Rightarrow> db_error + db" where
  "upsert_mission now mid nm sz by md d =
    query d
      (if \<exists>r \<in> set (missions d). mi_id r = mid
       then d\<lparr>missions := map (\<lambda>r. if mi_id r = mid
              then r\<lparr>mi_name := nm, mi_filesize := sz, mi_metadata := md\<rparr> else r) (missions d)\<rparr>
       else d\<lparr>missions := missions d @ [\<lparr>mi_id = mid, mi_name = nm, mi_filesize = sz,
              mi_created_at = now, mi_created_by = by, mi_metadata = md\<rparr>]\<rparr>)"

definition set_mission_metadata :: "uuid \<Rightarrow> json \<Rightarrow> db \<Rightarrow> db_error + (bool \<times> db)" where
  "set_mission_metadata mid md d =
    query d
      (\<exists>r \<in> set (missions d). mi_id r = mid,
       d\<lparr>missions := map (\<lambda>r. if mi_id r = mid then r\<lparr>mi_metadata := md\<rparr> else r) (missions d)\<rparr>)"

definition get_mission :: "uuid \<Rightarrow> db \<Rightarrow> db_error + mission_row option" where
  "get_mission mid d = query d (find (\<lambda>r. mi_id r = mid) (missions d))"

definition list_missions :: "db \<Rightarrow> db_error + mission_row list" where
  "list_missions d = query d (sort_key mi_created_at (missions d))"

definition delete_mission :: "uuid \<Rightarrow> db \<Rightarrow> db_error + (bool \<times> db)" where
  "delete_mission mid d =
    query d
      (\<exists>r \<in> set (missions d). mi_id r = mid,
       d\<lparr>missions := filter (\<lambda>r. mi_id r \<noteq> mid) (missions d)\<rparr>)"

section \<open>Grants\<close>

definition count_users :: "db \<Rightarrow> db_error + nat" where
  "count_users d = query d (length (users d))"

definition granted :: "string \<Rightarrow> db \<Rightarrow> string list" where
  "granted subj d = (case map_of (acl_grants d) subj of Some sc \<Rightarrow> sc | None \<Rightarrow> [])"

definition scopes_for_subject :: "string \<Rightarrow> db \<Rightarrow> db_error + string list" where
  "scopes_for_subject subj d = query d (granted subj d)"

definition steam_ids_with_scope :: "string \<Rightarrow> db \<Rightarrow> db_error + string list" where
  "steam_ids_with_scope scope d =
    query d
      (concat (map (\<lambda>(subj, sc).
         map la_provider_user_id
           (filter (\<lambda>la. la_user_id la = subj \<and> la_provider la = ''steam''
                       \<and> (scope \<in> set sc \<or> ''*'' \<in> set sc)) (linked_accounts d)))
         (acl_grants d)))"

definition acl_subject_of :: "db \<Rightarrow> uuid \<Rightarrow> acl_subject_row" where
  "acl_subject_of d u =
    (let las = sort_key la_provider (filter (\<lambda>la. la_user_id la = u) (linked_accounts d)) in
     \<lparr>as_subject = u,
      as_scopes = granted u d,
      as_providers = map la_provider las,
      as_provider_user_ids = map la_provider_user_id las,
      as_display_names = map la_display_name las\<rparr>)"

definition list_acl_subjects :: "db \<Rightarrow> db_error + acl_subject_row list" where
  "list_acl_subjects d = query d (map (\<lambda>(u, _). acl_subject_of d u) (sort_key snd (users d)))"

definition upsert_grant :: "string \<Rightarrow> string list \<Rightarrow> (string \<times> string list) list
    \<Rightarrow> (string \<times> string list) list" where
  "upsert_grant subj sc gs = AList.update subj sc gs"

definition grant_scopes :: "string \<Rightarrow> string list \<Rightarrow> db \<Rightarrow> db_error + db" where
  "grant_scopes subj sc d = query d (d\<lparr>acl_grants := upsert_grant subj sc (acl_grants d)\<rparr>)"

definition set_scopes :: "string \<Rightarrow> string list \<Rightarrow> db \<Rightarrow> db_error + db" where
  "set_scopes subj sc d =
    (if sc = [] then query d (d\<lparr>acl_grants := AList.delete subj (acl_grants d)\<rparr>)
     else grant_scopes subj sc d)"

section \<open>Signing key\<close>

definition get_signing_key :: "db \<Rightarrow> db_error + u8 list option" where
  "get_signing_key d = query d (signing_keys d)"

definition insert_signing_key_if_absent :: "u8 list \<Rightarrow> db \<Rightarrow> db_error + (u8 list \<times> db)" where
  "insert_signing_key_if_absent der d =
    query d
      (let d' = (case signing_keys d of None \<Rightarrow> d\<lparr>signing_keys := Some der\<rparr> | Some _ \<Rightarrow> d)
       in (the (signing_keys d'), d'))"

section \<open>Users and linked accounts\<close>

definition linked_accounts_for_user :: "uuid \<Rightarrow> db
    \<Rightarrow> db_error + (string \<times> string \<times> string) list" where
  "linked_accounts_for_user u d =
    query d (map (\<lambda>la. (la_provider la, la_provider_user_id la, la_display_name la))
      (sort_key la_provider (filter (\<lambda>la. la_user_id la = u) (linked_accounts d))))"

definition is_account :: "string \<Rightarrow> string \<Rightarrow> linked_account \<Rightarrow> bool" where
  "is_account p pid la = (la_provider la = p \<and> la_provider_user_id la = pid)"

definition account_owner :: "string \<Rightarrow> string \<Rightarrow> db \<Rightarrow> uuid option" where
  "account_owner p pid d = map_option la_user_id (find (is_account p pid) (linked_accounts d))"

definition find_linked_account :: "string \<Rightarrow> string \<Rightarrow> db \<Rightarrow> db_error + uuid option" where
  "find_linked_account p pid d = query d (account_owner p pid d)"

definition has_user :: "uuid \<Rightarrow> db \<Rightarrow> bool" where
  "has_user u d = (u \<in> fst ` set (users d))"

definition insert_user :: "int \<Rightarrow> uuid \<Rightarrow> db \<Rightarrow> db_error + db" where
  "insert_user now u d =
    (if has_user u d then Inl UniqueViolation else Inr (d\<lparr>users := users d @ [(u, now)]\<rparr>))"

definition insert_linked_account :: "linked_account \<Rightarrow> db \<Rightarrow> db_error + db" where
  "insert_linked_account la d =
    (if account_owner (la_provider la) (la_provider_user_id la) d \<noteq> None then Inl UniqueViolation
     else if \<not> has_user (la_user_id la) d then Inl ForeignKeyViolation
     else Inr (d\<lparr>linked_accounts := linked_accounts d @ [la]\<rparr>))"

definition create_user_and_link ::
  "int \<Rightarrow> uuid \<Rightarrow> string \<Rightarrow> string \<Rightarrow> string \<Rightarrow> db \<Rightarrow> db_error + (uuid \<times> db)" where
  "create_user_and_link now new_id p pid nm d =
    rbind (query d (users d = [])) (\<lambda>is_first.
    rbind (insert_user now new_id d) (\<lambda>d1.
    rbind (insert_linked_account \<lparr>la_provider = p, la_provider_user_id = pid,
             la_user_id = new_id, la_display_name = nm\<rparr> d1) (\<lambda>d2.
    Inr (new_id,
         if is_first then d2\<lparr>acl_grants := upsert_grant new_id [''*''] (acl_grants d2)\<rparr> else d2))))"

text \<open>\<open>DELETE FROM users\<close> cascades to the two tables that reference it.\<close>

definition delete_user :: "uuid \<Rightarrow> db \<Rightarrow> db" where
  "delete_user u d =
    d\<lparr>users := filter (\<lambda>(v, _). v \<noteq> u) (users d),
      linked_accounts := filter (\<lambda>la. la_user_id la \<noteq> u) (linked_accounts d),
      refresh_tokens := filter (\<lambda>r. rt_user_id r \<noteq> u) (refresh_tokens d)\<rparr>"

text \<open>The \<open>INSERT ... SELECT ... ON CONFLICT\<close> that unions the scopes of the other account, then the
  deletion of its own grant row. The order \<open>SELECT DISTINCT\<close> gives is unspecified.\<close>

definition merge_grants :: "uuid \<Rightarrow> uuid \<Rightarrow> db \<Rightarrow> db" where
  "merge_grants from_id into_id d =
    (let gs = acl_grants d;
         gs' = (case map_of gs from_id of
                  None \<Rightarrow> gs
                | Some sc \<Rightarrow>
                    upsert_grant into_id
                      (case map_of gs into_id of None \<Rightarrow> sc | Some own \<Rightarrow> remdups (own @ sc)) gs)
     in d\<lparr>acl_grants := AList.delete from_id gs'\<rparr>)"

definition repoint_accounts :: "uuid \<Rightarrow> uuid \<Rightarrow> db \<Rightarrow> db_error + db" where
  "repoint_accounts from_id into_id d =
    (if (\<exists>la \<in> set (linked_accounts d). la_user_id la = from_id) \<and> \<not> has_user into_id d
     then Inl ForeignKeyViolation
     else Inr (d\<lparr>linked_accounts :=
            map (\<lambda>la. if la_user_id la = from_id then la\<lparr>la_user_id := into_id\<rparr> else la)
              (linked_accounts d)\<rparr>))"

definition delete_refresh_tokens_of :: "uuid \<Rightarrow> db \<Rightarrow> db" where
  "delete_refresh_tokens_of u d =
    d\<lparr>refresh_tokens := filter (\<lambda>r. rt_user_id r \<noteq> u) (refresh_tokens d)\<rparr>"

definition set_display_name :: "string \<Rightarrow> string \<Rightarrow> string \<Rightarrow> db \<Rightarrow> db" where
  "set_display_name p pid nm d =
    d\<lparr>linked_accounts :=
        map (\<lambda>la. if is_account p pid la then la\<lparr>la_display_name := nm\<rparr> else la)
          (linked_accounts d)\<rparr>"

definition merge_user :: "uuid \<Rightarrow> uuid \<Rightarrow> db \<Rightarrow> db_error + db" where
  "merge_user other u d =
    rbind (repoint_accounts other u (merge_grants other u d)) (\<lambda>d1.
    Inr (delete_user other (delete_refresh_tokens_of other d1)))"

definition link_account_to_user ::
  "string \<Rightarrow> string \<Rightarrow> uuid \<Rightarrow> string \<Rightarrow> db \<Rightarrow> db_error + db" where
  "link_account_to_user p pid u nm d =
    rbind (query d (account_owner p pid d)) (\<lambda>other.
    rbind (case other of
             Some o_id \<Rightarrow> if o_id \<noteq> u then merge_user o_id u d else Inr d
           | None \<Rightarrow> insert_linked_account \<lparr>la_provider = p, la_provider_user_id = pid,
                        la_user_id = u, la_display_name = nm\<rparr> d) (\<lambda>d1.
    Inr (set_display_name p pid nm d1)))"

section \<open>Refresh tokens\<close>

definition insert_refresh_token :: "string \<Rightarrow> uuid \<Rightarrow> int \<Rightarrow> db \<Rightarrow> db_error + db" where
  "insert_refresh_token h u exp d =
    rbind (query d ()) (\<lambda>_.
    if \<exists>r \<in> set (refresh_tokens d). rt_token_hash r = h then Inl UniqueViolation
    else if \<not> has_user u d then Inl ForeignKeyViolation
    else Inr (d\<lparr>refresh_tokens := refresh_tokens d @
           [\<lparr>rt_token_hash = h, rt_user_id = u, rt_expires_at = exp, rt_revoked_at = None\<rparr>]\<rparr>))"

definition valid_refresh_token_user :: "int \<Rightarrow> string \<Rightarrow> db \<Rightarrow> db_error + uuid option" where
  "valid_refresh_token_user now h d =
    query d (map_option rt_user_id
      (find (\<lambda>r. rt_token_hash r = h \<and> rt_revoked_at r = None \<and> now < rt_expires_at r)
        (refresh_tokens d)))"

definition revoke_refresh_token :: "int \<Rightarrow> string \<Rightarrow> db \<Rightarrow> db_error + db" where
  "revoke_refresh_token now h d =
    query d (d\<lparr>refresh_tokens :=
      map (\<lambda>r. if rt_token_hash r = h \<and> rt_revoked_at r = None then r\<lparr>rt_revoked_at := Some now\<rparr>
               else r) (refresh_tokens d)\<rparr>)"

section \<open>The schema's constraints as an invariant\<close>

definition account_key :: "linked_account \<Rightarrow> string \<times> string" where
  "account_key la = (la_provider la, la_provider_user_id la)"

definition db_wf :: "db \<Rightarrow> bool" where
  "db_wf d =
    (distinct (map mi_id (missions d)) \<and> distinct (map fst (acl_grants d))
     \<and> distinct (map fst (users d)) \<and> distinct (map account_key (linked_accounts d))
     \<and> (\<forall>la \<in> set (linked_accounts d). has_user (la_user_id la) d)
     \<and> distinct (map rt_token_hash (refresh_tokens d))
     \<and> (\<forall>r \<in> set (refresh_tokens d). has_user (rt_user_id r) d))"

text \<open>The calls that write, as a step relation over databases.\<close>

inductive db_step :: "db \<Rightarrow> db \<Rightarrow> bool" where
  step_upsert_mission: "upsert_mission now mid nm sz by md d = Inr d' \<Longrightarrow> db_step d d'"
| step_mission_metadata: "set_mission_metadata mid md d = Inr (b, d') \<Longrightarrow> db_step d d'"
| step_delete_mission: "delete_mission mid d = Inr (b, d') \<Longrightarrow> db_step d d'"
| step_set_scopes: "set_scopes subj sc d = Inr d' \<Longrightarrow> db_step d d'"
| step_grant_scopes: "grant_scopes subj sc d = Inr d' \<Longrightarrow> db_step d d'"
| step_signing_key: "insert_signing_key_if_absent der d = Inr (der', d') \<Longrightarrow> db_step d d'"
| step_create_user: "create_user_and_link now u p pid nm d = Inr (u', d') \<Longrightarrow> db_step d d'"
| step_link: "link_account_to_user p pid u nm d = Inr d' \<Longrightarrow> db_step d d'"
| step_insert_token: "insert_refresh_token h u exp d = Inr d' \<Longrightarrow> db_step d d'"
| step_revoke_token: "revoke_refresh_token now h d = Inr d' \<Longrightarrow> db_step d d'"

inductive db_reach :: "db \<Rightarrow> bool" where
  reach_empty: "db_reach empty_db"
| reach_step: "db_reach d \<Longrightarrow> db_step d d' \<Longrightarrow> db_reach d'"

inductive_cases db_stepE: "db_step d d'"

section \<open>Lemmas\<close>

lemma query_eq_Inr [result_simps]: "query d x = Inr y \<longleftrightarrow> db_up d \<and> y = x"
  by (auto simp: query_def)

lemma query_up [simp]: "db_up d \<Longrightarrow> query d x = Inr x"
  by (simp add: query_def)

lemma map_key_update: "(\<And>r. k (f r) = k r) \<Longrightarrow> map k (map f xs) = map k xs"
  by simp

lemma account_owner_None: "account_owner p pid d = None \<longleftrightarrow> (p, pid) \<notin> account_key ` set (linked_accounts d)"
  by (auto simp: account_owner_def table_simps is_account_def account_key_def image_iff)

lemma account_owner_Some:
  assumes "db_wf d"
  shows "account_owner p pid d = Some u \<longleftrightarrow>
    (\<exists>la \<in> set (linked_accounts d). account_key la = (p, pid) \<and> la_user_id la = u)"
proof -
  have inj: "inj_on account_key (set (linked_accounts d))"
    using assms by (simp add: db_wf_def distinct_map)
  show ?thesis
  proof
    assume "account_owner p pid d = Some u"
    then show "\<exists>la \<in> set (linked_accounts d). account_key la = (p, pid) \<and> la_user_id la = u"
      by (auto simp: account_owner_def is_account_def account_key_def dest!: find_SomeD)
  next
    assume "\<exists>la \<in> set (linked_accounts d). account_key la = (p, pid) \<and> la_user_id la = u"
    then obtain la where la: "la \<in> set (linked_accounts d)" "account_key la = (p, pid)" "la_user_id la = u"
      by blast
    then obtain la' where la': "find (is_account p pid) (linked_accounts d) = Some la'"
      by (cases "find (is_account p pid) (linked_accounts d)")
         (auto simp: table_simps is_account_def account_key_def)
    then have "la' \<in> set (linked_accounts d)" "account_key la' = (p, pid)"
      by (auto simp: is_account_def account_key_def dest!: find_SomeD)
    with la inj have "la' = la" by (simp add: inj_on_def)
    with la la' show "account_owner p pid d = Some u" by (simp add: account_owner_def)
  qed
qed

lemma has_user_cong [simp]:
  "has_user u (d\<lparr>missions := a\<rparr>) = has_user u d"
  "has_user u (d\<lparr>acl_grants := b\<rparr>) = has_user u d"
  "has_user u (d\<lparr>linked_accounts := c\<rparr>) = has_user u d"
  "has_user u (d\<lparr>signing_keys := e\<rparr>) = has_user u d"
  "has_user u (d\<lparr>refresh_tokens := f\<rparr>) = has_user u d"
  by (simp_all add: has_user_def)

lemma wf_missions: "db_wf d \<Longrightarrow> distinct (map mi_id ms) \<Longrightarrow> db_wf (d\<lparr>missions := ms\<rparr>)"
  by (simp add: db_wf_def)

lemma wf_grants: "db_wf d \<Longrightarrow> distinct (map fst gs) \<Longrightarrow> db_wf (d\<lparr>acl_grants := gs\<rparr>)"
  by (simp add: db_wf_def)

lemma wf_upsert_mission: "db_wf d \<Longrightarrow> upsert_mission now mid nm sz by md d = Inr d' \<Longrightarrow> db_wf d'"
  by (auto simp: upsert_mission_def result_simps intro!: wf_missions)
     (auto simp: db_wf_def comp_def if_distrib [of mi_id] cong: if_cong)

lemma wf_set_mission_metadata: "db_wf d \<Longrightarrow> set_mission_metadata mid md d = Inr (b, d') \<Longrightarrow> db_wf d'"
  by (auto simp: set_mission_metadata_def result_simps intro!: wf_missions)
     (auto simp: db_wf_def comp_def if_distrib [of mi_id] cong: if_cong)

lemma wf_delete_mission: "db_wf d \<Longrightarrow> delete_mission mid d = Inr (b, d') \<Longrightarrow> db_wf d'"
  by (auto simp: delete_mission_def result_simps intro!: wf_missions)
     (auto simp: db_wf_def distinct_map inj_on_def)

lemma wf_grant_scopes: "db_wf d \<Longrightarrow> grant_scopes subj sc d = Inr d' \<Longrightarrow> db_wf d'"
  by (auto simp: grant_scopes_def upsert_grant_def result_simps intro!: wf_grants AList.distinct_update)
     (simp add: db_wf_def)

lemma wf_set_scopes: "db_wf d \<Longrightarrow> set_scopes subj sc d = Inr d' \<Longrightarrow> db_wf d'"
  by (auto simp: set_scopes_def result_simps intro: wf_grant_scopes split: if_splits)
     (auto simp: db_wf_def intro!: wf_grants AList.distinct_delete)

lemma wf_signing_key: "db_wf d \<Longrightarrow> insert_signing_key_if_absent der d = Inr (der', d') \<Longrightarrow> db_wf d'"
  by (auto simp: insert_signing_key_if_absent_def result_simps Let_def db_wf_def split: option.splits)

lemma wf_insert_user: "db_wf d \<Longrightarrow> insert_user now u d = Inr d' \<Longrightarrow> db_wf d'"
  by (auto simp: insert_user_def db_wf_def has_user_def split: if_splits)

lemma wf_insert_linked_account: "db_wf d \<Longrightarrow> insert_linked_account la d = Inr d' \<Longrightarrow> db_wf d'"
  by (auto simp: insert_linked_account_def db_wf_def account_owner_None account_key_def split: if_splits)

lemma wf_upsert_grant: "db_wf d \<Longrightarrow> db_wf (d\<lparr>acl_grants := upsert_grant subj sc (acl_grants d)\<rparr>)"
  by (rule wf_grants) (simp_all add: upsert_grant_def db_wf_def AList.distinct_update)

lemma create_user_and_link_eq_Inr:
  "create_user_and_link now u p pid nm d = Inr (u', d') \<longleftrightarrow> db_up d \<and> u' = u \<and>
    (\<exists>d1 d2. insert_user now u d = Inr d1
       \<and> insert_linked_account \<lparr>la_provider = p, la_provider_user_id = pid, la_user_id = u,
            la_display_name = nm\<rparr> d1 = Inr d2
       \<and> (if users d = [] then d2\<lparr>acl_grants := upsert_grant u [''*''] (acl_grants d2)\<rparr> else d2) = d')"
  unfolding create_user_and_link_def rbind_eq_Inr query_eq_Inr by blast

lemma wf_create_user:
  assumes "db_wf d" "create_user_and_link now u p pid nm d = Inr (u', d')"
  shows "db_wf d'"
proof -
  from assms(2) obtain d1 d2 la where steps: "insert_user now u d = Inr d1" "insert_linked_account la d1 = Inr d2"
    and d': "d' = d2 \<or> d' = d2\<lparr>acl_grants := upsert_grant u [''*''] (acl_grants d2)\<rparr>"
    unfolding create_user_and_link_eq_Inr by metis
  have "db_wf d2"
    using assms(1) steps by (blast intro: wf_insert_user wf_insert_linked_account)
  with d' show ?thesis by (auto intro: wf_upsert_grant)
qed

lemma wf_merge_grants: "db_wf d \<Longrightarrow> db_wf (merge_grants a b d)"
  unfolding merge_grants_def Let_def
  by (rule wf_grants, assumption)
     (auto simp: db_wf_def upsert_grant_def split: option.splits
       intro!: AList.distinct_delete AList.distinct_update)

definition repoint :: "uuid \<Rightarrow> uuid \<Rightarrow> linked_account \<Rightarrow> linked_account" where
  "repoint a b la = (if la_user_id la = a then la\<lparr>la_user_id := b\<rparr> else la)"

lemma repoint_simps [simp]:
  "la_provider (repoint a b la) = la_provider la"
  "la_provider_user_id (repoint a b la) = la_provider_user_id la"
  "la_display_name (repoint a b la) = la_display_name la"
  "la_user_id (repoint a b la) = (if la_user_id la = a then b else la_user_id la)"
  "account_key (repoint a b la) = account_key la"
  by (simp_all add: repoint_def account_key_def)

text \<open>What a successful merge leaves in each table.\<close>

lemma merge_user_result:
  assumes "merge_user a b d = Inr d'" "a \<noteq> b"
  shows "users d' = filter (\<lambda>(v, _). v \<noteq> a) (users d)"
    and "linked_accounts d' = map (repoint a b) (linked_accounts d)"
    and "refresh_tokens d' = filter (\<lambda>r. rt_user_id r \<noteq> a) (refresh_tokens d)"
    and "acl_grants d' = acl_grants (merge_grants a b d)"
    and "missions d' = missions d"
    and "(\<exists>la \<in> set (linked_accounts d). la_user_id la = a) \<longrightarrow> has_user b d"
proof -
  have filt: "filter (\<lambda>la. la_user_id la \<noteq> a) (map (repoint a b) las) = map (repoint a b) las" for las
    using assms(2) by (induction las) auto
  have fold: "map (\<lambda>la. if la_user_id la = a then la\<lparr>la_user_id := b\<rparr> else la) las = map (repoint a b) las" for las
    by (simp add: repoint_def)
  note defs = merge_user_def repoint_accounts_def delete_user_def delete_refresh_tokens_of_def
    merge_grants_def Let_def result_simps fold
  show "users d' = filter (\<lambda>(v, _). v \<noteq> a) (users d)"
    using assms(1) by (auto simp: defs split: if_splits)
  show "linked_accounts d' = map (repoint a b) (linked_accounts d)"
    using assms(1) by (auto simp: defs filt split: if_splits)
  show "refresh_tokens d' = filter (\<lambda>r. rt_user_id r \<noteq> a) (refresh_tokens d)"
    using assms(1) by (auto simp: defs split: if_splits)
  show "acl_grants d' = acl_grants (merge_grants a b d)"
    using assms(1) by (auto simp: defs split: if_splits)
  show "missions d' = missions d"
    using assms(1) by (auto simp: defs split: if_splits)
  show "(\<exists>la \<in> set (linked_accounts d). la_user_id la = a) \<longrightarrow> has_user b d"
    using assms(1) by (auto simp: defs split: if_splits)
qed

lemma distinct_map_filter_fst: "distinct (map f xs) \<Longrightarrow> distinct (map f (filter P xs))"
  by (induction xs) auto

lemma wf_merge_user:
  assumes "db_wf d" "merge_user a b d = Inr d'" "a \<noteq> b"
  shows "db_wf d'"
proof -
  note res = merge_user_result [OF assms(2,3)]
  have users': "has_user v d' \<longleftrightarrow> v \<noteq> a \<and> has_user v d" for v
    by (force simp: has_user_def res(1))
  have "distinct (map fst (acl_grants d'))"
    using wf_merge_grants [OF assms(1), of a b] by (simp add: res(4) db_wf_def)
  moreover have "distinct (map mi_id (missions d'))" "distinct (map fst (users d'))"
    "distinct (map rt_token_hash (refresh_tokens d'))"
    using assms(1) by (auto simp: db_wf_def res intro: distinct_map_filter_fst)
  moreover have "distinct (map account_key (linked_accounts d'))"
    using assms(1) by (simp add: db_wf_def res comp_def)
  moreover have "\<forall>la \<in> set (linked_accounts d'). has_user (la_user_id la) d'"
    using assms(1,3) res(6) by (auto simp: db_wf_def res(2) users')
  moreover have "\<forall>r \<in> set (refresh_tokens d'). has_user (rt_user_id r) d'"
    using assms(1) by (auto simp: db_wf_def res(3) users')
  ultimately show ?thesis by (simp add: db_wf_def)
qed

lemma wf_set_display_name:
  assumes "db_wf d"
  shows "db_wf (set_display_name p pid nm d)"
proof -
  let ?f = "\<lambda>la. if is_account p pid la then la\<lparr>la_display_name := nm\<rparr> else la"
  have "map account_key (map ?f (linked_accounts d)) = map account_key (linked_accounts d)"
    by (rule map_key_update) (simp add: account_key_def)
  with assms show ?thesis
    unfolding db_wf_def set_display_name_def by (auto simp del: map_map)
qed

lemma wf_link:
  assumes "db_wf d" "link_account_to_user p pid u nm d = Inr d'"
  shows "db_wf d'"
proof -
  from assms(2) obtain d1 where d1: "d' = set_display_name p pid nm d1"
    and steps: "d1 = d \<or> (\<exists>o_id. o_id \<noteq> u \<and> merge_user o_id u d = Inr d1)
      \<or> (\<exists>la. insert_linked_account la d = Inr d1)"
    by (auto simp: link_account_to_user_def result_simps split: option.splits if_splits)
  from steps assms(1) have "db_wf d1"
    by (auto intro: wf_merge_user wf_insert_linked_account)
  then show ?thesis by (simp add: d1 wf_set_display_name)
qed

lemma wf_insert_refresh_token: "db_wf d \<Longrightarrow> insert_refresh_token h u exp d = Inr d' \<Longrightarrow> db_wf d'"
  by (auto simp: insert_refresh_token_def result_simps db_wf_def split: if_splits)

lemma wf_revoke_refresh_token:
  assumes "db_wf d" "revoke_refresh_token now h d = Inr d'"
  shows "db_wf d'"
proof -
  let ?f = "\<lambda>r. if rt_token_hash r = h \<and> rt_revoked_at r = None then r\<lparr>rt_revoked_at := Some now\<rparr> else r"
  have "map rt_token_hash (map ?f (refresh_tokens d)) = map rt_token_hash (refresh_tokens d)"
    by (rule map_key_update) simp
  with assms show ?thesis
    unfolding db_wf_def revoke_refresh_token_def by (auto simp: result_simps simp del: map_map)
qed

lemmas wf_ops = wf_upsert_mission wf_set_mission_metadata wf_delete_mission wf_set_scopes
  wf_grant_scopes wf_signing_key wf_create_user wf_link wf_insert_refresh_token
  wf_revoke_refresh_token

lemma db_step_wf: "db_step d d' \<Longrightarrow> db_wf d \<Longrightarrow> db_wf d'"
  by (erule db_stepE) (blast intro: wf_ops)+

lemma granted_upsert [simp]:
  "granted s (d\<lparr>acl_grants := upsert_grant t sc gs\<rparr>) =
     (if s = t then sc else granted s (d\<lparr>acl_grants := gs\<rparr>))"
  by (simp add: granted_def upsert_grant_def update_conv')

lemma granted_acl_cong: "acl_grants d = acl_grants d' \<Longrightarrow> granted s d = granted s d'"
  by (simp add: granted_def)

lemma granted_merge:
  assumes "a \<noteq> b"
  shows "set (granted b (merge_grants a b d)) = set (granted b d) \<union> set (granted a d)"
    and "granted a (merge_grants a b d) = []"
    and "c \<noteq> a \<Longrightarrow> c \<noteq> b \<Longrightarrow> granted c (merge_grants a b d) = granted c d"
  using assms
  by (auto simp: granted_def merge_grants_def Let_def upsert_grant_def update_conv' delete_conv'
      split: option.splits)

lemma linked_accounts_set_display_name:
  "linked_accounts (set_display_name p pid nm d) =
     map (\<lambda>la. if is_account p pid la then la\<lparr>la_display_name := nm\<rparr> else la) (linked_accounts d)"
  by (simp add: set_display_name_def)

lemma account_owner_set_display_name [simp]:
  "account_owner q qid (set_display_name p pid nm d) = account_owner q qid d"
proof -
  have "map_option la_user_id (find (is_account q qid)
         (map (\<lambda>la. if is_account p pid la then la\<lparr>la_display_name := nm\<rparr> else la) las)) =
        map_option la_user_id (find (is_account q qid) las)" for las
    by (induction las) (auto simp: is_account_def)
  then show ?thesis by (simp add: account_owner_def linked_accounts_set_display_name)
qed

lemma account_owner_repoint:
  "linked_accounts d' = map (repoint a b) (linked_accounts d) \<Longrightarrow>
   account_owner q qid d' =
     map_option (\<lambda>v. if v = a then b else v) (account_owner q qid d)"
proof -
  have "map_option la_user_id (find (is_account q qid) (map (repoint a b) las)) =
        map_option (\<lambda>v. if v = a then b else v) (map_option la_user_id (find (is_account q qid) las))" for las
    by (induction las) (auto simp: is_account_def)
  then show "linked_accounts d' = map (repoint a b) (linked_accounts d) \<Longrightarrow> ?thesis"
    by (simp add: account_owner_def)
qed

lemma merge_user_succeeds: "has_user b d \<Longrightarrow> \<exists>d'. merge_user a b d = Inr d'"
  by (simp add: merge_user_def repoint_accounts_def merge_grants_def Let_def)

lemma link_merges:
  assumes "db_up d" "has_user u d" "account_owner p pid d = Some other" "other \<noteq> u"
  shows "\<exists>d'. link_account_to_user p pid u nm d = Inr d'
     \<and> account_owner p pid d' = Some u
     \<and> (\<forall>q qid. account_owner q qid d' =
           map_option (\<lambda>v. if v = other then u else v) (account_owner q qid d))
     \<and> set (granted u d') = set (granted u d) \<union> set (granted other d)
     \<and> granted other d' = [] \<and> \<not> has_user other d' \<and> has_user u d'
     \<and> (\<forall>r \<in> set (refresh_tokens d'). rt_user_id r \<noteq> other)"
proof -
  obtain d1 where d1: "merge_user other u d = Inr d1"
    using merge_user_succeeds [OF assms(2)] by blast
  note res = merge_user_result [OF d1 assms(4)]
  have owner: "account_owner q qid d1 = map_option (\<lambda>v. if v = other then u else v) (account_owner q qid d)"
    for q qid by (rule account_owner_repoint [OF res(2)])
  have gr: "granted s (set_display_name p pid nm d1) = granted s (merge_grants other u d)" for s
    by (rule granted_acl_cong) (simp add: set_display_name_def res(4))
  have us: "has_user v (set_display_name p pid nm d1) \<longleftrightarrow> v \<noteq> other \<and> has_user v d" for v
    by (force simp: set_display_name_def has_user_def res(1))
  have "link_account_to_user p pid u nm d = Inr (set_display_name p pid nm d1)"
    using assms d1 by (simp add: link_account_to_user_def)
  moreover have "refresh_tokens (set_display_name p pid nm d1) = filter (\<lambda>r. rt_user_id r \<noteq> other) (refresh_tokens d)"
    by (simp add: set_display_name_def res(3))
  ultimately show ?thesis
    using assms(2-4) by (simp add: owner gr us granted_merge)
qed

section \<open>The grant table as an interface\<close>

text \<open>What the authorization middleware and the ACL editor rely on.\<close>

locale scope_store =
  fixes get :: "string \<Rightarrow> 'db \<Rightarrow> 'e + string list"
    and put :: "string \<Rightarrow> string list \<Rightarrow> 'db \<Rightarrow> 'e + 'db"
  assumes get_put_same: "put s sc d = Inr d' \<Longrightarrow> get s d' = Inr sc"
    and get_put_other: "put s sc d = Inr d' \<Longrightarrow> t \<noteq> s \<Longrightarrow> get t d' = get t d"
begin

fun put_all :: "(string \<times> string list) list \<Rightarrow> 'db \<Rightarrow> 'e + 'db" where
  "put_all [] d = Inr d"
| "put_all ((s, sc) # ps) d = rbind (put s sc d) (put_all ps)"

lemma put_all_other:
  "put_all ps d = Inr d' \<Longrightarrow> t \<notin> fst ` set ps \<Longrightarrow> get t d' = get t d"
  by (induction ps arbitrary: d) (auto simp: result_simps get_put_other)

lemma last_put_wins:
  assumes "put s sc d = Inr d1" "put_all ps d1 = Inr d'" "s \<notin> fst ` set ps"
  shows "get s d' = Inr sc"
  using assms get_put_same put_all_other by metis

end

interpretation grants: scope_store scopes_for_subject set_scopes
  by unfold_locales
     (auto simp: scopes_for_subject_def granted_def set_scopes_def grant_scopes_def upsert_grant_def result_simps
        query_def update_conv' delete_conv' split: if_splits)

section \<open>Properties\<close>

text \<open>Every database state the crate's writes can produce from the empty schema satisfies the
  schema's constraints: primary keys are unique and every linked account and refresh token belongs
  to an existing user.\<close>

theorem db_reach_wf: "db_reach d \<Longrightarrow> db_wf d"
proof (induction rule: db_reach.induct)
  case reach_empty
  show ?case by (simp add: db_wf_def empty_db_def)
next
  case (reach_step d d')
  then show ?case by (blast intro: db_step_wf)
qed

text \<open>C12: linking an external account that already belongs to another user merges that user into the
  one linking: it succeeds, every account of the other user (and only those) changes owner, the
  scopes become the union of both grants, and the other user is gone with no grant left.\<close>

theorem link_account_merges:
  assumes "db_up d" "has_user u d" "account_owner p pid d = Some other" "other \<noteq> u"
  shows "\<exists>d'. link_account_to_user p pid u nm d = Inr d'
     \<and> account_owner p pid d' = Some u
     \<and> (\<forall>q qid. account_owner q qid d' =
           map_option (\<lambda>v. if v = other then u else v) (account_owner q qid d))
     \<and> set (granted u d') = set (granted u d) \<union> set (granted other d)
     \<and> granted other d' = [] \<and> \<not> has_user other d' \<and> has_user u d'
     \<and> (\<forall>r \<in> set (refresh_tokens d'). rt_user_id r \<noteq> other)"
  by (rule link_merges [OF assms])

definition two_users_db :: db where
  "two_users_db = empty_db\<lparr>users := [(''u1'', 1), (''u2'', 2)],
     acl_grants := [(''u1'', [''*'']), (''u2'', [''servers:read''])],
     linked_accounts := [
       \<lparr>la_provider = ''steam'', la_provider_user_id = ''7'', la_user_id = ''u1'', la_display_name = ''a''\<rparr>,
       \<lparr>la_provider = ''github'', la_provider_user_id = ''9'', la_user_id = ''u2'', la_display_name = ''b''\<rparr>]\<rparr>"

theorem link_account_merges_witness:
  "\<exists>d'. link_account_to_user ''steam'' ''7'' ''u2'' ''n'' two_users_db = Inr d'
     \<and> set (granted ''u2'' d') = {''servers:read'', ''*''}"
proof -
  have pre: "db_up two_users_db" "has_user ''u2'' two_users_db"
    "account_owner ''steam'' ''7'' two_users_db = Some ''u1''"
    "granted ''u2'' two_users_db = [''servers:read'']" "granted ''u1'' two_users_db = [''*'']"
    by (simp_all add: two_users_db_def empty_db_def has_user_def account_owner_def is_account_def granted_def)
  from link_account_merges [OF pre(1-3), of "''n''"] pre(4,5) show ?thesis by auto
qed

text \<open>The first user ever created holds the coarse \<open>"*"\<close> grant, and no later creation grants any
  scope to anybody.\<close>

theorem create_user_first_is_operator:
  assumes "create_user_and_link now u p pid nm d = Inr (u', d')"
  shows "u' = u \<and> has_user u d' \<and> account_owner p pid d' = Some u
     \<and> (users d = [] \<longrightarrow> granted u d' = [''*''])
     \<and> (\<forall>s. s \<noteq> u \<or> users d \<noteq> [] \<longrightarrow> granted s d' = granted s d)"
proof -
  let ?la = "\<lparr>la_provider = p, la_provider_user_id = pid, la_user_id = u, la_display_name = nm\<rparr>"
  from assms obtain d1 d2 where steps: "insert_user now u d = Inr d1" "insert_linked_account ?la d1 = Inr d2"
    and u': "u' = u"
    and d': "d' = (if users d = [] then d2\<lparr>acl_grants := upsert_grant u [''*''] (acl_grants d2)\<rparr> else d2)"
    unfolding create_user_and_link_eq_Inr by metis
  have d2: "users d2 = users d @ [(u, now)]" "acl_grants d2 = acl_grants d"
    "linked_accounts d2 = linked_accounts d1 @ [?la]" "account_owner p pid d1 = None"
    using steps by (auto simp: insert_user_def insert_linked_account_def split: if_splits)
  have "find (is_account p pid) (linked_accounts d1 @ [?la]) = Some ?la"
    using d2(4) by (simp add: account_owner_def find_append is_account_def)
  then have "account_owner p pid d' = Some u" by (simp add: account_owner_def d' d2)
  moreover have "has_user u d'" by (simp add: has_user_def d' d2)
  moreover have "granted s d2 = granted s d" for s by (rule granted_acl_cong) (rule d2(2))
  ultimately show ?thesis using u' d' by (auto simp: granted_def upsert_grant_def update_conv')
qed

theorem create_user_first_is_operator_witness:
  "\<exists>d'. create_user_and_link 5 ''u1'' ''steam'' ''7'' ''a'' empty_db = Inr (''u1'', d')
     \<and> granted ''u1'' d' = [''*'']"
proof -
  obtain d' where d': "create_user_and_link 5 ''u1'' ''steam'' ''7'' ''a'' empty_db = Inr (''u1'', d')"
    by (simp add: create_user_and_link_def empty_db_def insert_user_def insert_linked_account_def
        has_user_def account_owner_def)
  from create_user_first_is_operator [OF d'] d' show ?thesis by (auto simp: empty_db_def)
qed

theorem db_reach_wf_witness: "db_wf empty_db \<and> db_reach empty_db"
  using db_reach_wf [OF reach_empty] reach_empty by blast

end
