(* ===== verification/Authz.thy ===== *)
theory Authz
  imports RegistryDb
begin

text \<open>
  Request authorization: the JWT check of \<open>crates/authn/src/jwt.rs\<close>, the scope middleware of
  \<open>crates/authn/src/authz.rs\<close> and the two path-to-scope tables of the gateway and the registry
  (\<open>services/gateway/src/main.rs\<close>, \<open>services/registry/src/main.rs\<close>). The \<open>jsonwebtoken\<close> crate is a
  record of functions the verifier is given.
\<close>

section \<open>JWT verification\<close>

datatype jwt_alg = HS256 | HS384 | HS512 | ES256 | ES384 | RS256 | RS384 | RS512
  | PS256 | PS384 | PS512 | EdDSA

record jwt_header =
  hdr_kid :: "string option"
  hdr_alg :: jwt_alg

record ('jwk, 'key) jwt_lib =
  decode_header :: "string \<Rightarrow> jwt_header option"
  from_jwk :: "'jwk \<Rightarrow> 'key option"
  decode_claims :: "jwt_alg \<Rightarrow> string \<Rightarrow> string \<Rightarrow> 'key \<Rightarrow> string \<Rightarrow> string option"

record 'jwk jwt_verifier =
  v_issuer :: string
  v_audience :: string
  v_jwks :: "(string \<times> 'jwk) list"

definition verify :: "('jwk, 'key) jwt_lib \<Rightarrow> 'jwk jwt_verifier \<Rightarrow> string \<Rightarrow> string + string" where
  "verify lib v token =
    rbind (ok_or (decode_header lib token) ''malformed token header'') (\<lambda>header.
    rbind (ok_or (hdr_kid header) ''token header missing kid'') (\<lambda>kid.
    rbind (ok_or (map_of (v_jwks v) kid) ''unknown signing key'') (\<lambda>jwk.
    rbind (ok_or (from_jwk lib jwk) ''unsupported jwk'') (\<lambda>key.
    rbind (ensure (hdr_alg header = RS256 \<or> hdr_alg header = ES256) ''unsupported algorithm'') (\<lambda>_.
    ok_or (decode_claims lib (hdr_alg header) (v_issuer v) (v_audience v) key token)
      ''token verification failed'')))))"

section \<open>Scopes\<close>

record auth_identity =
  id_subject :: string
  id_scopes :: "string list"

definition has_scope :: "auth_identity \<Rightarrow> string \<Rightarrow> bool" where
  "has_scope i scope = list_ex (\<lambda>s. s = ''*'' \<or> s = scope) (id_scopes i)"

definition KNOWN_SCOPES :: "string list" where
  "KNOWN_SCOPES =
    [''servers:read'', ''servers:write'', ''servers:logs'',
     ''mod-sources:read'', ''mod-sources:write'', ''mod-sources:invalidate'',
     ''missions:read'', ''missions:write'',
     ''admin:disk-usage'', ''admin:steam-auth'', ''admin:export'', ''admin:import'',
     ''admin:acl'', ''admin:secrets'', ''arma:admin'', ''arma:filepatch'']"

definition gateway_scope_table :: "(string \<times> string) list" where
  "gateway_scope_table =
    [(''/controller.v1.ServerService/CreateServer'', ''servers:write''),
     (''/controller.v1.ServerService/DeleteServer'', ''servers:write''),
     (''/controller.v1.ServerService/UpdateServer'', ''servers:write''),
     (''/controller.v1.ServerService/StartServer'', ''servers:write''),
     (''/controller.v1.ServerService/StopServer'', ''servers:write''),
     (''/controller.v1.ServerService/ListServers'', ''servers:read''),
     (''/controller.v1.ServerService/GetServer'', ''servers:read''),
     (''/controller.v1.ServerService/GetServerHealth'', ''servers:read''),
     (''/controller.v1.ServerService/GetServerLogs'', ''servers:logs'')]"

definition gateway_required_scope :: "string \<Rightarrow> string option" where
  "gateway_required_scope path = map_of gateway_scope_table path"

definition registry_scope_table :: "(string \<times> string) list" where
  "registry_scope_table =
    [(''/registry.v1.ModSourceService/AddModSource'', ''mod-sources:write''),
     (''/registry.v1.ModSourceService/DeleteModSource'', ''mod-sources:write''),
     (''/registry.v1.ModSourceService/ListModSources'', ''mod-sources:read''),
     (''/registry.v1.ModSourceService/SetModSourceMetadata'', ''mod-sources:write''),
     (''/registry.v1.ModSourceService/SyncModSource'', ''mod-sources:write''),
     (''/registry.v1.ModSourceService/ListSyncedMods'', ''mod-sources:read''),
     (''/registry.v1.ModSourceService/GetSyncedMod'', ''mod-sources:read''),
     (''/registry.v1.ModSourceService/ExportPreset'', ''mod-sources:read''),
     (''/registry.v1.ModSourceService/InvalidateMod'', ''mod-sources:invalidate''),
     (''/registry.v1.MissionService/UploadMission'', ''missions:write''),
     (''/registry.v1.MissionService/DeleteMission'', ''missions:write''),
     (''/registry.v1.MissionService/SetMissionMetadata'', ''missions:write''),
     (''/registry.v1.MissionService/ListMissions'', ''missions:read''),
     (''/registry.v1.MissionService/GetMission'', ''missions:read''),
     (''/registry.v1.AdminService/GetDiskUsage'', ''admin:disk-usage''),
     (''/registry.v1.AdminService/RefreshSteamAuth'', ''admin:steam-auth''),
     (''/registry.v1.AdminService/ExportState'', ''admin:export''),
     (''/registry.v1.AdminService/ImportState'', ''admin:import''),
     (''/registry.v1.AdminService/ListAcl'', ''admin:acl''),
     (''/registry.v1.AdminService/SetAclScopes'', ''admin:acl''),
     (''/registry.v1.AdminService/BeginSteamQrLogin'', ''admin:steam-auth''),
     (''/registry.v1.AdminService/PollSteamQrLogin'', ''admin:steam-auth''),
     (''/registry.v1.AdminService/ResolveWorkshopItems'', ''admin:steam-auth''),
     (''/registry.v1.AdminService/ListWorkshopCollections'', ''admin:steam-auth''),
     (''/registry.v1.AdminService/GetWorkshopCollection'', ''admin:steam-auth''),
     (''/registry.v1.AdminService/PublishWorkshopCollection'', ''admin:steam-auth''),
     (''/registry.v1.AdminService/DeleteWorkshopCollection'', ''admin:steam-auth''),
     (''/registry.v1.AdminService/ListSecrets'', ''admin:secrets''),
     (''/registry.v1.AdminService/PutSecret'', ''admin:secrets''),
     (''/registry.v1.AdminService/DeleteSecret'', ''admin:secrets'')]"

definition registry_required_scope :: "string \<Rightarrow> string option" where
  "registry_required_scope path = map_of registry_scope_table path"

section \<open>The middleware\<close>

record http_request =
  rq_path :: string
  rq_authorization :: "string option"

record http_response =
  rs_status :: nat
  rs_body :: string

text \<open>The two instruments: one outcome per request, and the in-flight count per path.\<close>

record auth_metrics =
  rpc_requests :: "(string \<times> string) list"
  rpc_in_flight :: "string \<Rightarrow> int"

definition record_outcome :: "string \<Rightarrow> string \<Rightarrow> auth_metrics \<Rightarrow> auth_metrics" where
  "record_outcome path status m = m\<lparr>rpc_requests := rpc_requests m @ [(path, status)]\<rparr>"

definition add_in_flight :: "string \<Rightarrow> int \<Rightarrow> auth_metrics \<Rightarrow> auth_metrics" where
  "add_in_flight path n m = m\<lparr>rpc_in_flight := (rpc_in_flight m)(path := rpc_in_flight m path + n)\<rparr>"

text \<open>\<open>HeaderValue::to_str\<close> succeeds on visible ASCII and tab only.\<close>

definition header_to_str :: "string \<Rightarrow> string option" where
  "header_to_str v =
    (if list_all (\<lambda>c. (of_char c :: nat) = 9 \<or> (32 \<le> (of_char c :: nat) \<and> (of_char c :: nat) < 127)) v
     then Some v else None)"

definition bearer_token :: "http_request \<Rightarrow> string option" where
  "bearer_token rq =
    Option.bind (rq_authorization rq) (\<lambda>v.
    Option.bind (header_to_str v) (\<lambda>s. strip_prefix s ''Bearer ''))"

record ('jwk, 'key) auth_state =
  st_lib :: "('jwk, 'key) jwt_lib"
  st_verifier :: "'jwk jwt_verifier"
  st_required_scope :: "string \<Rightarrow> string option"

text \<open>Everything before the handler: a refusal with the outcome class it records, or the identity
  the handler runs as.\<close>

definition authorize :: "('jwk, 'key) auth_state \<Rightarrow> db \<Rightarrow> http_request
    \<Rightarrow> (string \<times> http_response) + auth_identity" where
  "authorize st d rq =
    rbind (ok_or (st_required_scope st (rq_path rq))
             (''404'', \<lparr>rs_status = 404, rs_body = ''unknown procedure''\<rparr>)) (\<lambda>required.
    rbind (ok_or (bearer_token rq)
             (''401'', \<lparr>rs_status = 401, rs_body = ''missing bearer token''\<rparr>)) (\<lambda>token.
    rbind (map_err (\<lambda>msg. (''401'', \<lparr>rs_status = 401, rs_body = msg\<rparr>))
             (verify (st_lib st) (st_verifier st) token)) (\<lambda>subject.
    rbind (map_err (\<lambda>_. (''500'', \<lparr>rs_status = 500, rs_body = ''authorization check failed''\<rparr>))
             (scopes_for_subject subject d)) (\<lambda>scopes.
    let identity = \<lparr>id_subject = subject, id_scopes = scopes\<rparr> in
    rbind (ensure (has_scope identity required)
             (''403'', \<lparr>rs_status = 403, rs_body = ''missing required scope: '' @ required\<rparr>)) (\<lambda>_.
    Inr identity)))))"

text \<open>The handler \<open>next\<close> runs on the rest of the program's state \<open>'w\<close>.\<close>

definition require_auth ::
  "('jwk, 'key) auth_state \<Rightarrow> db \<Rightarrow> http_request
   \<Rightarrow> (auth_identity \<Rightarrow> http_request \<Rightarrow> 'w \<Rightarrow> http_response \<times> 'w)
   \<Rightarrow> auth_metrics \<Rightarrow> 'w \<Rightarrow> http_response \<times> auth_metrics \<times> 'w" where
  "require_auth st d rq next_h m w =
    (case authorize st d rq of
       Inl (cls, resp) \<Rightarrow> (resp, record_outcome (rq_path rq) cls m, w)
     | Inr identity \<Rightarrow>
         (let m1 = add_in_flight (rq_path rq) 1 m;
              (resp, w') = next_h identity rq w;
              m2 = add_in_flight (rq_path rq) (- 1) m1
          in (resp,
              record_outcome (rq_path rq)
                (if 200 \<le> rs_status resp \<and> rs_status resp < 300 then ''2xx'' else ''5xx'') m2,
              w')))"

section \<open>Lemmas\<close>

lemma has_scope_iff: "has_scope i scope \<longleftrightarrow> ''*'' \<in> set (id_scopes i) \<or> scope \<in> set (id_scopes i)"
  by (auto simp: has_scope_def list_ex_iff)

lemma verify_eq_Inr:
  "verify lib v token = Inr subj \<longleftrightarrow>
    (\<exists>header kid jwk key. decode_header lib token = Some header \<and> hdr_kid header = Some kid
       \<and> map_of (v_jwks v) kid = Some jwk \<and> from_jwk lib jwk = Some key
       \<and> (hdr_alg header = RS256 \<or> hdr_alg header = ES256)
       \<and> decode_claims lib (hdr_alg header) (v_issuer v) (v_audience v) key token = Some subj)"
  unfolding verify_def result_simps by blast

text \<open>What has to hold for a request to be let through as identity \<open>i\<close>.\<close>

definition authorised :: "('jwk, 'key) auth_state \<Rightarrow> db \<Rightarrow> http_request \<Rightarrow> auth_identity \<Rightarrow> bool" where
  "authorised st d rq i \<longleftrightarrow>
    (\<exists>required token. st_required_scope st (rq_path rq) = Some required
       \<and> bearer_token rq = Some token
       \<and> verify (st_lib st) (st_verifier st) token = Inr (id_subject i)
       \<and> scopes_for_subject (id_subject i) d = Inr (id_scopes i)
       \<and> (''*'' \<in> set (id_scopes i) \<or> required \<in> set (id_scopes i)))"

lemma authorize_eq_Inr: "authorize st d rq = Inr i \<longleftrightarrow> authorised st d rq i"
proof (cases i)
  case (fields subj sc)
  show ?thesis
    unfolding authorize_def authorised_def result_simps has_scope_iff Let_def
    by (auto simp: fields)
qed

lemma authorize_eq_Inl_class:
  assumes "authorize st d rq = Inl (cls, resp)"
  shows "(cls, rs_status resp) \<in> {(''404'', 404), (''401'', 401), (''500'', 500), (''403'', 403)}"
  using assms unfolding authorize_def result_simps Let_def by auto

lemma add_in_flight_cancel: "rpc_in_flight (add_in_flight p (- n) (add_in_flight p n m)) = rpc_in_flight m"
  by (auto simp: add_in_flight_def)

lemma record_outcome_simps [simp]:
  "rpc_in_flight (record_outcome p c m) = rpc_in_flight m"
  "rpc_requests (record_outcome p c m) = rpc_requests m @ [(p, c)]"
  by (simp_all add: record_outcome_def)

lemma add_in_flight_requests [simp]: "rpc_requests (add_in_flight p n m) = rpc_requests m"
  by (simp add: add_in_flight_def)

section \<open>Properties\<close>

text \<open>C1: the middleware fails closed. A request reaches its handler exactly when its path is in the
  service's table, it carries a bearer token the verifier accepts, and the grants of the token's
  subject hold the required scope or \<open>"*"\<close>; every other request is answered 401, 403, 404 or 500 and
  leaves the rest of the program untouched.\<close>

theorem require_auth_fails_closed:
  assumes "require_auth st d rq next_h m w = (resp, m', w')"
  shows "(\<exists>i. authorised st d rq i \<and> next_h i rq w = (resp, w'))
    \<or> (w' = w \<and> (\<forall>i. \<not> authorised st d rq i) \<and> rs_status resp \<in> {401, 403, 404, 500})"
proof (cases "authorize st d rq")
  case (Inl r)
  then obtain cls r' where r: "authorize st d rq = Inl (cls, r')" by (cases r) auto
  then have "\<not> authorised st d rq i" for i
    using authorize_eq_Inr [of st d rq i] by simp
  moreover have "rs_status r' \<in> {401, 403, 404, 500}"
    using authorize_eq_Inl_class [OF r] by auto
  ultimately show ?thesis using assms r by (simp add: require_auth_def)
next
  case (Inr i)
  then have "authorised st d rq i" by (simp add: authorize_eq_Inr)
  moreover have "next_h i rq w = (resp, w')"
    using assms Inr by (simp add: require_auth_def Let_def split: prod.splits)
  ultimately show ?thesis by blast
qed

definition demo_lib :: "(unit, unit) jwt_lib" where
  "demo_lib = \<lparr>decode_header = (\<lambda>t. Some \<lparr>hdr_kid = Some ''k'', hdr_alg = ES256\<rparr>),
     from_jwk = Some, decode_claims = (\<lambda>alg iss aud key t. Some ''u1'')\<rparr>"

definition demo_state :: "(unit, unit) auth_state" where
  "demo_state = \<lparr>st_lib = demo_lib,
     st_verifier = \<lparr>v_issuer = ''iss'', v_audience = ''aud'', v_jwks = [(''k'', ())]\<rparr>,
     st_required_scope = gateway_required_scope\<rparr>"

definition demo_request :: http_request where
  "demo_request = \<lparr>rq_path = ''/controller.v1.ServerService/ListServers'',
     rq_authorization = Some ''Bearer t''\<rparr>"

definition demo_handler :: "auth_identity \<Rightarrow> http_request \<Rightarrow> nat \<Rightarrow> http_response \<times> nat" where
  "demo_handler i rq w = (\<lparr>rs_status = 200, rs_body = []\<rparr>, w + 1)"

definition no_metrics :: auth_metrics where
  "no_metrics = \<lparr>rpc_requests = [], rpc_in_flight = (\<lambda>_. 0)\<rparr>"

lemma demo_runs:
  "fst (require_auth demo_state two_users_db demo_request demo_handler no_metrics 0) =
     \<lparr>rs_status = 200, rs_body = []\<rparr>"
  "snd (snd (require_auth demo_state two_users_db demo_request demo_handler no_metrics 0)) = 1"
  by code_simp+

theorem require_auth_fails_closed_witness:
  "\<exists>i. authorised demo_state two_users_db demo_request i"
proof -
  obtain m' where run: "require_auth demo_state two_users_db demo_request demo_handler no_metrics 0
      = (\<lparr>rs_status = 200, rs_body = []\<rparr>, m', 1)"
    using demo_runs by (metis prod.collapse)
  from require_auth_fails_closed [OF run] show ?thesis by auto
qed

text \<open>Each request is counted once, under its path, and the in-flight gauge is back at its
  value before the request on every way out.\<close>

theorem require_auth_metrics_balanced:
  assumes "require_auth st d rq next_h m w = (resp, m', w')"
  shows "rpc_in_flight m' = rpc_in_flight m
    \<and> (\<exists>cls \<in> {''401'', ''403'', ''404'', ''500'', ''2xx'', ''5xx''}.
          rpc_requests m' = rpc_requests m @ [(rq_path rq, cls)])"
proof (cases "authorize st d rq")
  case (Inl r)
  then obtain cls r' where r: "authorize st d rq = Inl (cls, r')" by (cases r) auto
  then show ?thesis
    using assms authorize_eq_Inl_class [OF r] by (auto simp: require_auth_def)
next
  case (Inr i)
  then show ?thesis
    using assms by (auto simp: require_auth_def Let_def add_in_flight_cancel split: prod.splits if_splits)
qed

theorem require_auth_metrics_balanced_witness:
  "\<exists>m'. require_auth demo_state two_users_db demo_request demo_handler no_metrics 0
      = (\<lparr>rs_status = 200, rs_body = []\<rparr>, m', 1) \<and> rpc_in_flight m' = (\<lambda>_. 0)"
proof -
  obtain m' where run: "require_auth demo_state two_users_db demo_request demo_handler no_metrics 0
      = (\<lparr>rs_status = 200, rs_body = []\<rparr>, m', 1)"
    using demo_runs by (metis prod.collapse)
  from require_auth_metrics_balanced [OF run] run show ?thesis by (auto simp: no_metrics_def)
qed

text \<open>The scopes the two services enforce are exactly the offered ones without the two that
  only the controller reads, so every enforced scope can be granted through the ACL editor.\<close>

theorem known_scopes_are_the_enforced_ones:
  "ran gateway_required_scope \<union> ran registry_required_scope =
     set KNOWN_SCOPES - {''arma:admin'', ''arma:filepatch''}"
proof -
  have "ran gateway_required_scope = set (map snd gateway_scope_table)"
    unfolding gateway_required_scope_def [abs_def] set_map
    by (rule ran_distinct) (simp add: gateway_scope_table_def)
  moreover have "ran registry_required_scope = set (map snd registry_scope_table)"
    unfolding registry_required_scope_def [abs_def] set_map
    by (rule ran_distinct) (simp add: registry_scope_table_def)
  moreover have "set (map snd gateway_scope_table) \<union> set (map snd registry_scope_table) =
      set KNOWN_SCOPES - {''arma:admin'', ''arma:filepatch''}"
    by code_simp
  ultimately show ?thesis by simp
qed

text \<open>Revocation takes effect at the next request. Once a subject's scopes are set to the empty
  list, and whatever grants are then written for other subjects, every request with a token of that
  subject on a known path is refused with 403.\<close>

theorem revoked_subject_is_forbidden:
  assumes "set_scopes subj [] d = Inr d1" "grants.put_all ps d1 = Inr d'" "subj \<notin> fst ` set ps"
    and "bearer_token rq = Some token" "verify (st_lib st) (st_verifier st) token = Inr subj"
    and "st_required_scope st (rq_path rq) = Some required"
  shows "\<exists>resp m'. require_auth st d' rq next_h m w = (resp, m', w) \<and> rs_status resp = 403"
proof -
  have "scopes_for_subject subj d' = Inr []"
    using assms(1-3) by (rule grants.last_put_wins)
  then show ?thesis
    using assms(4-6) by (simp add: require_auth_def authorize_def has_scope_def)
qed

theorem revoked_subject_is_forbidden_witness:
  "\<exists>d1 resp m'. set_scopes ''u1'' [] two_users_db = Inr d1
     \<and> require_auth demo_state d1 demo_request demo_handler no_metrics 0 = (resp, m', 0)
     \<and> rs_status resp = 403"
proof -
  obtain d1 where d1: "set_scopes ''u1'' [] two_users_db = Inr d1"
    by (simp add: set_scopes_def query_def two_users_db_def empty_db_def)
  have facts: "bearer_token demo_request = Some ''t''"
    "verify (st_lib demo_state) (st_verifier demo_state) ''t'' = Inr ''u1''"
    "st_required_scope demo_state (rq_path demo_request) = Some ''servers:read''"
    by code_simp+
  have "grants.put_all [] d1 = Inr d1" by simp
  from revoked_subject_is_forbidden [OF d1 this _ facts, of demo_handler no_metrics 0] d1
  show ?thesis by auto
qed

end
