(* ===== verification/Crd.thy ===== *)
theory Crd
  imports Prelude
begin

text \<open>
  The custom resources of \<open>crates/crd/src/lib.rs\<close>: \<open>ArmaServer\<close>, \<open>HeadlessClient\<close> and \<open>ModSource\<close>
  as records, with the 5-port range arithmetic every port check goes through.
\<close>

section \<open>ArmaServer\<close>

record arma_server_metrics =
  metrics_port :: u16
  metrics_path :: "string option"

definition path_or_default :: "arma_server_metrics \<Rightarrow> string" where
  "path_or_default m = (case metrics_path m of Some p \<Rightarrow> p | None \<Rightarrow> ''/metrics'')"

datatype desired_state = DesiredRunning | DesiredStopped

definition desired_state_default :: desired_state where
  "desired_state_default = DesiredRunning"

record arma_server_spec =
  mod_source_ids :: "string list"
  port :: u16
  cdlc :: "string list"
  profiling :: bool
  desired_state :: desired_state
  config_map :: "string option"
  metrics :: "arma_server_metrics option"
  headless_clients :: u32

datatype arma_server_phase = Stopped | Pending | Running | Failed

record arma_server_status =
  phase :: arma_server_phase
  message :: string

definition arma_server_status_default :: arma_server_status where
  "arma_server_status_default = \<lparr>phase = Stopped, message = []\<rparr>"

text \<open>A stored object: name, annotations, spec and the status subresource.\<close>

record arma_server =
  srv_name :: string
  srv_annotations :: "(string, string) hashmap"
  srv_spec :: arma_server_spec
  srv_status :: "arma_server_status option"
  srv_finalizers :: "string list"
  srv_deleting :: bool

section \<open>Port ranges\<close>

definition port_range :: "u16 \<Rightarrow> u16 \<times> u16" where
  "port_range p = (p, saturating_add p 4)"

definition port_ranges_overlap :: "u16 \<Rightarrow> u16 \<Rightarrow> bool" where
  "port_ranges_overlap a b =
    (let (a_lo, a_hi) = port_range a; (b_lo, b_hi) = port_range b in a_lo \<le> b_hi \<and> b_lo \<le> a_hi)"

section \<open>HeadlessClient\<close>

record headless_client_spec =
  hc_server :: string
  hc_index :: u32

datatype headless_client_phase = HcPending | HcRunning | HcFailed

record headless_client_status =
  hc_phase :: headless_client_phase
  hc_message :: string

section \<open>ModSource\<close>

datatype mod_source_input =
    SteamUrl string
  | HtmlUrl string
  | HtmlContent string
  | Local string

datatype mod_source_phase = MsPending | MsResolving | MsSynced | MsFailed

record mod_source_status =
  ms_phase :: mod_source_phase
  ms_kind :: string
  ms_display_name :: string
  ms_resolved_mod_ids :: "u64 list"
  ms_size_bytes :: u64
  ms_message :: string

definition mod_source_status_default :: mod_source_status where
  "mod_source_status_default = \<lparr>ms_phase = MsPending, ms_kind = [], ms_display_name = [],
     ms_resolved_mod_ids = [], ms_size_bytes = 0, ms_message = []\<rparr>"

record mod_source =
  src_name :: string
  src_annotations :: "(string, string) hashmap"
  src_input :: mod_source_input
  src_status :: "mod_source_status option"
  src_finalizers :: "string list"
  src_deleting :: bool

section \<open>Lemmas\<close>

text \<open>The ports a server binds, as a set.\<close>

definition ports_of :: "u16 \<Rightarrow> u16 set" where
  "ports_of p = {fst (port_range p)..snd (port_range p)}"

lemma unat_port_hi: "unat (snd (port_range p)) = min (unat p + 4) 65535"
  by (simp add: port_range_def unat_saturating_add)

lemma port_range_lo_le_hi: "fst (port_range p) \<le> snd (port_range p)"
proof -
  have "unat p < 65536" using unsigned_less [of p] by simp
  then show ?thesis using unat_port_hi [of p] by (simp add: word_le_nat_alt port_range_def)
qed

lemma port_ranges_overlap_sym: "port_ranges_overlap a b = port_ranges_overlap b a"
  by (auto simp: port_ranges_overlap_def Let_def split: prod.splits)

lemma port_ranges_overlap_refl [simp]: "port_ranges_overlap a a"
  using port_range_lo_le_hi [of a] by (auto simp: port_ranges_overlap_def Let_def split: prod.splits)

text \<open>Away from the top of the port space the check is the arithmetic one.\<close>

lemma port_ranges_overlap_distance:
  assumes "unat a \<le> 65531" "unat b \<le> 65531"
  shows "port_ranges_overlap a b \<longleftrightarrow> unat a < unat b + 5 \<and> unat b < unat a + 5"
  using assms unat_port_hi [of a] unat_port_hi [of b]
  by (auto simp: port_ranges_overlap_def port_range_def Let_def word_le_nat_alt)

lemma port_ranges_overlap_meet:
  "port_ranges_overlap a b \<longleftrightarrow> ports_of a \<inter> ports_of b \<noteq> {}"
proof
  assume "port_ranges_overlap a b"
  then have "max a b \<in> ports_of a \<inter> ports_of b"
    using port_range_lo_le_hi [of a] port_range_lo_le_hi [of b]
    by (auto simp: port_ranges_overlap_def ports_of_def port_range_def Let_def max_def)
  then show "ports_of a \<inter> ports_of b \<noteq> {}" by blast
next
  assume "ports_of a \<inter> ports_of b \<noteq> {}"
  then show "port_ranges_overlap a b"
    by (auto simp: port_ranges_overlap_def ports_of_def Let_def split: prod.splits)
qed

section \<open>Properties\<close>

text \<open>Two base ports are reported as overlapping exactly when some port is bound by both 5-port
  ranges, up to and including the saturated ranges at the top of the port space.\<close>

theorem port_ranges_overlap_iff:
  "port_ranges_overlap a b \<longleftrightarrow> ports_of a \<inter> ports_of b \<noteq> {}"
  by (rule port_ranges_overlap_meet)

end
