(* ===== verification/WorkshopParse.thy ===== *)
theory WorkshopParse
  imports Prelude
begin

text \<open>
  Workshop links and preset files (\<open>crates/workshop-parse/src/lib.rs\<close>): the link scanner with the
  semantics of the regular expression \<open>filedetails/\?id=(\d+)\<close> (leftmost matches, longest digit run,
  no overlap, \<open>\d\<close> read as an ASCII digit), the renderer of launcher presets, and the round trip
  between the two.
\<close>

section \<open>Scanning\<close>

definition filedetails :: string where
  "filedetails = ''filedetails/?id=''"

function captures_iter :: "string \<Rightarrow> string list" where
  "captures_iter [] = []"
| "captures_iter (c # cs) =
     (case strip_prefix (c # cs) filedetails of
        None \<Rightarrow> captures_iter cs
      | Some rest \<Rightarrow>
          (if takeWhile is_digit rest = [] then captures_iter cs
           else takeWhile is_digit rest # captures_iter (dropWhile is_digit rest)))"
  by pat_completeness auto
termination
proof (relation "measure length")
  fix c cs rest
  assume "strip_prefix (c # cs) filedetails = Some rest"
  then have "c # cs = filedetails @ rest" by (simp add: str_simps)
  then have "length (c # cs) = 16 + length rest" by (simp add: filedetails_def)
  moreover have "length (dropWhile is_digit rest) \<le> length rest" by (rule length_dropWhile_le)
  ultimately show "(dropWhile is_digit rest, c # cs) \<in> measure length" by simp
qed auto

declare captures_iter.simps(2) [simp del]

definition extract_single_id :: "string \<Rightarrow> u64 option" where
  "extract_single_id url = (case captures_iter url of [] \<Rightarrow> None | d # _ \<Rightarrow> parse_uint d)"

definition workshop_url :: "u64 \<Rightarrow> string" where
  "workshop_url i = ''https://steamcommunity.com/sharedfiles/filedetails/?id='' @ show_word i"

definition parse_preset_html :: "string \<Rightarrow> u64 list" where
  "parse_preset_html html = List.map_filter parse_uint (captures_iter html)"

text \<open>The HTTP client and the file system are parameters; each may fail.\<close>

definition fetch_source :: "(string \<Rightarrow> string + string) \<Rightarrow> (string \<Rightarrow> string + string) \<Rightarrow> string
    \<Rightarrow> string + string" where
  "fetch_source http_get read_file src =
    (if starts_with src ''http'' then http_get src else read_file src)"

definition extract_candidate_ids :: "(string \<Rightarrow> string + string) \<Rightarrow> (string \<Rightarrow> string + string) \<Rightarrow> string
    \<Rightarrow> string + u64 list" where
  "extract_candidate_ids http_get read_file src =
    (case extract_single_id src of
       Some i \<Rightarrow> Inr [i]
     | None \<Rightarrow> rbind (fetch_source http_get read_file src) (\<lambda>html. Inr (parse_preset_html html)))"

section \<open>Rendering\<close>

definition escape_char :: "char \<Rightarrow> string" where
  "escape_char c =
    (if c = CHR ''&'' then ''&amp;''
     else if c = CHR ''<'' then ''&lt;''
     else if c = CHR ''>'' then ''&gt;''
     else if c = CHR 0x22 then ''&quot;''
     else if c = CHR 0x27 then ''&#39;''
     else [c])"

definition escape_html :: "string \<Rightarrow> string" where
  "escape_html text = concat (map escape_char text)"

definition nl :: string where
  "nl = [CHR 0x0A]"

definition text_lines :: "string list \<Rightarrow> string" where
  "text_lines ls = concat (map (\<lambda>l. l @ nl) ls)"

definition row_open :: string where
  \<open>row_open =
    text_lines [''        <tr data-type="ModContainer">''] @ ''          <td data-type="DisplayName">''\<close>

definition row_mid :: string where
  \<open>row_mid =
    text_lines [''</td>'', ''          <td>'', ''            <span class="from-steam">Steam</span>'',
      ''          </td>'', ''          <td>''] @ ''            <a href="''\<close>

definition row_sep :: string where
  \<open>row_sep = ''" data-type="Link">''\<close>

definition row_close :: string where
  \<open>row_close = text_lines [''</a>'', ''          </td>'', ''        </tr>'']\<close>

definition render_row :: "u64 \<times> string \<Rightarrow> string" where
  "render_row m = (case m of (i, title) \<Rightarrow>
     row_open @ escape_html title @ row_mid @ workshop_url i @ row_sep @ workshop_url i @ row_close)"

definition page_head :: string where
  \<open>page_head =
    text_lines [
      ''<?xml version="1.0" encoding="utf-8"?>'', ''<html>'',
      ''  <!--Exported by magpie in the Arma 3 Launcher's preset format.-->'',
      ''  <head>'', ''    <meta name="arma:Type" content="preset" />''] @
    ''    <meta name="arma:PresetName" content="''\<close>

definition page_style :: string where
  \<open>page_style =
    text_lines [
      ''" />'', ''    <meta name="generator" content="magpie" />'', ''    <title>Arma 3</title>'',
      ''    <style>'',
      ''body { margin: 0; padding: 0; color: #fff; background: #000; }'',
      ''body, th, td { font: 95%/1.3 Roboto, Segoe UI, Tahoma, Arial, Helvetica, sans-serif; }'',
      ''td { padding: 3px 30px 3px 0; }'',
      ''h1 { padding: 20px 20px 0 20px; color: white; font-weight: 200; font-family: segoe ui; font-size: 3em; margin: 0; }'',
      ''em { font-variant: italic; color: silver; }'',
      ''.before-list { padding: 5px 20px 10px 20px; }'',
      ''.mod-list { background: #222222; padding: 20px; }'',
      ''.footer { padding: 20px; color: gray; }'',
      ''a { color: #D18F21; text-decoration: underline; }'',
      ''a:hover { color: #F1AF41; text-decoration: none; }'',
      ''.from-steam { color: #449EBD; }'',
      ''    </style>'', ''  </head>'', ''  <body>''] @
    ''    <h1>Arma 3  - Preset <strong>''\<close>

definition page_intro :: string where
  \<open>page_intro =
    text_lines [
      ''</strong></h1>'', ''    <p class="before-list">'',
      ''      <em>To import this preset, drag this file onto the Launcher window. Or click the MODS tab, then PRESET in the top right, then IMPORT at the bottom, and finally select this file.</em>'',
      ''    </p>'', ''    <div class="mod-list">'', ''      <table>'']\<close>

definition page_table_end :: string where
  \<open>page_table_end =
    text_lines [''      </table>'', ''    </div>'', ''    <div class="footer">''] @ ''      <span>''\<close>

definition page_foot :: string where
  \<open>page_foot =
    text_lines ['' mods. Exported by magpie.</span>'', ''    </div>'', ''  </body>'', ''</html>'']\<close>

definition render_preset_html :: "string \<Rightarrow> (u64 \<times> string) list \<Rightarrow> string" where
  "render_preset_html nm mods =
    page_head @ escape_html nm @ page_style @ escape_html nm @ page_intro
    @ concat (map render_row mods)
    @ page_table_end @ show_nat (length mods) @ page_foot"

section \<open>Lemmas\<close>

lemma filedetails_nonempty [simp]: "filedetails \<noteq> []"
  by (simp add: filedetails_def)

lemma captures_iter_step:
  "\<not> prefix filedetails (c # cs) \<Longrightarrow> captures_iter (c # cs) = captures_iter cs"
  by (simp add: captures_iter.simps strip_prefix_def)

lemma captures_iter_hit:
  assumes "ds \<noteq> []" "list_all is_digit ds" "rest = [] \<or> \<not> is_digit (hd rest)"
  shows "captures_iter (filedetails @ ds @ rest) = ds # captures_iter rest"
proof -
  have tw: "takeWhile is_digit (ds @ rest) = ds" "dropWhile is_digit (ds @ rest) = rest"
    using assms(2,3) by (cases rest; simp add: takeWhile_append dropWhile_append list_all_iff)+
  obtain c cs where c: "filedetails @ ds @ rest = c # cs"
    by (cases "filedetails @ ds @ rest") (auto simp: filedetails_def)
  have "strip_prefix (c # cs) filedetails = Some (ds @ rest)"
    using c by (metis strip_prefix_append)
  then show ?thesis using assms(1) by (simp add: c tw captures_iter.simps)
qed

text \<open>Text without the marker contributes nothing, up to a character the marker does not have.\<close>

lemma captures_iter_skip:
  assumes "\<not> contains_str xs filedetails" "c \<notin> set filedetails"
  shows "captures_iter (xs @ c # ys) = captures_iter ys"
  using assms(1)
proof (induction xs)
  case Nil
  have "\<not> prefix filedetails (c # ys)" using assms(2) by (auto simp: filedetails_def)
  then show ?case by (simp add: captures_iter_step)
next
  case (Cons x xs)
  have "\<not> prefix filedetails (x # xs @ c # ys)"
  proof
    assume "prefix filedetails (x # xs @ c # ys)"
    then have "prefix filedetails ((x # xs) @ c # ys)" by simp
    then have "prefix filedetails (x # xs) \<or> (\<exists>us. filedetails = (x # xs) @ us \<and> prefix us (c # ys))"
      by (simp only: prefix_append)
    moreover have "\<not> prefix filedetails (x # xs)" using Cons.prems by simp
    ultimately obtain us where us: "filedetails = (x # xs) @ us" "prefix us (c # ys)" by blast
    with \<open>\<not> prefix filedetails (x # xs)\<close> have "us \<noteq> []" by auto
    with us(2) have "hd us = c" by (cases us) auto
    with us(1) \<open>us \<noteq> []\<close> assms(2) show False by (metis hd_in_set in_set_conv_decomp set_append UnI2)
  qed
  with Cons show ?case by (simp add: captures_iter_step)
qed

lemma prefix_escape: "prefix n (escape_html t) \<Longrightarrow> CHR ''&'' \<notin> set n \<Longrightarrow> prefix n t"
proof (induction t arbitrary: n)
  case (Cons c t)
  then show ?case
    by (cases n) (auto simp: escape_html_def escape_char_def split: if_splits)
qed (simp add: escape_html_def)

lemma contains_escape: "contains_str (escape_html t) filedetails \<Longrightarrow> contains_str t filedetails"
proof (induction t)
  case (Cons c t)
  have e: "escape_html (c # t) = escape_char c @ escape_html t" by (simp add: escape_html_def)
  have "prefix filedetails (escape_html (c # t)) \<or> contains_str (escape_html t) filedetails"
    using Cons.prems by (auto simp: e escape_char_def filedetails_def split: if_splits)
  then show ?case
  proof
    assume "prefix filedetails (escape_html (c # t))"
    then have "prefix filedetails (c # t)" by (rule prefix_escape) (simp add: filedetails_def)
    then show ?thesis by simp
  next
    assume "contains_str (escape_html t) filedetails"
    then show ?thesis using Cons.IH by simp
  qed
qed (simp add: escape_html_def)

lemma captures_iter_text:
  assumes "\<not> contains_str xs filedetails" "ys \<noteq> []" "hd ys \<notin> set filedetails"
  shows "captures_iter (xs @ ys) = captures_iter ys"
proof -
  obtain c zs where ys: "ys = c # zs" using assms(2) by (cases ys) auto
  then have "captures_iter (xs @ ys) = captures_iter zs"
    using captures_iter_skip [OF assms(1)] assms(3) by simp
  moreover have "captures_iter ys = captures_iter zs"
    using captures_iter_skip [of "[]" c zs] assms(3) ys by simp
  ultimately show ?thesis by simp
qed

lemma captures_iter_static:
  assumes "\<not> contains_str xs filedetails" "xs \<noteq> []" "last xs \<notin> set filedetails"
  shows "captures_iter (xs @ ys) = captures_iter ys"
proof -
  have xs: "xs = butlast xs @ [last xs]" using assms(2) by simp
  have "\<not> contains_str (butlast xs) filedetails"
    using assms(1) unfolding contains_str_iff
    by (metis xs sublist_order.dual_order.trans sublist_append_rightI)
  from captures_iter_skip [OF this assms(3), of ys] show ?thesis by (subst xs) simp
qed

lemma captures_iter_disjoint:
  "set xs \<inter> set filedetails = {} \<Longrightarrow> captures_iter (xs @ ys) = captures_iter ys"
proof (induction xs)
  case (Cons x xs)
  then have "captures_iter (x # (xs @ ys)) = captures_iter (xs @ ys)"
    using captures_iter_skip [of "[]" x "xs @ ys"] by simp
  with Cons show ?case by simp
qed simp

lemma digits_disjoint: "list_all is_digit ds \<Longrightarrow> set ds \<inter> set filedetails = {}"
  by (auto simp: list_all_iff is_digit_def filedetails_def)

lemma captures_iter_url:
  assumes "rest = [] \<or> \<not> is_digit (hd rest)"
  shows "captures_iter (workshop_url i @ rest) = show_word i # captures_iter rest"
proof -
  have skip: "captures_iter (''https://steamcommunity.com/sharedfiles/'' @ filedetails @ z) =
      captures_iter (filedetails @ z)" for z
    by (simp add: captures_iter_step filedetails_def)
  have url: "workshop_url i @ rest =
      ''https://steamcommunity.com/sharedfiles/'' @ filedetails @ show_word i @ rest"
    by (simp add: workshop_url_def filedetails_def)
  show ?thesis
    unfolding url skip using assms by (simp add: captures_iter_hit show_word_digits)
qed

lemmas page_parts = row_open_def row_mid_def row_sep_def row_close_def page_head_def page_style_def
  page_intro_def page_table_end_def page_foot_def text_lines_def nl_def

lemma captures_iter_parts:
  "captures_iter (row_open @ ys) = captures_iter ys"
  "captures_iter (row_mid @ ys) = captures_iter ys"
  "captures_iter (row_sep @ ys) = captures_iter ys"
  "captures_iter (row_close @ ys) = captures_iter ys"
  "captures_iter (page_head @ ys) = captures_iter ys"
  "captures_iter (page_style @ ys) = captures_iter ys"
  "captures_iter (page_intro @ ys) = captures_iter ys"
  "captures_iter (page_table_end @ ys) = captures_iter ys"
  "captures_iter (page_foot @ ys) = captures_iter ys"
  by (rule captures_iter_static; code_simp)+

lemma part_starts:
  "row_mid \<noteq> []" "hd row_mid = CHR ''<''" "row_sep \<noteq> []" "hd row_sep = CHR 0x22"
  "row_close \<noteq> []" "hd row_close = CHR ''<''" "page_style \<noteq> []" "hd page_style = CHR 0x22"
  "page_intro \<noteq> []" "hd page_intro = CHR ''<''"
  by (simp_all add: page_parts)

lemma captures_iter_escaped:
  assumes "\<not> contains_str t filedetails" "ys \<noteq> []" "hd ys = CHR ''<'' \<or> hd ys = CHR 0x22"
  shows "captures_iter (escape_html t @ ys @ zs) = captures_iter (ys @ zs)"
proof (rule captures_iter_text)
  show "\<not> contains_str (escape_html t) filedetails" using assms(1) contains_escape by blast
  show "ys @ zs \<noteq> []" using assms(2) by simp
  show "hd (ys @ zs) \<notin> set filedetails" using assms(2,3) by (auto simp: filedetails_def)
qed

lemma captures_iter_row_urls:
  "captures_iter (workshop_url i @ row_sep @ zs) = show_word i # captures_iter (row_sep @ zs)"
  "captures_iter (workshop_url i @ row_close @ zs) = show_word i # captures_iter (row_close @ zs)"
  by (rule captures_iter_url, simp add: part_starts is_digit_def)+

lemma captures_iter_count: "captures_iter (show_nat n @ ys) = captures_iter ys"
  using captures_iter_disjoint digits_disjoint show_nat_digits by blast

lemma captures_iter_foot: "captures_iter page_foot = []"
  using captures_iter_parts(9) [of "[]"] by simp

lemmas captures_page = captures_iter_parts part_starts captures_iter_row_urls captures_iter_count
  captures_iter_foot

lemma captures_iter_row:
  assumes "\<not> contains_str title filedetails"
  shows "captures_iter (render_row (i, title) @ ys) = show_word i # show_word i # captures_iter ys"
  by (simp add: render_row_def captures_page captures_iter_escaped [OF assms part_starts(1)])

lemma captures_iter_rows:
  "(\<forall>(i, title) \<in> set mods. \<not> contains_str title filedetails) \<Longrightarrow>
   captures_iter (concat (map render_row mods) @ ys) =
     concat (map (\<lambda>(i, _). [show_word i, show_word i]) mods) @ captures_iter ys"
  by (induction mods) (auto simp: captures_iter_row)

lemma map_filter_doubled:
  "List.map_filter parse_uint (concat (map (\<lambda>(i, _). [show_word i, show_word i]) mods)) =
   concat (map (\<lambda>(i, _). [i, i]) mods)"
  by (induction mods) (auto simp: map_filter_def)

lemma parse_render:
  assumes "\<not> contains_str nm filedetails"
    and "\<forall>(i, title) \<in> set mods. \<not> contains_str title filedetails"
  shows "parse_preset_html (render_preset_html nm mods) = concat (map (\<lambda>(i, _). [i, i]) mods)"
proof -
  have "captures_iter (render_preset_html nm mods) =
      concat (map (\<lambda>(i, _). [show_word i, show_word i]) mods)"
    unfolding render_preset_html_def
    by (simp add: captures_page captures_iter_rows [OF assms(2)]
        captures_iter_escaped [OF assms(1)])
  then show ?thesis by (simp add: parse_preset_html_def map_filter_doubled)
qed

section \<open>Properties\<close>

text \<open>\<open>extract_single_id\<close> inverts \<open>workshop_url\<close> for every 64-bit id.\<close>

theorem extract_single_id_workshop_url: "extract_single_id (workshop_url i) = Some i"
  using captures_iter_url [of "[]" i] by (simp add: extract_single_id_def)

text \<open>C14: the scanner reads an exported preset back: every mod, in order, once per copy of its link
  (the \<open>href\<close> and the link text), and nothing else, whatever the name and the titles are as long as
  they do not themselves contain the link marker \<open>filedetails/?id=\<close>.\<close>

theorem parse_render_preset:
  assumes "\<not> contains_str nm filedetails"
    and "\<forall>(i, title) \<in> set mods. \<not> contains_str title filedetails"
  shows "parse_preset_html (render_preset_html nm mods) = concat (map (\<lambda>(i, _). [i, i]) mods)"
  by (rule parse_render [OF assms])

theorem parse_render_preset_witness:
  "parse_preset_html (render_preset_html ''a<b'' [(450814997, ''CBA_A3 & more''), (463939057, ''ace'')]) =
     [450814997, 450814997, 463939057, 463939057]"
  by (subst parse_render_preset) (simp_all add: filedetails_def)

text \<open>Escaping does not protect the file from link text in a title: a Workshop title holding the
  marker adds its own id to what the scanner reads back.\<close>

theorem title_injects_id:
  "parse_preset_html (render_preset_html ''p'' [(1, ''filedetails/?id=7'')]) = [7, 1, 1]"
proof -
  have name: "\<not> contains_str ''p'' filedetails" by (simp add: filedetails_def)
  have inj: "captures_iter (escape_html ''filedetails/?id=7'' @ row_mid @ ys) = ''7'' # captures_iter (row_mid @ ys)" for ys
  proof -
    have "escape_html ''filedetails/?id=7'' = filedetails @ ''7''"
      by (simp add: escape_html_def escape_char_def filedetails_def)
    then show ?thesis
      using captures_iter_hit [of "''7''" "row_mid @ ys"] by (simp add: part_starts is_digit_def)
  qed
  have "captures_iter (render_preset_html ''p'' [(1, ''filedetails/?id=7'')]) =
      [''7'', show_word (1 :: u64), show_word (1 :: u64)]"
    unfolding render_preset_html_def
    by (simp add: render_row_def captures_page inj
        captures_iter_escaped [OF name])
  moreover have "parse_uint ''7'' = Some (7 :: u64)"
    by (simp add: parse_uint_def is_digit_def dec_value_def digit_val_def)
  ultimately show ?thesis by (simp add: parse_preset_html_def map_filter_def)
qed

end
