(* ===== verification/SyncCache.thy ===== *)
theory SyncCache
  imports Prelude "HOL-Library.Multiset"
begin

text \<open>
  The content cache next to the downloaded files (\<open>crates/steam-sync/src/cache.rs\<close>): the refresh
  token file, the depot keys' hexadecimal form, the manifest cache paths, and the SQLite state
  \<open>sync.db\<close> with its five tables as lists of rows. Each method of \<open>SyncState\<close> is one definition. A
  method that returns a \<open>Result\<close> gives \<open>Inl\<close> when the database does not answer; one that logs and
  swallows the failure leaves the state unchanged. 64-bit ids are stored by the code as the \<open>i64\<close>
  with the same bits, so they stay words here; candidate ids are stored as JSON text that only this
  crate writes, so they stay a list. The cross-process lock is also a step relation over processes,
  their guards and the clock.
\<close>

section \<open>Files next to the content\<close>

text \<open>A path is the list of its components.\<close>

type_synonym path = "string list"

definition cache_dir :: "path \<Rightarrow> path" where
  "cache_dir install_dir = install_dir @ [''.cache'']"

definition refresh_token_file :: "path \<Rightarrow> path" where
  "refresh_token_file install_dir = cache_dir install_dir @ [''steam_refresh_token'']"

definition load_refresh_token :: "(path \<rightharpoonup> string) \<Rightarrow> path \<Rightarrow> string option" where
  "load_refresh_token fs install_dir =
    Option.bind (fs (refresh_token_file install_dir)) (\<lambda>s.
      if trim s = [] then None else Some (trim s))"

definition save_refresh_token :: "path \<Rightarrow> string \<Rightarrow> (path \<rightharpoonup> string) \<Rightarrow> (path \<rightharpoonup> string)" where
  "save_refresh_token install_dir token fs = fs(refresh_token_file install_dir \<mapsto> token)"

definition hex_digit :: "nat \<Rightarrow> char" where
  "hex_digit n = (if n < 10 then char_of (48 + n) else char_of (87 + n))"

definition bytes_to_hex :: "u8 list \<Rightarrow> string" where
  "bytes_to_hex bs = concat (map (\<lambda>b. [hex_digit (unat b div 16), hex_digit (unat b mod 16)]) bs)"

definition hex_val :: "char \<Rightarrow> nat option" where
  "hex_val c =
    (let n = of_char c :: nat in
     if is_digit c then Some (n - 48)
     else if 97 \<le> n \<and> n \<le> 102 then Some (n - 87)
     else if 65 \<le> n \<and> n \<le> 70 then Some (n - 55)
     else None)"

text \<open>\<open>u8::from_str_radix\<close> on two characters accepts a leading plus sign.\<close>

definition hex_pair :: "char \<Rightarrow> char \<Rightarrow> u8 option" where
  "hex_pair a b =
    (if a = CHR ''+'' then map_option of_nat (hex_val b)
     else Option.bind (hex_val a) (\<lambda>x. Option.bind (hex_val b) (\<lambda>y. Some (of_nat (16 * x + y)))))"

definition is_continuation :: "char \<Rightarrow> bool" where
  "is_continuation c = (128 \<le> (of_char c :: nat) \<and> (of_char c :: nat) < 192)"

text \<open>The outer option is a panic of the slice \<open>s[i..i + 2]\<close> off a character boundary, the inner one
  the \<open>None\<close> of a malformed digit.\<close>

fun hex_pairs :: "string \<Rightarrow> u8 list option option" where
  "hex_pairs (a # b # rest) =
     (if is_continuation a \<or> (rest \<noteq> [] \<and> is_continuation (hd rest)) then None
      else case hex_pair a b of
        None \<Rightarrow> Some None
      | Some v \<Rightarrow>
          (case hex_pairs rest of Some (Some vs) \<Rightarrow> Some (Some (v # vs)) | r \<Rightarrow> r))"
| "hex_pairs _ = Some (Some [])"

definition hex_to_bytes :: "string \<Rightarrow> u8 list option option" where
  "hex_to_bytes s = (if length s mod 2 \<noteq> 0 then Some None else hex_pairs s)"

definition manifest_path :: "path \<Rightarrow> u32 \<Rightarrow> u64 \<Rightarrow> path" where
  "manifest_path install_dir depot_id manifest_id =
    cache_dir install_dir @ [''manifests'', show_word depot_id @ ''_'' @ show_word manifest_id @ ''.bin'']"

definition file_name :: "path \<Rightarrow> string option" where
  "file_name p = (if p = [] \<or> last p = ''..'' then None else Some (last p))"

definition sync_key :: "u32 \<Rightarrow> path \<Rightarrow> string" where
  "sync_key depot_id install_dir =
    show_word depot_id @ ''/'' @ (case file_name install_dir of Some leaf \<Rightarrow> leaf | None \<Rightarrow> ''?'')"

section \<open>The state database\<close>

record sync_state =
  ss_up :: bool
  synced :: "(string \<times> u64 \<times> u64) list"
  locks :: "(string \<times> string \<times> int) list"
  sources :: "(string \<times> u64 list) list"
  source_mods :: "(string \<times> u64) list"
  mod_titles :: "(u64 \<times> string) list"

datatype cache_error = CacheUnavailable

record synced_mod_row =
  sm_mod_id :: u64
  sm_manifest_id :: u64
  sm_size_bytes :: u64
  sm_title :: string

definition empty_state :: sync_state where
  "empty_state = \<lparr>ss_up = True, synced = [], locks = [], sources = [], source_mods = [], mod_titles = []\<rparr>"

definition exec :: "sync_state \<Rightarrow> 'a \<Rightarrow> cache_error + 'a" where
  "exec st x = (if ss_up st then Inr x else Inl CacheUnavailable)"

definition swallow :: "sync_state \<Rightarrow> sync_state \<Rightarrow> sync_state" where
  "swallow st st' = (if ss_up st then st' else st)"

subsection \<open>Sources and their mods\<close>

definition upsert_source :: "string \<Rightarrow> u64 list \<Rightarrow> sync_state \<Rightarrow> cache_error + sync_state" where
  "upsert_source source_id candidate_ids st =
    exec st (st\<lparr>sources := AList.update source_id candidate_ids (sources st)\<rparr>)"

definition mods_of :: "string \<Rightarrow> sync_state \<Rightarrow> u64 list" where
  "mods_of source_id st = map snd (filter (\<lambda>(s, _). s = source_id) (source_mods st))"

text \<open>The order in which a \<open>HashSet\<close> difference is walked is unspecified; the model inserts in the
  order of the request.\<close>

definition set_source_mods :: "string \<Rightarrow> u64 list \<Rightarrow> sync_state \<Rightarrow> cache_error + sync_state" where
  "set_source_mods source_id mod_ids st =
    exec st
      (let existing = mods_of source_id st;
           to_insert = filter (\<lambda>m. m \<notin> set existing) (dedup_seen [] mod_ids);
           kept = filter (\<lambda>(s, m). \<not> (s = source_id \<and> m \<in> set existing \<and> m \<notin> set mod_ids))
                    (source_mods st)
       in st\<lparr>source_mods := kept @ map (Pair source_id) to_insert\<rparr>)"

definition delete_source :: "string \<Rightarrow> sync_state \<Rightarrow> cache_error + sync_state" where
  "delete_source source_id st =
    exec st (st\<lparr>sources := AList.delete source_id (sources st),
                source_mods := filter (\<lambda>(s, _). s \<noteq> source_id) (source_mods st)\<rparr>)"

definition desired_mod_ids :: "sync_state \<Rightarrow> cache_error + u64 list" where
  "desired_mod_ids st = exec st (dedup_seen [] (map snd (source_mods st)))"

definition candidate_ids_for_source :: "string \<Rightarrow> sync_state \<Rightarrow> cache_error + u64 list option" where
  "candidate_ids_for_source source_id st = exec st (map_of (sources st) source_id)"

definition mod_ids_for_source :: "string \<Rightarrow> sync_state \<Rightarrow> cache_error + u64 list" where
  "mod_ids_for_source source_id st = exec st (mods_of source_id st)"

definition all_source_candidates :: "sync_state \<Rightarrow> cache_error + (string \<times> u64 list) list" where
  "all_source_candidates st = exec st (sources st)"

definition sources_for_mod :: "u64 \<Rightarrow> sync_state \<Rightarrow> string list" where
  "sources_for_mod mod_id st =
    (if ss_up st then map fst (filter (\<lambda>(_, m). m = mod_id) (source_mods st)) else [])"

subsection \<open>The verified markers\<close>

definition last_manifest_id :: "string \<Rightarrow> sync_state \<Rightarrow> u64 option" where
  "last_manifest_id key st = (if ss_up st then map_option fst (map_of (synced st) key) else None)"

definition is_synced :: "string \<Rightarrow> u64 \<Rightarrow> bool \<Rightarrow> sync_state \<Rightarrow> bool" where
  "is_synced key manifest_id dir_exists st =
    (if \<not> dir_exists then False else last_manifest_id key st = Some manifest_id)"

definition snapshot :: "sync_state \<Rightarrow> (string \<times> u64) list" where
  "snapshot st = (if ss_up st then map (\<lambda>(k, m, _). (k, m)) (synced st) else [])"

definition invalidate :: "string \<Rightarrow> sync_state \<Rightarrow> sync_state" where
  "invalidate key st = swallow st (st\<lparr>synced := AList.delete key (synced st)\<rparr>)"

definition mark_synced :: "string \<Rightarrow> u64 \<Rightarrow> u64 \<Rightarrow> sync_state \<Rightarrow> sync_state" where
  "mark_synced key manifest_id size_bytes st =
    swallow st (st\<lparr>synced := AList.update key (manifest_id, size_bytes) (synced st)\<rparr>)"

definition record_mod_title :: "u64 \<Rightarrow> string \<Rightarrow> sync_state \<Rightarrow> sync_state" where
  "record_mod_title mod_id title st =
    (if title = [] then st
     else swallow st (st\<lparr>mod_titles := AList.update mod_id title (mod_titles st)\<rparr>))"

text \<open>SQLite's \<open>CAST(text AS INTEGER)\<close>: leading blanks, a sign, the longest digit run, saturated to
  64 bits.\<close>

definition cast_integer :: "string \<Rightarrow> int" where
  "cast_integer s =
    (let t = dropWhile is_ws s;
         neg = (t \<noteq> [] \<and> hd t = CHR ''-'');
         u = (if t \<noteq> [] \<and> (hd t = CHR ''-'' \<or> hd t = CHR ''+'') then tl t else t);
         n = int (dec_value (takeWhile is_digit u))
     in if neg then max (- n) (- (2 ^ 63)) else min n (2 ^ 63 - 1))"

definition title_of :: "string \<Rightarrow> sync_state \<Rightarrow> string" where
  "title_of leaf st =
    (case find (\<lambda>(m, _). sint m = cast_integer leaf) (mod_titles st) of
       Some (_, t) \<Rightarrow> t | None \<Rightarrow> [])"

text \<open>\<open>substr(key, instr(key, '/') + 1)\<close>: everything after the first slash, the whole key when there
  is none.\<close>

definition key_tail :: "string \<Rightarrow> string" where
  "key_tail key = (case split_once (CHR ''/'') key of Some (_, t) \<Rightarrow> t | None \<Rightarrow> key)"

definition synced_mod_of :: "sync_state \<Rightarrow> string \<times> u64 \<times> u64 \<Rightarrow> synced_mod_row option" where
  "synced_mod_of st row = (case row of (key, manifest_id, size_bytes) \<Rightarrow>
     (case split_once (CHR ''/'') key of
        None \<Rightarrow> None
      | Some (depot, leaf) \<Rightarrow>
          if depot \<noteq> ''107410'' then None
          else map_option (\<lambda>mod_id. \<lparr>sm_mod_id = mod_id, sm_manifest_id = manifest_id,
                 sm_size_bytes = size_bytes, sm_title = title_of (key_tail key) st\<rparr>) (parse_uint leaf)))"

definition list_synced_mods :: "sync_state \<Rightarrow> synced_mod_row list" where
  "list_synced_mods st = (if ss_up st then List.map_filter (synced_mod_of st) (synced st) else [])"

definition get_synced_mod :: "u64 \<Rightarrow> sync_state \<Rightarrow> synced_mod_row option" where
  "get_synced_mod mod_id st = find (\<lambda>m. sm_mod_id m = mod_id) (list_synced_mods st)"

definition total_mods_size :: "sync_state \<Rightarrow> u64" where
  "total_mods_size st = sum_list (map sm_size_bytes (list_synced_mods st))"

definition snapshot_with_size :: "sync_state \<Rightarrow> (string \<times> u64) list" where
  "snapshot_with_size st = (if ss_up st then map (\<lambda>(k, _, sz). (k, sz)) (synced st) else [])"

definition total_game_files_size :: "sync_state \<Rightarrow> u64" where
  "total_game_files_size st =
    sum_list (map snd (filter (\<lambda>(k, _). \<not> starts_with k ''107410/'') (snapshot_with_size st)))"

subsection \<open>Locks\<close>

definition STALE_LOCK_SECS :: int where
  "STALE_LOCK_SECS = 30 * 60"

text \<open>The plain insert, refused by the primary key when the row exists.\<close>

definition try_insert_lock :: "int \<Rightarrow> string \<Rightarrow> string \<Rightarrow> sync_state \<Rightarrow> bool \<times> sync_state" where
  "try_insert_lock now key holder st =
    (case map_of (locks st) key of
       None \<Rightarrow> (True, st\<lparr>locks := (key, holder, now) # locks st\<rparr>)
     | Some _ \<Rightarrow> (False, st))"

text \<open>The immediate transaction that replaces a stale row.\<close>

definition try_steal_lock :: "int \<Rightarrow> string \<Rightarrow> string \<Rightarrow> sync_state \<Rightarrow> bool \<times> sync_state" where
  "try_steal_lock now key holder st =
    (case map_of (locks st) key of
       Some (_, acquired_at) \<Rightarrow>
         if STALE_LOCK_SECS < now - acquired_at
         then (True, st\<lparr>locks := (key, holder, now) # AList.delete key (locks st)\<rparr>)
         else (False, st)
     | None \<Rightarrow> (False, st))"

definition try_acquire :: "int \<Rightarrow> string \<Rightarrow> string \<Rightarrow> sync_state \<Rightarrow> cache_error + (bool \<times> sync_state)" where
  "try_acquire now key holder st =
    exec st
      (let (inserted, st1) = try_insert_lock now key holder st in
       if inserted then (True, st1) else try_steal_lock now key holder st1)"

definition release :: "string \<Rightarrow> sync_state \<Rightarrow> sync_state" where
  "release key st = swallow st (st\<lparr>locks := AList.delete key (locks st)\<rparr>)"

text \<open>\<open>acquire_lock\<close> polls. One list element per poll: the clock it reads and the state it finds
  there (other processes run in between). The result is the poll at which it succeeded and the state
  it leaves; \<open>None\<close> when every poll failed.\<close>

fun acquire_lock :: "string \<Rightarrow> string \<Rightarrow> (int \<times> sync_state) list \<Rightarrow> cache_error + (nat \<times> sync_state) option" where
  "acquire_lock key holder [] = Inr None"
| "acquire_lock key holder ((now, st) # polls) =
     rbind (try_acquire now key holder st) (\<lambda>(got, st').
       if got then Inr (Some (0, st'))
       else rbind (acquire_lock key holder polls) (\<lambda>r. Inr (map_option (\<lambda>(n, s). (n + 1, s)) r)))"

section \<open>Processes sharing the lock table\<close>

text \<open>A guard is a process, the key it locked and the time it wrote into the row. Dropping a guard
  only spawns the release, so a release may still be pending; a process may also die with its
  guards and pending releases.\<close>

type_synonym guard = "nat \<times> string \<times> int"

record lock_world =
  lw_state :: sync_state
  lw_clock :: int
  lw_guards :: "guard list"
  lw_pending :: "guard list"

abbreviation guard_key :: "guard \<Rightarrow> string" where
  "guard_key g \<equiv> fst (snd g)"

abbreviation guard_time :: "guard \<Rightarrow> int" where
  "guard_time g \<equiv> snd (snd g)"

inductive lock_step :: "lock_world \<Rightarrow> lock_world \<Rightarrow> bool" where
  tick: "lw_clock w \<le> t \<Longrightarrow> lock_step w (w\<lparr>lw_clock := t\<rparr>)"
| insert_lock: "now \<le> lw_clock w \<Longrightarrow> try_insert_lock now key holder (lw_state w) = (True, st') \<Longrightarrow>
    lock_step w (w\<lparr>lw_state := st', lw_guards := (p, key, now) # lw_guards w\<rparr>)"
| steal_lock: "now \<le> lw_clock w \<Longrightarrow> try_steal_lock now key holder (lw_state w) = (True, st') \<Longrightarrow>
    lock_step w (w\<lparr>lw_state := st', lw_guards := (p, key, now) # lw_guards w\<rparr>)"
| drop_guard: "g \<in> set (lw_guards w) \<Longrightarrow>
    lock_step w (w\<lparr>lw_guards := remove1 g (lw_guards w), lw_pending := g # lw_pending w\<rparr>)"
| run_release: "g \<in> set (lw_pending w) \<Longrightarrow>
    lock_step w (w\<lparr>lw_pending := remove1 g (lw_pending w),
                   lw_state := release (guard_key g) (lw_state w)\<rparr>)"
| crash: "lock_step w (w\<lparr>lw_guards := filter (\<lambda>g. fst g \<noteq> p) (lw_guards w),
                          lw_pending := filter (\<lambda>g. fst g \<noteq> p) (lw_pending w)\<rparr>)"

inductive_cases lock_stepE: "lock_step w w'"

definition init_world :: lock_world where
  "init_world = \<lparr>lw_state = empty_state, lw_clock = 0, lw_guards = [], lw_pending = []\<rparr>"

inductive lock_reach :: "lock_world \<Rightarrow> bool" where
  lock_init: "lock_reach init_world"
| lock_next: "lock_reach w \<Longrightarrow> lock_step w w' \<Longrightarrow> lock_reach w'"

definition timely :: "lock_world \<Rightarrow> bool" where
  "timely w = (\<forall>g \<in> set (lw_guards w @ lw_pending w). lw_clock w - guard_time g \<le> STALE_LOCK_SECS)"

text \<open>The runs in which no guard outlives the stale limit before its release has run.\<close>

inductive timely_reach :: "lock_world \<Rightarrow> bool" where
  timely_init: "timely_reach init_world"
| timely_next: "timely_reach w \<Longrightarrow> timely w \<Longrightarrow> lock_step w w' \<Longrightarrow> timely_reach w'"

definition lock_inv :: "lock_world \<Rightarrow> bool" where
  "lock_inv w =
    (ss_up (lw_state w) \<and> distinct (map guard_key (lw_guards w @ lw_pending w))
     \<and> (\<forall>g \<in> set (lw_guards w @ lw_pending w).
           \<exists>h. map_of (locks (lw_state w)) (guard_key g) = Some (h, guard_time g)))"

section \<open>Lemmas on locks\<close>

lemma try_insert_lock_True:
  "try_insert_lock now key holder st = (True, st') \<longleftrightarrow>
     map_of (locks st) key = None \<and> st' = st\<lparr>locks := (key, holder, now) # locks st\<rparr>"
  by (auto simp: try_insert_lock_def split: option.splits)

lemma try_steal_lock_True:
  "try_steal_lock now key holder st = (True, st') \<longleftrightarrow>
     (\<exists>h acq. map_of (locks st) key = Some (h, acq) \<and> STALE_LOCK_SECS < now - acq
        \<and> st' = st\<lparr>locks := (key, holder, now) # AList.delete key (locks st)\<rparr>)"
  by (auto simp: try_steal_lock_def split: option.splits if_splits)

lemma lock_inv_acquire:
  assumes inv: "lock_inv w" and fresh: "key \<notin> guard_key ` set (lw_guards w @ lw_pending w)"
    and rows: "map_of ls = (map_of (locks (lw_state w)))(key \<mapsto> (holder, now))"
  shows "lock_inv (w\<lparr>lw_state := (lw_state w)\<lparr>locks := ls\<rparr>, lw_guards := (p, key, now) # lw_guards w\<rparr>)"
  using inv fresh unfolding lock_inv_def by (auto simp: rows)

lemma lock_inv_insert:
  assumes "lock_inv w" "try_insert_lock now key holder (lw_state w) = (True, st')"
  shows "lock_inv (w\<lparr>lw_state := st', lw_guards := (p, key, now) # lw_guards w\<rparr>)"
proof -
  from assms(2) have none: "map_of (locks (lw_state w)) key = None"
    and st': "st' = (lw_state w)\<lparr>locks := (key, holder, now) # locks (lw_state w)\<rparr>"
    by (auto simp: try_insert_lock_True)
  have "key \<notin> guard_key ` set (lw_guards w @ lw_pending w)"
    using assms(1) none unfolding lock_inv_def by fastforce
  then show ?thesis unfolding st' by (rule lock_inv_acquire [OF assms(1)]) auto
qed

lemma lock_inv_steal:
  assumes "lock_inv w" "timely w" "now \<le> lw_clock w"
    "try_steal_lock now key holder (lw_state w) = (True, st')"
  shows "lock_inv (w\<lparr>lw_state := st', lw_guards := (p, key, now) # lw_guards w\<rparr>)"
proof -
  from assms(4) obtain h acq where row: "map_of (locks (lw_state w)) key = Some (h, acq)"
    and stale: "STALE_LOCK_SECS < now - acq"
    and st': "st' = (lw_state w)\<lparr>locks := (key, holder, now) # AList.delete key (locks (lw_state w))\<rparr>"
    by (auto simp: try_steal_lock_True)
  have "key \<notin> guard_key ` set (lw_guards w @ lw_pending w)"
  proof
    assume "key \<in> guard_key ` set (lw_guards w @ lw_pending w)"
    then obtain g where g: "g \<in> set (lw_guards w @ lw_pending w)" "guard_key g = key" by auto
    with assms(1) row have "guard_time g = acq" unfolding lock_inv_def by fastforce
    moreover have "lw_clock w - guard_time g \<le> STALE_LOCK_SECS"
      using assms(2) g(1) unfolding timely_def by blast
    ultimately show False using stale assms(3) by simp
  qed
  then show ?thesis
    unfolding st' by (rule lock_inv_acquire [OF assms(1)]) (auto simp: delete_conv')
qed

lemma lock_inv_release:
  assumes "lock_inv w" "g \<in> set (lw_pending w)"
  shows "lock_inv (w\<lparr>lw_pending := remove1 g (lw_pending w),
                     lw_state := release (guard_key g) (lw_state w)\<rparr>)"
proof -
  have dist: "distinct (map guard_key (lw_guards w @ lw_pending w))"
    using assms(1) by (simp add: lock_inv_def)
  then have other: "guard_key g' \<noteq> guard_key g" if "g' \<in> set (lw_guards w @ remove1 g (lw_pending w))" for g'
    using that assms(2)
    by (auto simp: distinct_map inj_on_def set_remove1_eq)
  have "distinct (map guard_key (lw_guards w @ remove1 g (lw_pending w)))"
    using dist by (auto simp: distinct_map inj_on_def distinct_remove1 dest: notin_set_remove1)
  with assms(1) other show ?thesis
    unfolding lock_inv_def release_def swallow_def
    by (auto simp: delete_conv' dest: notin_set_remove1)
qed

lemma lock_inv_perm:
  assumes "lock_inv w" "mset (gs @ ps) = mset (lw_guards w @ lw_pending w)"
  shows "lock_inv (w\<lparr>lw_guards := gs, lw_pending := ps\<rparr>)"
proof -
  have "set (gs @ ps) = set (lw_guards w @ lw_pending w)"
    using assms(2) by (rule mset_eq_setD)
  moreover have "mset (map guard_key (gs @ ps)) = mset (map guard_key (lw_guards w @ lw_pending w))"
    using assms(2) by (simp only: mset_map)
  then have "distinct (map guard_key (gs @ ps))"
    using assms(1) mset_eq_imp_distinct_iff unfolding lock_inv_def by blast
  ultimately show ?thesis using assms(1) unfolding lock_inv_def by simp
qed

lemma lock_inv_step:
  assumes "lock_inv w" "timely w" "lock_step w w'"
  shows "lock_inv w'"
  using assms(3)
proof (cases rule: lock_step.cases)
  case (tick t)
  then show ?thesis using assms(1) by (simp add: lock_inv_def)
next
  case (insert_lock now key holder st' p)
  then show ?thesis using lock_inv_insert [OF assms(1)] by blast
next
  case (steal_lock now key holder st' p)
  then show ?thesis using lock_inv_steal [OF assms(1,2)] by blast
next
  case (drop_guard g)
  have "mset (remove1 g (lw_guards w) @ g # lw_pending w) = mset (lw_guards w @ lw_pending w)"
    using drop_guard(2) by simp
  from lock_inv_perm [OF assms(1) this] drop_guard(1) show ?thesis by simp
next
  case (run_release g)
  then show ?thesis using lock_inv_release [OF assms(1)] by blast
next
  case (crash p)
  then show ?thesis
    using assms(1) unfolding lock_inv_def by (auto simp: distinct_map inj_on_def)
qed

lemma timely_reach_inv: "timely_reach w \<Longrightarrow> lock_inv w"
proof (induction rule: timely_reach.induct)
  case timely_init
  show ?case by (simp add: lock_inv_def init_world_def empty_state_def)
next
  case (timely_next w w')
  then show ?case by (blast intro: lock_inv_step)
qed

section \<open>Lemmas on keys and hexadecimal\<close>

lemma of_char_hex_digit: "n < 16 \<Longrightarrow> (of_char (hex_digit n) :: nat) = (if n < 10 then 48 + n else 87 + n)"
  by (simp add: hex_digit_def)

lemma hex_val_digit: "n < 16 \<Longrightarrow> hex_val (hex_digit n) = Some n"
  by (auto simp: hex_val_def of_char_hex_digit is_digit_def Let_def)

lemma hex_digit_ascii: "n < 16 \<Longrightarrow> \<not> is_continuation (hex_digit n) \<and> hex_digit n \<noteq> CHR ''+''"
  by (auto simp: is_continuation_def of_char_hex_digit dest!: arg_cong [where f = "of_char :: char \<Rightarrow> nat"]
      split: if_splits)

lemma hex_pair_digits: "hex_pair (hex_digit (unat b div 16)) (hex_digit (unat b mod 16)) = Some b"
proof -
  have "unat b < 256" using unsigned_less [of b] by simp
  then have "unat b div 16 < 16" "unat b mod 16 < 16" by auto
  then have "hex_pair (hex_digit (unat b div 16)) (hex_digit (unat b mod 16)) =
      Some (of_nat (16 * (unat b div 16) + unat b mod 16))"
    by (simp add: hex_pair_def hex_val_digit hex_digit_ascii del: of_nat_add of_nat_mult mult_div_mod_eq)
  then show ?thesis by (simp only: mult_div_mod_eq) simp
qed

lemma bytes_to_hex_Cons:
  "bytes_to_hex (b # bs) = hex_digit (unat b div 16) # hex_digit (unat b mod 16) # bytes_to_hex bs"
  by (simp add: bytes_to_hex_def)

lemma bytes_to_hex_ascii: "bytes_to_hex bs \<noteq> [] \<Longrightarrow> \<not> is_continuation (hd (bytes_to_hex bs))"
proof (cases bs)
  case (Cons b bs')
  have "unat b < 256" using unsigned_less [of b] by simp
  then have "unat b div 16 < 16" by auto
  with Cons show ?thesis by (simp add: bytes_to_hex_Cons hex_digit_ascii)
qed (simp add: bytes_to_hex_def)

lemma hex_pairs_bytes_to_hex: "hex_pairs (bytes_to_hex bs) = Some (Some bs)"
proof (induction bs)
  case (Cons b bs)
  have "unat b < 256" using unsigned_less [of b] by simp
  then have "unat b div 16 < 16" by auto
  then show ?case
    using Cons by (auto simp: bytes_to_hex_Cons hex_digit_ascii hex_pair_digits bytes_to_hex_ascii)
qed (simp add: bytes_to_hex_def)

lemma even_length_hex: "length (bytes_to_hex bs) mod 2 = 0"
  by (induction bs) (simp_all add: bytes_to_hex_def)

lemma is_digit_seps [simp]: "\<not> is_digit CHR ''/''" "\<not> is_digit CHR ''_''" "\<not> is_digit CHR ''.''"
  by (simp_all add: is_digit_def)

lemma split_once_sync_key:
  "split_once (CHR ''/'') (show_word d @ CHR ''/'' # leaf) = Some (show_word d, leaf)"
  by (rule split_once_sep) (rule show_word_no_char, simp)

section \<open>Lemmas on memberships\<close>

text \<open>The abstract state of the membership tables: which mods each source claims.\<close>

definition membership :: "sync_state \<Rightarrow> string \<Rightarrow> u64 set" where
  "membership st s = {m. (s, m) \<in> set (source_mods st)}"

lemma set_mods_of: "set (mods_of s st) = membership st s"
  by (force simp: mods_of_def membership_def)

lemma exec_eq_Inr [result_simps]: "exec st x = Inr y \<longleftrightarrow> ss_up st \<and> y = x"
  by (auto simp: exec_def)

lemma set_source_mods_rows:
  assumes "set_source_mods s ids st = Inr st'"
  shows "membership st' = (membership st)(s := set ids)"
    and "distinct (source_mods st) \<Longrightarrow> distinct (source_mods st')"
    and "sources st' = sources st" "ss_up st'"
proof -
  let ?ex = "set (mods_of s st)"
  have st': "source_mods st' =
      filter (\<lambda>(t, m). \<not> (t = s \<and> m \<in> ?ex \<and> m \<notin> set ids)) (source_mods st)
      @ map (Pair s) (filter (\<lambda>m. m \<notin> ?ex) (dedup_seen [] ids))"
    and rest: "sources st' = sources st" "ss_up st'"
    using assms by (auto simp: set_source_mods_def result_simps Let_def)
  show "membership st' = (membership st)(s := set ids)"
    by (auto simp: fun_eq_iff membership_def st' set_mods_of)
  show "distinct (source_mods st) \<Longrightarrow> distinct (source_mods st')"
    by (auto simp: st' distinct_map inj_on_def set_mods_of membership_def)
  show "sources st' = sources st" "ss_up st'" by (fact rest)+
qed

lemma desired_set:
  "desired_mod_ids st = Inr ids \<Longrightarrow> distinct ids \<and> set ids = (\<Union>s. membership st s)"
  by (force simp: desired_mod_ids_def result_simps membership_def)

lemma mod_row_key:
  "synced_mod_of st (''107410/'' @ show_word i, m, sz) =
     Some \<lparr>sm_mod_id = i, sm_manifest_id = m, sm_size_bytes = sz, sm_title = title_of (show_word i) st\<rparr>"
  by (simp add: synced_mod_of_def key_tail_def)

text \<open>No two keys of the table name the same mod, as when every key was made by \<open>sync_key\<close>.\<close>

definition canonical_keys :: "sync_state \<Rightarrow> bool" where
  "canonical_keys st = (distinct (map fst (synced st)) \<and> (\<forall>row \<in> set (synced st). \<forall>r. synced_mod_of st row = Some r \<longrightarrow>
     fst row = ''107410/'' @ show_word (sm_mod_id r)))"

lemma synced_mod_of_cong:
  "mod_titles st = mod_titles st' \<Longrightarrow> synced_mod_of st row = synced_mod_of st' row"
  by (auto simp: synced_mod_of_def title_of_def split: prod.splits option.splits)

lemma find_map_filter:
  "find P (List.map_filter f xs) =
     Option.bind (find (\<lambda>x. case f x of Some y \<Rightarrow> P y | None \<Rightarrow> False) xs) f"
  by (induction xs) (auto simp: map_filter_def split: option.splits)

lemma find_unique:
  assumes "x \<in> set xs" "P x" "\<And>y. y \<in> set xs \<Longrightarrow> P y \<Longrightarrow> y = x"
  shows "find P xs = Some x"
proof (cases "find P xs")
  case None
  then show ?thesis using assms(1,2) by (auto simp: find_None_iff)
next
  case (Some y)
  then show ?thesis using assms(3) find_SomeD by metis
qed

lemma set_alist_update:
  "distinct (map fst al) \<Longrightarrow>
   (a, b) \<in> set (AList.update k v al) \<longleftrightarrow> (a = k \<and> b = v) \<or> (a \<noteq> k \<and> (a, b) \<in> set al)"
  by (induction al) (force split: if_splits)+

lemma mark_synced_last:
  "ss_up c \<Longrightarrow> last_manifest_id k (mark_synced k' m sz c) = (if k = k' then Some m else last_manifest_id k c)"
  "ss_up (mark_synced k' m sz c) = ss_up c"
  by (auto simp: last_manifest_id_def mark_synced_def swallow_def update_conv')

section \<open>The verified markers as an interface\<close>

text \<open>What the downloader relies on when it skips a verification.\<close>

locale marker_store =
  fixes synced_at :: "string \<Rightarrow> u64 \<Rightarrow> bool \<Rightarrow> 's \<Rightarrow> bool"
    and mark :: "string \<Rightarrow> u64 \<Rightarrow> u64 \<Rightarrow> 's \<Rightarrow> 's"
    and drop_mark :: "string \<Rightarrow> 's \<Rightarrow> 's"
    and answers :: "'s \<Rightarrow> bool"
  assumes marked: "answers s \<Longrightarrow> synced_at k m True (mark k m sz s)"
    and marked_only: "answers s \<Longrightarrow> synced_at k m' e (mark k m sz s) \<Longrightarrow> m' = m \<and> e"
    and marked_other: "k' \<noteq> k \<Longrightarrow> synced_at k' m' e (mark k m sz s) = synced_at k' m' e s"
    and dropped: "answers s \<Longrightarrow> \<not> synced_at k m e (drop_mark k s)"
    and dropped_other: "k' \<noteq> k \<Longrightarrow> synced_at k' m' e (drop_mark k s) = synced_at k' m' e s"
    and answers_mark: "answers (mark k m sz s) = answers s"
    and answers_drop: "answers (drop_mark k s) = answers s"
begin

text \<open>A skip after any sequence of marks and invalidations is justified by a mark of exactly that
  manifest which nothing has replaced or dropped since.\<close>

fun run :: "(string \<times> (u64 \<times> u64) option) list \<Rightarrow> 's \<Rightarrow> 's" where
  "run [] s = s"
| "run ((k, Some (m, sz)) # ops) s = run ops (mark k m sz s)"
| "run ((k, None) # ops) s = run ops (drop_mark k s)"

lemma run_append: "run (xs @ ys) s = run ys (run xs s)"
  by (induction xs s rule: run.induct) auto

lemma answers_run [simp]: "answers (run ops s) = answers s"
  by (induction ops s rule: run.induct) (auto simp: answers_mark answers_drop)

lemma run_other: "k \<notin> fst ` set ops \<Longrightarrow> synced_at k m e (run ops s) = synced_at k m e s"
  by (induction ops s rule: run.induct) (auto simp: marked_other dropped_other)

lemma skip_justified:
  assumes "answers s" "synced_at k m e (run ops s)" "k \<in> fst ` set ops"
  shows "\<exists>xs ys sz. ops = xs @ (k, Some (m, sz)) # ys \<and> k \<notin> fst ` set ys"
proof -
  from assms(3) obtain r where r: "(k, r) \<in> set ops" by auto
  then have "\<exists>o_p \<in> set ops. fst o_p = k" by force
  then obtain xs o_p ys where split: "ops = xs @ o_p # ys" "fst o_p = k" "\<forall>z \<in> set ys. fst z \<noteq> k"
    using split_list_last_prop [of ops "\<lambda>z. fst z = k"] by blast
  then have ys: "k \<notin> fst ` set ys" by auto
  have at: "synced_at k m e (run [o_p] (run xs s))"
    using assms(2) run_other [OF ys, of m e "run (xs @ [o_p]) s"]
    by (simp add: split(1) run_append del: run.simps) (simp add: run_append [symmetric] del: run.simps)
  obtain v where o_p: "o_p = (k, v)" using split(2) by (cases o_p) auto
  show ?thesis
  proof (cases v)
    case None
    with at o_p show ?thesis using dropped [of "run xs s"] assms(1) by simp
  next
    case (Some mz)
    then obtain m' sz where "v = Some (m', sz)" by (cases mz) auto
    moreover from this at o_p have "m = m'"
      using marked_only [of "run xs s"] assms(1) by simp
    ultimately show ?thesis using split(1) o_p ys by blast
  qed
qed

end

interpretation markers: marker_store is_synced mark_synced invalidate ss_up
  by unfold_locales
     (auto simp: is_synced_def last_manifest_id_def mark_synced_def invalidate_def swallow_def
        update_conv' delete_conv' split: if_splits)

section \<open>Properties\<close>

text \<open>C2: the lock is exclusive as long as no guard outlives the stale limit: in every run in which
  each guard's release has run within \<open>STALE_LOCK_SECS\<close> of its acquisition (processes may crash at
  any point, and releases run detached), no key is ever guarded twice.\<close>

theorem lock_mutual_exclusion:
  assumes "timely_reach w" "g \<in> set (lw_guards w)" "g' \<in> set (lw_guards w)" "guard_key g = guard_key g'"
  shows "g = g' \<and> distinct (map guard_key (lw_guards w))"
proof -
  have "distinct (map guard_key (lw_guards w))"
    using timely_reach_inv [OF assms(1)] by (simp add: lock_inv_def)
  then show ?thesis using assms(2-4) by (simp add: distinct_map inj_on_def)
qed

definition one_guard :: lock_world where
  "one_guard = init_world\<lparr>lw_state := empty_state\<lparr>locks := [(''k'', ''h'', 0)]\<rparr>,
     lw_guards := [(1, ''k'', 0)]\<rparr>"

lemma one_guard_step: "lock_step init_world one_guard"
  using insert_lock [of 0 init_world "''k''" "''h''" "empty_state\<lparr>locks := [(''k'', ''h'', 0)]\<rparr>" 1]
  by (simp add: one_guard_def init_world_def empty_state_def try_insert_lock_True)

theorem lock_mutual_exclusion_witness:
  "timely_reach one_guard \<and> lw_guards one_guard \<noteq> [] \<and> distinct (map guard_key (lw_guards one_guard))"
proof -
  have "timely init_world" by (simp add: timely_def init_world_def)
  then have reach: "timely_reach one_guard" using timely_next timely_init one_guard_step by blast
  have g: "(1, ''k'', 0) \<in> set (lw_guards one_guard)" by (simp add: one_guard_def)
  show ?thesis using lock_mutual_exclusion [OF reach g g refl] reach g by auto
qed

text \<open>A holder that outlives the limit breaks the exclusion of others, not only its own: after
  its row is stolen, its own release deletes the thief's fresh row, and a third process acquires the
  lock while the thief, well within the limit, still holds it.\<close>

theorem stale_release_frees_the_thief:
  "\<exists>w. lock_reach w \<and> timely w
     \<and> (\<exists>p q t t'. p \<noteq> q \<and> (p, ''k'', t) \<in> set (lw_guards w) \<and> (q, ''k'', t') \<in> set (lw_guards w))"
proof -
  define w2 where "w2 = one_guard\<lparr>lw_clock := 1801\<rparr>"
  define w3 where "w3 = w2\<lparr>lw_state := empty_state\<lparr>locks := [(''k'', ''b'', 1801)]\<rparr>,
    lw_guards := [(2, ''k'', 1801), (1, ''k'', 0)]\<rparr>"
  define w4 where "w4 = w3\<lparr>lw_guards := [(2, ''k'', 1801)], lw_pending := [(1, ''k'', 0)]\<rparr>"
  define w5 where "w5 = w4\<lparr>lw_pending := [], lw_state := empty_state\<rparr>"
  define w6 where "w6 = w5\<lparr>lw_state := empty_state\<lparr>locks := [(''k'', ''c'', 1801)]\<rparr>,
    lw_guards := [(3, ''k'', 1801), (2, ''k'', 1801)]\<rparr>"
  note defs = w6_def w5_def w4_def w3_def w2_def one_guard_def init_world_def empty_state_def
  have "lock_step one_guard w2"
    using tick [of one_guard 1801] by (simp add: defs)
  moreover have "lock_step w2 w3"
    using steal_lock [of 1801 w2 "''k''" "''b''" "empty_state\<lparr>locks := [(''k'', ''b'', 1801)]\<rparr>" 2]
    by (simp add: defs try_steal_lock_True STALE_LOCK_SECS_def)
  moreover have "lock_step w3 w4"
    using drop_guard [of "(1, ''k'', 0)" w3] by (simp add: defs)
  moreover have "lock_step w4 w5"
    using run_release [of "(1, ''k'', 0)" w4] by (simp add: defs release_def swallow_def)
  moreover have "lock_step w5 w6"
    using insert_lock [of 1801 w5 "''k''" "''c''" "empty_state\<lparr>locks := [(''k'', ''c'', 1801)]\<rparr>" 3]
    by (simp add: defs try_insert_lock_True)
  ultimately have "lock_reach w6"
    using lock_init one_guard_step by (meson lock_next)
  moreover have "timely w6" by (simp add: defs timely_def STALE_LOCK_SECS_def)
  moreover have "(3, ''k'', 1801) \<in> set (lw_guards w6)" "(2, ''k'', 1801) \<in> set (lw_guards w6)"
    by (simp_all add: defs)
  ultimately show ?thesis by (metis numeral_eq_iff num.distinct(5))
qed

text \<open>A crashed holder cannot block forever: whatever row a key has, an attempt made more than
  \<open>STALE_LOCK_SECS\<close> after the time in it succeeds and leaves the caller's own row.\<close>

theorem try_acquire_recovers:
  assumes "ss_up st" "\<forall>h acq. map_of (locks st) key = Some (h, acq) \<longrightarrow> STALE_LOCK_SECS < now - acq"
  shows "\<exists>st'. try_acquire now key holder st = Inr (True, st')
     \<and> map_of (locks st') = (map_of (locks st))(key \<mapsto> (holder, now))"
  using assms
  by (cases "map_of (locks st) key")
     (auto simp: try_acquire_def exec_def try_insert_lock_def try_steal_lock_def delete_conv')

theorem try_acquire_recovers_witness:
  "\<exists>st'. try_acquire 5000 ''k'' ''b'' (lw_state one_guard) = Inr (True, st')
     \<and> map_of (locks st') ''k'' = Some (''b'', 5000)"
  using try_acquire_recovers [of "lw_state one_guard" "''k''" 5000 "''b''"]
  by (auto simp: one_guard_def empty_state_def STALE_LOCK_SECS_def)

text \<open>A verification is skipped only for a manifest that was itself marked: after any sequence of
  marks and invalidations that touches a key, the key reads as synced at a manifest only if the last
  operation on it marked exactly that manifest, and the directory exists.\<close>

theorem skip_only_after_mark:
  assumes "ss_up st" "is_synced key m dir_exists (markers.run ops st)" "key \<in> fst ` set ops"
  shows "dir_exists \<and> (\<exists>xs ys sz. ops = xs @ (key, Some (m, sz)) # ys \<and> key \<notin> fst ` set ys)"
proof -
  have dir_exists using assms(2) by (simp add: is_synced_def split: if_splits)
  then show ?thesis using markers.skip_justified [OF assms] by blast
qed

theorem skip_only_after_mark_witness:
  "is_synced ''k'' 7 True (markers.run [(''k'', Some (3, 0)), (''k'', Some (7, 0))] empty_state)
   \<and> (\<exists>xs ys sz. [(''k'', Some (3 :: u64, 0 :: u64)), (''k'', Some (7, 0))] = xs @ (''k'', Some (7, sz)) # ys)"
proof -
  have up: "ss_up empty_state" by (simp add: empty_state_def)
  have run: "is_synced ''k'' 7 True (markers.run [(''k'', Some (3, 0)), (''k'', Some (7, 0))] empty_state)"
    by (simp add: is_synced_def last_manifest_id_def mark_synced_def swallow_def empty_state_def)
  from skip_only_after_mark [OF up run] run show ?thesis by auto
qed

text \<open>The depot key cache survives its round trip through hexadecimal.\<close>

theorem hex_roundtrip: "hex_to_bytes (bytes_to_hex bs) = Some (Some bs)"
  by (simp add: hex_to_bytes_def even_length_hex hex_pairs_bytes_to_hex)

text \<open>Two synced things share a state key only if they have the same depot and the same leaf
  directory name, and two manifests share a cache file only if they are the same manifest of the
  same depot.\<close>

theorem cache_keys_injective:
  "(sync_key d p = sync_key d' p' \<longleftrightarrow>
      d = d' \<and> (case file_name p of Some l \<Rightarrow> l | None \<Rightarrow> ''?'') = (case file_name p' of Some l \<Rightarrow> l | None \<Rightarrow> ''?''))
   \<and> (manifest_path dir d m = manifest_path dir d' m' \<longleftrightarrow> d = d' \<and> m = m')"
  by (simp add: sync_key_def manifest_path_def append_sep_inject show_word_no_char)

text \<open>C13: registering or re-resolving a source replaces exactly that source's membership, deleting
  one removes exactly its own claims, and the desired list is the duplicate-free union of what all
  sources claim, so a mod another source still claims stays desired.\<close>

theorem source_membership_refines:
  assumes "ss_up st"
  shows "\<exists>st1 st2 ids1 ids2.
     set_source_mods s ids st = Inr st1 \<and> membership st1 = (membership st)(s := set ids)
     \<and> desired_mod_ids st1 = Inr ids1 \<and> distinct ids1
     \<and> set ids1 = set ids \<union> (\<Union>t \<in> - {s}. membership st t)
     \<and> delete_source s st = Inr st2 \<and> membership st2 = (membership st)(s := {})
     \<and> desired_mod_ids st2 = Inr ids2 \<and> distinct ids2
     \<and> set ids2 = (\<Union>t \<in> - {s}. membership st t)"
proof -
  obtain st1 where st1: "set_source_mods s ids st = Inr st1"
    using assms by (simp add: set_source_mods_def exec_def)
  obtain st2 where st2: "delete_source s st = Inr st2"
    using assms by (simp add: delete_source_def exec_def)
  have up2: "ss_up st2" and m2: "membership st2 = (membership st)(s := {})"
    using st2 by (auto simp: delete_source_def result_simps membership_def fun_eq_iff)
  note m1 = set_source_mods_rows [OF st1]
  obtain ids1 ids2 where ids: "desired_mod_ids st1 = Inr ids1" "desired_mod_ids st2 = Inr ids2"
    using m1(4) up2 by (simp add: desired_mod_ids_def exec_def)
  have "(\<Union>t. ((membership st)(s := X)) t) = X \<union> (\<Union>t \<in> - {s}. membership st t)" for X
    by auto
  then show ?thesis
    using st1 st2 m1(1) m2 ids desired_set [OF ids(1)] desired_set [OF ids(2)] by auto
qed

theorem source_membership_refines_witness:
  "\<exists>st1 ids1. set_source_mods ''a'' [3, 3, 5] empty_state = Inr st1
     \<and> desired_mod_ids st1 = Inr ids1 \<and> set ids1 = {3, 5}"
proof -
  have "ss_up empty_state" and "membership empty_state = (\<lambda>_. {})"
    by (simp_all add: empty_state_def membership_def fun_eq_iff)
  then show ?thesis
    using source_membership_refines [of empty_state "''a''" "[3, 3, 5]"] by auto
qed

text \<open>A workshop mod that was just marked is reported with the manifest and size of that mark,
  and its key is the one the downloader builds from its install directory.\<close>

theorem marked_mod_is_reported:
  assumes "ss_up st" "canonical_keys st"
  shows "get_synced_mod i (mark_synced (sync_key 107410 (dir @ [show_word i])) m sz st) =
     Some \<lparr>sm_mod_id = i, sm_manifest_id = m, sm_size_bytes = sz, sm_title = title_of (show_word i) st\<rparr>"
proof -
  let ?k = "''107410/'' @ show_word i"
  let ?st' = "mark_synced ?k m sz st"
  have dots: "show_word i \<noteq> ''..''"
    using show_word_digits [of i] by (auto simp: is_digit_def)
  have "show_word (107410 :: u32) = ''107410''" by (simp add: show_word_def show_nat.simps)
  then have key: "sync_key 107410 (dir @ [show_word i]) = ?k"
    using dots by (simp add: sync_key_def file_name_def)
  have st': "synced ?st' = AList.update ?k (m, sz) (synced st)" "ss_up ?st'" "mod_titles ?st' = mod_titles st"
    using assms(1) by (simp_all add: mark_synced_def swallow_def)
  have cong: "synced_mod_of ?st' = synced_mod_of st"
    by (rule ext, rule synced_mod_of_cong, rule st'(3))
  let ?P = "\<lambda>row. case synced_mod_of st row of Some y \<Rightarrow> sm_mod_id y = i | None \<Rightarrow> False"
  have rows: "row \<in> set (AList.update ?k (m, sz) (synced st)) \<longleftrightarrow>
      row = (?k, m, sz) \<or> (fst row \<noteq> ?k \<and> row \<in> set (synced st))" for row
    using assms(2) by (cases row) (auto simp: canonical_keys_def set_alist_update)
  have "find ?P (AList.update ?k (m, sz) (synced st)) = Some (?k, m, sz)"
  proof (rule find_unique)
    show "(?k, m, sz) \<in> set (AList.update ?k (m, sz) (synced st))" by (simp add: rows del: append_Cons)
    show "?P (?k, m, sz)" by (simp only: mod_row_key) simp
    fix row
    assume row: "row \<in> set (AList.update ?k (m, sz) (synced st))" "?P row"
    then obtain r where r: "synced_mod_of st row = Some r" "sm_mod_id r = i"
      by (auto split: option.splits)
    with assms(2) have "row \<in> set (synced st) \<Longrightarrow> fst row = ?k"
      unfolding canonical_keys_def by blast
    with row(1) show "row = (?k, m, sz)" unfolding rows by blast
  qed
  then show ?thesis
    unfolding key get_synced_mod_def list_synced_mods_def
    by (simp only: st' cong find_map_filter mod_row_key if_True bind.simps)
qed

theorem marked_mod_is_reported_witness:
  "get_synced_mod 450814997 (mark_synced (sync_key 107410 ([''mods''] @ [show_word (450814997 :: u64)])) 9 100 empty_state) =
     Some \<lparr>sm_mod_id = 450814997, sm_manifest_id = 9, sm_size_bytes = 100, sm_title = []\<rparr>"
proof -
  have "ss_up empty_state" "canonical_keys empty_state" "title_of l empty_state = []" for l
    by (simp_all add: empty_state_def canonical_keys_def title_of_def)
  then show ?thesis using marked_mod_is_reported [of empty_state 450814997 "[''mods'']" 9 100] by simp
qed

end
