(* ===== verification/Resolve.thy ===== *)
theory Resolve
  imports Prelude
begin

text \<open>
  Turning candidate Workshop ids into a flat, ordered list of mods
  (\<open>crates/steam-sync/src/steam.rs\<close>, \<open>resolve_source_ids\<close> and its helpers). Steam's
  \<open>PublishedFile.GetDetails\<close>, retries included, is a parameter that answers a request or fails. The
  request loop is bounded by \<open>MAX_COLLECTION_DEPTH\<close>, so it is recursion on the rounds left; the
  depth-first walk is a worklist (the members of a collection in front of the rest of the loop that
  was interrupted for them), and \<open>walk_recursive\<close> below states the recursive equation of the source.
\<close>

section \<open>Data\<close>

record wchild =
  ch_sortorder :: "u32 option"
  ch_id :: "u64 option"

record details =
  d_id :: "u64 option"
  d_result :: "u32 option"
  d_title :: "string option"
  d_file_type :: "u32 option"
  d_file_size :: "u64 option"
  d_children :: "wchild list"

record resolved_mod =
  rm_id :: u64
  rm_title :: string
  rm_file_size :: u64

record resolve_outcome =
  ro_mods :: "resolved_mod list"
  ro_unresolved :: "u64 list"
  ro_candidate_titles :: "(u64, string) hashmap"
  ro_candidate_is_collection :: "(u64, bool) hashmap"

definition MAX_COLLECTION_DEPTH :: nat where
  "MAX_COLLECTION_DEPTH = 8"

definition WORKSHOP_FILE_TYPE_COLLECTION :: u32 where
  "WORKSHOP_FILE_TYPE_COLLECTION = 2"

definition opt_default :: "'a \<Rightarrow> 'a option \<Rightarrow> 'a" where
  "opt_default x r = (case r of None \<Rightarrow> x | Some y \<Rightarrow> y)"

section \<open>Ordering and flattening\<close>

definition ordered_children :: "wchild list \<Rightarrow> u64 list" where
  "ordered_children cs =
    map snd (sort_key (\<lambda>p. unat (fst p))
      (List.map_filter (\<lambda>c. map_option (\<lambda>i. (opt_default (- 1) (ch_sortorder c), i)) (ch_id c)) cs))"

record walk_state =
  w_seen :: "u64 list"
  w_mods :: "(u64, string \<times> u64) hashmap"
  w_out :: "resolved_mod list"
  w_unresolved :: "u64 list"

text \<open>The two leaf branches of the loop body: a resolved mod is moved to the output, anything else is
  reported.\<close>

definition visit_leaf :: "u64 \<Rightarrow> walk_state \<Rightarrow> walk_state" where
  "visit_leaf i s =
    (case map_of (w_mods s) i of
       Some (title, file_size) \<Rightarrow>
         s\<lparr>w_seen := i # w_seen s,
           w_mods := AList.delete i (w_mods s),
           w_out := w_out s @ [\<lparr>rm_id = i, rm_title = title, rm_file_size = file_size\<rparr>]\<rparr>
     | None \<Rightarrow> s\<lparr>w_seen := i # w_seen s, w_unresolved := w_unresolved s @ [i]\<rparr>)"

lemma visit_leaf_seen [simp]: "w_seen (visit_leaf i s) = i # w_seen s"
  by (simp add: visit_leaf_def split: option.splits)

lemma unseen_key_card:
  "map_of ch i = Some ms \<Longrightarrow> i \<notin> S \<Longrightarrow> card (fst ` set ch - insert i S) < card (fst ` set ch - S)"
proof -
  assume "map_of ch i = Some ms" "i \<notin> S"
  then have "i \<in> fst ` set ch - S" by (metis DiffI domI dom_map_of_conv_image_fst)
  then show ?thesis by (intro psubset_card_mono) auto
qed

lemma unseen_non_key: "map_of ch i = None \<Longrightarrow> fst ` set ch - insert i S = fst ` set ch - S"
  by (auto simp: map_of_eq_None_iff)

function walk :: "u64 list \<Rightarrow> (u64, u64 list) hashmap \<Rightarrow> walk_state \<Rightarrow> walk_state" where
  "walk [] children_of s = s"
| "walk (i # ids) children_of s =
     (if i \<in> set (w_seen s) then walk ids children_of s
      else (case map_of children_of i of
        Some members \<Rightarrow> walk (members @ ids) children_of (s\<lparr>w_seen := i # w_seen s\<rparr>)
      | None \<Rightarrow> walk ids children_of (visit_leaf i s)))"
  by pat_completeness auto
termination
  by (relation "measures [\<lambda>(ids, ch, s). card (fst ` set ch - set (w_seen s)), \<lambda>(ids, ch, s). length ids]")
     (auto simp: unseen_key_card unseen_non_key)

definition flatten_in_order ::
  "u64 list \<Rightarrow> (u64, u64 list) hashmap \<Rightarrow> (u64, string \<times> u64) hashmap
   \<Rightarrow> resolved_mod list \<times> u64 list" where
  "flatten_in_order candidates children_of mods =
    (let s = walk candidates children_of
               \<lparr>w_seen = [], w_mods = mods, w_out = [], w_unresolved = []\<rparr>
     in (w_out s, w_unresolved s))"

section \<open>The request rounds\<close>

record round_state =
  r_resolved :: "(u64, string \<times> u64) hashmap"
  r_children_of :: "(u64, u64 list) hashmap"
  r_answered :: "u64 list"
  r_titles :: "(u64, string) hashmap"
  r_is_collection :: "(u64, bool) hashmap"

definition round_init :: round_state where
  "round_init = \<lparr>r_resolved = [], r_children_of = [], r_answered = [], r_titles = [],
     r_is_collection = []\<rparr>"

definition push_new :: "u64 list \<Rightarrow> u64 list \<Rightarrow> u64 list \<Rightarrow> u64 list" where
  "push_new answered members next_frontier =
    fold (\<lambda>c nf. if c \<notin> set answered \<and> c \<notin> set nf then nf @ [c] else nf) members next_frontier"

text \<open>One entry of a response; the flag says whether this is the first round.\<close>

definition take_details :: "bool \<Rightarrow> details \<Rightarrow> round_state \<times> u64 list \<Rightarrow> round_state \<times> u64 list" where
  "take_details first d acc =
    (case acc of (s, nf) \<Rightarrow>
      (let i = opt_default 0 (d_id d) in
       if opt_default 0 (d_result d) \<noteq> 1 then (s, nf)
       else
         (let title = opt_default [] (d_title d);
              coll = (opt_default 0 (d_file_type d) = WORKSHOP_FILE_TYPE_COLLECTION);
              s1 = s\<lparr>r_answered := i # r_answered s\<rparr>;
              s2 = (if first
                    then s1\<lparr>r_titles := AList.update i title (r_titles s1),
                            r_is_collection := AList.update i coll (r_is_collection s1)\<rparr>
                    else s1)
          in if coll
             then (let members = ordered_children (d_children d) in
                   (s2\<lparr>r_children_of := AList.update i members (r_children_of s2)\<rparr>,
                    push_new (r_answered s2) members nf))
             else (s2\<lparr>r_resolved := AList.update i (title, opt_default 0 (d_file_size d)) (r_resolved s2)\<rparr>,
                   nf))))"

fun resolve_rounds ::
  "(u64 list \<Rightarrow> string + details list) \<Rightarrow> nat \<Rightarrow> bool \<Rightarrow> u64 list \<Rightarrow> round_state \<Rightarrow> string + round_state" where
  "resolve_rounds get_details 0 first frontier s = Inr s"
| "resolve_rounds get_details (Suc n) first frontier s =
     (if frontier = [] then Inr s
      else rbind (get_details frontier) (\<lambda>resp.
        let (s', nf) = fold (take_details first) resp (s, []) in
        resolve_rounds get_details n False nf s'))"

definition resolve_source_ids ::
  "(u64 list \<Rightarrow> string + details list) \<Rightarrow> u64 list \<Rightarrow> string + resolve_outcome" where
  "resolve_source_ids get_details candidate_ids =
    rbind (resolve_rounds get_details MAX_COLLECTION_DEPTH True candidate_ids round_init) (\<lambda>s.
    let (mods, unresolved) = flatten_in_order candidate_ids (r_children_of s) (r_resolved s) in
    Inr \<lparr>ro_mods = mods, ro_unresolved = unresolved, ro_candidate_titles = r_titles s,
         ro_candidate_is_collection = r_is_collection s\<rparr>)"

section \<open>What the walk visits\<close>

text \<open>The ids reachable from the candidates through the collections that were expanded.\<close>

inductive_set reachable :: "(u64, u64 list) hashmap \<Rightarrow> u64 list \<Rightarrow> u64 set"
  for children_of :: "(u64, u64 list) hashmap" and ids :: "u64 list" where
  listed: "i \<in> set ids \<Longrightarrow> i \<in> reachable children_of ids"
| member: "i \<in> reachable children_of ids \<Longrightarrow> map_of children_of i = Some ms \<Longrightarrow> j \<in> set ms
    \<Longrightarrow> j \<in> reachable children_of ids"

lemma reachable_mono: "set ids \<subseteq> reachable ch ids' \<Longrightarrow> reachable ch ids \<subseteq> reachable ch ids'"
proof
  fix x
  assume sub: "set ids \<subseteq> reachable ch ids'" and "x \<in> reachable ch ids"
  from this(2) show "x \<in> reachable ch ids'"
  proof (induction rule: reachable.induct)
    case (listed i)
    then show ?case using sub by blast
  next
    case (member i ms j)
    then show ?case by (blast intro: reachable.member)
  qed
qed

lemma reachable_tail: "reachable ch ids \<subseteq> reachable ch (i # ids)"
  by (rule reachable_mono) (auto intro: reachable.listed)

lemma reachable_members:
  "map_of ch i = Some ms \<Longrightarrow> reachable ch (ms @ ids) \<subseteq> reachable ch (i # ids)"
  by (rule reachable_mono)
     (auto intro: reachable.listed reachable.member [OF reachable.listed])

lemma walk_append: "walk (xs @ ys) ch s = walk ys ch (walk xs ch s)"
proof (induction xs ch s rule: walk.induct)
  case (2 i ids ch s)
  then show ?case by (auto split: option.splits)
qed simp

text \<open>The recursive form of the source: the members are walked, then the loop goes on.\<close>

lemma walk_recursive:
  "i \<notin> set (w_seen s) \<Longrightarrow> map_of ch i = Some members \<Longrightarrow>
   walk (i # ids) ch s = walk ids ch (walk members ch (s\<lparr>w_seen := i # w_seen s\<rparr>))"
  by (simp add: walk_append)

lemma walk_seen_ge: "set (w_seen s) \<union> set ids \<subseteq> set (w_seen (walk ids ch s))"
proof (induction ids ch s rule: walk.induct)
  case (2 i ids ch s)
  then show ?case by (cases "i \<in> set (w_seen s)"; cases "map_of ch i") auto
qed simp

lemma walk_closed:
  "k \<in> set (w_seen (walk ids ch s)) \<Longrightarrow> k \<notin> set (w_seen s) \<Longrightarrow> map_of ch k = Some ms \<Longrightarrow>
   set ms \<subseteq> set (w_seen (walk ids ch s))"
proof (induction ids ch s rule: walk.induct)
  case (2 i ids ch s)
  consider (seen) "i \<in> set (w_seen s)" | (leaf) "i \<notin> set (w_seen s)" "map_of ch i = None"
    | (coll) members where "i \<notin> set (w_seen s)" "map_of ch i = Some members"
    by fastforce
  then show ?case
  proof cases
    case seen
    then show ?thesis using 2 by simp
  next
    case leaf
    then have "k \<noteq> i" using 2(6) by auto
    then show ?thesis using 2 leaf by simp
  next
    case coll
    show ?thesis
    proof (cases "k = i")
      case True
      then show ?thesis
        using walk_seen_ge [of "s\<lparr>w_seen := i # w_seen s\<rparr>" "members @ ids" ch] coll 2(6) by simp
    next
      case False
      then show ?thesis using 2 coll by simp
    qed
  qed
qed simp

lemma walk_seen_le: "set (w_seen (walk ids ch s)) \<subseteq> set (w_seen s) \<union> reachable ch ids"
proof (induction ids ch s rule: walk.induct)
  case (2 i ids ch s)
  have i: "i \<in> reachable ch (i # ids)" by (rule reachable.listed) simp
  note tail = reachable_tail [of ch ids i]
  consider (seen) "i \<in> set (w_seen s)" | (leaf) "i \<notin> set (w_seen s)" "map_of ch i = None"
    | (coll) members where "i \<notin> set (w_seen s)" "map_of ch i = Some members"
    by fastforce
  then show ?case
  proof cases
    case seen
    then show ?thesis using 2 tail by auto
  next
    case leaf
    then show ?thesis using 2 tail i by auto
  next
    case coll
    show ?thesis using 2(3) [OF coll] coll i reachable_members [OF coll(2), of ids] by auto
  qed
qed simp

lemma walk_seen_reachable:
  assumes "w_seen s = []"
  shows "set (w_seen (walk ids ch s)) = reachable ch ids"
proof
  show "set (w_seen (walk ids ch s)) \<subseteq> reachable ch ids"
    using walk_seen_le [of ids ch s] assms by simp
  show "reachable ch ids \<subseteq> set (w_seen (walk ids ch s))"
  proof
    fix x
    assume "x \<in> reachable ch ids"
    then show "x \<in> set (w_seen (walk ids ch s))"
    proof (induction rule: reachable.induct)
      case (listed i)
      then show ?case using walk_seen_ge by blast
    next
      case (member i ms j)
      then show ?case using walk_closed [of i ids ch s ms] assms by auto
    qed
  qed
qed

text \<open>What the walk appends to its two outputs, in terms of what it newly visits.\<close>

lemma walk_leaves:
  assumes "\<And>k. k \<notin> set (w_seen s) \<Longrightarrow> map_of (w_mods s) k = map_of md k"
  shows "\<exists>out un. map rm_id (w_out (walk ids ch s)) = map rm_id (w_out s) @ out
      \<and> w_unresolved (walk ids ch s) = w_unresolved s @ un
      \<and> distinct out \<and> distinct un
      \<and> set out = {k \<in> set (w_seen (walk ids ch s)) - set (w_seen s). map_of ch k = None \<and> map_of md k \<noteq> None}
      \<and> set un = {k \<in> set (w_seen (walk ids ch s)) - set (w_seen s). map_of ch k = None \<and> map_of md k = None}"
  using assms
proof (induction ids ch s rule: walk.induct)
  case (2 i ids ch s)
  consider (seen) "i \<in> set (w_seen s)" | (leaf) "i \<notin> set (w_seen s)" "map_of ch i = None"
    | (coll) members where "i \<notin> set (w_seen s)" "map_of ch i = Some members"
    by fastforce
  then show ?case
  proof cases
    case seen
    then show ?thesis using 2(1,4) by simp
  next
    case coll
    have "map_of (w_mods (s\<lparr>w_seen := i # w_seen s\<rparr>)) k = map_of md k"
      if "k \<notin> set (w_seen (s\<lparr>w_seen := i # w_seen s\<rparr>))" for k using 2(4) that by simp
    moreover have step: "walk (i # ids) ch s = walk (members @ ids) ch (s\<lparr>w_seen := i # w_seen s\<rparr>)"
      using coll by simp
    moreover have "{k \<in> X - set (i # w_seen s). map_of ch k = None \<and> P k} =
        {k \<in> X - set (w_seen s). map_of ch k = None \<and> P k}" for X P using coll by auto
    ultimately show ?thesis
      using 2(3) [OF coll] by (simp del: walk.simps)
  next
    case leaf
    have agree: "map_of (w_mods (visit_leaf i s)) k = map_of md k" if "k \<notin> set (w_seen (visit_leaf i s))" for k
      using 2(4) that by (auto simp: visit_leaf_def delete_conv' split: option.splits)
    have step: "walk (i # ids) ch s = walk ids ch (visit_leaf i s)" using leaf by simp
    from 2(2) [OF leaf agree] obtain out un where rest:
      "map rm_id (w_out (walk (i # ids) ch s)) = map rm_id (w_out (visit_leaf i s)) @ out"
      "w_unresolved (walk (i # ids) ch s) = w_unresolved (visit_leaf i s) @ un" "distinct out" "distinct un"
      "set out = {k \<in> set (w_seen (walk (i # ids) ch s)) - set (i # w_seen s). map_of ch k = None \<and> map_of md k \<noteq> None}"
      "set un = {k \<in> set (w_seen (walk (i # ids) ch s)) - set (i # w_seen s). map_of ch k = None \<and> map_of md k = None}"
      unfolding step visit_leaf_seen by blast
    have vis: "i \<in> set (w_seen (walk (i # ids) ch s))"
      using walk_seen_ge [of s "i # ids" ch] by auto
    have split_set: "{k \<in> set (w_seen (walk (i # ids) ch s)) - set (w_seen s). map_of ch k = None \<and> P k} =
        (if P i then {i} else {}) \<union>
        {k \<in> set (w_seen (walk (i # ids) ch s)) - set (i # w_seen s). map_of ch k = None \<and> P k}" for P
      using leaf vis by auto
    show ?thesis
    proof (cases "map_of md i")
      case None
      then have "map_of (w_mods s) i = None" using 2(4) leaf(1) by simp
      then have "map rm_id (w_out (walk (i # ids) ch s)) = map rm_id (w_out s) @ out"
        "w_unresolved (walk (i # ids) ch s) = w_unresolved s @ (i # un)"
        unfolding rest(1,2) by (simp_all add: visit_leaf_def)
      moreover have "set out = {k \<in> set (w_seen (walk (i # ids) ch s)) - set (w_seen s). map_of ch k = None \<and> map_of md k \<noteq> None}"
        unfolding split_set [of "\<lambda>k. map_of md k \<noteq> None"] rest(5) using None by simp
      moreover have "set (i # un) = {k \<in> set (w_seen (walk (i # ids) ch s)) - set (w_seen s). map_of ch k = None \<and> map_of md k = None}"
        unfolding split_set [of "\<lambda>k. map_of md k = None"] using rest(6) None by simp
      moreover have "distinct (i # un)" using rest(4,6) by simp
      ultimately show ?thesis
        using rest(3) by blast
    next
      case (Some p)
      then have "map_of (w_mods s) i = Some p" using 2(4) leaf(1) by simp
      then have "map rm_id (w_out (walk (i # ids) ch s)) = map rm_id (w_out s) @ (i # out)"
        "w_unresolved (walk (i # ids) ch s) = w_unresolved s @ un"
        unfolding rest(1,2) by (simp_all add: visit_leaf_def split: prod.splits)
      moreover have "set (i # out) = {k \<in> set (w_seen (walk (i # ids) ch s)) - set (w_seen s). map_of ch k = None \<and> map_of md k \<noteq> None}"
        unfolding split_set [of "\<lambda>k. map_of md k \<noteq> None"] using rest(5) Some by simp
      moreover have "set un = {k \<in> set (w_seen (walk (i # ids) ch s)) - set (w_seen s). map_of ch k = None \<and> map_of md k = None}"
        unfolding split_set [of "\<lambda>k. map_of md k = None"] rest(6) using Some by simp
      moreover have "distinct (i # out)" using rest(3,5) by simp
      ultimately show ?thesis
        using rest(4) by blast
    qed
  qed
qed simp

lemma walk_out_entries:
  assumes "\<And>k. k \<notin> set (w_seen s) \<Longrightarrow> map_of (w_mods s) k = map_of md k"
    and "\<forall>m \<in> set (w_out s). map_of md (rm_id m) = Some (rm_title m, rm_file_size m)"
  shows "\<forall>m \<in> set (w_out (walk ids ch s)). map_of md (rm_id m) = Some (rm_title m, rm_file_size m)"
  using assms
proof (induction ids ch s rule: walk.induct)
  case (2 i ids ch s)
  consider (seen) "i \<in> set (w_seen s)" | (leaf) "i \<notin> set (w_seen s)" "map_of ch i = None"
    | (coll) members where "i \<notin> set (w_seen s)" "map_of ch i = Some members"
    by fastforce
  then show ?case
  proof cases
    case seen
    then show ?thesis using 2(1,4,5) by simp
  next
    case coll
    then show ?thesis using 2(3) [OF coll] 2(4,5) by simp
  next
    case leaf
    have agree: "map_of (w_mods (visit_leaf i s)) k = map_of md k" if "k \<notin> set (w_seen (visit_leaf i s))" for k
      using 2(4) that by (auto simp: visit_leaf_def delete_conv' split: option.splits)
    moreover have "\<forall>m \<in> set (w_out (visit_leaf i s)). map_of md (rm_id m) = Some (rm_title m, rm_file_size m)"
      using 2(4) [of i] 2(5) leaf(1) by (auto simp: visit_leaf_def split: option.splits)
    ultimately show ?thesis using 2(2) [OF leaf] leaf by simp
  qed
qed simp

lemma walk_flat:
  assumes "\<forall>i \<in> set ids. map_of ch i = None"
    and "\<And>k. k \<notin> set (w_seen s) \<Longrightarrow> map_of (w_mods s) k = map_of md k"
  shows "map rm_id (w_out (walk ids ch s)) =
      map rm_id (w_out s) @ filter (\<lambda>i. map_of md i \<noteq> None) (dedup_seen (w_seen s) ids)"
  using assms
proof (induction ids arbitrary: s)
  case (Cons i ids)
  show ?case
  proof (cases "i \<in> set (w_seen s)")
    case True
    then show ?thesis using Cons by simp
  next
    case False
    have agree: "map_of (w_mods (visit_leaf i s)) k = map_of md k" if "k \<notin> set (w_seen (visit_leaf i s))" for k
      using Cons.prems(2) that by (auto simp: visit_leaf_def delete_conv' split: option.splits)
    have "map rm_id (w_out (visit_leaf i s)) = map rm_id (w_out s) @ (if map_of md i \<noteq> None then [i] else [])"
      using Cons.prems(2) [OF False] by (auto simp: visit_leaf_def split: option.splits)
    then show ?thesis
      using Cons.IH [OF _ agree] Cons.prems(1) False by simp
  qed
qed simp

text \<open>A candidate list with its collections replaced by their members.\<close>

definition expand :: "(u64, u64 list) hashmap \<Rightarrow> u64 \<Rightarrow> u64 list" where
  "expand ch i = (case map_of ch i of Some members \<Rightarrow> members | None \<Rightarrow> [i])"

lemma walk_flat_seen:
  "\<forall>i \<in> set ids. map_of ch i = None \<Longrightarrow> set (w_seen (walk ids ch s)) = set (w_seen s) \<union> set ids"
  by (induction ids arbitrary: s) auto

lemma walk_mods_agree:
  "(\<And>k. k \<notin> set (w_seen s) \<Longrightarrow> map_of (w_mods s) k = map_of md k) \<Longrightarrow>
   k \<notin> set (w_seen (walk ids ch s)) \<Longrightarrow> map_of (w_mods (walk ids ch s)) k = map_of md k"
proof (induction ids ch s rule: walk.induct)
  case (2 i ids ch s)
  have agree: "map_of (w_mods (visit_leaf i s)) k = map_of md k" if "k \<notin> set (w_seen (visit_leaf i s))" for k
    using 2(4) that by (auto simp: visit_leaf_def delete_conv' split: option.splits)
  then show ?case using 2 by (auto split: option.splits if_splits)
qed simp

lemma walk_one_level:
  assumes "\<forall>i \<in> set (concat (map (expand ch) ids)). map_of ch i = None"
    and "\<And>k. k \<notin> set (w_seen s) \<Longrightarrow> map_of (w_mods s) k = map_of md k"
    and "\<And>c ms. c \<in> set (w_seen s) \<Longrightarrow> map_of ch c = Some ms \<Longrightarrow> set ms \<subseteq> set (w_seen s)"
  shows "map rm_id (w_out (walk ids ch s)) = map rm_id (w_out s)
      @ filter (\<lambda>i. map_of md i \<noteq> None) (dedup_seen (w_seen s) (concat (map (expand ch) ids)))"
  using assms
proof (induction ids arbitrary: s)
  case (Cons i ids)
  show ?case
  proof (cases "map_of ch i")
    case None
    have "walk (i # ids) ch s = walk ids ch (walk [i] ch s)" using walk_append [of "[i]" ids ch s]
      by (simp only: append_Cons append_Nil)
    moreover have seen: "set (w_seen (walk [i] ch s)) = insert i (set (w_seen s))"
      using walk_flat_seen [of "[i]" ch s] None by auto
    moreover have "map rm_id (w_out (walk ids ch (walk [i] ch s))) = map rm_id (w_out (walk [i] ch s))
        @ filter (\<lambda>i. map_of md i \<noteq> None) (dedup_seen (w_seen (walk [i] ch s)) (concat (map (expand ch) ids)))"
    proof (rule Cons.IH)
      show "\<forall>j \<in> set (concat (map (expand ch) ids)). map_of ch j = None" using Cons.prems(1) by simp
      show "map_of (w_mods (walk [i] ch s)) k = map_of md k" if "k \<notin> set (w_seen (walk [i] ch s))" for k
        using that by (rule walk_mods_agree [rotated]) (rule Cons.prems(2))
      show "set ms \<subseteq> set (w_seen (walk [i] ch s))"
        if "c \<in> set (w_seen (walk [i] ch s))" "map_of ch c = Some ms" for c ms
        using that Cons.prems(3) [of c ms] None unfolding seen by auto
    qed
    moreover have "dedup_seen (w_seen (walk [i] ch s)) xs = dedup_seen (i # w_seen s) xs" for xs
      using seen by (intro dedup_seen_cong) auto
    moreover have "map rm_id (w_out (walk [i] ch s)) = map rm_id (w_out s)
        @ filter (\<lambda>i. map_of md i \<noteq> None) (dedup_seen (w_seen s) [i])"
      by (rule walk_flat) (use None Cons.prems(2) in auto)
    moreover have "dedup_seen (w_seen s) (concat (map (expand ch) (i # ids))) =
        dedup_seen (w_seen s) [i] @ dedup_seen (i # w_seen s) (concat (map (expand ch) ids))"
    proof -
      have exp: "concat (map (expand ch) (i # ids)) = [i] @ concat (map (expand ch) ids)"
        using None by (simp add: expand_def)
      show ?thesis
        unfolding exp by (subst dedup_seen_append) (simp only: append_Cons append_Nil)
    qed
    ultimately show ?thesis by (simp only: filter_append append.assoc)
  next
    case (Some members)
    have exp: "concat (map (expand ch) (i # ids)) = members @ concat (map (expand ch) ids)"
      using Some by (simp add: expand_def)
    have flat: "\<forall>j \<in> set members. map_of ch j = None"
      and rest: "\<forall>j \<in> set (concat (map (expand ch) ids)). map_of ch j = None"
      using Cons.prems(1) unfolding exp set_append by blast+
    then have i_rest: "i \<notin> set members" "i \<notin> set (concat (map (expand ch) ids))"
      using Some by (metis option.distinct(1))+
    show ?thesis
    proof (cases "i \<in> set (w_seen s)")
      case True
      then have "set members \<subseteq> set (w_seen s)" using Cons.prems(3) Some by blast
      then have "dedup_seen (w_seen s) (members @ xs) = dedup_seen (w_seen s) xs" for xs
        by (induction members) auto
      then show ?thesis
        using Cons.IH [of s] Cons.prems rest True unfolding exp by simp
    next
      case False
      let ?s1 = "s\<lparr>w_seen := i # w_seen s\<rparr>"
      let ?s2 = "walk members ch ?s1"
      have step: "walk (i # ids) ch s = walk ids ch ?s2" by (rule walk_recursive [OF False Some])
      have seen: "set (w_seen ?s2) = insert i (set (w_seen s) \<union> set members)"
        using walk_flat_seen [OF flat, of ?s1] by auto
      have "map rm_id (w_out ?s2) = map rm_id (w_out s)
          @ filter (\<lambda>i. map_of md i \<noteq> None) (dedup_seen (i # w_seen s) members)"
        using walk_flat [OF flat, of ?s1 md] Cons.prems(2) by simp
      moreover have "dedup_seen (i # w_seen s) members = dedup_seen (w_seen s) members"
        using i_rest by (intro dedup_seen_cong) auto
      moreover have "map rm_id (w_out (walk ids ch ?s2)) = map rm_id (w_out ?s2)
          @ filter (\<lambda>i. map_of md i \<noteq> None) (dedup_seen (w_seen ?s2) (concat (map (expand ch) ids)))"
      proof (rule Cons.IH [OF rest])
        show "map_of (w_mods ?s2) k = map_of md k" if "k \<notin> set (w_seen ?s2)" for k
          using that by (rule walk_mods_agree [rotated]) (use Cons.prems(2) in simp)
        show "set ms \<subseteq> set (w_seen ?s2)" if "c \<in> set (w_seen ?s2)" "map_of ch c = Some ms" for c ms
          using that Cons.prems(3) [of c ms] flat Some unfolding seen by auto
      qed
      moreover have "dedup_seen (w_seen ?s2) (concat (map (expand ch) ids)) =
          dedup_seen (members @ w_seen s) (concat (map (expand ch) ids))"
        using i_rest(2) seen by (intro dedup_seen_cong) auto
      ultimately show ?thesis
        unfolding step exp dedup_seen_append by simp
    qed
  qed
qed simp

section \<open>The order of the walk\<close>

text \<open>The reading order the source promises, without the walk's set of visited ids: every collection is
  spelled out in its place, its own id first and then its members in their order, except inside
  itself. \<open>path\<close> holds the collections that are being spelled out.\<close>

function spelled :: "(u64, u64 list) hashmap \<Rightarrow> u64 set \<Rightarrow> u64 list \<Rightarrow> u64 list" where
  "spelled ch path [] = []"
| "spelled ch path (i # ids) =
     (if i \<in> path then []
      else i # (case map_of ch i of Some members \<Rightarrow> spelled ch (insert i path) members | None \<Rightarrow> []))
     @ spelled ch path ids"
  by pat_completeness auto
termination
  by (relation "measures [\<lambda>(ch, path, ids). card (fst ` set ch - path), \<lambda>(ch, path, ids). length ids]")
     (auto simp: unseen_key_card)

definition first_occurrences :: "'a list \<Rightarrow> 'a list" where
  "first_occurrences xs = rev (remdups (rev xs))"

lemma dedup_seen_filter: "dedup_seen seen xs = filter (\<lambda>x. x \<notin> set seen) (first_occurrences xs)"
proof (induction xs rule: rev_induct)
  case (snoc x xs)
  then show ?case by (auto simp: dedup_seen_append first_occurrences_def)
qed (simp add: first_occurrences_def)

lemma dedup_seen_none: "set xs \<subseteq> set seen \<Longrightarrow> dedup_seen seen xs = []"
  by (induction xs) auto

text \<open>Nothing below an id that was finished before is new: the members of a visited collection are
  visited, or are being spelled out.\<close>

definition finished :: "(u64, u64 list) hashmap \<Rightarrow> u64 set \<Rightarrow> u64 set \<Rightarrow> bool" where
  "finished ch path S = (\<forall>c ms. c \<in> S - path \<longrightarrow> map_of ch c = Some ms \<longrightarrow> set ms \<subseteq> S)"

lemma finished_members: "finished ch path S \<Longrightarrow> c \<in> S \<Longrightarrow> c \<notin> path \<Longrightarrow> map_of ch c = Some ms \<Longrightarrow> set ms \<subseteq> S"
  by (auto simp: finished_def)

lemma finished_insert: "finished ch path S \<Longrightarrow> finished ch (insert i path) (insert i S)"
  unfolding finished_def by blast

lemma finished_spelled: "finished ch path S \<Longrightarrow> set ids \<subseteq> S \<Longrightarrow> set (spelled ch path ids) \<subseteq> S"
proof (induction ch path ids rule: spelled.induct)
  case (2 ch path i ids)
  have rest: "set (spelled ch path ids) \<subseteq> S" using 2(2-4) by simp
  have "set (spelled ch (insert i path) ms) \<subseteq> S" if "i \<notin> path" "map_of ch i = Some ms" for ms
    using 2(1) [OF that] finished_insert [OF 2(3), of i] finished_members [OF 2(3) _ that] 2(4)
    by (simp add: insert_absorb)
  then show ?case using rest 2(4) by (cases "map_of ch i") auto
qed simp

lemma finished_walk:
  assumes "finished ch path (set (w_seen s))"
  shows "finished ch path (set (w_seen (walk ids ch s)))"
proof -
  have "set ms \<subseteq> set (w_seen (walk ids ch s))"
    if "c \<in> set (w_seen (walk ids ch s))" "c \<notin> path" "map_of ch c = Some ms" for c ms
  proof (cases "c \<in> set (w_seen s)")
    case True
    then show ?thesis using finished_members [OF assms True that(2,3)] walk_seen_ge [of s ids ch] by blast
  qed (use walk_closed that in blast)
  then show ?thesis by (auto simp: finished_def)
qed

text \<open>What a part of the walk appends to the two outputs, when it visits the ids \<open>xs\<close>.\<close>

definition appends :: "(u64, u64 list) hashmap \<Rightarrow> (u64, string \<times> u64) hashmap \<Rightarrow> walk_state \<Rightarrow> walk_state \<Rightarrow> u64 list \<Rightarrow> bool" where
  "appends ch md s s' xs \<longleftrightarrow> set (w_seen s') = set (w_seen s) \<union> set xs
     \<and> map rm_id (w_out s') = map rm_id (w_out s)
         @ filter (\<lambda>k. map_of ch k = None \<and> map_of md k \<noteq> None) (dedup_seen (w_seen s) xs)
     \<and> w_unresolved s' = w_unresolved s
         @ filter (\<lambda>k. map_of ch k = None \<and> map_of md k = None) (dedup_seen (w_seen s) xs)"

lemma appends_trans:
  assumes "appends ch md s s1 xs" "appends ch md s1 s2 ys"
  shows "appends ch md s s2 (xs @ ys)"
proof -
  have "dedup_seen (w_seen s1) ys = dedup_seen (xs @ w_seen s) ys"
    using assms(1) by (intro dedup_seen_cong) (auto simp: appends_def)
  then show ?thesis using assms by (auto simp: appends_def dedup_seen_append)
qed

lemma appends_nothing: "set xs \<subseteq> set (w_seen s) \<Longrightarrow> appends ch md s s xs"
  by (auto simp: appends_def dedup_seen_none)

lemma appends_leaf:
  assumes "i \<notin> set (w_seen s)" "map_of ch i = None" "map_of (w_mods s) i = map_of md i"
  shows "appends ch md s (visit_leaf i s) [i]"
  using assms by (auto simp: appends_def visit_leaf_def split: option.splits)

lemma appends_collection:
  assumes "map_of ch i = Some ms" "i \<notin> set (w_seen s)"
  shows "appends ch md s (s\<lparr>w_seen := i # w_seen s\<rparr>) [i]"
  using assms by (auto simp: appends_def)

lemma walk_spelled:
  assumes "path \<subseteq> set (w_seen s)" "finished ch path (set (w_seen s))"
    "\<And>k. k \<notin> set (w_seen s) \<Longrightarrow> map_of (w_mods s) k = map_of md k"
  shows "appends ch md s (walk ids ch s) (spelled ch path ids)"
  using assms
proof (induction ch path ids arbitrary: s rule: spelled.induct)
  case (1 ch path)
  then show ?case by (simp add: appends_nothing)
next
  case (2 ch path i ids)
  let ?s1 = "walk [i] ch s"
  let ?here = "if i \<in> path then [] else i # (case map_of ch i of Some ms \<Rightarrow> spelled ch (insert i path) ms | None \<Rightarrow> [])"
  consider (seen) "i \<in> set (w_seen s)" | (leaf) "i \<notin> set (w_seen s)" "map_of ch i = None"
    | (coll) ms where "i \<notin> set (w_seen s)" "map_of ch i = Some ms" by fastforce
  then have here: "appends ch md s ?s1 ?here"
  proof cases
    case seen
    then have "set (spelled ch path [i]) \<subseteq> set (w_seen s)" using 2(4) by (intro finished_spelled) auto
    then show ?thesis using seen by (simp add: appends_nothing)
  next
    case leaf
    then show ?thesis using appends_leaf [OF leaf 2(5)] leaf 2(3) by auto
  next
    case coll
    let ?s0 = "s\<lparr>w_seen := i # w_seen s\<rparr>"
    have "i \<notin> path" using coll(1) 2(3) by blast
    moreover have "appends ch md ?s0 (walk ms ch ?s0) (spelled ch (insert i path) ms)"
      using 2(1) [OF \<open>i \<notin> path\<close> coll(2), of ?s0] 2(3,5) finished_insert [OF 2(4), of i] by auto
    ultimately show ?thesis
      using appends_trans [OF appends_collection [OF coll(2,1)]] coll by simp
  qed
  have "appends ch md ?s1 (walk ids ch ?s1) (spelled ch path ids)"
  proof (rule 2(2))
    show "path \<subseteq> set (w_seen ?s1)" using 2(3) walk_seen_ge [of s "[i]" ch] by blast
    show "finished ch path (set (w_seen ?s1))" using 2(4) by (rule finished_walk)
    show "map_of (w_mods ?s1) k = map_of md k" if "k \<notin> set (w_seen ?s1)" for k
      using that by (rule walk_mods_agree [rotated]) (rule 2(5))
  qed
  with here have "appends ch md s (walk ids ch ?s1) (?here @ spelled ch path ids)" by (rule appends_trans)
  moreover have "walk (i # ids) ch s = walk ids ch ?s1"
    using walk_append [of "[i]" ids ch s] by (simp only: append_Cons append_Nil)
  ultimately show ?case by simp
qed

lemma flatten_entries:
  "m \<in> set (fst (flatten_in_order candidates ch md)) \<Longrightarrow>
   map_of md (rm_id m) = Some (rm_title m, rm_file_size m)"
  using walk_out_entries [of "\<lparr>w_seen = [], w_mods = md, w_out = [], w_unresolved = []\<rparr>" md candidates ch]
  by (simp add: flatten_in_order_def Let_def)

section \<open>Where resolved entries come from\<close>

text \<open>A detail record Steam returned that makes \<open>i\<close> a resolved mod with this title and size.\<close>

definition mod_details :: "u64 \<Rightarrow> string \<Rightarrow> u64 \<Rightarrow> details \<Rightarrow> bool" where
  "mod_details i title sz d \<longleftrightarrow> opt_default 0 (d_id d) = i \<and> opt_default 0 (d_result d) = 1
     \<and> opt_default 0 (d_file_type d) \<noteq> WORKSHOP_FILE_TYPE_COLLECTION
     \<and> title = opt_default [] (d_title d) \<and> sz = opt_default 0 (d_file_size d)"

definition resolved_from :: "details set \<Rightarrow> round_state \<Rightarrow> bool" where
  "resolved_from D s \<longleftrightarrow>
    (\<forall>i title sz. map_of (r_resolved s) i = Some (title, sz) \<longrightarrow> (\<exists>d \<in> D. mod_details i title sz d))"

lemma take_details_from:
  "resolved_from D s \<Longrightarrow> d \<in> D \<Longrightarrow> resolved_from D (fst (take_details first d (s, nf)))"
  by (auto simp: resolved_from_def take_details_def Let_def update_conv' mod_details_def split: if_splits)

lemma fold_take_details_from:
  "resolved_from D s \<Longrightarrow> set ds \<subseteq> D \<Longrightarrow> resolved_from D (fst (fold (take_details first) ds (s, nf)))"
proof (induction ds arbitrary: s nf)
  case (Cons d ds)
  obtain s' nf' where step: "take_details first d (s, nf) = (s', nf')" by fastforce
  have "resolved_from D s'" using take_details_from [of D s d first nf] Cons.prems step by simp
  then show ?case using Cons.IH Cons.prems(2) by (simp add: step)
qed simp

lemma resolve_rounds_from:
  assumes "\<And>ids ds. get_details ids = Inr ds \<Longrightarrow> set ds \<subseteq> D"
  shows "resolved_from D s \<Longrightarrow> resolve_rounds get_details n first frontier s = Inr s' \<Longrightarrow> resolved_from D s'"
proof (induction n arbitrary: first frontier s)
  case (Suc n)
  show ?case
  proof (cases "frontier = []")
    case False
    with Suc.prems(2) obtain ds where ds: "get_details frontier = Inr ds"
      by (auto simp: result_simps)
    obtain s1 nf where step: "fold (take_details first) ds (s, []) = (s1, nf)" by fastforce
    have "resolved_from D s1"
      using fold_take_details_from [OF Suc.prems(1) assms [OF ds], of first "[]"] step by simp
    then show ?thesis using Suc.IH Suc.prems(2) False ds step by simp
  qed (use Suc.prems in simp)
qed simp

section \<open>Properties\<close>

text \<open>C15: Flattening loses nothing, invents nothing and keeps the order, whatever the nesting, duplicates
  or cycles of the collections. The mods it returns are exactly the ids reachable through expanded
  collections that are no collection themselves and have details, each once and with those details; the
  unresolved list is exactly the reachable rest, each once. Both come in the order in which the ids first
  occur when every collection is spelled out in its place, member by member.\<close>

theorem flatten_in_order_correct:
  "let (mods, unresolved) = flatten_in_order candidates ch md; reading = first_occurrences (spelled ch {} candidates) in
     distinct (map rm_id mods) \<and> distinct unresolved
     \<and> set (map rm_id mods) = {i \<in> reachable ch candidates. map_of ch i = None \<and> map_of md i \<noteq> None}
     \<and> set unresolved = {i \<in> reachable ch candidates. map_of ch i = None \<and> map_of md i = None}
     \<and> map rm_id mods = filter (\<lambda>i. map_of ch i = None \<and> map_of md i \<noteq> None) reading
     \<and> unresolved = filter (\<lambda>i. map_of ch i = None \<and> map_of md i = None) reading
     \<and> list_all (\<lambda>m. map_of md (rm_id m) = Some (rm_title m, rm_file_size m)) mods"
proof -
  let ?s = "\<lparr>w_seen = [], w_mods = md, w_out = [], w_unresolved = []\<rparr>"
  have agree: "map_of (w_mods ?s) k = map_of md k" for k by simp
  have reach: "set (w_seen (walk candidates ch ?s)) = reachable ch candidates"
    by (rule walk_seen_reachable) simp
  have "appends ch md ?s (walk candidates ch ?s) (spelled ch {} candidates)"
    by (rule walk_spelled) (simp_all add: finished_def)
  then have order: "map rm_id (w_out (walk candidates ch ?s)) =
        filter (\<lambda>i. map_of ch i = None \<and> map_of md i \<noteq> None) (first_occurrences (spelled ch {} candidates))"
      "w_unresolved (walk candidates ch ?s) =
        filter (\<lambda>i. map_of ch i = None \<and> map_of md i = None) (first_occurrences (spelled ch {} candidates))"
    by (simp_all add: appends_def dedup_seen_filter)
  have leaves: "distinct (map rm_id (w_out (walk candidates ch ?s)))" "distinct (w_unresolved (walk candidates ch ?s))"
      "set (map rm_id (w_out (walk candidates ch ?s))) = {i \<in> reachable ch candidates. map_of ch i = None \<and> map_of md i \<noteq> None}"
      "set (w_unresolved (walk candidates ch ?s)) = {i \<in> reachable ch candidates. map_of ch i = None \<and> map_of md i = None}"
    using walk_leaves [of ?s md candidates ch] reach by auto
  have entries: "list_all (\<lambda>m. map_of md (rm_id m) = Some (rm_title m, rm_file_size m)) (w_out (walk candidates ch ?s))"
    using walk_out_entries [of ?s md candidates ch] by (simp add: list_all_iff)
  have run: "flatten_in_order candidates ch md = (w_out (walk candidates ch ?s), w_unresolved (walk candidates ch ?s))"
    by (simp add: flatten_in_order_def Let_def)
  show ?thesis
    unfolding run Let_def prod.case by (intro conjI leaves order entries)
qed

lemma demo_spelled:
  "first_occurrences (spelled [(1, [3, 2, 1, 7]), (2, [4, 1, 3])] {} [7, 1, 3, 5]) = [7, 1, 3, 2, 4, 5]"
  by code_simp

text \<open>Order. When no listed collection contains another, the mods come out in candidate order
  with each collection's members, in the collection's own order, in its place, at their first
  occurrence only.\<close>

theorem flatten_in_order_splices:
  assumes "\<forall>i \<in> set (concat (map (expand ch) candidates)). map_of ch i = None"
  shows "map rm_id (fst (flatten_in_order candidates ch md)) =
    filter (\<lambda>i. map_of md i \<noteq> None) (dedup_seen [] (concat (map (expand ch) candidates)))"
  using walk_one_level [OF assms, of "\<lparr>w_seen = [], w_mods = md, w_out = [], w_unresolved = []\<rparr>" md]
  by (simp add: flatten_in_order_def Let_def)

theorem flatten_in_order_splices_witness:
  "map rm_id (fst (flatten_in_order [7, 1, 3] [(1, [3, 2, 7])] [(7, ''a'', 0), (2, ''b'', 0), (3, ''c'', 0)])) = [7, 3, 2]"
  by (subst flatten_in_order_splices) (simp_all add: expand_def)

text \<open>Every mod a resolution returns was reported by Steam as an accessible item that is not a
  collection, under the title and size Steam gave for it.\<close>

theorem resolve_source_ids_sound:
  assumes "resolve_source_ids get_details candidate_ids = Inr o_come" "m \<in> set (ro_mods o_come)"
  shows "\<exists>ids ds d. get_details ids = Inr ds \<and> d \<in> set ds
     \<and> mod_details (rm_id m) (rm_title m) (rm_file_size m) d"
proof -
  let ?D = "{d. \<exists>ids ds. get_details ids = Inr ds \<and> d \<in> set ds}"
  from assms(1) obtain s where s:
    "resolve_rounds get_details MAX_COLLECTION_DEPTH True candidate_ids round_init = Inr s"
    "ro_mods o_come = fst (flatten_in_order candidate_ids (r_children_of s) (r_resolved s))"
    unfolding resolve_source_ids_def rbind_eq_Inr by (force simp: Let_def split: prod.splits)
  have init: "resolved_from ?D round_init" by (simp add: resolved_from_def round_init_def)
  have "resolved_from ?D s" by (rule resolve_rounds_from [OF _ init s(1)]) auto
  moreover have "map_of (r_resolved s) (rm_id m) = Some (rm_title m, rm_file_size m)"
    using assms(2) unfolding s(2) by (rule flatten_entries)
  ultimately show ?thesis unfolding resolved_from_def by blast
qed

definition demo_details :: "u64 list \<Rightarrow> string + details list" where
  "demo_details ids = Inr (map (\<lambda>i. \<lparr>d_id = Some i, d_result = Some 1, d_title = Some ''t'',
     d_file_type = Some (if i = 1 then 2 else 0), d_file_size = Some 9,
     d_children = (if i = 1 then [\<lparr>ch_sortorder = Some 2, ch_id = Some 5\<rparr>,
                                 \<lparr>ch_sortorder = Some 1, ch_id = Some 6\<rparr>] else [])\<rparr>) ids)"

lemma demo_run:
  "case resolve_source_ids demo_details [1, 5] of Inl _ \<Rightarrow> False | Inr r \<Rightarrow> map rm_id (ro_mods r) = [6, 5]"
  by code_simp

theorem resolve_source_ids_sound_witness:
  "\<exists>o_come m ids ds d. resolve_source_ids demo_details [1, 5] = Inr o_come
     \<and> map rm_id (ro_mods o_come) = [6, 5] \<and> m \<in> set (ro_mods o_come)
     \<and> demo_details ids = Inr ds \<and> d \<in> set ds \<and> mod_details (rm_id m) (rm_title m) (rm_file_size m) d"
proof -
  obtain o_come where run: "resolve_source_ids demo_details [1, 5] = Inr o_come"
      "map rm_id (ro_mods o_come) = [6, 5]"
    using demo_run by (auto split: sum.splits)
  then obtain m where m: "m \<in> set (ro_mods o_come)" by (cases "ro_mods o_come") auto
  obtain ids ds d where "demo_details ids = Inr ds" "d \<in> set ds"
      "mod_details (rm_id m) (rm_title m) (rm_file_size m) d"
    using resolve_source_ids_sound [OF run(1) m] by blast
  with run m show ?thesis by (intro exI conjI)
qed

end
