(* ===== verification/ArmaConfig.thy ===== *)
theory ArmaConfig
  imports RegistryDb Crd
begin

text \<open>
  Rendering a server's \<open>main.cfg\<close>, \<open>basic.cfg\<close> and launch environment
  (\<open>services/controller/src/arma_config.rs\<close>). The Kubernetes API is its stored objects: ConfigMaps
  and Secrets by namespace and name, a read of an absent object being the error. A ConfigMap's data
  is a \<open>BTreeMap\<close>, so an association list in key order. Parsing and printing of an \<open>f64\<close> is a
  parameter \<open>f64\<close> that takes a text to the printed form of its value, or to \<open>None\<close>.
\<close>

section \<open>Cluster objects\<close>

record cluster =
  cl_configmaps :: "string \<times> string \<Rightarrow> (string \<times> string) list option"
  cl_secrets :: "string \<times> string \<Rightarrow> (string \<times> string) list option"
  cl_disk_ok :: bool

section \<open>Placeholders\<close>

definition get_or :: "(string \<times> string) list \<Rightarrow> string \<Rightarrow> string \<Rightarrow> string" where
  "get_or m k dflt = (case map_of m k of Some v \<Rightarrow> v | None \<Rightarrow> dflt)"

definition fetch_and_merge :: "cluster \<Rightarrow> string \<Rightarrow> string \<Rightarrow> string option
    \<Rightarrow> string + (string \<times> string) list" where
  "fetch_and_merge cl ns baseline_name override_name =
    rbind (ok_or (cl_configmaps cl (ns, baseline_name))
             (''failed to fetch baseline ConfigMap '' @ baseline_name)) (\<lambda>base.
    case override_name of
      None \<Rightarrow> Inr base
    | Some nm \<Rightarrow>
        rbind (ok_or (cl_configmaps cl (ns, nm)) (''failed to fetch per-server ConfigMap '' @ nm)) (\<lambda>over.
        Inr (btree_extend base over)))"

definition strip_suffix :: "string \<Rightarrow> string \<Rightarrow> string option" where
  "strip_suffix s p = (if ends_with s p then Some (take (length s - length p) s) else None)"

definition resolve_secret_ref :: "cluster \<Rightarrow> string \<Rightarrow> string \<Rightarrow> string + string" where
  "resolve_secret_ref cl user_secrets_namespace v =
    (case Option.bind (strip_prefix v ''{{secret:'') (\<lambda>s. strip_suffix s ''}}'') of
       None \<Rightarrow> Inr v
     | Some inner \<Rightarrow>
         rbind (ok_or (split_once (CHR ''/'') inner) (''malformed {{secret:...}} reference: '' @ v)) (\<lambda>(nm, k).
         rbind (ok_or (cl_secrets cl (user_secrets_namespace, nm))
                  (''failed to fetch Secret '' @ nm @ '' for {{secret:...}} reference'')) (\<lambda>data.
         rbind (ok_or (map_of data k) (''Secret '' @ nm @ '' has no key '' @ k)) (\<lambda>bytes.
         rbind (ensure (valid_utf8 bytes) ''invalid utf-8 sequence'') (\<lambda>_.
         Inr bytes)))))"

fun split_words :: "string \<Rightarrow> string list" where
  "split_words [] = [[]]"
| "split_words (x # xs) =
     (if x = CHR ''-'' \<or> x = CHR ''_'' then [] # split_words xs
      else (case split_words xs of [] \<Rightarrow> [[x]] | y # ys \<Rightarrow> (x # y) # ys))"

definition capitalize :: "string \<Rightarrow> string" where
  "capitalize w = (case w of [] \<Rightarrow> [] | c # cs \<Rightarrow> upper_char c # cs)"

definition title_case :: "string \<Rightarrow> string" where
  "title_case nm = join '' '' (map capitalize (filter (\<lambda>w. w \<noteq> []) (split_words nm)))"

definition substitute_simple :: "string \<Rightarrow> string \<Rightarrow> string \<Rightarrow> string \<Rightarrow> string" where
  "substitute_simple v server_name pre suf =
    replace_all ''{{suffix}}'' suf
      (replace_all ''{{prefix}}'' pre
        (replace_all ''{{server_name}}'' (title_case server_name) v))"

definition DEFAULT_SUFFIX :: string where
  "DEFAULT_SUFFIX = '' | Powered by MAGPIE''"

section \<open>Typed keys\<close>

definition parse_bool :: "(string \<times> string) list \<Rightarrow> string \<Rightarrow> bool option" where
  "parse_bool m k = Option.bind (map_of m k) (\<lambda>v.
     if trim v = ''true'' then Some True else if trim v = ''false'' then Some False else None)"

definition parse_num :: "(string \<times> string) list \<Rightarrow> string \<Rightarrow> int option" where
  "parse_num m k = Option.bind (map_of m k) (\<lambda>v. parse_i64 (trim v))"

definition parse_float :: "(string \<Rightarrow> string option) \<Rightarrow> (string \<times> string) list \<Rightarrow> string \<Rightarrow> string option" where
  "parse_float f64 m k = Option.bind (map_of m k) (\<lambda>v. f64 (trim v))"

definition parse_list :: "(string \<times> string) list \<Rightarrow> string \<Rightarrow> string list" where
  "parse_list m k =
    (case map_of m k of
       None \<Rightarrow> []
     | Some v \<Rightarrow> filter (\<lambda>s. s \<noteq> []) (map trim (split_on (CHR '','') v)))"

definition parse_pair :: "string \<Rightarrow> (int \<times> int) option" where
  "parse_pair p =
    Option.bind (split_once (CHR '':'') (trim p)) (\<lambda>(a, b).
    Option.bind (parse_i64 (trim a)) (\<lambda>x.
    Option.bind (parse_i64 (trim b)) (\<lambda>y. Some (x, y))))"

definition parse_pairs :: "(string \<times> string) list \<Rightarrow> string \<Rightarrow> (int \<times> int) list option" where
  "parse_pairs m k = map_option (\<lambda>raw. List.map_filter parse_pair (split_on (CHR '','') raw)) (map_of m k)"

definition some_or :: "'a option \<Rightarrow> 'a \<Rightarrow> 'a" where
  "some_or r x = (case r of Some y \<Rightarrow> y | None \<Rightarrow> x)"

section \<open>Resolved configuration\<close>

record resolved_main_config =
  mc_hostname :: string
  mc_max_players :: int
  mc_force_difficulty :: bool
  mc_forced_difficulty :: string
  mc_missions_whitelist :: "string list"
  mc_persist_without_players :: bool
  mc_use_battleye :: bool
  mc_verify_signatures :: bool
  mc_skip_lobby :: bool
  mc_allow_zeus_composition_scripts :: bool
  mc_allow_custom_glasses :: bool
  mc_max_ping :: "int option"
  mc_max_packet_loss :: "int option"
  mc_max_desync :: "int option"
  mc_password_admin :: string
  mc_password :: string
  mc_server_command_password :: string
  mc_motd :: "string list"
  mc_motd_interval :: "int option"
  mc_other_properties :: string
  mc_admins :: "string list"
  mc_file_patching_exceptions :: "string list"
  mc_kick_timeout :: "(int \<times> int) list"
  mc_allowed_file_patching :: int
  mc_disable_von :: bool
  mc_headless_clients :: bool

record resolved_basic_config =
  bc_max_msg_send :: "int option"
  bc_max_size_guaranteed :: "int option"
  bc_max_size_nonguaranteed :: "int option"
  bc_min_bandwidth :: "string option"
  bc_max_bandwidth :: "string option"
  bc_min_error_to_send :: "string option"
  bc_min_error_to_send_near :: "string option"
  bc_other_properties :: string

definition resolve_main_config ::
  "cluster \<Rightarrow> string \<Rightarrow> (string \<times> string) list \<Rightarrow> string \<Rightarrow> string list \<Rightarrow> string list \<Rightarrow> bool
   \<Rightarrow> string + resolved_main_config" where
  "resolve_main_config cl ns m server_name admins filepatch hcs =
    (let pre = get_or m ''prefix'' [];
         suf = get_or m ''suffix'' DEFAULT_SUFFIX;
         subst = (\<lambda>v. substitute_simple v server_name pre suf);
         hostname_raw = get_or m ''hostname'' ''{{prefix}}{{server_name}}{{suffix}}'';
         password_admin_raw = subst (get_or m ''password_admin'' []);
         password_raw = subst (get_or m ''password'' []);
         server_command_password_raw = subst (get_or m ''server_command_password'' [])
     in rbind (resolve_secret_ref cl ns password_admin_raw) (\<lambda>password_admin.
        rbind (resolve_secret_ref cl ns password_raw) (\<lambda>password.
        rbind (resolve_secret_ref cl ns server_command_password_raw) (\<lambda>server_command_password.
        Inr \<lparr>mc_hostname = subst hostname_raw,
             mc_max_players = some_or (parse_num m ''max_players'') 64,
             mc_force_difficulty = some_or (parse_bool m ''force_difficulty'') False,
             mc_forced_difficulty = get_or m ''forced_difficulty'' ''veteran'',
             mc_missions_whitelist = parse_list m ''missions_whitelist'',
             mc_persist_without_players = some_or (parse_bool m ''persist_without_players'') False,
             mc_use_battleye = some_or (parse_bool m ''use_battleEye'') False,
             mc_verify_signatures = some_or (parse_bool m ''verify_signatures'') True,
             mc_skip_lobby = some_or (parse_bool m ''skip_lobby'') False,
             mc_allow_zeus_composition_scripts = some_or (parse_bool m ''allow_zeus_composition_scripts'') True,
             mc_allow_custom_glasses = some_or (parse_bool m ''allow_custom_glasses'') False,
             mc_max_ping = Some (some_or (parse_num m ''max_ping'') 300),
             mc_max_packet_loss = parse_num m ''max_packet_loss'',
             mc_max_desync = parse_num m ''max_desync'',
             mc_password_admin = password_admin,
             mc_password = password,
             mc_server_command_password = server_command_password,
             mc_motd = map subst (parse_list m ''motd''),
             mc_motd_interval = parse_num m ''motd_interval'',
             mc_other_properties = get_or m ''other_properties'' [],
             mc_admins = admins,
             mc_file_patching_exceptions = filepatch,
             mc_kick_timeout = some_or (parse_pairs m ''kick_timeout'') [(0, 1), (1, 1), (2, 1), (3, 1)],
             mc_allowed_file_patching = some_or (parse_num m ''allowed_file_patching'') 1,
             mc_disable_von = some_or (parse_bool m ''disable_von'') True,
             mc_headless_clients = hcs\<rparr>))))"

definition resolve_basic_config :: "(string \<Rightarrow> string option) \<Rightarrow> (string \<times> string) list
    \<Rightarrow> resolved_basic_config" where
  "resolve_basic_config f64 m =
    \<lparr>bc_max_msg_send = parse_num m ''max_msg_send'',
     bc_max_size_guaranteed = parse_num m ''max_size_guaranteed'',
     bc_max_size_nonguaranteed = parse_num m ''max_size_nonguaranteed'',
     bc_min_bandwidth = map_of m ''min_bandwidth'',
     bc_max_bandwidth = map_of m ''max_bandwidth'',
     bc_min_error_to_send = parse_float f64 m ''min_error_to_send'',
     bc_min_error_to_send_near = parse_float f64 m ''min_error_to_send_near'',
     bc_other_properties = get_or m ''basic_other_properties'' []\<rparr>"

definition resolve_launch_params :: "(string \<times> string) list \<Rightarrow> int \<times> string" where
  "resolve_launch_params m = (some_or (parse_num m ''limit_fps'') 300, get_or m ''additional_params'' [])"

section \<open>Rendering\<close>

definition quote :: char where
  "quote = CHR 0x22"

definition newline :: string where
  "newline = [CHR 0x0A]"

definition escape :: "string \<Rightarrow> string" where
  "escape s = concat (map (\<lambda>c. if c = quote then [quote, quote] else [c]) s)"

definition quoted :: "string \<Rightarrow> string" where
  "quoted s = [quote] @ escape s @ [quote]"

definition bool_num :: "bool \<Rightarrow> string" where
  "bool_num b = (if b then ''1'' else ''0'')"

definition string_array :: "string list \<Rightarrow> string" where
  "string_array items =
    (if items = [] then ''{}'' else ''{'' @ join '','' (map quoted items) @ ''}'')"

definition pair_array :: "(int \<times> int) list \<Rightarrow> string" where
  "pair_array items =
    (if items = [] then ''{}''
     else ''{'' @ join '','' (map (\<lambda>(l, s). ''{ '' @ show_int l @ '', '' @ show_int s @ '' }'') items) @ ''}'')"

definition stmt :: "string \<Rightarrow> string \<Rightarrow> string" where
  "stmt k v = k @ '' = '' @ v @ '';'' @ newline"

definition opt_stmt :: "string \<Rightarrow> string option \<Rightarrow> string" where
  "opt_stmt k v = (case v of None \<Rightarrow> [] | Some x \<Rightarrow> stmt k x)"

definition render_main_cfg :: "resolved_main_config \<Rightarrow> string" where
  "render_main_cfg cfg =
    stmt ''steamProtocolMaxDataSize'' ''8192'' @ newline
    @ stmt ''hostname'' (quoted (mc_hostname cfg)) @ newline
    @ stmt ''maxPlayers'' (show_int (mc_max_players cfg)) @ newline
    @ stmt ''admins[]'' (string_array (mc_admins cfg))
    @ stmt ''filePatchingExceptions[]'' (string_array (mc_file_patching_exceptions cfg)) @ newline
    @ (if mc_force_difficulty cfg
       then stmt ''forcedDifficulty'' (quoted (mc_forced_difficulty cfg)) else [])
    @ stmt ''missionWhitelist[]'' (string_array (mc_missions_whitelist cfg))
    @ stmt ''persistent'' (bool_num (mc_persist_without_players cfg))
    @ stmt ''BattlEye'' (bool_num (mc_use_battleye cfg))
    @ stmt ''verifySignatures'' (if mc_verify_signatures cfg then ''2'' else ''0'')
    @ stmt ''skipLobby'' (bool_num (mc_skip_lobby cfg))
    @ stmt ''allowedFilePatching'' (show_int (mc_allowed_file_patching cfg))
    @ stmt ''disableVON'' (bool_num (mc_disable_von cfg))
    @ stmt ''kickTimeout[]'' (pair_array (mc_kick_timeout cfg))
    @ stmt ''zeusCompositionScriptLevel'' (if mc_allow_zeus_composition_scripts cfg then ''2'' else ''0'')
    @ stmt ''allowProfileGlasses'' (if mc_allow_custom_glasses cfg then ''true'' else ''false'')
    @ opt_stmt ''MaxPing'' (map_option show_int (mc_max_ping cfg))
    @ opt_stmt ''maxPacketLoss'' (map_option show_int (mc_max_packet_loss cfg))
    @ opt_stmt ''maxDesync'' (map_option show_int (mc_max_desync cfg))
    @ stmt ''passwordAdmin'' (quoted (mc_password_admin cfg))
    @ stmt ''password'' (quoted (mc_password cfg))
    @ stmt ''serverCommandPassword'' (quoted (mc_server_command_password cfg))
    @ stmt ''motd[]'' (string_array (mc_motd cfg))
    @ opt_stmt ''motdInterval'' (map_option show_int (mc_motd_interval cfg))
    @ (if mc_headless_clients cfg
       then stmt ''headlessClients[]'' (string_array [''127.0.0.1''])
            @ stmt ''localClient[]'' (string_array [''127.0.0.1''])
       else [])
    @ (if mc_other_properties cfg \<noteq> [] then newline @ mc_other_properties cfg @ newline else [])"

definition render_basic_cfg :: "resolved_basic_config \<Rightarrow> string" where
  "render_basic_cfg cfg =
    opt_stmt ''MaxMsgSend'' (map_option show_int (bc_max_msg_send cfg))
    @ opt_stmt ''MaxSizeGuaranteed'' (map_option show_int (bc_max_size_guaranteed cfg))
    @ opt_stmt ''MaxSizeNonguaranteed'' (map_option show_int (bc_max_size_nonguaranteed cfg))
    @ opt_stmt ''MinBandwidth'' (map_option quoted (bc_min_bandwidth cfg))
    @ opt_stmt ''MaxBandwidth'' (map_option quoted (bc_max_bandwidth cfg))
    @ opt_stmt ''MinErrorToSend'' (bc_min_error_to_send cfg)
    @ opt_stmt ''MinErrorToSendNear'' (bc_min_error_to_send_near cfg)
    @ (if bc_other_properties cfg \<noteq> [] then newline @ bc_other_properties cfg @ newline else [])"

section \<open>Entry points\<close>

definition extract_env_vars :: "cluster \<Rightarrow> string \<Rightarrow> (string \<times> string) list \<Rightarrow> string
    \<Rightarrow> string + (string \<times> string) list" where
  "extract_env_vars cl user_secrets_namespace m server_name =
    (let pre = get_or m ''prefix'' [];
         suf = get_or m ''suffix'' DEFAULT_SUFFIX;
         envs = List.map_filter (\<lambda>(k, raw). map_option (\<lambda>n. (n, raw)) (strip_prefix k ''env.'')) m
     in rmap (\<lambda>(n, raw).
          rbind (resolve_secret_ref cl user_secrets_namespace (substitute_simple raw server_name pre suf))
            (\<lambda>v. Inr (n, v))) envs)"

text \<open>The result is the extra environment and the files as they are after the two writes.\<close>

definition render_and_write ::
  "(string \<Rightarrow> string option) \<Rightarrow> cluster \<Rightarrow> db \<Rightarrow> string \<Rightarrow> string \<Rightarrow> string \<Rightarrow> string \<Rightarrow> arma_server
   \<Rightarrow> (string \<rightharpoonup> string) \<Rightarrow> string + ((string \<times> string) list \<times> (string \<rightharpoonup> string))" where
  "render_and_write f64 cl d ns user_secrets_namespace server_root_base baseline obj files =
    rbind (fetch_and_merge cl ns baseline (config_map (srv_spec obj))) (\<lambda>merged.
    rbind (map_err (\<lambda>_. ''database'') (steam_ids_with_scope ''arma:admin'' d)) (\<lambda>admins.
    rbind (map_err (\<lambda>_. ''database'') (steam_ids_with_scope ''arma:filepatch'' d)) (\<lambda>filepatch.
    rbind (resolve_main_config cl user_secrets_namespace merged (srv_name obj) admins filepatch
             (0 < headless_clients (srv_spec obj))) (\<lambda>main.
    let basic = resolve_basic_config f64 merged;
        (limit_fps, additional_params) = resolve_launch_params merged;
        fixed = (''ARMA_LIMITFPS'', show_int limit_fps)
                # (if additional_params \<noteq> [] then [(''ARMA_PARAMS'', additional_params)] else [])
    in rbind (extract_env_vars cl user_secrets_namespace merged (srv_name obj)) (\<lambda>envs.
       let dir = server_root_base @ ''/'' @ srv_name obj @ ''/configs''
       in rbind (ensure (cl_disk_ok cl) (''failed to create '' @ dir)) (\<lambda>_.
          Inr (fixed @ envs,
               files(dir @ ''/main.cfg'' \<mapsto> render_main_cfg main,
                     dir @ ''/basic.cfg'' \<mapsto> render_basic_cfg basic))))))))"

record headless_client_launch_config =
  hl_password :: string
  hl_limit_fps :: int
  hl_additional_params :: string

definition resolve_headless_client_config ::
  "cluster \<Rightarrow> string \<Rightarrow> string \<Rightarrow> string \<Rightarrow> arma_server \<Rightarrow> string + headless_client_launch_config" where
  "resolve_headless_client_config cl ns user_secrets_namespace baseline obj =
    rbind (fetch_and_merge cl ns baseline (config_map (srv_spec obj))) (\<lambda>merged.
    let pre = get_or merged ''prefix'' [];
        suf = get_or merged ''suffix'' DEFAULT_SUFFIX;
        raw_password = substitute_simple (get_or merged ''password'' []) (srv_name obj) pre suf
    in rbind (resolve_secret_ref cl user_secrets_namespace raw_password) (\<lambda>password.
       let (limit_fps, additional_params) = resolve_launch_params merged
       in Inr \<lparr>hl_password = password, hl_limit_fps = limit_fps, hl_additional_params = additional_params\<rparr>))"

section \<open>Reading rendered values back\<close>

text \<open>How the game reads a string: a doubled quote is a quote, a single one ends the string. The
  argument is the text after the opening quote.\<close>

fun read_quoted :: "string \<Rightarrow> (string \<times> string) option" where
  "read_quoted [] = None"
| "read_quoted (c # cs) =
     (if c \<noteq> quote then map_option (\<lambda>(s, r). (c # s, r)) (read_quoted cs)
      else (case cs of
              [] \<Rightarrow> Some ([], [])
            | d # ds \<Rightarrow>
                if d = quote then map_option (\<lambda>(s, r). (quote # s, r)) (read_quoted ds)
                else Some ([], cs)))"

lemma read_quoted_escape:
  "rest = [] \<or> hd rest \<noteq> quote \<Longrightarrow> read_quoted (escape s @ quote # rest) = Some (s, rest)"
proof (induction s)
  case Nil
  then show ?case by (cases rest) (simp_all add: escape_def)
next
  case (Cons c s)
  then show ?case by (simp add: escape_def)
qed

text \<open>A brace-enclosed list of strings; the items, and the text after it. The first argument bounds
  the number of items.\<close>

fun read_items :: "nat \<Rightarrow> string \<Rightarrow> (string list \<times> string) option" where
  "read_items 0 t = None"
| "read_items (Suc n) t =
     (if t = [] \<or> hd t \<noteq> quote then None
      else (case read_quoted (tl t) of
              None \<Rightarrow> None
            | Some (x, r) \<Rightarrow>
                if r \<noteq> [] \<and> hd r = CHR '','' then map_option (\<lambda>(xs, z). (x # xs, z)) (read_items n (tl r))
                else if r \<noteq> [] \<and> hd r = CHR ''}'' then Some ([x], tl r)
                else None))"

definition read_array :: "string \<Rightarrow> (string list \<times> string) option" where
  "read_array t =
    (if starts_with t ''{}'' then Some ([], drop 2 t)
     else if starts_with t ''{'' then read_items (length t) (tl t) else None)"

lemma quote_neq [simp]: "quote \<noteq> CHR '',''" "quote \<noteq> CHR ''}''" "CHR '','' \<noteq> quote" "CHR ''}'' \<noteq> quote"
  by (simp_all add: quote_def)

lemma read_items_join:
  "items \<noteq> [] \<Longrightarrow> length items \<le> n \<Longrightarrow>
   read_items n (join '','' (map quoted items) @ ''}'' @ rest) = Some (items, rest)"
proof (induction items arbitrary: n rule: induct_list012)
  case (2 x)
  then obtain k where "n = Suc k" by (cases n) auto
  then show ?case by (simp add: quoted_def read_quoted_escape)
next
  case (3 x y items)
  then obtain k where n: "n = Suc k" "length (y # items) \<le> k" by (cases n) auto
  then show ?case using 3(2) [of k] by (simp add: quoted_def read_quoted_escape)
qed simp

lemma length_join_quoted: "length items \<le> length (join '','' (map quoted items))"
  by (induction items rule: induct_list012) (auto simp: quoted_def)

text \<open>Reading a whole file: the settings it makes, one after the other. A value is a string, a list of
  strings or bare text up to the semicolon; the first argument bounds the number of steps.\<close>

datatype cfg_value = Text string | Texts "string list" | Bare string

definition read_value :: "string \<Rightarrow> (cfg_value \<times> string) option" where
  "read_value t =
    (if starts_with t [quote] then map_option (\<lambda>(s, r). (Text s, r)) (read_quoted (tl t))
     else if starts_with t ''{}'' \<or> starts_with t [CHR ''{'', quote] then map_option (\<lambda>(xs, r). (Texts xs, r)) (read_array t)
     else Some (Bare (takeWhile (\<lambda>c. c \<noteq> CHR '';'') t), dropWhile (\<lambda>c. c \<noteq> CHR '';'') t))"

definition read_setting :: "string \<Rightarrow> ((string \<times> cfg_value) \<times> string) option" where
  "read_setting t =
    Option.bind (strip_prefix (dropWhile (\<lambda>c. c \<noteq> CHR '' '') t) '' = '') (\<lambda>r.
    Option.bind (read_value r) (\<lambda>(v, r').
    map_option (\<lambda>z. ((takeWhile (\<lambda>c. c \<noteq> CHR '' '') t, v), z)) (strip_prefix r' ('';'' @ newline))))"

fun read_settings :: "nat \<Rightarrow> string \<Rightarrow> (string \<times> cfg_value) list option" where
  "read_settings n [] = Some []"
| "read_settings 0 (c # cs) = None"
| "read_settings (Suc n) (c # cs) =
     (if c = CHR 0x0A then read_settings n cs
      else (case read_setting (c # cs) of
              None \<Rightarrow> None
            | Some (kv, r) \<Rightarrow> map_option (\<lambda>kvs. kv # kvs) (read_settings n r)))"


lemma read_array_string_array: "read_array (string_array items @ rest) = Some (items, rest)"
proof (cases items)
  case Nil
  then show ?thesis by (simp add: read_array_def string_array_def starts_with_def)
next
  case (Cons x xs)
  have "\<not> starts_with (string_array items @ rest) ''{}''"
    using Cons by (cases xs) (auto simp: string_array_def starts_with_def quoted_def quote_def)
  moreover have "starts_with (string_array items @ rest) ''{''"
    using Cons by (simp add: string_array_def starts_with_def)
  moreover have "length items \<le> length (string_array items @ rest)"
    using Cons length_join_quoted [of items] by (simp add: string_array_def)
  ultimately show ?thesis
    using Cons read_items_join [of items "length (string_array items @ rest)" rest]
    by (simp add: read_array_def string_array_def)
qed

text \<open>A value as it stands in a statement, and a piece of the file that makes the given settings.\<close>

definition stands_for :: "string \<Rightarrow> cfg_value \<Rightarrow> bool" where
  "stands_for v x \<longleftrightarrow> (\<forall>rest. read_value (v @ CHR '';'' # rest) = Some (x, CHR '';'' # rest))"

definition segment :: "string \<Rightarrow> (string \<times> cfg_value) list \<Rightarrow> bool" where
  "segment t kvs \<longleftrightarrow> (\<forall>rest n krs. read_settings n rest = Some krs \<longrightarrow>
     (\<exists>m \<le> n + length t. read_settings m (t @ rest) = Some (kvs @ krs)))"

named_theorems cfg_intros

lemma quoted_stands [cfg_intros]: "stands_for (quoted s) (Text s)"
proof -
  have "read_quoted (escape s @ quote # CHR '';'' # rest) = Some (s, CHR '';'' # rest)" for rest
    by (rule read_quoted_escape) (simp add: quote_def)
  then show ?thesis by (simp add: stands_for_def read_value_def starts_with_def quoted_def)
qed

lemma array_stands [cfg_intros]: "stands_for (string_array xs) (Texts xs)"
  unfolding stands_for_def read_value_def read_array_string_array
  by (cases xs rule: remdups_adj.cases) (auto simp: string_array_def starts_with_def quoted_def quote_def)

lemma until_semicolon:
  assumes "CHR '';'' \<notin> set v"
  shows "takeWhile (\<lambda>c. c \<noteq> CHR '';'') (v @ CHR '';'' # r) = v" "dropWhile (\<lambda>c. c \<noteq> CHR '';'') (v @ CHR '';'' # r) = CHR '';'' # r"
  using assms by (induction v) auto

lemma bare_stands:
  assumes "CHR '';'' \<notin> set v" "\<not> starts_with v [quote]" "\<not> starts_with v [CHR ''{'']"
  shows "stands_for v (Bare v)"
proof -
  have "\<not> starts_with (v @ CHR '';'' # r) (c # cs)" if "\<not> starts_with v [c]" "c \<noteq> CHR '';''" for r c cs
    using that by (cases v) (simp_all add: starts_with_def)
  then have "\<not> starts_with (v @ CHR '';'' # r) [quote]" "\<not> starts_with (v @ CHR '';'' # r) (CHR ''{'' # cs)" for r cs
    using assms(2,3) by (simp_all add: quote_def)
  then show ?thesis by (simp add: stands_for_def read_value_def until_semicolon [OF assms(1)])
qed

lemma show_int_chars: "c \<in> set (show_int i) \<Longrightarrow> is_digit c \<or> c = CHR ''-''"
  using show_nat_digits by (auto simp: show_int_def list_all_iff split: if_splits)

lemma int_stands [cfg_intros]: "stands_for (show_int i) (Bare (show_int i))"
proof -
  have "\<not> starts_with (show_int i) [c]" "c \<notin> set (show_int i)" if "\<not> is_digit c" "c \<noteq> CHR ''-''" for c
    using show_int_chars [of c i] that by (cases "show_int i"; auto simp: starts_with_def)+
  then show ?thesis by (intro bare_stands) (simp_all add: quote_def is_digit_def)
qed

lemma flag_stands [cfg_intros]:
  "stands_for (bool_num b) (Bare (bool_num b))"
  "stands_for (if b then ''2'' else ''0'') (Bare (if b then ''2'' else ''0''))"
  "stands_for (if b then ''true'' else ''false'') (Bare (if b then ''true'' else ''false''))"
  "stands_for ''8192'' (Bare ''8192'')"
  by (rule bare_stands; simp add: bool_num_def quote_def starts_with_def)+

lemma pairs_stand [cfg_intros]:
  "stands_for (pair_array ps) (if ps = [] then Texts [] else Bare (pair_array ps))"
proof (cases ps)
  case Nil
  then show ?thesis using array_stands [of "[]"] by (simp add: pair_array_def string_array_def)
next
  case (Cons p qs)
  have "\<not> is_digit CHR '';''" by (simp add: is_digit_def)
  then have "CHR '';'' \<notin> set (show_int i)" for i using show_int_chars [of "CHR '';''" i] by auto
  then have items: "CHR '';'' \<notin> set (join '','' (map (\<lambda>(l, s). ''{ '' @ show_int l @ '', '' @ show_int s @ '' }'') xs))" for xs
    by (induction xs rule: induct_list012) auto
  obtain rest where braces: "pair_array ps = ''{{'' @ rest"
    using Cons by (cases p; cases qs) (auto simp: pair_array_def)
  have "CHR '';'' \<notin> set (pair_array ps)" using items by (simp add: pair_array_def)
  note plain = until_semicolon [OF this]
  have "\<not> starts_with (pair_array ps @ CHR '';'' # r) [quote]" "\<not> starts_with (pair_array ps @ CHR '';'' # r) ''{}''"
      "\<not> starts_with (pair_array ps @ CHR '';'' # r) [CHR ''{'', quote]" for r
    unfolding braces by (simp_all add: starts_with_def quote_def)
  then have "stands_for (pair_array ps) (Bare (pair_array ps))" by (simp add: stands_for_def read_value_def plain)
  then show ?thesis using Cons by simp
qed


lemma segmentI:
  assumes "\<And>rest n krs. read_settings n rest = Some krs \<Longrightarrow> read_settings (Suc n) (t @ rest) = Some (kvs @ krs)" "t \<noteq> []"
  shows "segment t kvs"
proof -
  have "Suc n \<le> n + length t" for n using assms(2) by (cases t) simp_all
  then show ?thesis using assms(1) unfolding segment_def by blast
qed

lemma segment_append:
  assumes "segment s xs" "segment t ys"
  shows "segment (s @ t) (xs @ ys)"
  unfolding segment_def
proof (intro allI impI)
  fix rest n krs
  assume "read_settings n rest = Some krs"
  then obtain m where m: "m \<le> n + length t" "read_settings m (t @ rest) = Some (ys @ krs)"
    using assms(2) unfolding segment_def by blast
  then obtain k where "k \<le> m + length s" "read_settings k (s @ t @ rest) = Some (xs @ ys @ krs)"
    using assms(1) unfolding segment_def by blast
  with m(1) show "\<exists>m \<le> n + length (s @ t). read_settings m ((s @ t) @ rest) = Some ((xs @ ys) @ krs)"
    by (intro exI [of _ k]) simp
qed

definition plain_key :: "string \<Rightarrow> bool" where
  "plain_key k = (k \<noteq> [] \<and> list_all (\<lambda>c. c \<noteq> CHR '' '' \<and> c \<noteq> CHR 0x0A) k)"

lemma segment_stmt:
  assumes "plain_key k" "stands_for v x"
  shows "segment (stmt k v) [(k, x)]"
proof (rule segmentI)
  fix rest n krs
  assume rest: "read_settings n rest = Some krs"
  have "takeWhile (\<lambda>c. c \<noteq> CHR '' '') (k @ CHR '' '' # r) = k"
      "dropWhile (\<lambda>c. c \<noteq> CHR '' '') (k @ CHR '' '' # r) = CHR '' '' # r" for r
    using assms(1) by (auto simp: plain_key_def list_all_iff takeWhile_append dropWhile_append)
  from this [of "CHR ''='' # CHR '' '' # v @ CHR '';'' # newline @ rest"]
  have "read_setting (stmt k v @ rest) = Some ((k, x), rest)"
    using assms(2) by (simp add: read_setting_def stmt_def stands_for_def strip_prefix_def)
  moreover obtain c cs where "k = c # cs" "c \<noteq> CHR 0x0A" using assms(1) by (cases k) (auto simp: plain_key_def)
  ultimately show "read_settings (Suc n) (stmt k v @ rest) = Some ([(k, x)] @ krs)"
    using rest by (simp add: stmt_def)
qed (simp add: stmt_def)

lemma segment_stmts [cfg_intros]:
  "plain_key k \<Longrightarrow> stands_for v x \<Longrightarrow> segment t ys \<Longrightarrow> segment (stmt k v @ t) ((k, x) # ys)"
  using segment_append [OF segment_stmt] by fastforce

lemma segment_newlines [cfg_intros]:
  assumes "segment t ys"
  shows "segment (newline @ t) ys"
proof -
  have "segment newline []" by (rule segmentI) (simp_all add: newline_def)
  from segment_append [OF this assms] show ?thesis by simp
qed

lemma segment_ifs [cfg_intros]:
  "segment s xs \<Longrightarrow> segment t ys \<Longrightarrow> segment ((if b then s else []) @ t) ((if b then xs else []) @ ys)"
  by (simp add: segment_append)

lemma segment_opts [cfg_intros]:
  assumes "plain_key k" "segment t ys"
  shows "segment (opt_stmt k (map_option show_int v) @ t) ((case v of None \<Rightarrow> [] | Some i \<Rightarrow> [(k, Bare (show_int i))]) @ ys)"
  using segment_append [OF segment_stmt [OF assms(1) int_stands] assms(2)] assms(2)
  by (cases v) (simp_all add: opt_stmt_def)


section \<open>Lemmas on merging\<close>

lemma fetch_and_merge_eq_Inr:
  "fetch_and_merge cl ns baseline o_name = Inr m \<longleftrightarrow>
    (\<exists>base. cl_configmaps cl (ns, baseline) = Some base \<and>
      (case o_name of None \<Rightarrow> m = base
       | Some nm \<Rightarrow> \<exists>over. cl_configmaps cl (ns, nm) = Some over \<and> m = btree_extend base over))"
  by (cases o_name) (auto simp: fetch_and_merge_def result_simps)

lemma resolve_secret_ref_cong:
  assumes "\<And>nm. cl_secrets cl (ns, nm) = cl_secrets cl' (ns, nm)"
  shows "resolve_secret_ref cl ns v = resolve_secret_ref cl' ns v"
  by (simp add: resolve_secret_ref_def assms cong: option.case_cong)

lemma resolve_main_config_password:
  "resolve_main_config cl ns m nm a f h = Inr main \<Longrightarrow>
   resolve_secret_ref cl ns (substitute_simple (get_or m ''password'' []) nm (get_or m ''prefix'' [])
     (get_or m ''suffix'' DEFAULT_SUFFIX)) = Inr (mc_password main)"
  unfolding resolve_main_config_def Let_def rbind_eq_Inr by auto

section \<open>Properties\<close>










text \<open>The per-server ConfigMap wins key by key over the baseline, every other key keeps its
  baseline value, and the merged keys stay in order.\<close>

theorem override_wins_key_by_key:
  assumes "cl_configmaps cl (ns, baseline) = Some base" "btree base"
    and "cl_configmaps cl (ns, nm) = Some over" "distinct (map fst over)"
  shows "\<exists>m. fetch_and_merge cl ns baseline (Some nm) = Inr m \<and> btree m
     \<and> (\<forall>k. map_of m k = (case map_of over k of Some v \<Rightarrow> Some v | None \<Rightarrow> map_of base k))"
proof -
  have "fetch_and_merge cl ns baseline (Some nm) = Inr (btree_extend base over)"
    using assms by (simp add: fetch_and_merge_def)
  then show ?thesis
    using assms(2,4) by (simp add: map_of_btree_extend btree_btree_extend map_add_def)
qed

definition demo_cluster :: cluster where
  "demo_cluster = \<lparr>cl_configmaps = (\<lambda>k. if k = (''arma'', ''base'') then Some [(''hostname'', ''h''), (''password'', ''{{secret:s/p}}'')]
       else if k = (''arma'', ''over'') then Some [(''motd'', ''x,y''), (''password'', ''{{secret:s/q}}'')] else None),
     cl_secrets = (\<lambda>k. if k = (''user'', ''s'') then Some [(''p'', ''one''), (''q'', ''two'')] else None),
     cl_disk_ok = True\<rparr>"

theorem override_wins_key_by_key_witness:
  "\<exists>m. fetch_and_merge demo_cluster ''arma'' ''base'' (Some ''over'') = Inr m
     \<and> map_of m ''password'' = Some ''{{secret:s/q}}'' \<and> map_of m ''hostname'' = Some ''h''"
proof -
  have "cl_configmaps demo_cluster (''arma'', ''base'') = Some [(''hostname'', ''h''), (''password'', ''{{secret:s/p}}'')]"
    "cl_configmaps demo_cluster (''arma'', ''over'') = Some [(''motd'', ''x,y''), (''password'', ''{{secret:s/q}}'')]"
    by (simp_all add: demo_cluster_def)
  from override_wins_key_by_key [OF this(1) _ this(2)]
  obtain m where "fetch_and_merge demo_cluster ''arma'' ''base'' (Some ''over'') = Inr m"
    "\<forall>k. map_of m k = (case map_of [(''motd'', ''x,y''), (''password'', ''{{secret:s/q}}'')] k of Some v \<Rightarrow> Some v
        | None \<Rightarrow> map_of [(''hostname'', ''h''), (''password'', ''{{secret:s/p}}'')] k)"
    by auto
  then show ?thesis by simp
qed

text \<open>A headless client can always join its server. Whenever a server's configuration was
  rendered, resolving the headless client's launch configuration succeeds and yields the very
  password written to \<open>main.cfg\<close> and the frame limit handed to the server.\<close>

theorem headless_client_matches_server:
  assumes "render_and_write f64 cl d ns usns root baseline obj files = Inr (env, files')"
  shows "\<exists>main hc. resolve_headless_client_config cl ns usns baseline obj = Inr hc
     \<and> files' (root @ ''/'' @ srv_name obj @ ''/configs/main.cfg'') = Some (render_main_cfg main)
     \<and> mc_password main = hl_password hc
     \<and> hd env = (''ARMA_LIMITFPS'', show_int (hl_limit_fps hc))
     \<and> mc_headless_clients main = (0 < headless_clients (srv_spec obj))"
proof -
  from assms obtain merged admins filepatch main where
    merged: "fetch_and_merge cl ns baseline (config_map (srv_spec obj)) = Inr merged"
    and main: "resolve_main_config cl usns merged (srv_name obj) admins filepatch
        (0 < headless_clients (srv_spec obj)) = Inr main"
    and files': "files' (root @ ''/'' @ srv_name obj @ ''/configs/main.cfg'') = Some (render_main_cfg main)"
    and env: "hd env = (''ARMA_LIMITFPS'', show_int (fst (resolve_launch_params merged)))"
    unfolding render_and_write_def Let_def case_prod_beta result_simps by auto
  have hcs: "mc_headless_clients main = (0 < headless_clients (srv_spec obj))"
    using main unfolding resolve_main_config_def Let_def rbind_eq_Inr by auto
  have "resolve_headless_client_config cl ns usns baseline obj =
      Inr \<lparr>hl_password = mc_password main, hl_limit_fps = fst (resolve_launch_params merged),
           hl_additional_params = snd (resolve_launch_params merged)\<rparr>"
    using merged resolve_main_config_password [OF main]
    by (simp add: resolve_headless_client_config_def Let_def case_prod_beta)
  then show ?thesis using files' env hcs by auto
qed

definition demo_server :: arma_server where
  "demo_server = \<lparr>srv_name = ''skua-ops'', srv_annotations = [],
     srv_spec = \<lparr>mod_source_ids = [], port = 2302, cdlc = [], profiling = False, desired_state = DesiredRunning,
       config_map = Some ''over'', metrics = None, headless_clients = 1\<rparr>,
     srv_status = None, srv_finalizers = [], srv_deleting = False\<rparr>"

lemma demo_render:
  "is_ok (render_and_write (\<lambda>_. None) demo_cluster empty_db ''arma'' ''user'' ''/srv'' ''base'' demo_server Map.empty)"
  by code_simp

theorem headless_client_matches_server_witness:
  "\<exists>hc. resolve_headless_client_config demo_cluster ''arma'' ''user'' ''base'' demo_server = Inr hc"
proof -
  obtain env files' where
    "render_and_write (\<lambda>_. None) demo_cluster empty_db ''arma'' ''user'' ''/srv'' ''base'' demo_server Map.empty = Inr (env, files')"
    using demo_render by (auto simp: is_ok_iff)
  from headless_client_matches_server [OF this] show ?thesis by blast
qed

text \<open>C17: a ConfigMap value can only reach Secrets of the user-secrets namespace: two clusters that
  agree on the ConfigMaps and on that namespace's Secrets render the same files and the same
  environment, whatever Secrets their other namespaces hold.\<close>

theorem secrets_outside_user_namespace_unreachable:
  assumes "\<And>nm. cl_secrets cl (usns, nm) = cl_secrets cl' (usns, nm)"
    and "cl_configmaps cl = cl_configmaps cl'" "cl_disk_ok cl = cl_disk_ok cl'"
  shows "render_and_write f64 cl d ns usns root baseline obj files =
         render_and_write f64 cl' d ns usns root baseline obj files"
proof -
  have sec: "resolve_secret_ref cl usns = resolve_secret_ref cl' usns"
    by (rule ext) (rule resolve_secret_ref_cong, rule assms(1))
  have "fetch_and_merge cl = fetch_and_merge cl'"
    by (intro ext) (simp only: fetch_and_merge_def assms(2))
  moreover have "resolve_main_config cl usns = resolve_main_config cl' usns"
    by (intro ext) (simp only: resolve_main_config_def sec)
  moreover have "extract_env_vars cl usns = extract_env_vars cl' usns"
    by (intro ext) (simp only: extract_env_vars_def sec)
  ultimately show ?thesis by (simp only: render_and_write_def assms(3))
qed

theorem secrets_outside_user_namespace_unreachable_witness:
  "render_and_write (\<lambda>_. None) demo_cluster empty_db ''arma'' ''user'' ''/srv'' ''base'' demo_server Map.empty =
   render_and_write (\<lambda>_. None)
     (demo_cluster\<lparr>cl_secrets := (cl_secrets demo_cluster)((''arma'', ''magpie-postgres-creds'') \<mapsto> [(''password'', ''x'')])\<rparr>)
     empty_db ''arma'' ''user'' ''/srv'' ''base'' demo_server Map.empty"
  by (rule secrets_outside_user_namespace_unreachable) simp_all

end
