(* ===== verification/Effect.thy ===== *)
theory Effect
  imports Prelude
begin

text \<open>
  Fallible operations on a shared state. An \<open>async fn\<close> that reads and writes stored objects and
  returns a \<open>Result\<close> is a function from the state to a result and the state it leaves behind: an
  early return keeps what was written before it. The section on triples is the proof layer: a
  triple bounds the state after success and after failure, and its rules follow the structure of
  the code.
\<close>

section \<open>Actions\<close>

type_synonym ('s, 'e, 'a) act = "'s \<Rightarrow> ('e + 'a) \<times> 's"

definition ret :: "'a \<Rightarrow> ('s, 'e, 'a) act" where
  "ret x = (\<lambda>s. (Inr x, s))"

definition throw :: "'e \<Rightarrow> ('s, 'e, 'a) act" where
  "throw e = (\<lambda>s. (Inl e, s))"

definition lift_res :: "'e + 'a \<Rightarrow> ('s, 'e, 'a) act" where
  "lift_res r = (\<lambda>s. (r, s))"

definition gets_act :: "('s \<Rightarrow> 'a) \<Rightarrow> ('s, 'e, 'a) act" where
  "gets_act f = (\<lambda>s. (Inr (f s), s))"

definition modify_act :: "('s \<Rightarrow> 's) \<Rightarrow> ('s, 'e, unit) act" where
  "modify_act f = (\<lambda>s. (Inr (), f s))"

definition act_bind :: "('s, 'e, 'a) act \<Rightarrow> ('a \<Rightarrow> ('s, 'e, 'b) act) \<Rightarrow> ('s, 'e, 'b) act" where
  "act_bind m f = (\<lambda>s. case m s of (Inl e, s') \<Rightarrow> (Inl e, s') | (Inr x, s') \<Rightarrow> f x s')"

definition act_map_err :: "('e \<Rightarrow> 'f) \<Rightarrow> ('s, 'e, 'a) act \<Rightarrow> ('s, 'f, 'a) act" where
  "act_map_err g m = (\<lambda>s. case m s of (r, s') \<Rightarrow> (map_err g r, s'))"

text \<open>A \<open>match\<close> on the result of an action.\<close>

definition act_match :: "('s, 'e, 'a) act \<Rightarrow> ('e + 'a \<Rightarrow> ('s, 'f, 'b) act) \<Rightarrow> ('s, 'f, 'b) act" where
  "act_match m k = (\<lambda>s. case m s of (r, s') \<Rightarrow> k r s')"

definition act_when :: "bool \<Rightarrow> ('s, 'e, unit) act \<Rightarrow> ('s, 'e, unit) act" where
  "act_when b m = (if b then m else ret ())"

primrec for_each :: "('a \<Rightarrow> ('s, 'e, unit) act) \<Rightarrow> 'a list \<Rightarrow> ('s, 'e, unit) act" where
  "for_each f [] = ret ()"
| "for_each f (x # xs) = act_bind (f x) (\<lambda>_. for_each f xs)"

primrec map_act :: "('a \<Rightarrow> ('s, 'e, 'b) act) \<Rightarrow> 'a list \<Rightarrow> ('s, 'e, 'b list) act" where
  "map_act f [] = ret []"
| "map_act f (x # xs) = act_bind (f x) (\<lambda>y. act_bind (map_act f xs) (\<lambda>ys. ret (y # ys)))"

named_theorems act_simps \<open>evaluation of actions\<close>

lemmas act_defs = ret_def throw_def lift_res_def gets_act_def modify_act_def

lemma act_eval [act_simps]:
  "ret x s = (Inr x, s)" "throw e s = (Inl e, s)" "lift_res r s = (r, s)"
  "gets_act f s = (Inr (f s), s)" "modify_act g s = (Inr (), g s)"
  by (simp_all add: act_defs)

lemma act_bind_eval [act_simps]:
  "act_bind m f s = (case m s of (Inl e, s') \<Rightarrow> (Inl e, s') | (Inr x, s') \<Rightarrow> f x s')"
  by (simp add: act_bind_def)

lemma act_map_err_eval [act_simps]:
  "act_map_err g m s = (case m s of (r, s') \<Rightarrow> (map_err g r, s'))"
  by (simp add: act_map_err_def)

lemma act_match_eval [act_simps]: "act_match m k s = (case m s of (r, s') \<Rightarrow> k r s')"
  by (simp add: act_match_def)

lemma act_when_eval [act_simps]: "act_when b m s = (if b then m s else (Inr (), s))"
  by (simp add: act_when_def act_simps)

lemma for_each_append: "for_each f (xs @ ys) = act_bind (for_each f xs) (\<lambda>_. for_each f ys)"
  by (induction xs) (auto simp: act_simps fun_eq_iff split: sum.splits prod.splits)

section \<open>Triples\<close>

definition triple :: "('s \<Rightarrow> bool) \<Rightarrow> ('s, 'e, 'a) act \<Rightarrow> ('a \<Rightarrow> 's \<Rightarrow> bool) \<Rightarrow> ('e \<Rightarrow> 's \<Rightarrow> bool) \<Rightarrow> bool" where
  "triple P m Q E = (\<forall>s. P s \<longrightarrow> (case m s of (Inr x, s') \<Rightarrow> Q x s' | (Inl e, s') \<Rightarrow> E e s'))"

text \<open>The common case: the same fact holds after success and after failure.\<close>

abbreviation keeps :: "('s \<Rightarrow> bool) \<Rightarrow> ('s, 'e, 'a) act \<Rightarrow> bool" where
  "keeps P m \<equiv> triple P m (\<lambda>_. P) (\<lambda>_. P)"

named_theorems triple_intros \<open>rules of the triple calculus\<close>

lemma tripleI: "(\<And>s r s'. P s \<Longrightarrow> m s = (r, s') \<Longrightarrow> (case r of Inr x \<Rightarrow> Q x s' | Inl e \<Rightarrow> E e s')) \<Longrightarrow> triple P m Q E"
  unfolding triple_def by (auto split: prod.splits sum.splits)

lemma tripleD: "triple P m Q E \<Longrightarrow> P s \<Longrightarrow> m s = (r, s') \<Longrightarrow> (case r of Inr x \<Rightarrow> Q x s' | Inl e \<Rightarrow> E e s')"
  unfolding triple_def by (auto split: prod.splits sum.splits)

lemma triple_okD: "triple P m Q E \<Longrightarrow> P s \<Longrightarrow> m s = (Inr x, s') \<Longrightarrow> Q x s'"
  by (drule tripleD) auto

lemma triple_errD: "triple P m Q E \<Longrightarrow> P s \<Longrightarrow> m s = (Inl e, s') \<Longrightarrow> E e s'"
  by (drule tripleD) auto

lemma keepsD: "keeps P m \<Longrightarrow> P s \<Longrightarrow> P (snd (m s))"
  by (cases "m s", cases "fst (m s)") (auto dest: tripleD)

lemma triple_conseq:
  "triple P m Q E \<Longrightarrow> (\<And>s. P' s \<Longrightarrow> P s) \<Longrightarrow> (\<And>x s. Q x s \<Longrightarrow> Q' x s) \<Longrightarrow> (\<And>e s. E e s \<Longrightarrow> E' e s)
    \<Longrightarrow> triple P' m Q' E'"
  unfolding triple_def by (fastforce split: prod.splits sum.splits)

lemma triple_pre: "triple P m Q E \<Longrightarrow> (\<And>s. P' s \<Longrightarrow> P s) \<Longrightarrow> triple P' m Q E"
  by (erule triple_conseq)

lemma triple_ret [triple_intros]: "(\<And>s. P s \<Longrightarrow> Q x s) \<Longrightarrow> triple P (ret x) Q E"
  by (simp add: triple_def act_simps)

lemma triple_throw [triple_intros]: "(\<And>s. P s \<Longrightarrow> E e s) \<Longrightarrow> triple P (throw e) Q E"
  by (simp add: triple_def act_simps)

lemma triple_lift_res [triple_intros]:
  "(\<And>x s. r = Inr x \<Longrightarrow> P s \<Longrightarrow> Q x s) \<Longrightarrow> (\<And>e s. r = Inl e \<Longrightarrow> P s \<Longrightarrow> E e s) \<Longrightarrow> triple P (lift_res r) Q E"
  by (auto simp: triple_def act_simps split: sum.splits)

lemma triple_gets [triple_intros]: "(\<And>s. P s \<Longrightarrow> Q (f s) s) \<Longrightarrow> triple P (gets_act f) Q E"
  by (simp add: triple_def act_simps)

lemma triple_modify [triple_intros]: "(\<And>s. P s \<Longrightarrow> Q () (f s)) \<Longrightarrow> triple P (modify_act f) Q E"
  by (simp add: triple_def act_simps)

lemma triple_bind:
  "triple P m R E \<Longrightarrow> (\<And>x. triple (R x) (f x) Q E) \<Longrightarrow> triple P (act_bind m f) Q E"
  unfolding triple_def act_simps by (fastforce split: prod.splits sum.splits)

lemma triple_map_err [triple_intros]:
  "triple P m Q (\<lambda>e. E (g e)) \<Longrightarrow> triple P (act_map_err g m) Q E"
  unfolding triple_def act_simps by (fastforce split: prod.splits sum.splits)

lemma triple_match:
  assumes m: "triple P m R F" and ok: "\<And>x. triple (R x) (k (Inr x)) Q E" and err: "\<And>e. triple (F e) (k (Inl e)) Q E"
  shows "triple P (act_match m k) Q E"
proof (rule tripleI)
  fix s r s'
  assume P: "P s" and run: "act_match m k s = (r, s')"
  obtain q t where q: "m s = (q, t)" by (cases "m s")
  then have k: "k q t = (r, s')" using run by (simp add: act_simps)
  show "case r of Inr x \<Rightarrow> Q x s' | Inl e \<Rightarrow> E e s'"
    using tripleD [OF m P q] k by (cases q) (auto dest: tripleD [OF ok] tripleD [OF err])
qed

lemma triple_when [triple_intros]:
  "(b \<Longrightarrow> triple P m Q E) \<Longrightarrow> (\<not> b \<Longrightarrow> triple P (ret ()) Q E) \<Longrightarrow> triple P (act_when b m) Q E"
  by (simp add: act_when_def)

lemma triple_for_each:
  "(\<And>x. x \<in> set xs \<Longrightarrow> triple P (f x) (\<lambda>_. P) E) \<Longrightarrow> triple P (for_each f xs) (\<lambda>_. P) E"
  by (induction xs) (auto intro!: triple_intros intro: triple_bind)

lemma keeps_bind [triple_intros]:
  "keeps P m \<Longrightarrow> (\<And>x. keeps P (f x)) \<Longrightarrow> keeps P (act_bind m f)"
  by (rule triple_bind)

lemma keeps_match [triple_intros]:
  "keeps P m \<Longrightarrow> (\<And>r. keeps P (k r)) \<Longrightarrow> keeps P (act_match m k)"
  by (rule triple_match)

lemma keeps_for_each [triple_intros]:
  "(\<And>x. x \<in> set xs \<Longrightarrow> keeps P (f x)) \<Longrightarrow> keeps P (for_each f xs)"
  by (rule triple_for_each)

lemma keeps_map_act [triple_intros]:
  "(\<And>x. x \<in> set xs \<Longrightarrow> keeps P (f x)) \<Longrightarrow> keeps P (map_act f xs)"
  by (induction xs) (auto intro!: triple_intros)

text \<open>Two invariants kept together.\<close>

lemma triple_conj:
  "triple P m Q E \<Longrightarrow> triple P' m Q' E' \<Longrightarrow>
    triple (\<lambda>s. P s \<and> P' s) m (\<lambda>x s. Q x s \<and> Q' x s) (\<lambda>e s. E e s \<and> E' e s)"
  unfolding triple_def by (fastforce split: prod.splits sum.splits)

text \<open>Pure facts and existential witnesses of a precondition.\<close>

lemma triple_pure: "(A \<Longrightarrow> triple P m Q E) \<Longrightarrow> triple (\<lambda>s. P s \<and> A) m Q E"
  by (auto simp: triple_def)

lemma triple_ex: "(\<And>w. triple (P w) m Q E) \<Longrightarrow> triple (\<lambda>s. \<exists>w. P w s) m Q E"
  by (rule tripleI) (auto dest: tripleD)

lemma triple_post: "triple P m Q E \<Longrightarrow> (\<And>x s. Q x s \<Longrightarrow> Q' x s) \<Longrightarrow> triple P m Q' E"
  by (erule triple_conseq)

text \<open>A loop invariant over the elements still to come.\<close>

lemma triple_for_each_rest:
  "(\<And>x rest. x \<in> set xs \<Longrightarrow> triple (I (x # rest)) (f x) (\<lambda>_. I rest) E) \<Longrightarrow> triple (I xs) (for_each f xs) (\<lambda>_. I []) E"
proof (induction xs)
  case (Cons x xs)
  have "triple (I xs) (for_each f xs) (\<lambda>_. I []) E" using Cons by auto
  then show ?case using Cons.prems [of x xs] by (auto intro: triple_bind)
qed (auto intro!: triple_intros)

lemma triple_imp: "(G \<Longrightarrow> triple P m Q E) \<Longrightarrow> (\<And>s. P s \<Longrightarrow> G) \<Longrightarrow> triple P m Q E"
  by (auto simp: triple_def)

lemma triple_weaken_error: "triple P m Q E \<Longrightarrow> triple P m Q (\<lambda>_ _. True)"
  by (erule triple_conseq) auto

lemma triple_if: "(b \<Longrightarrow> triple P m Q E) \<Longrightarrow> (\<not> b \<Longrightarrow> triple P m' Q E) \<Longrightarrow> triple P (if b then m else m') Q E"
  by simp

lemma triple_trivial: "triple P m (\<lambda>_ _. True) (\<lambda>_ _. True)"
  by (auto simp: triple_def split: prod.splits sum.splits)

end
