(* ===== verification/Kube.thy ===== *)
theory Kube
  imports Effect Crd
begin

text \<open>
  The objects the services share through the Kubernetes API. An API call is one action: the server
  answers it, refuses it, or carries it out while the reply is lost, and which of these happens to
  the calls of a run is the list \<open>k_replies\<close> (a call past its end is answered), so a fact about all
  states covers every pattern of failures. The verbs follow the documented API: get and patch of an
  absent name fail with 404, a create of a taken name with 409, a delete marks an object that has finalizers and removes any other, an
  apply creates or merges.
\<close>

section \<open>Named objects\<close>

definition obj_get :: "('o \<Rightarrow> string) \<Rightarrow> 'o list \<Rightarrow> string \<Rightarrow> 'o option" where
  "obj_get nm xs n = find (\<lambda>x. nm x = n) xs"

definition obj_update :: "('o \<Rightarrow> string) \<Rightarrow> string \<Rightarrow> ('o \<Rightarrow> 'o) \<Rightarrow> 'o list \<Rightarrow> 'o list" where
  "obj_update nm n f xs = map (\<lambda>x. if nm x = n then f x else x) xs"

definition obj_apply :: "('o \<Rightarrow> string) \<Rightarrow> ('o \<Rightarrow> 'o \<Rightarrow> 'o) \<Rightarrow> 'o \<Rightarrow> 'o list \<Rightarrow> 'o list" where
  "obj_apply nm merge x xs =
    (case obj_get nm xs (nm x) of
       None \<Rightarrow> xs @ [x]
     | Some _ \<Rightarrow> obj_update nm (nm x) (\<lambda>old. merge old x) xs)"

definition obj_delete :: "('o \<Rightarrow> string) \<Rightarrow> ('o \<Rightarrow> string list) \<Rightarrow> ('o \<Rightarrow> 'o) \<Rightarrow> string \<Rightarrow> 'o list \<Rightarrow> 'o list" where
  "obj_delete nm fin mark n xs =
    (case obj_get nm xs n of
       None \<Rightarrow> xs
     | Some x \<Rightarrow> if fin x = [] then filter (\<lambda>x. nm x \<noteq> n) xs else obj_update nm n mark xs)"

text \<open>What a kind of object promises: marking it for deletion leaves its name alone.\<close>

locale object_kind =
  fixes nm :: "'o \<Rightarrow> string" and fin :: "'o \<Rightarrow> string list" and mark :: "'o \<Rightarrow> 'o"
  assumes mark_name: "nm (mark x) = nm x"
begin

lemma names_update:
  "(\<And>x. x \<in> set xs \<Longrightarrow> nm x = n \<Longrightarrow> nm (f x) = nm x) \<Longrightarrow> map nm (obj_update nm n f xs) = map nm xs"
  by (auto simp: obj_update_def)

lemma names_apply:
  "(\<And>old. nm (merge old x) = nm x) \<Longrightarrow> distinct (map nm xs) \<Longrightarrow> distinct (map nm (obj_apply nm merge x xs))"
  using names_update [of xs "nm x" "\<lambda>old. merge old x"]
  by (auto simp: obj_apply_def obj_get_def find_None_iff split: option.splits)

lemma names_delete: "distinct (map nm xs) \<Longrightarrow> distinct (map nm (obj_delete nm fin mark n xs))"
  using names_update [of xs n mark]
  by (auto simp: obj_delete_def mark_name distinct_map_filter split: option.splits)

lemma get_update:
  "(\<And>x. nm x = n \<Longrightarrow> nm (f x) = n) \<Longrightarrow>
    obj_get nm (obj_update nm n f xs) k = (if k = n then map_option f (obj_get nm xs n) else obj_get nm xs k)"
  by (induction xs) (auto simp: obj_get_def obj_update_def)

lemma get_apply:
  "(\<And>old. nm (merge old x) = nm x) \<Longrightarrow>
    obj_get nm (obj_apply nm merge x xs) k =
     (if k = nm x then Some (case obj_get nm xs (nm x) of None \<Rightarrow> x | Some old \<Rightarrow> merge old x) else obj_get nm xs k)"
  using get_update [of "nm x" "\<lambda>old. merge old x" xs k]
  by (auto simp: obj_apply_def obj_get_def find_append split: option.splits)

lemma get_delete:
  "obj_get nm (obj_delete nm fin mark n xs) k =
    (if k = n then (case obj_get nm xs n of Some x \<Rightarrow> if fin x = [] then None else Some (mark x) | None \<Rightarrow> None)
     else obj_get nm xs k)"
proof -
  have "obj_get nm (filter (\<lambda>x. nm x \<noteq> n) xs) k = (if k = n then None else obj_get nm xs k)"
    by (induction xs) (auto simp: obj_get_def)
  then show ?thesis
    using get_update [of n mark xs k] by (auto simp: obj_delete_def mark_name split: option.splits)
qed

lemma update_member:
  "x \<in> set (obj_update nm n f xs) \<Longrightarrow> (x \<in> set xs \<and> nm x \<noteq> n) \<or> (\<exists>y \<in> set xs. nm y = n \<and> x = f y)"
  by (auto simp: obj_update_def)

lemma apply_member:
  "x \<in> set (obj_apply nm merge y xs) \<Longrightarrow>
    (x \<in> set xs \<and> nm x \<noteq> nm y) \<or> x = y \<or> (\<exists>old \<in> set xs. nm old = nm y \<and> x = merge old y)"
  by (auto simp: obj_apply_def obj_update_def obj_get_def find_None_iff split: option.splits if_splits)

lemma delete_member:
  "x \<in> set (obj_delete nm fin mark n xs) \<Longrightarrow> x \<in> set xs \<or> (\<exists>y \<in> set xs. nm y = n \<and> x = mark y)"
  by (auto simp: obj_delete_def obj_update_def split: option.splits if_splits)

lemma get_None: "obj_get nm xs n = None \<longleftrightarrow> (\<forall>x \<in> set xs. nm x \<noteq> n)"
  by (auto simp: obj_get_def find_None_iff)

lemma get_member: "obj_get nm xs n = Some x \<Longrightarrow> x \<in> set xs \<and> nm x = n"
  unfolding obj_get_def by (rule find_SomeD)

end

definition mark_server :: "arma_server \<Rightarrow> arma_server" where
  "mark_server x = x\<lparr>srv_deleting := True\<rparr>"

definition mark_source :: "mod_source \<Rightarrow> mod_source" where
  "mark_source x = x\<lparr>src_deleting := True\<rparr>"

interpretation servers: object_kind srv_name srv_finalizers mark_server
  by unfold_locales (simp add: mark_server_def)

interpretation sources: object_kind src_name src_finalizers mark_source
  by unfold_locales (simp add: mark_source_def)

section \<open>Calls\<close>

datatype kube_error = KubeNotFound | KubeConflict | KubeErr string

definition kube_text :: "kube_error \<Rightarrow> string" where
  "kube_text e = (case e of KubeNotFound \<Rightarrow> ''not found'' | KubeConflict \<Rightarrow> ''already exists'' | KubeErr t \<Rightarrow> t)"

datatype reply = Answered | Refused string | Lost string

record kube =
  k_servers :: "arma_server list"
  k_sources :: "mod_source list"
  k_replies :: "reply list"
  k_sync_log :: "string list"

definition api_call :: "('z kube_scheme, kube_error, 'a) act \<Rightarrow> ('z kube_scheme, kube_error, 'a) act" where
  "api_call f s =
    (let s' = s\<lparr>k_replies := tl (k_replies s)\<rparr> in
     case k_replies s of
       [] \<Rightarrow> f s
     | Answered # _ \<Rightarrow> f s'
     | Refused e # _ \<Rightarrow> (Inl (KubeErr e), s')
     | Lost e # _ \<Rightarrow> (Inl (KubeErr e), snd (f s')))"

definition api_get :: "('z kube_scheme \<Rightarrow> 'o list) \<Rightarrow> ('o \<Rightarrow> string) \<Rightarrow> string
    \<Rightarrow> ('z kube_scheme, kube_error, 'o) act" where
  "api_get sel nm n = api_call (\<lambda>s. (ok_or (obj_get nm (sel s) n) KubeNotFound, s))"

definition api_list :: "('z kube_scheme \<Rightarrow> 'o list) \<Rightarrow> ('z kube_scheme, kube_error, 'o list) act" where
  "api_list sel = api_call (\<lambda>s. (Inr (sel s), s))"

definition api_patch :: "('z kube_scheme \<Rightarrow> 'o list) \<Rightarrow> (('o list \<Rightarrow> 'o list) \<Rightarrow> 'z kube_scheme \<Rightarrow> 'z kube_scheme)
    \<Rightarrow> ('o \<Rightarrow> string) \<Rightarrow> string \<Rightarrow> ('o \<Rightarrow> 'o) \<Rightarrow> ('z kube_scheme, kube_error, 'o) act" where
  "api_patch sel upd nm n f = api_call (\<lambda>s.
    case obj_get nm (sel s) n of
      None \<Rightarrow> (Inl KubeNotFound, s)
    | Some x \<Rightarrow> (Inr (f x), upd (obj_update nm n f) s))"

definition api_apply :: "('z kube_scheme \<Rightarrow> 'o list) \<Rightarrow> (('o list \<Rightarrow> 'o list) \<Rightarrow> 'z kube_scheme \<Rightarrow> 'z kube_scheme)
    \<Rightarrow> ('o \<Rightarrow> string) \<Rightarrow> ('o \<Rightarrow> 'o \<Rightarrow> 'o) \<Rightarrow> 'o \<Rightarrow> ('z kube_scheme, kube_error, 'o) act" where
  "api_apply sel upd nm merge x = api_call (\<lambda>s.
    (Inr (case obj_get nm (sel s) (nm x) of None \<Rightarrow> x | Some old \<Rightarrow> merge old x),
     upd (obj_apply nm merge x) s))"

definition api_delete :: "('z kube_scheme \<Rightarrow> 'o list) \<Rightarrow> (('o list \<Rightarrow> 'o list) \<Rightarrow> 'z kube_scheme \<Rightarrow> 'z kube_scheme)
    \<Rightarrow> ('o \<Rightarrow> string) \<Rightarrow> ('o \<Rightarrow> string list) \<Rightarrow> ('o \<Rightarrow> 'o) \<Rightarrow> string \<Rightarrow> ('z kube_scheme, kube_error, unit) act" where
  "api_delete sel upd nm fin mark n = api_call (\<lambda>s.
    case obj_get nm (sel s) n of
      None \<Rightarrow> (Inl KubeNotFound, s)
    | Some _ \<Rightarrow> (Inr (), upd (obj_delete nm fin mark n) s))"

definition api_create :: "('z kube_scheme \<Rightarrow> 'o list) \<Rightarrow> (('o list \<Rightarrow> 'o list) \<Rightarrow> 'z kube_scheme \<Rightarrow> 'z kube_scheme)
    \<Rightarrow> ('o \<Rightarrow> string) \<Rightarrow> 'o \<Rightarrow> ('z kube_scheme, kube_error, unit) act" where
  "api_create sel upd nm x = api_call (\<lambda>s.
    case obj_get nm (sel s) (nm x) of
      Some _ \<Rightarrow> (Inl KubeConflict, s)
    | None \<Rightarrow> (Inr (), upd (\<lambda>xs. xs @ [x]) s))"

text \<open>A request of this service to the sync daemon, which answers with \<open>r\<close>.\<close>

definition sync_call :: "string \<Rightarrow> string + 'a \<Rightarrow> ('z kube_scheme, string, 'a) act" where
  "sync_call req r = (\<lambda>s. (r, s\<lparr>k_sync_log := k_sync_log s @ [req]\<rparr>))"

text \<open>Errors of a Connect RPC.\<close>

datatype connect_error =
    InvalidArgument string
  | NotFound string
  | AlreadyExists string
  | FailedPrecondition string
  | PermissionDenied string
  | Unauthenticated string
  | Internal string

section \<open>Rules\<close>

text \<open>Facts that ignore the fate of later calls.\<close>

definition stable :: "('z kube_scheme \<Rightarrow> bool) \<Rightarrow> bool" where
  "stable P = (\<forall>s rs. P (s\<lparr>k_replies := rs\<rparr>) = P s)"

lemma triple_api_call:
  assumes "stable P" "triple P f Q (\<lambda>_. F)" "\<And>x s. Q x s \<Longrightarrow> F s" "\<And>s. P s \<Longrightarrow> F s"
  shows "triple P (api_call f) Q (\<lambda>_. F)"
proof (rule tripleI)
  fix s r s'
  assume P: "P s" and run: "api_call f s = (r, s')"
  let ?t = "s\<lparr>k_replies := tl (k_replies s)\<rparr>"
  have t: "P ?t" using assms(1) P by (simp add: stable_def)
  have F: "F (snd (f t))" if "P t" for t
    using tripleD [OF assms(2) that] assms(3) by (cases "f t") (auto split: sum.splits)
  show "case r of Inr x \<Rightarrow> Q x s' | Inl e \<Rightarrow> F s'"
    using run tripleD [OF assms(2) P] tripleD [OF assms(2) t] F [OF t] assms(4) [OF t]
    by (auto simp: api_call_def Let_def split: list.splits reply.splits)
qed

lemma keeps_api_call: "stable P \<Longrightarrow> keeps P f \<Longrightarrow> keeps P (api_call f)"
  by (rule triple_api_call)

lemma triple_get:
  "stable P \<Longrightarrow> triple P (api_get sel nm n) (\<lambda>x s. P s \<and> obj_get nm (sel s) n = Some x) (\<lambda>_. P)"
  unfolding api_get_def by (rule triple_api_call) (auto simp: triple_def ok_or_def split: option.splits)

lemma keeps_get [triple_intros]: "stable P \<Longrightarrow> keeps P (api_get sel nm n)"
  unfolding api_get_def by (rule keeps_api_call) (auto simp: triple_def split: sum.splits)

lemma triple_list:
  "stable P \<Longrightarrow> triple P (api_list sel) (\<lambda>xs s. P s \<and> xs = sel s) (\<lambda>_. P)"
  unfolding api_list_def by (rule triple_api_call) (auto simp: triple_def)

lemma keeps_list [triple_intros]: "stable P \<Longrightarrow> keeps P (api_list sel)"
  unfolding api_list_def by (rule keeps_api_call) (auto simp: triple_def)

lemma triple_patch:
  "stable P \<Longrightarrow> (\<And>s. P s \<Longrightarrow> F s) \<Longrightarrow> (\<And>s x. P s \<Longrightarrow> obj_get nm (sel s) n = Some x \<Longrightarrow> F (upd (obj_update nm n f) s))
    \<Longrightarrow> triple P (api_patch sel upd nm n f) (\<lambda>_. F) (\<lambda>_. F)"
  unfolding api_patch_def by (rule triple_api_call) (auto simp: triple_def split: option.splits)

lemma triple_apply:
  "stable P \<Longrightarrow> (\<And>s. P s \<Longrightarrow> F s) \<Longrightarrow> (\<And>s. P s \<Longrightarrow> F (upd (obj_apply nm merge x) s))
    \<Longrightarrow> triple P (api_apply sel upd nm merge x) (\<lambda>_. F) (\<lambda>_. F)"
  unfolding api_apply_def by (rule triple_api_call) (auto simp: triple_def split: option.splits)

lemma triple_delete:
  "stable P \<Longrightarrow> (\<And>s. P s \<Longrightarrow> F s) \<Longrightarrow> (\<And>s x. P s \<Longrightarrow> obj_get nm (sel s) n = Some x \<Longrightarrow> F (upd (obj_delete nm fin mark n) s))
    \<Longrightarrow> triple P (api_delete sel upd nm fin mark n) (\<lambda>_. F) (\<lambda>_. F)"
  unfolding api_delete_def by (rule triple_api_call) (auto simp: triple_def split: option.splits)

lemma keeps_sync_call:
  "(\<And>s l. P s \<Longrightarrow> P (s\<lparr>k_sync_log := l\<rparr>)) \<Longrightarrow> keeps P (sync_call req r)"
  by (auto simp: sync_call_def triple_def split: sum.splits)

lemma api_answered [act_simps]: "k_replies s = [] \<Longrightarrow> api_call f s = f s"
  by (simp add: api_call_def)

text \<open>A call that succeeds was carried out.\<close>

lemma api_call_success: "api_call f s = (Inr x, s') \<Longrightarrow> f (s\<lparr>k_replies := tl (k_replies s)\<rparr>) = (Inr x, s')"
proof (cases "k_replies s")
  case Nil
  then have same: "s\<lparr>k_replies := tl (k_replies s)\<rparr> = s" by (cases s) simp
  assume "api_call f s = (Inr x, s')"
  then have "f s = (Inr x, s')" using Nil by (simp add: api_call_def)
  then show "f (s\<lparr>k_replies := tl (k_replies s)\<rparr>) = (Inr x, s')" unfolding same .
qed (auto simp: api_call_def Let_def split: reply.splits)

text \<open>While every call is answered, a call is its effect.\<close>

lemma triple_answered:
  "triple (\<lambda>s. k_replies s = [] \<and> P s) f Q E \<Longrightarrow> triple (\<lambda>s. k_replies s = [] \<and> P s) (api_call f) Q E"
  by (simp add: triple_def api_answered)

lemma triple_success:
  "stable P \<Longrightarrow> triple P f Q E \<Longrightarrow> triple P (api_call f) Q (\<lambda>_ _. True)"
  by (rule triple_api_call [where F = "\<lambda>_. True"]) (auto elim: triple_conseq)

lemma triple_api_call_err:
  assumes "stable P" "triple P f Q E" "\<And>t s. E (KubeErr t) s"
  shows "triple P (api_call f) Q E"
proof (rule tripleI)
  fix s r s'
  assume P: "P s" and run: "api_call f s = (r, s')"
  let ?t = "s\<lparr>k_replies := tl (k_replies s)\<rparr>"
  have t: "P ?t" using assms(1) P by (simp add: stable_def)
  show "case r of Inr x \<Rightarrow> Q x s' | Inl e \<Rightarrow> E e s'"
    using run tripleD [OF assms(2) P] tripleD [OF assms(2) t] assms(3)
    by (auto simp: api_call_def Let_def split: list.splits reply.splits)
qed

end
