(* ===== verification/Gateway.thy ===== *)
theory Gateway
  imports Kube
begin

text \<open>
  \<open>ServerService\<close> of \<open>services/gateway/src/service.rs\<close>: every RPC as an action on the stored
  \<open>ArmaServer\<close> objects. Parameters stand for what is outside the file: \<open>refresh\<close> is the sync daemon's
  answer to a \<open>RefreshSource\<close> request, \<open>ssa old new\<close> the object the API server stores when \<open>new\<close> is
  force-applied over \<open>old\<close>, \<open>list_pods\<close> and \<open>read_logs\<close> the answers of the pod API. A message that is
  formatted with \<open>{:?}\<close> shows the plain text.
\<close>

section \<open>Messages\<close>

datatype server_phase = PhaseStopped | PhasePending | PhaseRunning | PhaseFailed

datatype proto_desired_state = ProtoRunning | ProtoStopped

record server_info =
  si_id :: string
  si_name :: string
  si_port :: u32
  si_mod_source_ids :: "string list"
  si_phase :: server_phase
  si_message :: string
  si_desired_state :: proto_desired_state
  si_metadata :: "(string, string) hashmap"

record create_server_request =
  cr_name :: string
  cr_port :: u32
  cr_mod_source_ids :: "string list"
  cr_config_map :: "string option"
  cr_metrics_port :: "u32 option"
  cr_metrics_path :: "string option"
  cr_metadata :: "(string, string) hashmap"

record update_server_request =
  up_id :: string
  up_mod_sources :: "string list option"
  up_metadata :: "(string, string) hashmap option"

record logs_request =
  lr_id :: string
  lr_tail_lines :: "u32 option"
  lr_previous :: "bool option"

record pod_condition =
  pc_type :: string
  pc_status :: string
  pc_message :: "string option"

record pod_status =
  ps_phase :: "string option"
  ps_conditions :: "pod_condition list option"
  ps_restart_counts :: "int list option"
  ps_reason :: "string option"

record pod =
  pod_name :: string
  pod_created :: "nat option"
  pod_status :: "pod_status option"

record health_response =
  h_ready :: bool
  h_pod_name :: string
  h_phase :: string
  h_restart_count :: u32
  h_message :: string

section \<open>Names, phases and metadata\<close>

definition MAX_LOG_LINES :: u32 where
  "MAX_LOG_LINES = 5000"

definition is_label_char :: "char \<Rightarrow> bool" where
  "is_label_char c = (is_lower c \<or> is_digit c \<or> c = CHR ''-'')"

text \<open>A text between single quotes.\<close>

definition squote :: "string \<Rightarrow> string" where
  "squote t = CHR 0x27 # t @ [CHR 0x27]"

definition validate_k8s_name :: "string \<Rightarrow> string + unit" where
  "validate_k8s_name n =
    (if 63 < length n then Inl ''must be 63 characters or fewer''
     else if \<not> list_all is_label_char n then Inl (''must contain only lowercase letters, digits, and '' @ squote ''-'')
     else if \<not> (n \<noteq> [] \<and> is_alnum (hd n)) \<or> \<not> (n \<noteq> [] \<and> is_alnum (last n))
       then Inl ''must start and end with a letter or digit''
     else Inr ())"

definition phase_to_proto :: "arma_server_phase \<Rightarrow> server_phase" where
  "phase_to_proto p =
    (case p of Stopped \<Rightarrow> PhaseStopped | Pending \<Rightarrow> PhasePending | Running \<Rightarrow> PhaseRunning | Failed \<Rightarrow> PhaseFailed)"

definition desired_state_to_proto :: "desired_state \<Rightarrow> proto_desired_state" where
  "desired_state_to_proto d = (case d of DesiredRunning \<Rightarrow> ProtoRunning | DesiredStopped \<Rightarrow> ProtoStopped)"

definition METADATA_PREFIX :: string where
  "METADATA_PREFIX = ''metadata.magpie.skua.io/''"

definition metadata_from_annotations :: "arma_server \<Rightarrow> (string, string) hashmap" where
  "metadata_from_annotations obj =
    List.map_filter (\<lambda>(k, v). map_option (\<lambda>k'. (k', v)) (strip_prefix k METADATA_PREFIX)) (srv_annotations obj)"

definition valid_metadata_key :: "string \<Rightarrow> bool" where
  "valid_metadata_key k = list_all (\<lambda>c. is_alnum c \<or> c = CHR ''-'' \<or> c = CHR ''_'' \<or> c = CHR ''.'') k"

fun metadata_loop :: "(string \<times> string) list \<Rightarrow> (string \<times> string) list \<Rightarrow> connect_error + (string \<times> string) list" where
  "metadata_loop out [] = Inr out"
| "metadata_loop out ((key, v) # es) =
     (if key = [] then Inl (InvalidArgument ''metadata keys cannot be empty'')
      else if \<not> valid_metadata_key key
        then Inl (InvalidArgument (''invalid metadata key '' @ key @ '': only letters, digits, '' @ squote ''-'' @ '', '' @ squote ''_'' @ '' and '' @ squote ''.'' @ '' are allowed''))
      else metadata_loop (btree_insert (METADATA_PREFIX @ key) v out) es)"

definition metadata_to_annotations :: "(string \<times> string) list \<Rightarrow> connect_error + (string \<times> string) list" where
  "metadata_to_annotations entries = metadata_loop [] entries"

definition to_info :: "arma_server \<Rightarrow> server_info" where
  "to_info obj =
    (let st = (case srv_status obj of Some st \<Rightarrow> st | None \<Rightarrow> arma_server_status_default) in
     \<lparr>si_id = srv_name obj, si_name = srv_name obj,
      si_port = ucast (port (srv_spec obj)),
      si_mod_source_ids = mod_source_ids (srv_spec obj),
      si_phase = phase_to_proto (phase st), si_message = message st,
      si_desired_state = desired_state_to_proto (desired_state (srv_spec obj)),
      si_metadata = metadata_from_annotations obj\<rparr>)"

section \<open>Shared steps\<close>

text \<open>The merge patch \<open>{"status": {"phase": "Pending"}}\<close>.\<close>

definition reset_phase :: "arma_server \<Rightarrow> arma_server" where
  "reset_phase obj = obj\<lparr>srv_status := Some
     ((case srv_status obj of Some st \<Rightarrow> st | None \<Rightarrow> arma_server_status_default)\<lparr>phase := Pending\<rparr>)\<rparr>"

definition set_desired :: "desired_state \<Rightarrow> arma_server \<Rightarrow> arma_server" where
  "set_desired d obj = obj\<lparr>srv_spec := (srv_spec obj)\<lparr>desired_state := d\<rparr>\<rparr>"

definition is_local :: "mod_source_input \<Rightarrow> bool" where
  "is_local i = (case i of Local _ \<Rightarrow> True | _ \<Rightarrow> False)"

definition no_such_server :: "string \<Rightarrow> connect_error" where
  "no_such_server n = NotFound (''no such server: '' @ n)"

definition get_or_not_found :: "string \<Rightarrow> ('z kube_scheme, connect_error, arma_server) act" where
  "get_or_not_found n = act_map_err (\<lambda>_. no_such_server n) (api_get k_servers srv_name n)"

definition refresh_one :: "(string \<Rightarrow> string + unit) \<Rightarrow> string \<Rightarrow> ('z kube_scheme, connect_error, unit) act" where
  "refresh_one refresh source_id =
    act_match (api_get k_sources src_name source_id) (\<lambda>r.
    case r of
      Inl _ \<Rightarrow> ret ()
    | Inr source \<Rightarrow>
        act_when (\<not> is_local (src_input source))
          (act_map_err Internal (sync_call source_id (refresh source_id))))"

definition resync_and_repending :: "(string \<Rightarrow> string + unit) \<Rightarrow> string
    \<Rightarrow> ('z kube_scheme, connect_error, arma_server) act" where
  "resync_and_repending refresh i =
    act_bind (get_or_not_found i) (\<lambda>obj.
    act_bind (for_each (refresh_one refresh) (mod_source_ids (srv_spec obj))) (\<lambda>_.
    act_map_err (\<lambda>e. Internal (''failed to reset status: '' @ kube_text e))
      (api_patch k_servers k_servers_update srv_name i reset_phase)))"

definition newest_first :: "pod list \<Rightarrow> pod list" where
  "newest_first pods = sort_key (\<lambda>p. - (case pod_created p of None \<Rightarrow> 0 | Some t \<Rightarrow> int t + 1)) pods"

definition server_pod :: "(string \<Rightarrow> kube_error + pod list) \<Rightarrow> string \<Rightarrow> connect_error + pod" where
  "server_pod list_pods i =
    rbind (map_err (\<lambda>e. Internal (''failed to list pods for '' @ i @ '': '' @ kube_text e))
             (list_pods (''app=arma-server,armaserver='' @ i))) (\<lambda>pods.
    case newest_first pods of
      [] \<Rightarrow> Inl (NotFound (''no running pod for server '' @ i))
    | p # _ \<Rightarrow> Inr p)"

definition port_conflict_message :: "u16 \<Rightarrow> arma_server \<Rightarrow> string" where
  "port_conflict_message p other =
    ''port '' @ show_word p @ '' (range '' @ show_word p @ ''-'' @ show_word (saturating_add p 4)
    @ '') conflicts with running/starting server '' @ squote (srv_name other) @ '' on port ''
    @ show_word (port (srv_spec other)) @ '' (range '' @ show_word (port (srv_spec other)) @ ''-''
    @ show_word (saturating_add (port (srv_spec other)) 4) @ '')''"

fun scan_ports :: "u16 \<Rightarrow> string option \<Rightarrow> arma_server list \<Rightarrow> connect_error + unit" where
  "scan_ports p exclude [] = Inr ()"
| "scan_ports p exclude (other # rest) =
     (if Some (srv_name other) = exclude then scan_ports p exclude rest
      else if desired_state (srv_spec other) \<noteq> DesiredRunning then scan_ports p exclude rest
      else if port_ranges_overlap p (port (srv_spec other)) then Inl (InvalidArgument (port_conflict_message p other))
      else scan_ports p exclude rest)"

definition check_port_conflict :: "u16 \<Rightarrow> string option \<Rightarrow> ('z kube_scheme, connect_error, unit) act" where
  "check_port_conflict p exclude =
    act_bind (act_map_err (\<lambda>e. Internal (kube_text e)) (api_list k_servers)) (\<lambda>items.
    lift_res (scan_ports p exclude items))"

section \<open>RPCs\<close>

text \<open>\<open>create_server\<close> up to its port check, and from there on.\<close>

definition create_check :: "create_server_request \<Rightarrow> ('z kube_scheme, connect_error, u16) act" where
  "create_check req =
    act_bind (lift_res (ensure (cr_name req \<noteq> []) (InvalidArgument ''name is required''))) (\<lambda>_.
    act_bind (lift_res (map_err (\<lambda>reason. InvalidArgument (''invalid name '' @ cr_name req @ '': '' @ reason))
                          (validate_k8s_name (cr_name req)))) (\<lambda>_.
    let p = ucast (cr_port req) in
    act_bind (check_port_conflict p None) (\<lambda>_. ret p)))"

definition create_spec :: "create_server_request \<Rightarrow> u16 \<Rightarrow> arma_server_spec" where
  "create_spec req p =
    \<lparr>mod_source_ids = cr_mod_source_ids req, port = p, cdlc = [], profiling = False,
     desired_state = DesiredRunning, config_map = cr_config_map req,
     metrics = map_option (\<lambda>mp. \<lparr>metrics_port = ucast mp, metrics_path = cr_metrics_path req\<rparr>) (cr_metrics_port req),
     headless_clients = 0\<rparr>"

definition create_object :: "create_server_request \<Rightarrow> u16 \<Rightarrow> (string \<times> string) list \<Rightarrow> arma_server" where
  "create_object req p annotations =
    \<lparr>srv_name = cr_name req, srv_annotations = annotations, srv_spec = create_spec req p,
     srv_status = None, srv_finalizers = [], srv_deleting = False\<rparr>"

definition create_apply :: "(arma_server \<Rightarrow> arma_server \<Rightarrow> arma_server) \<Rightarrow> create_server_request \<Rightarrow> u16
    \<Rightarrow> ('z kube_scheme, connect_error, server_info) act" where
  "create_apply ssa req p =
    act_bind (lift_res (metadata_to_annotations (cr_metadata req))) (\<lambda>annotations.
    act_bind (act_map_err (\<lambda>e. Internal (''failed to apply ArmaServer '' @ cr_name req @ '': '' @ kube_text e))
                (api_apply k_servers k_servers_update srv_name ssa (create_object req p annotations))) (\<lambda>applied.
    ret (to_info applied)))"

definition create_server :: "(arma_server \<Rightarrow> arma_server \<Rightarrow> arma_server) \<Rightarrow> create_server_request
    \<Rightarrow> ('z kube_scheme, connect_error, server_info) act" where
  "create_server ssa req = act_bind (create_check req) (create_apply ssa req)"

definition delete_server :: "string \<Rightarrow> ('z kube_scheme, connect_error, unit) act" where
  "delete_server i =
    act_map_err (\<lambda>e. Internal (''failed to delete ArmaServer '' @ i @ '': '' @ kube_text e))
      (api_delete k_servers k_servers_update srv_name srv_finalizers mark_server i)"

definition get_server :: "string \<Rightarrow> ('z kube_scheme, connect_error, server_info) act" where
  "get_server i = act_bind (get_or_not_found i) (\<lambda>obj. ret (to_info obj))"

definition list_servers :: "('z kube_scheme, connect_error, server_info list) act" where
  "list_servers =
    act_bind (act_map_err (\<lambda>e. Internal (''failed to list: '' @ kube_text e)) (api_list k_servers)) (\<lambda>items.
    ret (map to_info items))"

text \<open>A JSON merge patch of a string map: \<open>null\<close> removes a key.\<close>

definition merge_map :: "('k::linorder \<times> 'v option) list \<Rightarrow> ('k \<times> 'v) list \<Rightarrow> ('k \<times> 'v) list" where
  "merge_map p m =
    fold (\<lambda>(k, v) acc. case v of None \<Rightarrow> filter (\<lambda>q. fst q \<noteq> k) acc | Some x \<Rightarrow> btree_insert k x acc) p m"

text \<open>The \<open>spec\<close> half of the patch replaces the selection, also by an empty one.\<close>

definition mod_source_ids_patch :: "string list \<Rightarrow> arma_server_spec \<Rightarrow> arma_server_spec" where
  "mod_source_ids_patch ids sp = sp\<lparr>mod_source_ids := ids\<rparr>"

definition apply_update :: "string list option \<Rightarrow> (string \<times> string option) list \<Rightarrow> arma_server \<Rightarrow> arma_server" where
  "apply_update sel ann obj =
    obj\<lparr>srv_spec := (case sel of None \<Rightarrow> srv_spec obj | Some ids \<Rightarrow> mod_source_ids_patch ids (srv_spec obj)),
        srv_annotations := merge_map ann (srv_annotations obj)\<rparr>"

definition check_sources :: "string list option \<Rightarrow> ('z kube_scheme, connect_error, unit) act" where
  "check_sources sel =
    (case sel of
       None \<Rightarrow> ret ()
     | Some ids \<Rightarrow> for_each (\<lambda>i.
         act_map_err (\<lambda>_. InvalidArgument (''no such mod source: '' @ i))
           (act_bind (api_get k_sources src_name i) (\<lambda>_. ret ()))) ids)"

definition annotation_patch :: "string \<Rightarrow> (string, string) hashmap option
    \<Rightarrow> ('z kube_scheme, connect_error, (string \<times> string option) list) act" where
  "annotation_patch i md =
    (case md of
       None \<Rightarrow> ret []
     | Some m \<Rightarrow>
         act_bind (lift_res (metadata_to_annotations m)) (\<lambda>wanted.
         act_bind (get_or_not_found i) (\<lambda>existing.
         ret (map (\<lambda>k. (k, None))
                (filter (\<lambda>k. starts_with k METADATA_PREFIX \<and> k \<notin> set (map fst wanted))
                  (map fst (srv_annotations existing)))
              @ map (\<lambda>(k, v). (k, Some v)) wanted))))"

definition update_server :: "(string \<Rightarrow> string + unit) \<Rightarrow> update_server_request
    \<Rightarrow> ('z kube_scheme, connect_error, server_info) act" where
  "update_server refresh req =
    act_bind
      (act_when (up_mod_sources req \<noteq> None \<or> up_metadata req \<noteq> None)
        (act_bind (check_sources (up_mod_sources req)) (\<lambda>_.
         act_bind (annotation_patch (up_id req) (up_metadata req)) (\<lambda>ann.
         act_bind (act_map_err (\<lambda>e. Internal (''failed to update '' @ up_id req @ '': '' @ kube_text e))
                     (api_patch k_servers k_servers_update srv_name (up_id req)
                        (apply_update (up_mod_sources req) ann))) (\<lambda>_. ret ()))))) (\<lambda>_.
    act_bind (resync_and_repending refresh (up_id req)) (\<lambda>obj. ret (to_info obj)))"

definition clamp_word :: "'w::len word \<Rightarrow> 'w word \<Rightarrow> 'w word \<Rightarrow> 'w word" where
  "clamp_word lo hi x = (if x < lo then lo else if hi < x then hi else x)"

definition log_tail :: "u32 option \<Rightarrow> u32" where
  "log_tail t = clamp_word 1 MAX_LOG_LINES (case t of Some n \<Rightarrow> n | None \<Rightarrow> 500)"

definition get_server_logs :: "(string \<Rightarrow> kube_error + pod list)
    \<Rightarrow> (string \<Rightarrow> u32 \<Rightarrow> bool \<Rightarrow> kube_error + string) \<Rightarrow> logs_request \<Rightarrow> connect_error + string list \<times> string" where
  "get_server_logs list_pods read_logs req =
    rbind (server_pod list_pods (lr_id req)) (\<lambda>p.
    rbind (map_err (\<lambda>e. Internal (''failed to read logs for '' @ pod_name p @ '': '' @ kube_text e))
             (read_logs (pod_name p) (log_tail (lr_tail_lines req))
                (case lr_previous req of Some b \<Rightarrow> b | None \<Rightarrow> False))) (\<lambda>raw.
    Inr (str_lines raw, pod_name p)))"

definition pod_health :: "pod \<Rightarrow> health_response" where
  "pod_health p =
    (let st = (case pod_status p of Some st \<Rightarrow> st
               | None \<Rightarrow> \<lparr>ps_phase = None, ps_conditions = None, ps_restart_counts = None, ps_reason = None\<rparr>);
         ready_condition = find (\<lambda>c. pc_type c = ''Ready'') (case ps_conditions st of Some cs \<Rightarrow> cs | None \<Rightarrow> []);
         ready = (case ready_condition of Some c \<Rightarrow> pc_status c = ''True'' | None \<Rightarrow> False);
         restarts = (case ps_restart_counts st of Some (n # _) \<Rightarrow> n | _ \<Rightarrow> 0);
         msg = (case Option.bind ready_condition pc_message of
                  Some m \<Rightarrow> m
                | None \<Rightarrow> (case ps_reason st of Some r \<Rightarrow> r | None \<Rightarrow> if ready then ''answering Steam queries'' else []))
     in \<lparr>h_ready = ready, h_pod_name = pod_name p,
         h_phase = (case ps_phase st of Some ph \<Rightarrow> ph | None \<Rightarrow> []),
         h_restart_count = word_of_int (max restarts 0), h_message = msg\<rparr>)"

definition get_server_health :: "(string \<Rightarrow> kube_error + pod list) \<Rightarrow> string \<Rightarrow> connect_error + health_response" where
  "get_server_health list_pods i =
    (case server_pod list_pods i of
       Inl _ \<Rightarrow> Inr \<lparr>h_ready = False, h_pod_name = [], h_phase = [], h_restart_count = 0,
                    h_message = ''no pod is running for this server''\<rparr>
     | Inr p \<Rightarrow> Inr (pod_health p))"

definition start_server :: "(string \<Rightarrow> string + unit) \<Rightarrow> string \<Rightarrow> ('z kube_scheme, connect_error, server_info) act" where
  "start_server refresh i =
    act_bind (get_or_not_found i) (\<lambda>existing.
    act_bind (check_port_conflict (port (srv_spec existing)) (Some i)) (\<lambda>_.
    act_bind (act_map_err (\<lambda>e. Internal (''failed to set desired_state: '' @ kube_text e))
                (api_patch k_servers k_servers_update srv_name i (set_desired DesiredRunning))) (\<lambda>_.
    act_bind (resync_and_repending refresh i) (\<lambda>obj. ret (to_info obj)))))"

definition stop_server :: "string \<Rightarrow> ('z kube_scheme, connect_error, server_info) act" where
  "stop_server i =
    act_bind (act_map_err (\<lambda>e. Internal (''failed to set desired_state: '' @ kube_text e))
                (api_patch k_servers k_servers_update srv_name i (set_desired DesiredStopped))) (\<lambda>obj.
    ret (to_info obj))"


section \<open>Port ranges of running servers\<close>

definition running :: "arma_server \<Rightarrow> bool" where
  "running x = (desired_state (srv_spec x) = DesiredRunning)"

definition no_port_clash :: "arma_server list \<Rightarrow> bool" where
  "no_port_clash xs =
    (\<forall>a \<in> set xs. \<forall>b \<in> set xs. srv_name a \<noteq> srv_name b \<and> running a \<and> running b
       \<longrightarrow> \<not> port_ranges_overlap (port (srv_spec a)) (port (srv_spec b)))"

definition port_clear :: "u16 \<Rightarrow> string option \<Rightarrow> arma_server list \<Rightarrow> bool" where
  "port_clear p exclude xs =
    (\<forall>o_ther \<in> set xs. Some (srv_name o_ther) \<noteq> exclude \<and> running o_ther \<longrightarrow> \<not> port_ranges_overlap p (port (srv_spec o_ther)))"

definition gw_inv :: "'z kube_scheme \<Rightarrow> bool" where
  "gw_inv s = (distinct (map srv_name (k_servers s)) \<and> no_port_clash (k_servers s))"

text \<open>What a force-apply guarantees of the fields the applied object carries.\<close>

definition ssa_ok :: "(arma_server \<Rightarrow> arma_server \<Rightarrow> arma_server) \<Rightarrow> bool" where
  "ssa_ok ssa = (\<forall>old new. srv_name (ssa old new) = srv_name new
     \<and> port (srv_spec (ssa old new)) = port (srv_spec new)
     \<and> desired_state (srv_spec (ssa old new)) = desired_state (srv_spec new))"

lemma stable_servers [simp]: "stable (\<lambda>s. P (k_servers s))"
  by (simp add: stable_def)

lemma gw_inv_stable [simp]: "stable gw_inv"
  by (simp add: stable_def gw_inv_def)

lemma gw_inv_replies [simp]: "gw_inv (s\<lparr>k_replies := rs\<rparr>) = gw_inv s"
  by (simp add: gw_inv_def)

lemma gw_inv_log [simp]: "gw_inv (s\<lparr>k_sync_log := l\<rparr>) = gw_inv s"
  by (simp add: gw_inv_def)

lemma scan_ports_iff: "scan_ports p exclude xs = Inr u \<longleftrightarrow> port_clear p exclude xs"
  by (induction xs) (auto simp: port_clear_def running_def)

lemma no_port_clash_weaken:
  assumes "no_port_clash xs"
    and "\<And>y. y \<in> set ys \<Longrightarrow> \<exists>x \<in> set xs. srv_name y = srv_name x \<and> port (srv_spec y) = port (srv_spec x) \<and> (running y \<longrightarrow> running x)"
  shows "no_port_clash ys"
  unfolding no_port_clash_def
proof (intro ballI impI)
  fix a b
  assume "a \<in> set ys" "b \<in> set ys" and ab: "srv_name a \<noteq> srv_name b \<and> running a \<and> running b"
  with assms(2) obtain x y where "x \<in> set xs" "y \<in> set xs"
      "srv_name a = srv_name x" "port (srv_spec a) = port (srv_spec x)" "running x"
      "srv_name b = srv_name y" "port (srv_spec b) = port (srv_spec y)" "running y"
    by metis
  with assms(1) ab show "\<not> port_ranges_overlap (port (srv_spec a)) (port (srv_spec b))"
    by (simp add: no_port_clash_def)
qed

lemma no_port_clash_insert:
  assumes "no_port_clash xs" "port_clear (port (srv_spec n)) (Some (srv_name n)) xs"
    and "\<And>y. y \<in> set ys \<Longrightarrow> y \<in> set xs \<or>
      (srv_name y = srv_name n \<and> port (srv_spec y) = port (srv_spec n))"
  shows "no_port_clash ys"
proof -
  have new: "\<not> port_ranges_overlap (port (srv_spec n)) (port (srv_spec b))"
    if "b \<in> set xs" "srv_name b \<noteq> srv_name n" "running b" for b
    using that assms(2) by (simp add: port_clear_def)
  have "\<not> port_ranges_overlap (port (srv_spec a)) (port (srv_spec b))"
    if "a \<in> set ys" "b \<in> set ys" "srv_name a \<noteq> srv_name b" "running a" "running b" for a b
    using assms(3) [OF that(1)] assms(3) [OF that(2)] that assms(1) new [of a] new [of b]
    by (cases "srv_name a = srv_name n"; cases "srv_name b = srv_name n")
       (simp_all add: no_port_clash_def port_ranges_overlap_sym, (metis port_ranges_overlap_sym)+)
  then show ?thesis by (simp add: no_port_clash_def)
qed

lemma gw_invI: "distinct (map srv_name (g (k_servers s))) \<Longrightarrow> no_port_clash (g (k_servers s)) \<Longrightarrow> gw_inv (k_servers_update g s)"
  by (simp add: gw_inv_def)

lemma gw_invD: "gw_inv s \<Longrightarrow> distinct (map srv_name (k_servers s))" "gw_inv s \<Longrightarrow> no_port_clash (k_servers s)"
  by (simp_all add: gw_inv_def)

text \<open>A patch that keeps name and port and starts nothing.\<close>

lemma gw_inv_patch:
  assumes "gw_inv s" "\<And>x. srv_name (f x) = srv_name x" "\<And>x. port (srv_spec (f x)) = port (srv_spec x)"
    and "\<And>x. running (f x) \<longrightarrow> running x"
  shows "gw_inv (k_servers_update (obj_update srv_name n f) s)"
proof (rule gw_invI)
  show "distinct (map srv_name (obj_update srv_name n f (k_servers s)))"
    using gw_invD(1) [OF assms(1)] by (simp add: servers.names_update assms(2))
  show "no_port_clash (obj_update srv_name n f (k_servers s))"
  proof (rule no_port_clash_weaken [OF gw_invD(2) [OF assms(1)]])
    fix y
    assume "y \<in> set (obj_update srv_name n f (k_servers s))"
    from servers.update_member [OF this] assms(2-4)
    show "\<exists>x \<in> set (k_servers s). srv_name y = srv_name x \<and> port (srv_spec y) = port (srv_spec x) \<and> (running y \<longrightarrow> running x)"
      by metis
  qed
qed

lemma running_set_desired [simp]:
  "running (set_desired d x) = (d = DesiredRunning)" "srv_name (set_desired d x) = srv_name x"
  "port (srv_spec (set_desired d x)) = port (srv_spec x)"
  by (simp_all add: running_def set_desired_def)

lemma running_reset_phase [simp]:
  "running (reset_phase x) = running x" "srv_name (reset_phase x) = srv_name x"
  "srv_spec (reset_phase x) = srv_spec x" "srv_annotations (reset_phase x) = srv_annotations x"
  by (simp_all add: running_def reset_phase_def)

lemma running_apply_update [simp]:
  "running (apply_update sel ann x) = running x" "srv_name (apply_update sel ann x) = srv_name x"
  "port (srv_spec (apply_update sel ann x)) = port (srv_spec x)"
  by (simp_all add: running_def apply_update_def mod_source_ids_patch_def split: option.splits)

lemma gw_inv_delete:
  assumes "gw_inv s"
  shows "gw_inv (k_servers_update (obj_delete srv_name srv_finalizers mark_server n) s)"
proof (rule gw_invI)
  show "distinct (map srv_name (obj_delete srv_name srv_finalizers mark_server n (k_servers s)))"
    by (rule servers.names_delete [OF gw_invD(1) [OF assms]])
  show "no_port_clash (obj_delete srv_name srv_finalizers mark_server n (k_servers s))"
  proof (rule no_port_clash_weaken [OF gw_invD(2) [OF assms]])
    fix y
    assume "y \<in> set (obj_delete srv_name srv_finalizers mark_server n (k_servers s))"
    from servers.delete_member [OF this]
    show "\<exists>x \<in> set (k_servers s). srv_name y = srv_name x \<and> port (srv_spec y) = port (srv_spec x) \<and> (running y \<longrightarrow> running x)"
      by (auto simp: mark_server_def running_def)
  qed
qed

lemma gw_inv_start:
  assumes "gw_inv s" "obj_get srv_name (k_servers s) n = Some x" "port_clear (port (srv_spec x)) (Some n) (k_servers s)"
  shows "gw_inv (k_servers_update (obj_update srv_name n (set_desired DesiredRunning)) s)"
proof (rule gw_invI)
  let ?f = "set_desired DesiredRunning"
  from assms(2) have x: "x \<in> set (k_servers s)" "srv_name x = n" by (auto dest: servers.get_member)
  have same: "y = x" if "y \<in> set (k_servers s)" "srv_name y = n" for y
    using that x gw_invD(1) [OF assms(1)] by (auto simp: distinct_map dest: inj_onD)
  show "distinct (map srv_name (obj_update srv_name n ?f (k_servers s)))"
    using gw_invD(1) [OF assms(1)] by (simp add: servers.names_update)
  show "no_port_clash (obj_update srv_name n ?f (k_servers s))"
  proof (rule no_port_clash_insert [OF gw_invD(2) [OF assms(1)]])
    show "port_clear (port (srv_spec x)) (Some (srv_name x)) (k_servers s)" using assms(3) x by simp
    fix y
    assume "y \<in> set (obj_update srv_name n ?f (k_servers s))"
    from servers.update_member [OF this]
    show "y \<in> set (k_servers s) \<or> (srv_name y = srv_name x \<and> port (srv_spec y) = port (srv_spec x))"
      by (metis same running_set_desired(2,3))
  qed
qed

lemma gw_inv_create:
  assumes "gw_inv s" "ssa_ok ssa" "port_clear (port (srv_spec n)) None (k_servers s)"
  shows "gw_inv (k_servers_update (obj_apply srv_name ssa n) s)"
proof (rule gw_invI)
  show "distinct (map srv_name (obj_apply srv_name ssa n (k_servers s)))"
    using assms(2) by (intro servers.names_apply gw_invD(1) [OF assms(1)]) (simp add: ssa_ok_def)
  show "no_port_clash (obj_apply srv_name ssa n (k_servers s))"
  proof (rule no_port_clash_insert [OF gw_invD(2) [OF assms(1)]])
    show "port_clear (port (srv_spec n)) (Some (srv_name n)) (k_servers s)"
      using assms(3) by (simp add: port_clear_def)
    fix y
    assume "y \<in> set (obj_apply srv_name ssa n (k_servers s))"
    from servers.apply_member [OF this] assms(2)
    show "y \<in> set (k_servers s) \<or> (srv_name y = srv_name n \<and> port (srv_spec y) = port (srv_spec n))"
      by (auto simp: ssa_ok_def)
  qed
qed

section \<open>Triples of the RPCs\<close>

lemma keeps_get_or_not_found [triple_intros]: "stable P \<Longrightarrow> keeps P (get_or_not_found n)"
  by (auto simp: get_or_not_found_def intro!: triple_intros)

lemma triple_get_or_not_found:
  "stable P \<Longrightarrow> triple P (get_or_not_found n) (\<lambda>x s. P s \<and> obj_get srv_name (k_servers s) n = Some x) (\<lambda>_. P)"
  by (auto simp: get_or_not_found_def intro!: triple_map_err triple_get)

lemma triple_check_port_conflict:
  assumes "stable P"
  shows "triple P (check_port_conflict p exclude) (\<lambda>_ s. P s \<and> port_clear p exclude (k_servers s)) (\<lambda>_. P)"
  unfolding check_port_conflict_def
  by (rule triple_bind [OF triple_map_err [OF triple_list [OF assms]]])
     (auto intro!: triple_intros simp: scan_ports_iff)

lemma keeps_refresh_one: "stable P \<Longrightarrow> (\<And>s l. P s \<Longrightarrow> P (s\<lparr>k_sync_log := l\<rparr>)) \<Longrightarrow> keeps P (refresh_one refresh i)"
  unfolding refresh_one_def by (auto intro!: triple_intros keeps_sync_call split: sum.splits)

lemma keeps_resync: "keeps gw_inv (resync_and_repending refresh i)"
  unfolding resync_and_repending_def
  by (auto intro!: triple_intros keeps_refresh_one triple_patch gw_inv_patch)

lemma keeps_create: "ssa_ok ssa \<Longrightarrow> keeps gw_inv (create_server ssa req)"
  unfolding create_server_def
proof (rule triple_bind)
  show "triple gw_inv (create_check req) (\<lambda>p s. gw_inv s \<and> port_clear p None (k_servers s)) (\<lambda>_. gw_inv)"
    unfolding create_check_def Let_def
    by (rule triple_bind [where R = "\<lambda>_. gw_inv"], (auto intro!: triple_intros)[1],
        rule triple_bind [where R = "\<lambda>_. gw_inv"], (auto intro!: triple_intros)[1],
        rule triple_bind [OF triple_check_port_conflict]) (auto intro!: triple_intros)
next
  fix p
  assume "ssa_ok ssa"
  then show "triple (\<lambda>s. gw_inv s \<and> port_clear p None (k_servers s)) (create_apply ssa req p) (\<lambda>_. gw_inv) (\<lambda>_. gw_inv)"
    unfolding create_apply_def
    by (rule_tac R = "\<lambda>_ s. gw_inv s \<and> port_clear p None (k_servers s)" in triple_bind,
        (auto intro!: triple_intros)[1],
        intro triple_bind [where R = "\<lambda>_. gw_inv"] triple_map_err triple_apply triple_ret)
       (auto intro: gw_inv_create simp: create_object_def create_spec_def stable_def)
qed

lemma keeps_delete: "keeps gw_inv (delete_server i)"
  unfolding delete_server_def by (auto intro!: triple_intros triple_delete gw_inv_delete)

lemma keeps_stop: "keeps gw_inv (stop_server i)"
  unfolding stop_server_def by (auto intro!: triple_intros triple_patch gw_inv_patch)

lemma keeps_check_sources: "stable P \<Longrightarrow> keeps P (check_sources sel)"
  unfolding check_sources_def by (auto intro!: triple_intros split: option.splits)

lemma keeps_annotation_patch: "stable P \<Longrightarrow> keeps P (annotation_patch i md)"
  unfolding annotation_patch_def by (auto intro!: triple_intros split: option.splits)

lemma keeps_update: "keeps gw_inv (update_server refresh req)"
  unfolding update_server_def
  by (auto intro!: triple_intros keeps_check_sources keeps_annotation_patch triple_patch gw_inv_patch keeps_resync)

lemma keeps_start: "keeps gw_inv (start_server refresh i)"
  unfolding start_server_def
proof (rule triple_bind [OF triple_get_or_not_found [OF gw_inv_stable]])
  fix x
  let ?P = "\<lambda>s. gw_inv s \<and> obj_get srv_name (k_servers s) i = Some x"
  have st: "stable ?P" by (simp add: stable_def gw_inv_def)
  show "triple ?P (act_bind (check_port_conflict (port (srv_spec x)) (Some i)) (\<lambda>_.
      act_bind (act_map_err (\<lambda>e. Internal (''failed to set desired_state: '' @ kube_text e))
        (api_patch k_servers k_servers_update srv_name i (set_desired DesiredRunning))) (\<lambda>_.
      act_bind (resync_and_repending refresh i) (\<lambda>obj. ret (to_info obj))))) (\<lambda>_. gw_inv) (\<lambda>_. gw_inv)"
    by (rule triple_bind [OF triple_conseq [OF triple_check_port_conflict [OF st]]], assumption, assumption, blast,
        intro triple_bind [where R = "\<lambda>_. gw_inv"] triple_map_err triple_patch keeps_resync triple_ret)
       (auto intro: gw_inv_start simp: stable_def)
qed

section \<open>Metadata\<close>

lemma triple_patch_ok:
  "stable P \<Longrightarrow> (\<And>s x. P s \<Longrightarrow> obj_get nm (sel s) n = Some x \<Longrightarrow> Q (f x) (upd (obj_update nm n f) s))
    \<Longrightarrow> triple P (api_patch sel upd nm n f) Q (\<lambda>_ _. True)"
  unfolding api_patch_def by (rule triple_api_call) (auto simp: triple_def split: option.splits)

lemma filter_neq_map_of: "map_of (filter (\<lambda>q. fst q \<noteq> k) m) = (map_of m)(k := None)"
  by (induction m) (auto simp: fun_eq_iff)

lemma map_of_merge_map:
  "btree m \<Longrightarrow> distinct (map fst p) \<Longrightarrow>
    map_of (merge_map p m) k = (case map_of p k of None \<Rightarrow> map_of m k | Some v \<Rightarrow> v)"
proof (induction p arbitrary: m)
  case (Cons q p)
  obtain k' v where q: "q = (k', v)" by (cases q)
  define m' where "m' = (case v of None \<Rightarrow> filter (\<lambda>q. fst q \<noteq> k') m | Some x \<Rightarrow> btree_insert k' x m)"
  have bt: "btree m'" using Cons.prems by (auto simp: m'_def btree_filter btree_btree_insert split: option.splits)
  have step: "merge_map (q # p) m = merge_map p m'" by (simp add: merge_map_def q m'_def)
  have look: "map_of m' x = (if x = k' then v else map_of m x)" for x
    using Cons.prems by (auto simp: m'_def filter_neq_map_of map_of_btree_insert split: option.splits)
  have "map_of p k' = None" using Cons.prems q by (simp add: map_of_eq_None_iff)
  then show ?case
    using Cons.IH [OF bt] Cons.prems(2) unfolding step
    by (cases "k = k'"; cases "map_of p k") (simp_all add: look q)
qed (simp add: merge_map_def)

lemma map_of_metadata: "map_of (metadata_from_annotations y) k = map_of (srv_annotations y) (METADATA_PREFIX @ k)"
proof -
  have "map_of (List.map_filter (\<lambda>(k, v). map_option (\<lambda>k'. (k', v)) (strip_prefix k pre)) xs) k =
      map_of xs (pre @ k)" for xs :: "(string \<times> string) list" and pre
    by (induction xs) (auto simp: List.map_filter_simps str_simps split: option.splits)
  then show ?thesis by (simp add: metadata_from_annotations_def)
qed

lemma metadata_loop_extend:
  "metadata_loop out es = Inr w \<Longrightarrow> w = btree_extend out (map (\<lambda>(k, v). (METADATA_PREFIX @ k, v)) es)"
  by (induction out es rule: metadata_loop.induct) (auto simp: btree_extend_def split: if_splits)

lemma map_of_prefixed:
  "map_of (map (\<lambda>(k, v). (pre @ k, v)) es) x =
    (if prefix pre x then map_of es (drop (length pre) x) else None)" for es :: "(string \<times> string) list"
  by (induction es) (auto simp: prefix_def)

lemma metadata_to_annotations_map:
  assumes "metadata_to_annotations md = Inr w" "distinct (map fst md)"
  shows "btree w" and "map_of w k = (if starts_with k METADATA_PREFIX then map_of md (drop (length METADATA_PREFIX) k) else None)"
proof -
  from assms(1) have w: "w = btree_extend [] (map (\<lambda>(k, v). (METADATA_PREFIX @ k, v)) md)"
    unfolding metadata_to_annotations_def by (rule metadata_loop_extend)
  have "map fst (map (\<lambda>(k, v). (METADATA_PREFIX @ k, v)) md) = map (append METADATA_PREFIX) (map fst md)" by auto
  then have d: "distinct (map fst (map (\<lambda>(k, v). (METADATA_PREFIX @ k, v)) md))"
    using assms(2) by (simp add: distinct_map inj_on_def)
  show "btree w" unfolding w by (rule btree_btree_extend) simp
  show "map_of w k = (if starts_with k METADATA_PREFIX then map_of md (drop (length METADATA_PREFIX) k) else None)"
    unfolding w by (subst map_of_btree_extend [OF _ d]) (auto simp: map_of_prefixed starts_with_def)
qed

text \<open>The patch \<open>update_server\<close> computes for a wanted set of annotations.\<close>

definition metadata_patch :: "(string \<times> string) list \<Rightarrow> arma_server \<Rightarrow> (string \<times> string option) list" where
  "metadata_patch wanted x =
    map (\<lambda>k. (k, None)) (filter (\<lambda>k. starts_with k METADATA_PREFIX \<and> k \<notin> set (map fst wanted)) (map fst (srv_annotations x)))
    @ map (\<lambda>(k, v). (k, Some v)) wanted"

lemma map_of_metadata_patch:
  "map_of (metadata_patch wanted x) k =
    (case map_of wanted k of
       Some v \<Rightarrow> Some (Some v)
     | None \<Rightarrow> if starts_with k METADATA_PREFIX \<and> k \<in> set (map fst (srv_annotations x)) then Some None else None)"
proof -
  have "map_of (map (\<lambda>(k, v). (k, Some v)) wanted) k = map_option Some (map_of wanted k)"
    by (induction wanted) auto
  moreover have "map_of (map (\<lambda>k. (k, None :: string option)) ks) k = (if k \<in> set ks then Some None else None)" for ks :: "string list"
    by (induction ks) auto
  moreover have "k \<in> set (map fst wanted) \<longleftrightarrow> map_of wanted k \<noteq> None" by (simp add: map_of_eq_None_iff)
  ultimately show ?thesis
    unfolding metadata_patch_def map_of_append map_add_def by (cases "map_of wanted k") simp_all
qed

lemma distinct_metadata_patch:
  "btree (srv_annotations x) \<Longrightarrow> btree wanted \<Longrightarrow> distinct (map fst (metadata_patch wanted x))"
proof -
  assume b: "btree (srv_annotations x)" "btree wanted"
  have "map fst (metadata_patch wanted x) =
      filter (\<lambda>k. starts_with k METADATA_PREFIX \<and> k \<notin> set (map fst wanted)) (map fst (srv_annotations x)) @ map fst wanted"
    by (simp add: metadata_patch_def o_def case_prod_beta)
  then show ?thesis using b by (simp add: strict_sorted_iff) blast
qed

lemma patched_metadata:
  assumes "metadata_to_annotations md = Inr w" "distinct (map fst md)" "btree (srv_annotations x)"
    and y: "srv_annotations y = merge_map (metadata_patch w x) (srv_annotations x)"
  shows "map_of (metadata_from_annotations y) = map_of md"
    and "\<not> starts_with k METADATA_PREFIX \<Longrightarrow> map_of (srv_annotations y) k = map_of (srv_annotations x) k"
proof -
  have look: "map_of (srv_annotations y) k = (case map_of w k of Some v \<Rightarrow> Some v
     | None \<Rightarrow> if starts_with k METADATA_PREFIX then None else map_of (srv_annotations x) k)" for k
  proof -
    have "map_of (srv_annotations y) k = (case map_of (metadata_patch w x) k of None \<Rightarrow> map_of (srv_annotations x) k | Some v \<Rightarrow> v)"
      unfolding y
      by (rule map_of_merge_map [OF assms(3) distinct_metadata_patch [OF assms(3) metadata_to_annotations_map(1) [OF assms(1,2)]]])
    moreover have "k \<in> set (map fst (srv_annotations x)) \<longleftrightarrow> map_of (srv_annotations x) k \<noteq> None"
      by (simp add: map_of_eq_None_iff)
    ultimately show ?thesis
      by (cases "map_of w k"; cases "map_of (srv_annotations x) k")
         (simp_all only: map_of_metadata_patch option.case if_split option.simps, auto)
  qed
  show "map_of (metadata_from_annotations y) = map_of md"
    by (rule ext) (simp add: map_of_metadata look metadata_to_annotations_map(2) [OF assms(1,2)]
        starts_with_def split: option.splits)
  show "\<not> starts_with k METADATA_PREFIX \<Longrightarrow> map_of (srv_annotations y) k = map_of (srv_annotations x) k"
    by (simp add: look metadata_to_annotations_map(2) [OF assms(1,2)])
qed

abbreviation stored :: "string \<Rightarrow> arma_server \<Rightarrow> 'z kube_scheme \<Rightarrow> bool" where
  "stored i x \<equiv> \<lambda>s. obj_get srv_name (k_servers s) i = Some x"

lemma stable_stored [simp]: "stable (stored i x)"
  by (simp add: stable_def)

lemma triple_patch_stored:
  assumes "\<And>y. srv_name (f y) = srv_name y"
  shows "triple (stored i x) (api_patch k_servers k_servers_update srv_name i f)
    (\<lambda>y s. y = f x \<and> stored i (f x) s) (\<lambda>_ _. True)"
  by (rule triple_patch_ok) (auto simp: servers.get_update assms)

lemma triple_resync:
  "triple (stored i x) (resync_and_repending refresh i) (\<lambda>y s. y = reset_phase x \<and> stored i y s) (\<lambda>_ _. True)"
  unfolding resync_and_repending_def
proof (rule triple_bind [where R = "\<lambda>_. stored i x"])
  show "triple (stored i x) (get_or_not_found i) (\<lambda>_. stored i x) (\<lambda>_ _. True)"
    by (rule triple_weaken_error [OF keeps_get_or_not_found]) simp
  fix obj
  show "triple (stored i x) (act_bind (for_each (refresh_one refresh) (mod_source_ids (srv_spec obj)))
      (\<lambda>_. act_map_err (\<lambda>e. Internal (''failed to reset status: '' @ kube_text e))
         (api_patch k_servers k_servers_update srv_name i reset_phase)))
      (\<lambda>y s. y = reset_phase x \<and> stored i y s) (\<lambda>_ _. True)"
    by (rule triple_bind [where R = "\<lambda>_. stored i x"],
        rule triple_weaken_error [OF keeps_for_each [OF keeps_refresh_one]])
       (auto intro!: triple_map_err triple_conseq [OF triple_patch_stored])
qed

lemma triple_annotation_patch:
  "triple (stored i x) (annotation_patch i (Some md))
    (\<lambda>ann s. stored i x s \<and> (\<exists>w. metadata_to_annotations md = Inr w \<and> ann = metadata_patch w x)) (\<lambda>_ _. True)"
proof -
  have "triple (stored i x) (act_bind (get_or_not_found i) (\<lambda>existing. ret (metadata_patch w existing)))
      (\<lambda>ann s. stored i x s \<and> ann = metadata_patch w x) (\<lambda>_ _. True)" for w
    by (rule triple_bind [OF triple_weaken_error [OF triple_get_or_not_found]]) (auto intro!: triple_intros)
  then show ?thesis
    unfolding annotation_patch_def option.case metadata_patch_def [symmetric]
    by (intro triple_bind [where R = "\<lambda>w s. stored i x s \<and> metadata_to_annotations md = Inr w"]
          triple_pure triple_lift_res, simp_all) (rule triple_post, assumption, blast)
qed

lemma triple_update_metadata:
  assumes "up_metadata req = Some md" "up_id req = i"
  shows "triple (stored i x) (update_server refresh req)
    (\<lambda>info s. \<exists>w y. metadata_to_annotations md = Inr w \<and> stored i y s \<and> info = to_info y
       \<and> srv_annotations y = merge_map (metadata_patch w x) (srv_annotations x)) (\<lambda>_ _. True)"
proof -
  let ?f = "apply_update (up_mod_sources req)"
  let ?R = "\<lambda>_ s. \<exists>w. stored i (?f (metadata_patch w x) x) s \<and> metadata_to_annotations md = Inr w"
  have patch: "triple (stored i x) (act_bind (check_sources (up_mod_sources req)) (\<lambda>_.
      act_bind (annotation_patch i (Some md)) (\<lambda>ann.
      act_bind (act_map_err g (api_patch k_servers k_servers_update srv_name i (?f ann))) (\<lambda>_. ret ())))) ?R (\<lambda>_ _. True)" for g
  proof (rule triple_bind [where R = "\<lambda>_. stored i x"])
    show "triple (stored i x) (check_sources (up_mod_sources req)) (\<lambda>_. stored i x) (\<lambda>_ _. True)"
      by (rule triple_weaken_error [OF keeps_check_sources]) simp
    have "triple (\<lambda>s. stored i x s \<and> (\<exists>w. metadata_to_annotations md = Inr w \<and> ann = metadata_patch w x))
        (act_bind (act_map_err g (api_patch k_servers k_servers_update srv_name i (?f ann))) (\<lambda>_. ret ())) ?R (\<lambda>_ _. True)" for ann
      by (rule triple_bind [where R = ?R])
         (auto intro!: triple_map_err triple_patch_ok triple_ret simp: stable_def servers.get_update)
    then show "triple (stored i x) (act_bind (annotation_patch i (Some md)) (\<lambda>ann.
      act_bind (act_map_err g (api_patch k_servers k_servers_update srv_name i (?f ann))) (\<lambda>_. ret ()))) ?R (\<lambda>_ _. True)" for x'
      by (rule triple_bind [OF triple_annotation_patch])
  qed
  have resync: "triple (stored i y) (act_bind (resync_and_repending refresh i) (\<lambda>obj. ret (to_info obj)))
      (\<lambda>info s. info = to_info (reset_phase y) \<and> stored i (reset_phase y) s) (\<lambda>_ _. True)" for y
    by (rule triple_bind [OF triple_resync]) (auto intro!: triple_intros)
  show ?thesis
    unfolding update_server_def assms act_when_def
    by (simp, rule triple_bind [OF patch], rule triple_ex, rule triple_pure, rule triple_post [OF resync])
       (auto simp: apply_update_def)
qed

section \<open>Reachable stores\<close>

text \<open>Stores reached by RPCs one after the other, each with its own pattern of API failures. Between
  them the controllers may change statuses and finalizers, drop objects and change mod sources.\<close>

inductive gateway_reach :: "(arma_server \<Rightarrow> arma_server \<Rightarrow> arma_server) \<Rightarrow> kube \<Rightarrow> bool" for ssa where
  reach_init: "k_servers s = [] \<Longrightarrow> gateway_reach ssa s"
| reach_environment: "gateway_reach ssa s \<Longrightarrow> distinct (map srv_name (k_servers s')) \<Longrightarrow>
    (\<forall>y \<in> set (k_servers s'). \<exists>x \<in> set (k_servers s). srv_name y = srv_name x \<and> srv_spec y = srv_spec x) \<Longrightarrow>
    gateway_reach ssa s'"
| reach_create: "gateway_reach ssa s \<Longrightarrow> gateway_reach ssa (snd (create_server ssa req s))"
| reach_delete: "gateway_reach ssa s \<Longrightarrow> gateway_reach ssa (snd (delete_server i s))"
| reach_update: "gateway_reach ssa s \<Longrightarrow> gateway_reach ssa (snd (update_server refresh ureq s))"
| reach_start: "gateway_reach ssa s \<Longrightarrow> gateway_reach ssa (snd (start_server refresh i s))"
| reach_stop: "gateway_reach ssa s \<Longrightarrow> gateway_reach ssa (snd (stop_server i s))"

lemma gateway_reach_inv: "gateway_reach ssa s \<Longrightarrow> ssa_ok ssa \<Longrightarrow> gw_inv s"
proof (induction rule: gateway_reach.induct)
  case (reach_init s)
  then show ?case by (simp add: gw_inv_def no_port_clash_def)
next
  case (reach_environment s s')
  have "no_port_clash (k_servers s')"
  proof (rule no_port_clash_weaken)
    show "no_port_clash (k_servers s)" using reach_environment.IH reach_environment.prems by (simp add: gw_inv_def)
    show "\<exists>x \<in> set (k_servers s). srv_name y = srv_name x \<and> port (srv_spec y) = port (srv_spec x) \<and> (running y \<longrightarrow> running x)"
      if "y \<in> set (k_servers s')" for y
      using bspec [OF reach_environment.hyps(3) that] by (auto simp: running_def)
  qed
  with reach_environment.hyps show ?case by (simp add: gw_inv_def)
qed (auto intro!: keepsD [OF keeps_create] keepsD [OF keeps_delete] keepsD [OF keeps_update]
      keepsD [OF keeps_start] keepsD [OF keeps_stop])

section \<open>Properties\<close>

text \<open>C3: after any sequence of requests, with any pattern of API failures and lost replies, server
  names are unique and no port is bound by two servers that are meant to run.\<close>

theorem running_servers_never_share_a_port:
  assumes "ssa_ok ssa" "gateway_reach ssa s"
  shows "distinct (map srv_name (k_servers s))
    \<and> (\<forall>a \<in> set (k_servers s). \<forall>b \<in> set (k_servers s). running a \<and> running b \<and> a \<noteq> b
         \<longrightarrow> ports_of (port (srv_spec a)) \<inter> ports_of (port (srv_spec b)) = {})"
proof -
  have inv: "gw_inv s" by (rule gateway_reach_inv [OF assms(2,1)])
  have "srv_name a \<noteq> srv_name b" if "a \<in> set (k_servers s)" "b \<in> set (k_servers s)" "a \<noteq> b" for a b
    using that inv by (auto simp: gw_inv_def distinct_map dest: inj_onD)
  with inv show ?thesis
    using port_ranges_overlap_meet by (auto simp: gw_inv_def no_port_clash_def)
qed

definition demo_ssa :: "arma_server \<Rightarrow> arma_server \<Rightarrow> arma_server" where
  "demo_ssa old new = old\<lparr>srv_spec := srv_spec new, srv_name := srv_name new\<rparr>"

definition demo_request :: "string \<Rightarrow> u32 \<Rightarrow> create_server_request" where
  "demo_request n p = \<lparr>cr_name = n, cr_port = p, cr_mod_source_ids = [], cr_config_map = None,
     cr_metrics_port = None, cr_metrics_path = None, cr_metadata = []\<rparr>"

definition demo_kube :: kube where
  "demo_kube = \<lparr>k_servers = [], k_sources = [], k_replies = [], k_sync_log = []\<rparr>"

lemma demo_ssa_ok: "ssa_ok demo_ssa"
  by (simp add: ssa_ok_def demo_ssa_def)

lemmas create_eval = create_server_def create_check_def create_apply_def check_port_conflict_def
  api_list_def api_apply_def act_simps demo_request_def validate_k8s_name_def is_label_char_def
  is_lower_def is_digit_def is_alnum_def is_alpha_def is_upper_def metadata_to_annotations_def
  obj_apply_def obj_get_def create_object_def create_spec_def

lemma demo_created:
  "k_servers (snd (create_server demo_ssa (demo_request ''a'' 2302) demo_kube)) = [create_object (demo_request ''a'' 2302) 2302 []]"
  by (simp add: create_eval demo_kube_def Let_def)

theorem running_servers_never_share_a_port_witness:
  "k_servers (snd (create_server demo_ssa (demo_request ''a'' 2302) demo_kube)) = [create_object (demo_request ''a'' 2302) 2302 []]
   \<and> distinct (map srv_name (k_servers (snd (create_server demo_ssa (demo_request ''a'' 2302) demo_kube))))"
proof -
  have "gateway_reach demo_ssa (snd (create_server demo_ssa (demo_request ''a'' 2302) demo_kube))"
    by (rule reach_create, rule reach_init) (simp add: demo_kube_def)
  from running_servers_never_share_a_port [OF demo_ssa_ok this] show ?thesis by (simp add: demo_created)
qed

text \<open>The check and the write of \<open>create_server\<close> are separate API calls and nothing holds the
  ports between them: two requests whose checks both pass before either writes leave two running
  servers on the same ports.\<close>

theorem concurrent_creates_clash:
  "let a = demo_request ''a'' 2302; b = demo_request ''b'' 2304 in
     fst (create_check a demo_kube) = Inr 2302 \<and> fst (create_check b demo_kube) = Inr 2304
     \<and> snd (create_check a demo_kube) = demo_kube \<and> snd (create_check b demo_kube) = demo_kube
     \<and> \<not> no_port_clash (k_servers (snd (create_apply demo_ssa b 2304 (snd (create_apply demo_ssa a 2302 demo_kube)))))"
proof -
  have "port_ranges_overlap 2302 2304"
    by (simp add: port_ranges_overlap_def port_range_def saturating_add_def)
  then show ?thesis
    by (simp add: create_eval demo_kube_def Let_def no_port_clash_def running_def)
qed

text \<open>C18: a requested port is cut to 16 bits without a check. A successful \<open>create_server\<close> answers
  with, and stores, the request's port modulo 65536, so a request for port 67838 runs on 2302.\<close>

theorem create_server_truncates_port:
  assumes "ssa_ok ssa" "create_server ssa req s = (Inr info, s')"
  shows "unat (si_port info) = unat (cr_port req) mod 65536
    \<and> (\<exists>x. obj_get srv_name (k_servers s') (cr_name req) = Some x \<and> unat (port (srv_spec x)) = unat (cr_port req) mod 65536)"
proof -
  let ?p = "ucast (cr_port req) :: u16"
  let ?stored = "\<lambda>s. \<exists>x. obj_get srv_name (k_servers s) (cr_name req) = Some x \<and> port (srv_spec x) = ?p"
  have check: "triple (\<lambda>_. True) (create_check req) (\<lambda>p _. p = ?p) (\<lambda>_ _. True)"
    unfolding create_check_def Let_def by (auto simp: triple_def act_simps split: prod.splits sum.splits)
  have ann: "triple (\<lambda>s. p = ?p) (api_apply k_servers k_servers_update srv_name ssa (create_object req p ann))
      (\<lambda>x s. port (srv_spec x) = ?p \<and> ?stored s) (\<lambda>_ _. True)" for p ann
    unfolding api_apply_def using assms(1)
    by (intro triple_api_call)
       (auto simp: triple_def stable_def servers.get_apply ssa_ok_def create_object_def create_spec_def split: option.splits)
  have "triple (\<lambda>s. p = ?p) (create_apply ssa req p) (\<lambda>info s. si_port info = ucast ?p \<and> ?stored s) (\<lambda>_ _. True)" for p
    unfolding create_apply_def
    by (rule triple_bind [where R = "\<lambda>_ _. p = ?p"], (auto intro!: triple_intros)[1],
        rule triple_bind [OF triple_map_err [where E = "\<lambda>_ _. True", OF ann]]) (auto intro!: triple_intros simp: to_info_def Let_def)
  then have "triple (\<lambda>_. True) (create_server ssa req) (\<lambda>info s. si_port info = ucast ?p \<and> ?stored s) (\<lambda>_ _. True)"
    unfolding create_server_def by (rule triple_bind [OF check])
  from triple_okD [OF this _ assms(2)] have "si_port info = ucast ?p" "?stored s'" by auto
  moreover have "unat (ucast (?p) :: u32) = unat (cr_port req) mod 65536" "unat ?p = unat (cr_port req) mod 65536"
    by (simp_all add: unsigned_ucast_eq take_bit_eq_mod unat_mod_distrib)
  ultimately show ?thesis by auto
qed

theorem create_server_truncates_port_witness:
  "\<exists>x. obj_get srv_name (k_servers (snd (create_server demo_ssa (demo_request ''a'' 67838) demo_kube))) ''a'' = Some x
     \<and> unat (port (srv_spec x)) = 2302"
proof -
  have "\<exists>info. fst (create_server demo_ssa (demo_request ''a'' 67838) demo_kube) = Inr info"
    by (simp add: create_eval demo_kube_def Let_def)
  then obtain info s' where "create_server demo_ssa (demo_request ''a'' 67838) demo_kube = (Inr info, s')"
    by (cases "create_server demo_ssa (demo_request ''a'' 67838) demo_kube") auto
  from create_server_truncates_port [OF demo_ssa_ok this] this show ?thesis by (simp add: demo_request_def)
qed

text \<open>\<open>update_server\<close> replaces the operator metadata as a whole: after a successful update the
  metadata read back is exactly the map sent, and every annotation outside the metadata prefix is
  untouched.\<close>

theorem update_replaces_metadata:
  assumes "update_server refresh req s = (Inr info, s')" "up_metadata req = Some md" "distinct (map fst md)"
    and "obj_get srv_name (k_servers s) (up_id req) = Some x" "btree (srv_annotations x)"
  shows "\<exists>y. obj_get srv_name (k_servers s') (up_id req) = Some y \<and> info = to_info y
     \<and> map_of (si_metadata info) = map_of md
     \<and> (\<forall>k. \<not> starts_with k METADATA_PREFIX \<longrightarrow> map_of (srv_annotations y) k = map_of (srv_annotations x) k)"
proof -
  from triple_okD [OF triple_update_metadata [OF assms(2) refl] assms(4) assms(1)] obtain w y where
    y: "metadata_to_annotations md = Inr w" "obj_get srv_name (k_servers s') (up_id req) = Some y" "info = to_info y"
      "srv_annotations y = merge_map (metadata_patch w x) (srv_annotations x)"
    by blast
  note patched_metadata [OF y(1) assms(3,5) y(4)]
  then show ?thesis using y by (auto simp: to_info_def Let_def)
qed

definition noted_server :: arma_server where
  "noted_server = (create_object (demo_request ''a'' 2302) 2302 [(''helm.sh/chart'', ''c''), (METADATA_PREFIX @ ''owner'', ''old'')])"

theorem update_replaces_metadata_witness:
  "\<exists>y info. obj_get srv_name (k_servers (snd (update_server (\<lambda>_. Inr ())
        \<lparr>up_id = ''a'', up_mod_sources = None, up_metadata = Some [(''note'', ''n'')]\<rparr>
        (demo_kube\<lparr>k_servers := [noted_server]\<rparr>)))) ''a'' = Some y
     \<and> info = to_info y \<and> map_of (si_metadata info) = map_of [(''note'', ''n'')]
     \<and> map_of (srv_annotations y) ''helm.sh/chart'' = Some ''c''"
proof -
  let ?req = "\<lparr>up_id = ''a'', up_mod_sources = None, up_metadata = Some [(''note'', ''n'')]\<rparr>"
  let ?s = "demo_kube\<lparr>k_servers := [noted_server]\<rparr>"
  have "\<exists>info. fst (update_server (\<lambda>_. Inr ()) ?req ?s) = Inr info"
    by (simp add: update_server_def act_simps check_sources_def annotation_patch_def metadata_to_annotations_def
        valid_metadata_key_def is_alnum_def is_alpha_def is_lower_def is_digit_def is_upper_def
        get_or_not_found_def api_get_def api_patch_def resync_and_repending_def demo_kube_def noted_server_def
        create_object_def demo_request_def obj_get_def obj_update_def apply_update_def create_spec_def)
  then obtain info s' where run: "update_server (\<lambda>_. Inr ()) ?req ?s = (Inr info, s')"
    by (cases "update_server (\<lambda>_. Inr ()) ?req ?s") auto
  have x: "obj_get srv_name (k_servers ?s) (up_id ?req) = Some noted_server" "btree (srv_annotations noted_server)"
    by (simp_all add: obj_get_def noted_server_def create_object_def demo_request_def METADATA_PREFIX_def less_char_def)
  have c: "\<not> starts_with ''helm.sh/chart'' METADATA_PREFIX" "map_of (srv_annotations noted_server) ''helm.sh/chart'' = Some ''c''"
    by (simp_all add: noted_server_def create_object_def starts_with_def METADATA_PREFIX_def)
  from update_replaces_metadata [OF run _ _ x] c show ?thesis using run by auto
qed

definition dns_label :: "string \<Rightarrow> bool" where
  "dns_label n = (n \<noteq> [] \<and> length n \<le> 63 \<and> list_all is_label_char n \<and> hd n \<noteq> CHR ''-'' \<and> last n \<noteq> CHR ''-'')"

text \<open>The accepted names are the DNS-1123 labels: one to 63 lower-case letters, digits and
  hyphens with no hyphen at either end.\<close>

theorem validate_k8s_name_iff: "validate_k8s_name n = Inr () \<longleftrightarrow> dns_label n"
proof -
  have "is_alnum c \<longleftrightarrow> c \<noteq> CHR ''-''" if "is_label_char c" for c
    using that by (auto simp: is_label_char_def is_alnum_def is_alpha_def is_lower_def is_digit_def is_upper_def)
  moreover have "is_label_char (hd n)" "is_label_char (last n)" if "n \<noteq> []" "list_all is_label_char n"
    using that by (auto simp: list_all_iff)
  ultimately show ?thesis by (auto simp: validate_k8s_name_def dns_label_def not_less)
qed

end
