(* ===== verification/Deploy.thy ===== *)
theory Deploy
  imports Kube ArmaConfig
begin

text \<open>
  The objects the controller writes: its configuration (\<open>services/controller/src/config.rs\<close>) and the
  Deployments of a server and of a headless client (\<open>services/controller/src/reconcile.rs\<close>,
  \<open>ensure_deployment\<close> and \<open>ensure_hc_deployment\<close>), field by field. A field the code leaves at its
  default has no counterpart here.
\<close>

section \<open>Configuration\<close>

record config =
  cfg_namespace :: string
  cfg_launcher_image :: string
  cfg_sync_daemon_url :: string
  cfg_server_root_base :: string
  cfg_local_content_root :: string
  cfg_local_content_host_path :: string
  cfg_image_pull_secrets :: "string list"
  cfg_database_url :: string
  cfg_app_postgres_role :: string
  cfg_app_postgres_secret_name :: string
  cfg_app_postgres_database :: string
  cfg_app_postgres_host :: string
  cfg_app_postgres_port :: string
  cfg_arma_config_baseline :: string
  cfg_user_secrets_namespace :: string
  cfg_arma_ld_preload :: string

definition pull_secret_names :: "string option \<Rightarrow> string list" where
  "pull_secret_names v =
    (case v of None \<Rightarrow> [] | Some t \<Rightarrow> filter (\<lambda>n. n \<noteq> []) (map trim (split_on (CHR '','') t)))"

definition config_from_env :: "(string \<rightharpoonup> string) \<Rightarrow> config" where
  "config_from_env env =
    \<lparr>cfg_namespace = env_or env ''NAMESPACE'' ''default'',
     cfg_launcher_image = env_or env ''LAUNCHER_IMAGE'' ''arma3-launcher:latest'',
     cfg_sync_daemon_url = env_or env ''SYNC_DAEMON_URL'' ''http://sync-daemon:8080'',
     cfg_server_root_base = env_or env ''SERVER_ROOT_BASE'' ''/srv/arma-servers'',
     cfg_local_content_root = env_or env ''LOCAL_CONTENT_ROOT'' ''/local-content'',
     cfg_local_content_host_path = env_or env ''LOCAL_CONTENT_HOST_PATH'' ''/var/lib/magpie/local-content'',
     cfg_image_pull_secrets = pull_secret_names (env ''IMAGE_PULL_SECRETS''),
     cfg_database_url = env_or env ''DATABASE_URL'' [],
     cfg_app_postgres_role = env_or env ''APP_POSTGRES_ROLE'' ''magpie-operator-arma'',
     cfg_app_postgres_secret_name = env_or env ''APP_POSTGRES_SECRET_NAME'' ''magpie-app-postgres-creds'',
     cfg_app_postgres_database = env_or env ''APP_POSTGRES_DATABASE'' ''magpie-cluster'',
     cfg_app_postgres_host = env_or env ''APP_POSTGRES_HOST'' [],
     cfg_app_postgres_port = env_or env ''APP_POSTGRES_PORT'' ''5432'',
     cfg_arma_config_baseline = env_or env ''ARMA_CONFIG_BASELINE_CONFIGMAP'' ''arma-config-baseline'',
     cfg_user_secrets_namespace = env_or env ''USER_SECRETS_NAMESPACE'' ''magpie-user-secrets'',
     cfg_arma_ld_preload = env_or env ''ARMA_LD_PRELOAD'' []\<rparr>"

section \<open>Deployments\<close>

datatype env_value = EnvText string | EnvSecretKey string string

type_synonym env_var = "string \<times> env_value"

record volume_mount =
  vm_name :: string
  vm_path :: string
  vm_sub_path :: "string option"
  vm_read_only :: bool

datatype volume_source = CsiDriver string | HostPathDir string

record probe =
  pr_command :: "string list"
  pr_initial_delay :: nat
  pr_period :: nat
  pr_timeout :: nat
  pr_failure_threshold :: nat

record container =
  co_name :: string
  co_image :: string
  co_allow_privilege_escalation :: bool
  co_add_capabilities :: "string list"
  co_drop_capabilities :: "string list"
  co_image_pull_policy :: string
  co_env :: "env_var list"
  co_volume_mounts :: "volume_mount list"
  co_readiness_probe :: "probe option"
  co_liveness_probe :: "probe option"

record pod_template =
  pt_labels :: "(string \<times> string) list"
  pt_annotations :: "(string \<times> string) list"
  pt_host_network :: bool
  pt_run_as_non_root :: bool
  pt_image_pull_secrets :: "string list option"
  pt_containers :: "container list"
  pt_volumes :: "(string \<times> volume_source) list"

datatype owner_ref = OwnerArmaServer string | OwnerHeadlessClient string

record deployment =
  dep_name :: string
  dep_labels :: "(string \<times> string) list"
  dep_owner :: owner_ref
  dep_replicas :: nat
  dep_match_labels :: "(string \<times> string) list"
  dep_strategy :: string
  dep_template :: pod_template

definition CLAIM_PATH :: string where
  "CLAIM_PATH = ''/arma3/content''"

definition env_text :: "string \<Rightarrow> string \<Rightarrow> env_var" where
  "env_text k v = (k, EnvText v)"

definition mount :: "string \<Rightarrow> string \<Rightarrow> volume_mount" where
  "mount n p = \<lparr>vm_name = n, vm_path = p, vm_sub_path = None, vm_read_only = False\<rparr>"

text \<open>Both kinds of Pod ask for the same volumes: a fresh content snapshot, the shared local content,
  and the directory of the server.\<close>

definition pod_volumes :: "config \<Rightarrow> string \<Rightarrow> (string \<times> volume_source) list" where
  "pod_volumes cfg server =
    [(''content'', CsiDriver ''csi.magpie.skua.io''),
     (''local-content'', HostPathDir (cfg_local_content_host_path cfg)),
     (''server-root'', HostPathDir (cfg_server_root_base cfg @ ''/'' @ server))]"

definition base_mounts :: "config \<Rightarrow> volume_mount list" where
  "base_mounts cfg =
    [mount ''content'' CLAIM_PATH, mount ''server-root'' ''/arma3/server'',
     (mount ''local-content'' (cfg_local_content_root cfg))\<lparr>vm_read_only := True\<rparr>]"

definition missions_mount :: volume_mount where
  "missions_mount = \<lparr>vm_name = ''local-content'', vm_path = ''/arma3/server/mpmissions'',
     vm_sub_path = Some ''missions'', vm_read_only = True\<rparr>"

definition pull_secrets_field :: "config \<Rightarrow> string list option" where
  "pull_secrets_field cfg = (if cfg_image_pull_secrets cfg \<noteq> [] then Some (cfg_image_pull_secrets cfg) else None)"

definition launcher_container :: "config \<Rightarrow> env_var list \<Rightarrow> volume_mount list \<Rightarrow> probe option \<Rightarrow> probe option \<Rightarrow> container" where
  "launcher_container cfg env mounts ready live =
    \<lparr>co_name = ''launcher'', co_image = cfg_launcher_image cfg, co_allow_privilege_escalation = False,
     co_add_capabilities = [''SYS_NICE''], co_drop_capabilities = [''ALL''],
     co_image_pull_policy = ''IfNotPresent'', co_env = env, co_volume_mounts = mounts,
     co_readiness_probe = ready, co_liveness_probe = live\<rparr>"

definition recreate_deployment :: "string \<Rightarrow> (string \<times> string) list \<Rightarrow> owner_ref \<Rightarrow> pod_template \<Rightarrow> deployment" where
  "recreate_deployment n labels owner template =
    \<lparr>dep_name = n, dep_labels = labels, dep_owner = owner, dep_replicas = 1, dep_match_labels = labels,
     dep_strategy = ''Recreate'', dep_template = template\<rparr>"

definition server_env :: "config \<Rightarrow> arma_server \<Rightarrow> string list \<Rightarrow> (string \<times> string) list \<Rightarrow> env_var list" where
  "server_env cfg obj mod_paths extra_env =
    [env_text ''CLAIM_PATH'' CLAIM_PATH,
     env_text ''MODS'' (join '';'' mod_paths),
     env_text ''ARMA_CDLC'' (join '';'' (cdlc (srv_spec obj))),
     env_text ''PORT'' (show_word (port (srv_spec obj))),
     env_text ''DATABASE_HOST'' (cfg_app_postgres_host cfg),
     env_text ''DATABASE_PORT'' (cfg_app_postgres_port cfg),
     env_text ''DATABASE_USER'' (cfg_app_postgres_role cfg),
     env_text ''DATABASE_NAME'' (cfg_app_postgres_database cfg),
     (''DATABASE_PASSWORD'', EnvSecretKey (cfg_app_postgres_secret_name cfg) ''POSTGRES_PASSWORD'')]
    @ (if cfg_arma_ld_preload cfg \<noteq> [] then [env_text ''ARMA_LD_PRELOAD'' (cfg_arma_ld_preload cfg)] else [])
    @ map (\<lambda>(k, v). env_text k v) extra_env"

definition server_labels :: "string \<Rightarrow> (string \<times> string) list" where
  "server_labels n = [(''app'', ''arma-server''), (''armaserver'', n)]"

definition server_pod_annotations :: "arma_server \<Rightarrow> string \<Rightarrow> (string \<times> string) list" where
  "server_pod_annotations obj uuid =
    btree_insert ''magpie.skua.io/content-generation'' uuid
      (case metrics (srv_spec obj) of
         None \<Rightarrow> []
       | Some m \<Rightarrow>
           btree_insert ''prometheus.io/path'' (path_or_default m)
             (btree_insert ''prometheus.io/port'' (show_word (metrics_port m))
               (btree_insert ''prometheus.io/scrape'' ''true'' [])))"

definition healthcheck_probe :: "nat \<Rightarrow> nat \<Rightarrow> nat \<Rightarrow> probe" where
  "healthcheck_probe delay period threshold =
    \<lparr>pr_command = [''/launcher'', ''healthcheck''], pr_initial_delay = delay, pr_period = period,
     pr_timeout = 5, pr_failure_threshold = threshold\<rparr>"

definition server_pod_template :: "config \<Rightarrow> string \<Rightarrow> arma_server \<Rightarrow> string list \<Rightarrow> (string \<times> string) list \<Rightarrow> pod_template" where
  "server_pod_template cfg uuid obj mod_paths extra_env =
    \<lparr>pt_labels = server_labels (srv_name obj), pt_annotations = server_pod_annotations obj uuid,
     pt_host_network = True, pt_run_as_non_root = True, pt_image_pull_secrets = pull_secrets_field cfg,
     pt_containers = [launcher_container cfg (server_env cfg obj mod_paths extra_env)
       (base_mounts cfg @ [missions_mount])
       (Some (healthcheck_probe 20 10 6)) (Some (healthcheck_probe 60 30 5))],
     pt_volumes = pod_volumes cfg (srv_name obj)\<rparr>"

definition server_deployment :: "config \<Rightarrow> string \<Rightarrow> arma_server \<Rightarrow> string list \<Rightarrow> (string \<times> string) list \<Rightarrow> deployment" where
  "server_deployment cfg uuid obj mod_paths extra_env =
    recreate_deployment (srv_name obj) (server_labels (srv_name obj)) (OwnerArmaServer (srv_name obj))
      (server_pod_template cfg uuid obj mod_paths extra_env)"

text \<open>A stored \<open>HeadlessClient\<close>.\<close>

record headless_client =
  hcl_name :: string
  hcl_owner :: string
  hcl_spec :: headless_client_spec
  hcl_status :: "headless_client_status option"
  hcl_finalizers :: "string list"
  hcl_deleting :: bool

definition hc_env :: "config \<Rightarrow> headless_client \<Rightarrow> arma_server \<Rightarrow> string list \<Rightarrow> headless_client_launch_config \<Rightarrow> env_var list" where
  "hc_env cfg obj server mod_paths launch_config =
    [env_text ''CLAIM_PATH'' CLAIM_PATH,
     env_text ''MODS'' (join '';'' mod_paths),
     env_text ''ARMA_CDLC'' (join '';'' (cdlc (srv_spec server))),
     env_text ''PORT'' (show_word (port (srv_spec server))),
     env_text ''ARMA_PROFILE'' (hcl_name obj),
     env_text ''ARMA_CLIENT_CONNECT'' ''127.0.0.1'',
     env_text ''ARMA_LIMITFPS'' (show_int (hl_limit_fps launch_config))]
    @ (if cfg_arma_ld_preload cfg \<noteq> [] then [env_text ''ARMA_LD_PRELOAD'' (cfg_arma_ld_preload cfg)] else [])
    @ (if hl_additional_params launch_config \<noteq> []
       then [env_text ''ARMA_PARAMS'' (hl_additional_params launch_config)] else [])
    @ (if hl_password launch_config \<noteq> []
       then [env_text ''ARMA_SERVER_PASSWORD'' (hl_password launch_config)] else [])"

definition hc_labels :: "headless_client \<Rightarrow> arma_server \<Rightarrow> (string \<times> string) list" where
  "hc_labels obj server =
    [(''app'', ''arma-headless-client''), (''armaserver'', srv_name server), (''headlessclient'', hcl_name obj)]"

definition hc_pod_template :: "config \<Rightarrow> string \<Rightarrow> headless_client \<Rightarrow> arma_server \<Rightarrow> string list
    \<Rightarrow> headless_client_launch_config \<Rightarrow> pod_template" where
  "hc_pod_template cfg uuid obj server mod_paths launch_config =
    \<lparr>pt_labels = hc_labels obj server,
     pt_annotations = btree_insert ''magpie.skua.io/content-generation'' uuid [],
     pt_host_network = True, pt_run_as_non_root = True, pt_image_pull_secrets = pull_secrets_field cfg,
     pt_containers = [launcher_container cfg (hc_env cfg obj server mod_paths launch_config) (base_mounts cfg) None None],
     pt_volumes = pod_volumes cfg (srv_name server)\<rparr>"

definition hc_deployment :: "config \<Rightarrow> string \<Rightarrow> headless_client \<Rightarrow> arma_server \<Rightarrow> string list
    \<Rightarrow> headless_client_launch_config \<Rightarrow> deployment" where
  "hc_deployment cfg uuid obj server mod_paths launch_config =
    recreate_deployment (hcl_name obj) (hc_labels obj server) (OwnerHeadlessClient (hcl_name obj))
      (hc_pod_template cfg uuid obj server mod_paths launch_config)"

section \<open>Lemmas\<close>

lemma server_deployment_simps [simp]:
  "dep_name (server_deployment cfg uuid obj ps ex) = srv_name obj"
  "dep_replicas (server_deployment cfg uuid obj ps ex) = 1"
  "dep_owner (server_deployment cfg uuid obj ps ex) = OwnerArmaServer (srv_name obj)"
  "dep_template (server_deployment cfg uuid obj ps ex) = server_pod_template cfg uuid obj ps ex"
  by (simp_all add: server_deployment_def recreate_deployment_def)

lemma hc_deployment_simps [simp]:
  "dep_name (hc_deployment cfg uuid obj srv ps lc) = hcl_name obj"
  "dep_replicas (hc_deployment cfg uuid obj srv ps lc) = 1"
  "dep_template (hc_deployment cfg uuid obj srv ps lc) = hc_pod_template cfg uuid obj srv ps lc"
  by (simp_all add: hc_deployment_def recreate_deployment_def)

text \<open>The content generation is the value both kinds of Pod template are stamped with.\<close>

lemma server_generation:
  "map_of (server_pod_annotations obj uuid) ''magpie.skua.io/content-generation'' = Some uuid"
proof -
  have "btree (case metrics (srv_spec obj) of
         None \<Rightarrow> []
       | Some m \<Rightarrow>
           btree_insert ''prometheus.io/path'' (path_or_default m)
             (btree_insert ''prometheus.io/port'' (show_word (metrics_port m))
               (btree_insert ''prometheus.io/scrape'' ''true'' [])))"
    by (auto simp: btree_btree_insert split: option.splits)
  then show ?thesis unfolding server_pod_annotations_def by (simp add: map_of_btree_insert)
qed

lemma hc_generation:
  "map_of (pt_annotations (hc_pod_template cfg uuid obj srv ps lc)) ''magpie.skua.io/content-generation'' = Some uuid"
  by (simp add: hc_pod_template_def map_of_btree_insert)

text \<open>No Pod of this controller runs as root or with a capability beyond \<open>SYS_NICE\<close>.\<close>

definition pod_confined :: "pod_template \<Rightarrow> bool" where
  "pod_confined t = (pt_run_as_non_root t \<and>
     list_all (\<lambda>c. \<not> co_allow_privilege_escalation c \<and> co_drop_capabilities c = [''ALL''] \<and> set (co_add_capabilities c) \<subseteq> {''SYS_NICE''})
       (pt_containers t))"

lemma templates_confined:
  "pod_confined (server_pod_template cfg uuid obj ps ex)" "pod_confined (hc_pod_template cfg uuid hc obj ps lc)"
  by (simp_all add: pod_confined_def server_pod_template_def hc_pod_template_def launcher_container_def)

end
