(* ===== verification/Controller.thy ===== *)
theory Controller
  imports Deploy
begin

text \<open>
  The reconcilers of \<open>services/controller/src/reconcile.rs\<close>. The state adds the \<open>HeadlessClient\<close> and
  \<open>Deployment\<close> objects and the rendered configuration files to the shared store. A pass is given the
  object as the watch delivered it, which need not be the stored one. Parameters: the answers of the
  sync daemon (\<open>sync_answers\<close>), the outcome of a force-apply on an existing Deployment or
  HeadlessClient, the cluster's ConfigMaps and Secrets, the registry database, and the fresh UUID of
  the pass.
\<close>

section \<open>State and parameters\<close>

record ctl = kube +
  c_hcs :: "headless_client list"
  c_deployments :: "deployment list"
  c_files :: "string \<rightharpoonup> string"

record sync_answers =
  sa_sync_content :: "string + unit"
  sa_sync_status :: "string + bool \<times> bool"
  sa_get_source_mods :: "string \<Rightarrow> string + u64 list"

record ctx =
  x_cfg :: config
  x_sync :: sync_answers
  x_cluster :: cluster
  x_db :: db
  x_f64 :: "string \<Rightarrow> string option"
  x_uuid :: string
  x_apply_deployment :: "deployment \<Rightarrow> deployment \<Rightarrow> deployment"
  x_apply_hc :: "headless_client \<Rightarrow> headless_client \<Rightarrow> headless_client"

datatype action = Requeue nat | AwaitChange

definition FAST_REQUEUE :: nat where
  "FAST_REQUEUE = 5"

definition SLOW_REQUEUE :: nat where
  "SLOW_REQUEUE = 300"

definition ERROR_REQUEUE :: nat where
  "ERROR_REQUEUE = 10"

datatype 'o finalizer_event = FinalizerApply 'o | FinalizerCleanup 'o

definition mark_hc :: "headless_client \<Rightarrow> headless_client" where
  "mark_hc x = x\<lparr>hcl_deleting := True\<rparr>"

interpretation hcs: object_kind hcl_name hcl_finalizers mark_hc
  by unfold_locales (simp add: mark_hc_def)

interpretation deployments: object_kind dep_name "\<lambda>_. []" "\<lambda>d. d"
  by unfold_locales simp

section \<open>Steps\<close>

abbreviation "deployments_api_delete \<equiv> api_delete c_deployments c_deployments_update dep_name (\<lambda>_. []) (\<lambda>d. d)"

abbreviation "hcs_api_delete \<equiv> api_delete c_hcs c_hcs_update hcl_name hcl_finalizers mark_hc"

text \<open>The match that treats a 404 as done.\<close>

definition ignore_404 :: "('s, kube_error, 'a) act \<Rightarrow> ('s, string, unit) act" where
  "ignore_404 m = act_match m (\<lambda>r.
    case r of
      Inr _ \<Rightarrow> ret ()
    | Inl KubeNotFound \<Rightarrow> ret ()
    | Inl e \<Rightarrow> throw (kube_text e))"

definition scale_down :: "string \<Rightarrow> (ctl, string, unit) act" where
  "scale_down n = ignore_404 (api_patch c_deployments c_deployments_update dep_name n (\<lambda>d. d\<lparr>dep_replicas := 0\<rparr>))"

definition delete_deployment :: "string \<Rightarrow> (ctl, string, unit) act" where
  "delete_deployment n = ignore_404 (deployments_api_delete n)"

definition set_status :: "string \<Rightarrow> arma_server_status \<Rightarrow> (ctl, string, unit) act" where
  "set_status n st =
    act_bind (act_map_err kube_text
      (api_patch k_servers k_servers_update srv_name n (\<lambda>x. x\<lparr>srv_status := Some st\<rparr>))) (\<lambda>_. ret ())"

definition list_headless_clients :: "string \<Rightarrow> (ctl, string, headless_client list) act" where
  "list_headless_clients n =
    act_bind (act_map_err kube_text (api_list c_hcs)) (\<lambda>items.
    ret (filter (\<lambda>hc. hc_server (hcl_spec hc) = n) items))"

definition hc_object_name :: "string \<Rightarrow> u32 \<Rightarrow> string" where
  "hc_object_name n index = n @ ''-hc-'' @ show_word index"

definition new_headless_client :: "string \<Rightarrow> u32 \<Rightarrow> headless_client" where
  "new_headless_client n index =
    \<lparr>hcl_name = hc_object_name n index, hcl_owner = n, hcl_spec = \<lparr>hc_server = n, hc_index = index\<rparr>,
     hcl_status = None, hcl_finalizers = [], hcl_deleting = False\<rparr>"

definition ensure_headless_clients :: "ctx \<Rightarrow> arma_server \<Rightarrow> (ctl, string, unit) act" where
  "ensure_headless_clients c obj =
    (let n = srv_name obj; desired = headless_clients (srv_spec obj) in
     act_bind (list_headless_clients n) (\<lambda>existing.
     act_bind (for_each (\<lambda>hc. act_when (desired \<le> hc_index (hcl_spec hc)) (ignore_404 (hcs_api_delete (hcl_name hc)))) existing) (\<lambda>_.
     for_each (\<lambda>index.
       act_when (index \<notin> set (map (\<lambda>hc. hc_index (hcl_spec hc)) existing))
         (act_bind (act_map_err kube_text
            (api_apply c_hcs c_hcs_update hcl_name (x_apply_hc c) (new_headless_client n index))) (\<lambda>_. ret ())))
       (map word_of_nat [0..<unat desired]))))"

definition delete_all_headless_clients :: "string \<Rightarrow> (ctl, string, unit) act" where
  "delete_all_headless_clients n =
    act_bind (list_headless_clients n) (for_each (\<lambda>hc. ignore_404 (hcs_api_delete (hcl_name hc))))"

definition mod_source_error :: "string \<Rightarrow> kube_error \<Rightarrow> string" where
  "mod_source_error source_id e =
    (case e of KubeNotFound \<Rightarrow> ''mod source '' @ source_id @ '' no longer exists'' | _ \<Rightarrow> kube_text e)"

definition get_mod_source :: "string \<Rightarrow> (ctl, string, mod_source) act" where
  "get_mod_source source_id = act_map_err (mod_source_error source_id) (api_get k_sources src_name source_id)"

definition source_phase :: "mod_source \<Rightarrow> mod_source_phase" where
  "source_phase x = (case src_status x of Some st \<Rightarrow> ms_phase st | None \<Rightarrow> MsPending)"

fun first_unsynced :: "string list \<Rightarrow> (ctl, string, string option) act" where
  "first_unsynced [] = ret None"
| "first_unsynced (source_id # rest) =
     act_bind (get_mod_source source_id) (\<lambda>x.
     if source_phase x \<noteq> MsSynced then ret (Some source_id) else first_unsynced rest)"

definition not_yet_synced_mod_source :: "arma_server \<Rightarrow> (ctl, string, string option) act" where
  "not_yet_synced_mod_source obj = first_unsynced (mod_source_ids (srv_spec obj))"

definition source_paths :: "ctx \<Rightarrow> string \<Rightarrow> (ctl, string, string list) act" where
  "source_paths c source_id =
    act_bind (get_mod_source source_id) (\<lambda>x.
    case src_input x of
      Local unique_id \<Rightarrow> ret [cfg_local_content_root (x_cfg c) @ ''/mods/'' @ unique_id]
    | _ \<Rightarrow>
        act_bind (sync_call source_id (sa_get_source_mods (x_sync c) source_id)) (\<lambda>mod_ids.
        ret (map (\<lambda>i. ''workshop/'' @ show_word i) mod_ids)))"

definition resolve_mod_paths :: "ctx \<Rightarrow> arma_server \<Rightarrow> (ctl, string, string list) act" where
  "resolve_mod_paths c obj =
    act_bind (map_act (source_paths c) (mod_source_ids (srv_spec obj))) (\<lambda>paths. ret (concat paths))"

definition ensure_deployment :: "ctx \<Rightarrow> arma_server \<Rightarrow> string list \<Rightarrow> (string \<times> string) list \<Rightarrow> (ctl, string, unit) act" where
  "ensure_deployment c obj mod_paths extra_env =
    act_bind (act_map_err kube_text
      (api_apply c_deployments c_deployments_update dep_name (x_apply_deployment c)
         (server_deployment (x_cfg c) (x_uuid c) obj mod_paths extra_env))) (\<lambda>_. ret ())"

definition render_config :: "ctx \<Rightarrow> arma_server \<Rightarrow> (ctl, string, (string \<times> string) list) act" where
  "render_config c obj = (\<lambda>s.
    case render_and_write (x_f64 c) (x_cluster c) (x_db c) (cfg_namespace (x_cfg c))
        (cfg_user_secrets_namespace (x_cfg c)) (cfg_server_root_base (x_cfg c))
        (cfg_arma_config_baseline (x_cfg c)) obj (c_files s) of
      Inl e \<Rightarrow> (Inl e, s)
    | Inr (extra_env, files) \<Rightarrow> (Inr extra_env, s\<lparr>c_files := files\<rparr>))"

definition run_pending :: "ctx \<Rightarrow> arma_server \<Rightarrow> (ctl, string, unit) act" where
  "run_pending c obj =
    act_bind (resolve_mod_paths c obj) (\<lambda>mod_paths.
    act_bind (render_config c obj) (\<lambda>extra_env.
    act_bind (ensure_deployment c obj mod_paths extra_env) (\<lambda>_.
    ensure_headless_clients c obj)))"

section \<open>The ArmaServer reconciler\<close>

definition fresh_status :: "arma_server_phase \<Rightarrow> arma_server_status" where
  "fresh_status p = \<lparr>phase = p, message = []\<rparr>"

definition apply_stopped :: "ctx \<Rightarrow> string \<Rightarrow> (ctl, string, action) act" where
  "apply_stopped c n =
    act_match (sync_call ''sync_content'' (sa_sync_content (x_sync c))) (\<lambda>_.
    act_bind (set_status n (fresh_status Pending)) (\<lambda>_. ret (Requeue FAST_REQUEUE)))"

definition apply_not_desired :: "string \<Rightarrow> (ctl, string, action) act" where
  "apply_not_desired n =
    act_bind (scale_down n) (\<lambda>_.
    act_bind (delete_all_headless_clients n) (\<lambda>_.
    act_bind (set_status n (fresh_status Stopped)) (\<lambda>_. ret AwaitChange)))"

definition apply_pending :: "ctx \<Rightarrow> arma_server \<Rightarrow> (ctl, string, action) act" where
  "apply_pending c obj =
    act_match (sync_call ''sync_status'' (sa_sync_status (x_sync c))) (\<lambda>status.
    case status of
      Inl _ \<Rightarrow> ret (Requeue ERROR_REQUEUE)
    | Inr (syncing, game_files_ready) \<Rightarrow>
        if syncing \<or> \<not> game_files_ready then ret (Requeue FAST_REQUEUE)
        else act_match (not_yet_synced_mod_source obj) (\<lambda>waiting.
          case waiting of
            Inl _ \<Rightarrow> ret (Requeue ERROR_REQUEUE)
          | Inr (Some _) \<Rightarrow> ret (Requeue FAST_REQUEUE)
          | Inr None \<Rightarrow>
              act_match (run_pending c obj) (\<lambda>r.
              act_bind (set_status (srv_name obj)
                 (case r of Inr _ \<Rightarrow> fresh_status Running | Inl e \<Rightarrow> \<lparr>phase = Failed, message = e\<rparr>)) (\<lambda>_.
              ret (Requeue SLOW_REQUEUE)))))"

definition apply_server :: "ctx \<Rightarrow> arma_server \<Rightarrow> (ctl, string, action) act" where
  "apply_server c obj =
    (let n = srv_name obj;
         st = (case srv_status obj of Some st \<Rightarrow> st | None \<Rightarrow> arma_server_status_default);
         desired_running = (desired_state (srv_spec obj) = DesiredRunning)
     in case phase st of
          Stopped \<Rightarrow> if desired_running then apply_stopped c n else ret AwaitChange
        | ph \<Rightarrow>
            if \<not> desired_running then apply_not_desired n
            else (case ph of
                Pending \<Rightarrow> apply_pending c obj
              | Running \<Rightarrow> ret (Requeue SLOW_REQUEUE)
              | _ \<Rightarrow> act_bind (set_status n (fresh_status Pending)) (\<lambda>_. ret (Requeue FAST_REQUEUE))))"

definition cleanup_server :: "arma_server \<Rightarrow> (ctl, string, action) act" where
  "cleanup_server obj =
    act_bind (delete_deployment (srv_name obj)) (\<lambda>_.
    act_bind (delete_all_headless_clients (srv_name obj)) (\<lambda>_. ret AwaitChange))"

definition reconcile :: "ctx \<Rightarrow> arma_server finalizer_event \<Rightarrow> (ctl, string, action) act" where
  "reconcile c ev = (case ev of FinalizerApply obj \<Rightarrow> apply_server c obj | FinalizerCleanup obj \<Rightarrow> cleanup_server obj)"

definition error_policy :: action where
  "error_policy = Requeue ERROR_REQUEUE"

section \<open>The HeadlessClient reconciler\<close>

definition delete_hc_deployment :: "string \<Rightarrow> (ctl, string, unit) act" where
  "delete_hc_deployment n = ignore_404 (deployments_api_delete n)"

definition set_hc_status :: "string \<Rightarrow> headless_client_status \<Rightarrow> (ctl, string, unit) act" where
  "set_hc_status n st =
    act_bind (act_map_err kube_text
      (api_patch c_hcs c_hcs_update hcl_name n (\<lambda>x. x\<lparr>hcl_status := Some st\<rparr>))) (\<lambda>_. ret ())"

definition ensure_hc_deployment :: "ctx \<Rightarrow> headless_client \<Rightarrow> arma_server \<Rightarrow> string list
    \<Rightarrow> headless_client_launch_config \<Rightarrow> (ctl, string, unit) act" where
  "ensure_hc_deployment c obj server mod_paths launch_config =
    act_bind (act_map_err kube_text
      (api_apply c_deployments c_deployments_update dep_name (x_apply_deployment c)
         (hc_deployment (x_cfg c) (x_uuid c) obj server mod_paths launch_config))) (\<lambda>_. ret ())"

definition owning_server :: "string \<Rightarrow> (ctl, string, arma_server) act" where
  "owning_server n =
    act_map_err (\<lambda>e. case e of KubeNotFound \<Rightarrow> ''owning ArmaServer '' @ n @ '' no longer exists'' | _ \<Rightarrow> kube_text e)
      (api_get k_servers srv_name n)"

definition hc_apply :: "ctx \<Rightarrow> headless_client \<Rightarrow> (ctl, string, action) act" where
  "hc_apply c obj =
    act_bind (owning_server (hc_server (hcl_spec obj))) (\<lambda>server.
    act_bind (resolve_mod_paths c server) (\<lambda>mod_paths.
    act_bind (lift_res (resolve_headless_client_config (x_cluster c) (cfg_namespace (x_cfg c))
       (cfg_user_secrets_namespace (x_cfg c)) (cfg_arma_config_baseline (x_cfg c)) server)) (\<lambda>launch_config.
    act_match (ensure_hc_deployment c obj server mod_paths launch_config) (\<lambda>r.
    act_bind (set_hc_status (hcl_name obj)
       (case r of Inr _ \<Rightarrow> \<lparr>hc_phase = HcRunning, hc_message = []\<rparr> | Inl e \<Rightarrow> \<lparr>hc_phase = HcFailed, hc_message = e\<rparr>)) (\<lambda>_.
    ret (Requeue SLOW_REQUEUE))))))"

definition hc_cleanup :: "headless_client \<Rightarrow> (ctl, string, action) act" where
  "hc_cleanup obj = act_bind (delete_hc_deployment (hcl_name obj)) (\<lambda>_. ret AwaitChange)"

definition reconcile_hc :: "ctx \<Rightarrow> headless_client finalizer_event \<Rightarrow> (ctl, string, action) act" where
  "reconcile_hc c ev = (case ev of FinalizerApply obj \<Rightarrow> hc_apply c obj | FinalizerCleanup obj \<Rightarrow> hc_cleanup obj)"

definition hc_error_policy :: action where
  "hc_error_policy = Requeue ERROR_REQUEUE"

section \<open>Frames\<close>

text \<open>What a pass leaves alone. Each step is a chain of calls, so its frame follows from the rules.\<close>

abbreviation servers_are :: "arma_server list \<Rightarrow> ctl \<Rightarrow> bool" where
  "servers_are K \<equiv> \<lambda>s. k_servers s = K"

definition idle :: "deployment list \<Rightarrow> mod_source list \<Rightarrow> ctl \<Rightarrow> bool" where
  "idle D S s = (c_deployments s = D \<and> k_sources s = S)"

lemma stable_ctl [simp]: "stable (servers_are K)" "stable (idle D S)"
  "stable (\<lambda>s. P (c_hcs s))" "stable (\<lambda>s. Q (c_deployments s))"
  by (simp_all add: stable_def idle_def)

lemma keeps_ignore_404: "keeps P m \<Longrightarrow> keeps P (ignore_404 m)"
  unfolding ignore_404_def by (auto intro!: triple_intros split: sum.splits kube_error.splits)

lemma triple_ignore_404:
  "triple P m (\<lambda>_. Q) (\<lambda>e s. (e = KubeNotFound \<longrightarrow> Q s) \<and> E (kube_text e) s) \<Longrightarrow> triple P (ignore_404 m) (\<lambda>_. Q) E"
  unfolding ignore_404_def
  by (rule triple_match) (auto intro!: triple_intros simp: kube_text_def split: kube_error.splits)

lemma keeps_get_mod_source: "stable P \<Longrightarrow> keeps P (get_mod_source i)"
  by (auto simp: get_mod_source_def intro!: triple_intros)

lemma keeps_first_unsynced: "stable P \<Longrightarrow> keeps P (first_unsynced ids)"
  by (induction ids rule: first_unsynced.induct) (auto intro!: triple_intros keeps_get_mod_source)

lemma keeps_list_hcs: "stable P \<Longrightarrow> keeps P (list_headless_clients n)"
  by (auto simp: list_headless_clients_def intro!: triple_intros)

text \<open>Steps that touch only headless clients, only Deployments, or only files.\<close>

definition blind_hcs :: "(ctl \<Rightarrow> bool) \<Rightarrow> bool" where
  "blind_hcs P = (stable P \<and> (\<forall>s f. P (c_hcs_update f s) = P s))"

lemma keeps_delete_hc: "blind_hcs P \<Longrightarrow> keeps P (hcs_api_delete n)"
  by (auto simp: blind_hcs_def intro!: triple_delete)

lemma keeps_apply_hc: "blind_hcs P \<Longrightarrow> keeps P (api_apply c_hcs c_hcs_update hcl_name g x)"
  by (auto simp: blind_hcs_def intro!: triple_apply)

lemma blind_stable: "blind_hcs P \<Longrightarrow> stable P"
  by (simp add: blind_hcs_def)

lemma keeps_delete_all: "blind_hcs P \<Longrightarrow> keeps P (delete_all_headless_clients n)"
  unfolding delete_all_headless_clients_def
  by (auto intro!: triple_intros keeps_list_hcs keeps_ignore_404 keeps_delete_hc blind_stable)

lemma keeps_ensure_hcs: "blind_hcs P \<Longrightarrow> keeps P (ensure_headless_clients c obj)"
  unfolding ensure_headless_clients_def Let_def
  by (auto intro!: triple_intros keeps_list_hcs keeps_ignore_404 keeps_delete_hc keeps_apply_hc blind_stable)

lemma blind_servers: "blind_hcs (servers_are K)" "blind_hcs (idle D S)" "blind_hcs (\<lambda>s. Q (c_deployments s))"
  by (simp_all add: blind_hcs_def stable_def idle_def)

lemma keeps_mod_paths:
  "stable P \<Longrightarrow> (\<And>s l. P s \<Longrightarrow> P (s\<lparr>k_sync_log := l\<rparr>)) \<Longrightarrow> keeps P (resolve_mod_paths c obj)"
  unfolding resolve_mod_paths_def source_paths_def
  by (auto intro!: triple_intros keeps_get_mod_source keeps_sync_call split: mod_source_input.splits)

lemma keeps_render: "(\<And>s f. P s \<Longrightarrow> P (s\<lparr>c_files := f\<rparr>)) \<Longrightarrow> keeps P (render_config c obj)"
  by (auto simp: render_config_def triple_def split: sum.splits prod.splits)

lemma servers_run_pending: "keeps (servers_are K) (run_pending c obj)"
  unfolding run_pending_def ensure_deployment_def
  by (auto intro!: triple_intros keeps_mod_paths keeps_render triple_apply keeps_ensure_hcs blind_servers)

section \<open>The content gate\<close>

definition all_synced :: "mod_source list \<Rightarrow> string list \<Rightarrow> bool" where
  "all_synced S ids = (\<forall>i \<in> set ids. \<exists>x. obj_get src_name S i = Some x \<and> source_phase x = MsSynced)"

lemma triple_first_unsynced:
  "triple (idle D S) (first_unsynced ids) (\<lambda>r s. idle D S s \<and> (r = None \<longrightarrow> all_synced S ids)) (\<lambda>_. idle D S)"
proof (induction ids)
  case Nil
  then show ?case by (auto intro!: triple_intros simp: all_synced_def)
next
  case (Cons i ids)
  have get: "triple (idle D S) (get_mod_source i) (\<lambda>x s. idle D S s \<and> obj_get src_name S i = Some x) (\<lambda>_. idle D S)"
    unfolding get_mod_source_def
    by (rule triple_map_err, rule triple_post [OF triple_get]) (auto simp: idle_def)
  have "triple (idle D S) (if source_phase x \<noteq> MsSynced then ret (Some i) else first_unsynced ids)
      (\<lambda>r s. idle D S s \<and> (r = None \<longrightarrow> all_synced S (i # ids))) (\<lambda>_. idle D S)"
    if "obj_get src_name S i = Some x" for x
    using that Cons.IH by (auto intro!: triple_intros elim!: triple_conseq simp: all_synced_def)
  then show ?case by (auto intro!: triple_bind [OF get] triple_pure)
qed

definition gate_open :: "ctx \<Rightarrow> arma_server \<Rightarrow> mod_source list \<Rightarrow> bool" where
  "gate_open c obj S =
    (sa_sync_status (x_sync c) = Inr (False, True) \<and> all_synced S (mod_source_ids (srv_spec obj)))"

lemma triple_gate: "G \<Longrightarrow> triple P m (\<lambda>_ s. G \<or> Q s) (\<lambda>_ s. G \<or> Q s)"
  by (auto simp: triple_def split: prod.splits sum.splits)

lemma triple_apply_pending:
  "triple (idle D S) (apply_pending c obj) (\<lambda>_ s. gate_open c obj S \<or> c_deployments s = D)
     (\<lambda>_ s. gate_open c obj S \<or> c_deployments s = D)"
proof -
  let ?Q = "\<lambda>_ s. gate_open c obj S \<or> c_deployments s = D"
  have wait: "triple (idle D S) (ret a) ?Q ?Q" for a :: action
    by (auto intro!: triple_intros simp: idle_def)
  have pass: "triple (\<lambda>s. idle D S s \<and> (r = None \<longrightarrow> all_synced S (mod_source_ids (srv_spec obj))))
     (case r of Some _ \<Rightarrow> ret (Requeue FAST_REQUEUE) | None \<Rightarrow> k) ?Q ?Q"
    if "sa_sync_status (x_sync c) = Inr (False, True)" for r k
  proof (cases r)
    case None
    show ?thesis
    proof (rule triple_imp)
      show "gate_open c obj S" if "idle D S s \<and> (r = None \<longrightarrow> all_synced S (mod_source_ids (srv_spec obj)))" for s
        using that None \<open>sa_sync_status (x_sync c) = Inr (False, True)\<close> by (simp add: gate_open_def)
    qed (rule triple_gate)
  next
    case (Some a)
    then show ?thesis using triple_pre [OF wait] by auto
  qed
  have sources: "triple (idle D S) (act_match (not_yet_synced_mod_source obj) (\<lambda>waiting.
          case waiting of
            Inl _ \<Rightarrow> ret (Requeue ERROR_REQUEUE)
          | Inr (Some _) \<Rightarrow> ret (Requeue FAST_REQUEUE)
          | Inr None \<Rightarrow> k)) ?Q ?Q" if "sa_sync_status (x_sync c) = Inr (False, True)" for k
    unfolding not_yet_synced_mod_source_def
    by (rule triple_match [OF triple_first_unsynced], simp, rule pass [OF that], simp add: wait)
  have call: "triple (idle D S) (sync_call q r) (\<lambda>x s. idle D S s \<and> r = Inr x) (\<lambda>e s. idle D S s \<and> r = Inl e)"
    for q and r :: "string + bool \<times> bool"
    by (auto simp: sync_call_def triple_def idle_def split: sum.splits)
  show ?thesis
    unfolding apply_pending_def
    by (rule triple_match [OF call]) (auto intro!: triple_pure wait sources split: prod.splits)
qed

lemma idle_set_status: "keeps (idle D S) (set_status n st)"
  unfolding set_status_def by (auto intro!: triple_intros triple_patch simp: idle_def)

lemma idle_deployments: "triple P m (\<lambda>_. idle D S) (\<lambda>_. idle D S) \<Longrightarrow> triple P m (\<lambda>_ s. c_deployments s = D) (\<lambda>_ s. c_deployments s = D)"
  by (erule triple_conseq) (auto simp: idle_def)

lemma triple_apply_server:
  assumes "desired_state (srv_spec obj) = DesiredRunning"
  shows "triple (idle D S) (apply_server c obj)
     (\<lambda>_ s. gate_open c obj S \<and> (\<exists>st. srv_status obj = Some st \<and> phase st = Pending) \<or> c_deployments s = D)
     (\<lambda>_ s. gate_open c obj S \<and> (\<exists>st. srv_status obj = Some st \<and> phase st = Pending) \<or> c_deployments s = D)"
proof -
  have "keeps (idle D S) (apply_stopped c n)" for n
    unfolding apply_stopped_def by (auto intro!: triple_intros idle_set_status keeps_sync_call simp: idle_def)
  moreover have "keeps (idle D S) (act_bind (set_status n st) (\<lambda>_. ret a))" for n st and a :: action
    by (auto intro!: triple_intros idle_set_status)
  moreover have "keeps (idle D S) (ret a)" for a :: action
    by (auto intro!: triple_intros)
  ultimately show ?thesis
    using assms triple_apply_pending [of D S c obj]
    unfolding apply_server_def Let_def
    by (auto split: arma_server_phase.splits option.splits simp: arma_server_status_default_def intro!: idle_deployments)
qed

section \<open>Phases\<close>

definition phase_of :: "arma_server \<Rightarrow> arma_server_phase" where
  "phase_of x = phase (case srv_status x of Some st \<Rightarrow> st | None \<Rightarrow> arma_server_status_default)"

text \<open>The phases one pass may write, given the phase and desired state it was called with.\<close>

fun next_phases :: "desired_state \<Rightarrow> arma_server_phase \<Rightarrow> arma_server_phase set" where
  "next_phases DesiredRunning Stopped = {Pending}"
| "next_phases DesiredRunning Pending = {Running, Failed}"
| "next_phases DesiredRunning Running = {}"
| "next_phases DesiredRunning Failed = {Pending}"
| "next_phases DesiredStopped Stopped = {}"
| "next_phases DesiredStopped _ = {Stopped}"

definition status_written :: "string \<Rightarrow> arma_server_phase set \<Rightarrow> arma_server list \<Rightarrow> ctl \<Rightarrow> bool" where
  "status_written n A K s = (k_servers s = K \<or>
     (\<exists>st. phase st \<in> A \<and> k_servers s = obj_update srv_name n (\<lambda>x. x\<lparr>srv_status := Some st\<rparr>) K))"

lemma status_written_refl [simp]: "k_servers s = K \<Longrightarrow> status_written n A K s"
  by (simp add: status_written_def)

abbreviation writes :: "string \<Rightarrow> arma_server_phase set \<Rightarrow> arma_server list \<Rightarrow> (ctl, string, 'a) act \<Rightarrow> bool" where
  "writes n A K m \<equiv> triple (servers_are K) m (\<lambda>_. status_written n A K) (\<lambda>_. status_written n A K)"

lemma writes_frame: "keeps (servers_are K) m \<Longrightarrow> writes n A K m"
  by (erule triple_conseq) (auto simp: status_written_def)

lemma writes_status: "phase st \<in> A \<Longrightarrow> writes n A K (set_status n st)"
  unfolding set_status_def
  by (rule triple_bind, rule triple_map_err, rule triple_patch [where F = "status_written n A K"])
     (auto intro!: triple_intros simp: status_written_def)

lemma writes_bind:
  "keeps (servers_are K) m \<Longrightarrow> (\<And>x. writes n A K (f x)) \<Longrightarrow> writes n A K (act_bind m f)"
  by (rule triple_bind [where R = "\<lambda>_. servers_are K"]) (auto elim: triple_conseq)

lemma writes_match:
  "keeps (servers_are K) m \<Longrightarrow> (\<And>r. writes n A K (k r)) \<Longrightarrow> writes n A K (act_match m k)"
  by (rule triple_match) auto

lemma writes_status_then: "phase st \<in> A \<Longrightarrow> writes n A K (act_bind (set_status n st) (\<lambda>_. ret a))"
  by (rule triple_bind [OF writes_status]) (auto intro!: triple_intros)

lemma keeps_servers_scale_down: "keeps (servers_are K) (scale_down n)"
  unfolding scale_down_def by (auto intro!: keeps_ignore_404 triple_patch)

lemma keeps_servers_sync_call: "keeps (servers_are K) (sync_call q r)"
  by (auto intro!: keeps_sync_call)

lemma writes_ret: "writes n A K (ret a)"
  by (auto intro!: triple_intros)

lemma apply_server_writes: "writes (srv_name obj) (next_phases (desired_state (srv_spec obj)) (phase_of obj)) K (apply_server c obj)"
proof -
  let ?n = "srv_name obj"
  have stopped: "writes ?n {Pending} K (apply_stopped c ?n)"
    unfolding apply_stopped_def
    by (intro writes_match keeps_servers_sync_call writes_status_then) (simp add: fresh_status_def)
  have not_desired: "writes ?n {Stopped} K (apply_not_desired ?n)"
    unfolding apply_not_desired_def
    by (intro writes_bind keeps_servers_scale_down keeps_delete_all blind_servers writes_status_then) (simp add: fresh_status_def)
  have pending: "writes ?n {Running, Failed} K (apply_pending c obj)"
    unfolding apply_pending_def not_yet_synced_mod_source_def
    by (intro writes_match keeps_servers_sync_call)
       (auto intro!: writes_match writes_ret keeps_first_unsynced servers_run_pending writes_status_then
          simp: fresh_status_def split: sum.splits prod.splits option.splits)
  have failed: "writes ?n {Pending} K (act_bind (set_status ?n (fresh_status Pending)) (\<lambda>_. ret a))" for a :: action
    by (rule writes_status_then) (simp add: fresh_status_def)
  show ?thesis
    unfolding apply_server_def Let_def phase_of_def [symmetric]
    using stopped not_desired pending failed writes_ret
    by (cases "desired_state (srv_spec obj)"; cases "phase_of obj") simp_all
qed

section \<open>Headless clients\<close>

text \<open>Headless clients the controller makes carry the name of their server and index.\<close>

definition hcs_wf :: "headless_client list \<Rightarrow> bool" where
  "hcs_wf xs = (distinct (map hcl_name xs) \<and>
     (\<forall>hc \<in> set xs. hcl_name hc = hc_object_name (hc_server (hcl_spec hc)) (hc_index (hcl_spec hc))))"

lemma dash_suffix:
  assumes "a @ CHR ''-'' # x = b @ CHR ''-'' # y" "CHR ''-'' \<notin> set x" "CHR ''-'' \<notin> set y"
  shows "a = b \<and> x = y"
proof -
  have "rev x @ CHR ''-'' # rev a = rev y @ CHR ''-'' # rev b"
    using arg_cong [OF assms(1), of rev] by simp
  then show ?thesis using append_sep_inject [of "CHR ''-''" "rev x" "rev y" "rev a" "rev b"] assms by simp
qed

lemma hc_object_name_inject: "hc_object_name n i = hc_object_name m j \<longleftrightarrow> n = m \<and> i = j"
proof
  have dash: "CHR ''-'' \<notin> set (show_word w)" for w :: u32
    by (rule show_word_no_char) (simp add: is_digit_def)
  assume "hc_object_name n i = hc_object_name m j"
  then have "(n @ ''-hc'') @ CHR ''-'' # show_word i = (m @ ''-hc'') @ CHR ''-'' # show_word j"
    by (simp add: hc_object_name_def)
  from dash_suffix [OF this dash dash] show "n = m \<and> i = j" by simp
qed simp

lemma mark_hc_simps [simp]: "hcl_name (mark_hc x) = hcl_name x" "hcl_spec (mark_hc x) = hcl_spec x" "hcl_deleting (mark_hc x)"
  by (simp_all add: mark_hc_def)

lemma hcs_wf_delete: "hcs_wf xs \<Longrightarrow> hcs_wf (obj_delete hcl_name hcl_finalizers mark_hc n xs)"
  using hcs.names_delete [of xs n] by (fastforce simp: hcs_wf_def dest!: hcs.delete_member)

text \<open>A deleted name has only objects on their way out.\<close>

lemma deleted_hc: "x \<in> set (obj_delete hcl_name hcl_finalizers mark_hc n xs) \<Longrightarrow> hcl_name x = n \<Longrightarrow> hcl_deleting x"
proof (cases "obj_get hcl_name xs n")
  case None
  assume "x \<in> set (obj_delete hcl_name hcl_finalizers mark_hc n xs)" "hcl_name x = n"
  then show ?thesis using None hcs.get_None [of xs n] by (simp add: obj_delete_def)
next
  case (Some y)
  assume x: "x \<in> set (obj_delete hcl_name hcl_finalizers mark_hc n xs)" "hcl_name x = n"
  then have "x \<in> set (obj_update hcl_name n mark_hc xs)" using Some by (simp add: obj_delete_def split: if_splits)
  from hcs.update_member [OF this] x(2) show ?thesis by (metis mark_hc_simps(3))
qed

lemma triple_delete_hc:
  assumes "stable P" "\<And>s. P s \<Longrightarrow> Q (c_hcs_update (obj_delete hcl_name hcl_finalizers mark_hc n) s)"
    and "\<And>s. P s \<Longrightarrow> obj_get hcl_name (c_hcs s) n = None \<Longrightarrow> Q s"
  shows "triple P (ignore_404 (hcs_api_delete n)) (\<lambda>_. Q) (\<lambda>_ _. True)"
proof (rule triple_ignore_404 [where E = "\<lambda>_ _. True"])
  show "triple P (hcs_api_delete n) (\<lambda>_. Q) (\<lambda>e s. (e = KubeNotFound \<longrightarrow> Q s) \<and> True)"
    unfolding api_delete_def
  proof (rule triple_api_call_err [OF assms(1)])
    show "triple P (\<lambda>s. case obj_get hcl_name (c_hcs s) n of None \<Rightarrow> (Inl KubeNotFound, s)
        | Some _ \<Rightarrow> (Inr (), c_hcs_update (obj_delete hcl_name hcl_finalizers mark_hc n) s)) (\<lambda>_. Q)
        (\<lambda>e s. (e = KubeNotFound \<longrightarrow> Q s) \<and> True)"
      unfolding triple_def using assms(2,3) by (simp split: option.splits)
  qed simp
qed

definition leaving :: "string \<Rightarrow> headless_client list \<Rightarrow> ctl \<Rightarrow> bool" where
  "leaving n rest s = (\<forall>hc \<in> set (c_hcs s). hc_server (hcl_spec hc) = n \<longrightarrow> hcl_deleting hc \<or> hcl_name hc \<in> set (map hcl_name rest))"

lemma leaving_step:
  assumes "leaving n (x # rest) s"
  shows "leaving n rest (c_hcs_update (obj_delete hcl_name hcl_finalizers mark_hc (hcl_name x)) s)"
  unfolding leaving_def
proof (intro ballI impI)
  fix hc
  assume hc: "hc \<in> set (c_hcs (c_hcs_update (obj_delete hcl_name hcl_finalizers mark_hc (hcl_name x)) s))"
    and n: "hc_server (hcl_spec hc) = n"
  show "hcl_deleting hc \<or> hcl_name hc \<in> set (map hcl_name rest)"
  proof (cases "hcl_name hc = hcl_name x")
    case True
    then show ?thesis using hc by (auto dest: deleted_hc)
  next
    case False
    then have "hc \<in> set (c_hcs s)" using hc by (auto dest!: hcs.delete_member)
    then show ?thesis using assms n False by (auto simp: leaving_def)
  qed
qed

lemma leaving_absent:
  "leaving n (x # rest) s \<Longrightarrow> obj_get hcl_name (c_hcs s) (hcl_name x) = None \<Longrightarrow> leaving n rest s"
  by (auto simp: leaving_def obj_get_def find_None_iff)

lemma stable_leaving [simp]: "stable (leaving n rest)"
  by (simp add: stable_def leaving_def)

lemma delete_all_leaves: "triple (\<lambda>_. True) (delete_all_headless_clients n) (\<lambda>_. leaving n []) (\<lambda>_ _. True)"
  unfolding delete_all_headless_clients_def
proof (rule triple_bind)
  show "triple (\<lambda>_. True) (list_headless_clients n) (\<lambda>items. leaving n items) (\<lambda>_ _. True)"
    unfolding list_headless_clients_def
    by (rule triple_bind [OF triple_map_err [where E = "\<lambda>_ _. True", OF triple_list]])
       (auto intro!: triple_intros simp: leaving_def stable_def)
  show "triple (leaving n items) (for_each (\<lambda>hc. ignore_404 (hcs_api_delete (hcl_name hc))) items) (\<lambda>_. leaving n []) (\<lambda>_ _. True)" for items
    by (rule triple_for_each_rest, rule triple_delete_hc) (auto intro: leaving_step leaving_absent)
qed

text \<open>A force-apply stores the applied name and spec.\<close>

definition apply_hc_ok :: "ctx \<Rightarrow> bool" where
  "apply_hc_ok c = (\<forall>old new. hcl_name (x_apply_hc c old new) = hcl_name new \<and> hcl_spec (x_apply_hc c old new) = hcl_spec new)"

definition client_of :: "string \<Rightarrow> u32 \<Rightarrow> headless_client \<Rightarrow> bool" where
  "client_of n i hc = (hc_server (hcl_spec hc) = n \<and> hc_index (hcl_spec hc) = i)"

lemma client_ofI: "hc_server (hcl_spec hc) = n \<Longrightarrow> client_of n (hc_index (hcl_spec hc)) hc"
  by (simp add: client_of_def)

lemma hcs_wf_name: "hcs_wf xs \<Longrightarrow> hc \<in> set xs \<Longrightarrow> client_of n i hc \<Longrightarrow> hcl_name hc = hc_object_name n i"
  by (simp add: hcs_wf_def client_of_def)

lemma hcs_wf_client: "hcs_wf xs \<Longrightarrow> hc \<in> set xs \<Longrightarrow> hcl_name hc = hc_object_name n i \<Longrightarrow> client_of n i hc"
  by (auto simp: hcs_wf_def client_of_def hc_object_name_inject)

text \<open>Nothing of the server past its count stays, except what \<open>rest\<close> still names.\<close>

definition no_excess :: "string \<Rightarrow> u32 \<Rightarrow> u32 set \<Rightarrow> headless_client list \<Rightarrow> bool" where
  "no_excess n desired rest xs = (\<forall>hc \<in> set xs. \<forall>i. client_of n i hc \<and> desired \<le> i \<longrightarrow> hcl_deleting hc \<or> i \<in> rest)"

definition present :: "string \<Rightarrow> u32 set \<Rightarrow> headless_client list \<Rightarrow> bool" where
  "present n I xs = (\<forall>i \<in> I. \<exists>hc \<in> set xs. client_of n i hc)"

lemma delete_other_stays:
  "hc \<in> set xs \<Longrightarrow> hcl_name hc \<noteq> n \<Longrightarrow> hc \<in> set (obj_delete hcl_name hcl_finalizers mark_hc n xs)"
  by (simp add: obj_delete_def obj_update_def rev_image_eqI split: option.splits)

lemma present_delete:
  assumes "hcs_wf xs" "present n I xs" "i \<notin> I"
  shows "present n I (obj_delete hcl_name hcl_finalizers mark_hc (hc_object_name n i) xs)"
  unfolding present_def
proof
  fix j
  assume j: "j \<in> I"
  then obtain hc where hc: "hc \<in> set xs" "client_of n j hc" using assms(2) by (auto simp: present_def)
  have "hcl_name hc \<noteq> hc_object_name n i"
    using hcs_wf_name [OF assms(1) hc] j assms(3) by (auto simp: hc_object_name_inject)
  then show "\<exists>hc \<in> set (obj_delete hcl_name hcl_finalizers mark_hc (hc_object_name n i) xs). client_of n j hc"
    using delete_other_stays [OF hc(1)] hc(2) by blast
qed

lemma no_excess_delete:
  assumes "hcs_wf xs" "no_excess n desired (insert i rest) xs"
  shows "no_excess n desired rest (obj_delete hcl_name hcl_finalizers mark_hc (hc_object_name n i) xs)"
  unfolding no_excess_def
proof (intro ballI allI impI)
  fix hc j
  assume hc: "hc \<in> set (obj_delete hcl_name hcl_finalizers mark_hc (hc_object_name n i) xs)" "client_of n j hc \<and> desired \<le> j"
  show "hcl_deleting hc \<or> j \<in> rest"
  proof (cases "j = i")
    case True
    have "hcl_name hc = hc_object_name n i" using hcs_wf_name [OF hcs_wf_delete [OF assms(1)] hc(1)] hc(2) True by blast
    from deleted_hc [OF hc(1) this] show ?thesis by blast
  next
    case False
    from hcs.delete_member [OF hc(1)] show ?thesis
      using assms(2) hc(2) False by (auto simp: no_excess_def)
  qed
qed

lemma hcs_wf_apply:
  assumes "apply_hc_ok c" "hcs_wf xs"
  shows "hcs_wf (obj_apply hcl_name (x_apply_hc c) (new_headless_client n i) xs)"
proof -
  have "distinct (map hcl_name (obj_apply hcl_name (x_apply_hc c) (new_headless_client n i) xs))"
    using assms by (intro hcs.names_apply) (auto simp: apply_hc_ok_def hcs_wf_def)
  moreover have "hcl_name hc = hc_object_name (hc_server (hcl_spec hc)) (hc_index (hcl_spec hc))"
    if "hc \<in> set (obj_apply hcl_name (x_apply_hc c) (new_headless_client n i) xs)" for hc
    using hcs.apply_member [OF that] assms by (elim disjE bexE) (simp_all add: apply_hc_ok_def hcs_wf_def new_headless_client_def)
  ultimately show ?thesis by (simp add: hcs_wf_def)
qed

lemma no_excess_apply:
  assumes "apply_hc_ok c" "no_excess n desired {} xs" "i < desired"
  shows "no_excess n desired {} (obj_apply hcl_name (x_apply_hc c) (new_headless_client n i) xs)"
  unfolding no_excess_def
proof (intro ballI allI impI)
  fix hc j
  assume hc: "hc \<in> set (obj_apply hcl_name (x_apply_hc c) (new_headless_client n i) xs)" and j: "client_of n j hc \<and> desired \<le> j"
  from hcs.apply_member [OF hc] show "hcl_deleting hc \<or> j \<in> {}"
  proof (elim disjE bexE)
    assume "hc \<in> set xs \<and> hcl_name hc \<noteq> hcl_name (new_headless_client n i)"
    then show ?thesis using assms(2) j by (auto simp: no_excess_def)
  qed (use j assms(1,3) in \<open>auto simp: client_of_def new_headless_client_def apply_hc_ok_def\<close>)
qed

lemma present_apply:
  assumes "apply_hc_ok c" "hcs_wf xs" "present n I xs"
  shows "present n (insert i I) (obj_apply hcl_name (x_apply_hc c) (new_headless_client n i) xs)"
proof -
  let ?ys = "obj_apply hcl_name (x_apply_hc c) (new_headless_client n i) xs"
  have get: "obj_get hcl_name ?ys k = (if k = hc_object_name n i then Some (case obj_get hcl_name xs k of
      None \<Rightarrow> new_headless_client n i | Some old \<Rightarrow> x_apply_hc c old (new_headless_client n i)) else obj_get hcl_name xs k)" for k
    using assms(1) by (subst hcs.get_apply) (auto simp: apply_hc_ok_def new_headless_client_def)
  have "\<exists>hc \<in> set ?ys. client_of n j hc" if j: "j \<in> insert i I" for j
  proof (cases "j = i")
    case True
    obtain hc where hc: "obj_get hcl_name ?ys (hc_object_name n i) = Some hc" by (simp add: get)
    with hcs.get_member [OF hc] hcs_wf_client [OF hcs_wf_apply [OF assms(1,2)]] True show ?thesis by blast
  next
    case False
    then obtain hc where hc: "hc \<in> set xs" "client_of n j hc" using assms(3) j by (auto simp: present_def)
    have "obj_get hcl_name xs (hc_object_name n j) \<noteq> None"
      using hc hcs_wf_name [OF assms(2) hc] by (auto simp: hcs.get_None)
    then obtain hc' where hc': "obj_get hcl_name ?ys (hc_object_name n j) = Some hc'"
      using False by (auto simp: get hc_object_name_inject)
    with hcs.get_member [OF hc'] hcs_wf_client [OF hcs_wf_apply [OF assms(1,2)]] show ?thesis by blast
  qed
  then show ?thesis by (simp add: present_def)
qed

lemma below_words: "set (map word_of_nat [0..<unat d]) = {i :: 'w::len word. i < d}"
proof -
  have "i \<in> word_of_nat ` {0..<unat d}" if "i < d" for i :: "'w word"
    using that by (intro image_eqI [where x = "unat i"]) (auto simp: word_less_nat_alt)
  moreover have "word_of_nat k < d" if "k < unat d" for k
    using that unsigned_less [of d] by (simp add: word_less_nat_alt unat_of_nat take_bit_eq_mod less_trans mod_less)
  ultimately show ?thesis by auto
qed

abbreviation indices :: "headless_client list \<Rightarrow> u32 set" where
  "indices xs \<equiv> (\<lambda>hc. hc_index (hcl_spec hc)) ` set xs"

definition hc_loop :: "string \<Rightarrow> u32 \<Rightarrow> u32 set \<Rightarrow> u32 set \<Rightarrow> ctl \<Rightarrow> bool" where
  "hc_loop n desired excess I s = (hcs_wf (c_hcs s) \<and> no_excess n desired excess (c_hcs s) \<and> present n I (c_hcs s))"

lemma stable_hc_loop [simp]: "stable (hc_loop n desired excess I)"
  by (simp add: stable_def hc_loop_def)

lemma triple_list_hcs:
  "triple (\<lambda>s. hcs_wf (c_hcs s)) (list_headless_clients n)
     (\<lambda>xs s. hc_loop n desired (indices xs) {i \<in> indices xs. i < desired} s
        \<and> (\<forall>x \<in> set xs. hcl_name x = hc_object_name n (hc_index (hcl_spec x)))) (\<lambda>_ _. True)"
  unfolding list_headless_clients_def
  by (rule triple_bind [OF triple_map_err [where E = "\<lambda>_ _. True", OF triple_weaken_error [OF triple_list]]])
     (auto intro!: triple_intros simp: stable_def hc_loop_def hcs_wf_def no_excess_def present_def client_of_def image_iff)

lemma triple_delete_excess:
  assumes "\<forall>x \<in> set xs. hcl_name x = hc_object_name n (hc_index (hcl_spec x))"
  shows "triple (hc_loop n desired (indices xs) {i \<in> indices xs. i < desired})
    (for_each (\<lambda>hc. act_when (desired \<le> hc_index (hcl_spec hc)) (ignore_404 (hcs_api_delete (hcl_name hc)))) xs)
    (\<lambda>_. hc_loop n desired {} {i \<in> indices xs. i < desired}) (\<lambda>_ _. True)"
proof -
  let ?I = "{i \<in> indices xs. i < desired}"
  have "triple (hc_loop n desired (indices xs) ?I)
     (for_each (\<lambda>hc. act_when (desired \<le> hc_index (hcl_spec hc)) (ignore_404 (hcs_api_delete (hcl_name hc)))) xs)
     (\<lambda>_. hc_loop n desired (indices []) ?I) (\<lambda>_ _. True)"
  proof (rule triple_for_each_rest [where I = "\<lambda>rest. hc_loop n desired (indices rest) ?I"], rule triple_when)
    fix x rest
    assume x: "x \<in> set xs" "desired \<le> hc_index (hcl_spec x)"
    then have nm: "hcl_name x = hc_object_name n (hc_index (hcl_spec x))" using assms by blast
    show "triple (hc_loop n desired (indices (x # rest)) ?I) (ignore_404 (hcs_api_delete (hcl_name x)))
        (\<lambda>_. hc_loop n desired (indices rest) ?I) (\<lambda>_ _. True)"
    proof (rule triple_delete_hc [OF stable_hc_loop])
      fix s
      assume s: "hc_loop n desired (indices (x # rest)) ?I s"
      then show "hc_loop n desired (indices rest) ?I (c_hcs_update (obj_delete hcl_name hcl_finalizers mark_hc (hcl_name x)) s)"
        unfolding nm hc_loop_def using x(2) by (auto intro!: hcs_wf_delete no_excess_delete present_delete)
      assume "obj_get hcl_name (c_hcs s) (hcl_name x) = None"
      then have "\<not> client_of n (hc_index (hcl_spec x)) hc" if "hc \<in> set (c_hcs s)" for hc
        using that s hcs_wf_name [of "c_hcs s" hc n] unfolding nm hc_loop_def hcs.get_None by blast
      then show "hc_loop n desired (indices rest) ?I s"
        using s by (fastforce simp: hc_loop_def no_excess_def)
    qed
  next
    fix x :: headless_client and rest
    assume "\<not> desired \<le> hc_index (hcl_spec x)"
    then show "triple (hc_loop n desired (indices (x # rest)) ?I) (ret ()) (\<lambda>_. hc_loop n desired (indices rest) ?I) (\<lambda>_ _. True)"
      by (intro triple_ret) (fastforce simp: hc_loop_def no_excess_def)
  qed
  then show ?thesis by simp
qed

lemma triple_create_missing:
  assumes "apply_hc_ok c"
  shows "triple (hc_loop n desired {} {i \<in> J. i < desired})
    (for_each (\<lambda>index. act_when (index \<notin> J) (act_bind (act_map_err kube_text
       (api_apply c_hcs c_hcs_update hcl_name (x_apply_hc c) (new_headless_client n index))) (\<lambda>_. ret ())))
       (map word_of_nat [0..<unat desired]))
    (\<lambda>_. hc_loop n desired {} {i. i < desired}) (\<lambda>_ _. True)"
proof -
  let ?all = "map word_of_nat [0..<unat desired]"
  let ?I = "\<lambda>rest. {i. i < desired \<and> (i \<notin> set rest \<or> i \<in> J)}"
  have "triple (hc_loop n desired {} (?I ?all)) (for_each (\<lambda>index. act_when (index \<notin> J) (act_bind (act_map_err kube_text
       (api_apply c_hcs c_hcs_update hcl_name (x_apply_hc c) (new_headless_client n index))) (\<lambda>_. ret ()))) ?all)
       (\<lambda>_. hc_loop n desired {} (?I [])) (\<lambda>_ _. True)"
  proof (rule triple_for_each_rest [where I = "\<lambda>rest. hc_loop n desired {} (?I rest)"], rule triple_when)
    fix x rest
    assume x: "x \<in> set ?all" "x \<notin> J"
    have lt: "x < desired" using x(1) unfolding below_words by simp
    have made: "hc_loop n desired {} (?I rest) (c_hcs_update (obj_apply hcl_name (x_apply_hc c) (new_headless_client n x)) s)"
      if s: "hc_loop n desired {} (?I (x # rest)) s" for s
    proof -
      have "present n (insert x (?I (x # rest))) (obj_apply hcl_name (x_apply_hc c) (new_headless_client n x) (c_hcs s))"
        using s by (intro present_apply [OF assms]) (simp_all only: hc_loop_def)
      then have "present n (?I rest) (obj_apply hcl_name (x_apply_hc c) (new_headless_client n x) (c_hcs s))"
        unfolding present_def by auto
      with s lt assms show ?thesis by (simp add: hc_loop_def hcs_wf_apply no_excess_apply)
    qed
    show "triple (hc_loop n desired {} (?I (x # rest)))
       (act_bind (act_map_err kube_text (api_apply c_hcs c_hcs_update hcl_name (x_apply_hc c) (new_headless_client n x))) (\<lambda>_. ret ()))
       (\<lambda>_. hc_loop n desired {} (?I rest)) (\<lambda>_ _. True)"
      unfolding api_apply_def
      by (rule triple_bind [where R = "\<lambda>_. hc_loop n desired {} (?I rest)"], rule triple_map_err, rule triple_success [OF stable_hc_loop])
         (simp_all only: triple_def act_simps prod.case sum.case simp_thms, intro allI impI made)
  next
    fix x rest
    assume "\<not> x \<notin> J"
    then show "triple (hc_loop n desired {} (?I (x # rest))) (ret ()) (\<lambda>_. hc_loop n desired {} (?I rest)) (\<lambda>_ _. True)"
      by (intro triple_ret) (auto simp: hc_loop_def present_def)
  qed
  moreover have "?I ?all = {i \<in> J. i < desired}" unfolding below_words by auto
  ultimately show ?thesis by simp
qed

lemma triple_ensure_hcs:
  assumes "apply_hc_ok c"
  shows "triple (\<lambda>s. hcs_wf (c_hcs s)) (ensure_headless_clients c obj)
    (\<lambda>_. hc_loop (srv_name obj) (headless_clients (srv_spec obj)) {} {i. i < headless_clients (srv_spec obj)}) (\<lambda>_ _. True)"
  unfolding ensure_headless_clients_def Let_def
  by (rule triple_bind [OF triple_list_hcs], rule triple_pure, rule triple_bind [OF triple_delete_excess], assumption)
     (simp only: list.set_map triple_create_missing [OF assms])

section \<open>Passes whose calls are all answered\<close>

definition apply_deployment_ok :: "ctx \<Rightarrow> bool" where
  "apply_deployment_ok c = (\<forall>old new. dep_name (x_apply_deployment c old new) = dep_name new
     \<and> dep_replicas (x_apply_deployment c old new) = dep_replicas new
     \<and> dep_template (x_apply_deployment c old new) = dep_template new)"

definition calm :: "arma_server list \<Rightarrow> mod_source list \<Rightarrow> ctl \<Rightarrow> bool" where
  "calm K S s = (k_replies s = [] \<and> k_servers s = K \<and> k_sources s = S)"

abbreviation total :: "(ctl \<Rightarrow> bool) \<Rightarrow> (ctl, string, 'a) act \<Rightarrow> ('a \<Rightarrow> ctl \<Rightarrow> bool) \<Rightarrow> bool" where
  "total P m Q \<equiv> triple P m Q (\<lambda>_ _. False)"

lemma total_bind: "total P m (\<lambda>_. R) \<Longrightarrow> (\<And>x. total R (f x) Q) \<Longrightarrow> total P (act_bind m f) Q"
  by (rule triple_bind)

lemma total_for_each: "(\<And>x. x \<in> set xs \<Longrightarrow> total P (f x) (\<lambda>_. P)) \<Longrightarrow> total P (for_each f xs) (\<lambda>_. P)"
  by (rule triple_for_each)

lemma total_get_source:
  assumes "obj_get src_name S i = Some x"
  shows "triple (calm K S) (get_mod_source i) (\<lambda>y s. calm K S s \<and> y = x) (\<lambda>_ _. False)"
  using assms by (auto simp: triple_def get_mod_source_def api_get_def act_simps calm_def)

lemma total_first_unsynced:
  "all_synced S ids \<Longrightarrow> total (calm K S) (first_unsynced ids) (\<lambda>r s. calm K S s \<and> r = None)"
proof (induction ids)
  case Nil
  then show ?case by (auto intro!: triple_intros)
next
  case (Cons i ids)
  then obtain x where x: "obj_get src_name S i = Some x" "source_phase x = MsSynced" by (auto simp: all_synced_def)
  have "all_synced S ids" using Cons.prems by (simp add: all_synced_def)
  then show ?case
    using Cons.IH x(2) by (auto intro!: triple_bind [OF total_get_source [OF x(1)]] triple_pure)
qed

lemma total_sync_call: "is_ok r \<Longrightarrow> total (calm K S) (sync_call q r) (\<lambda>_. calm K S)"
  by (auto simp: triple_def sync_call_def calm_def result_simps split: sum.splits)

lemma total_map_act: "(\<And>x. x \<in> set xs \<Longrightarrow> total P (f x) (\<lambda>_. P)) \<Longrightarrow> total P (map_act f xs) (\<lambda>_. P)"
  by (induction xs) (auto intro!: triple_intros total_bind [where R = P])

lemma total_mod_paths:
  assumes "all_synced S (mod_source_ids (srv_spec obj))"
    and "\<forall>i \<in> set (mod_source_ids (srv_spec obj)). is_ok (sa_get_source_mods (x_sync c) i)"
  shows "total (calm K S) (resolve_mod_paths c obj) (\<lambda>_. calm K S)"
  unfolding resolve_mod_paths_def
proof (rule total_bind, rule total_map_act)
  fix i
  assume i: "i \<in> set (mod_source_ids (srv_spec obj))"
  then obtain x where x: "obj_get src_name S i = Some x" using assms(1) by (auto simp: all_synced_def)
  from i assms(2) have ok: "is_ok (sa_get_source_mods (x_sync c) i)" by blast
  show "total (calm K S) (source_paths c i) (\<lambda>_. calm K S)"
    unfolding source_paths_def
    by (rule triple_bind [OF total_get_source [OF x]], rule triple_pure)
       (auto intro!: triple_intros total_bind [OF total_sync_call [OF ok]] split: mod_source_input.splits)
qed (auto intro!: triple_intros)

lemma total_ensure_hcs:
  "total (\<lambda>s. calm K S s \<and> P (c_deployments s)) (ensure_headless_clients c obj) (\<lambda>_ s. calm K S s \<and> P (c_deployments s))"
  unfolding ensure_headless_clients_def Let_def list_headless_clients_def
  by (intro total_bind [where R = "\<lambda>s. calm K S s \<and> P (c_deployments s)"] total_for_each triple_when)
     (auto simp: triple_def act_simps api_list_def api_delete_def api_apply_def ignore_404_def calm_def split: option.splits)

lemma total_ensure_deployment:
  assumes "apply_deployment_ok c"
  shows "total (calm K S) (ensure_deployment c obj ps ex) (\<lambda>_ s. calm K S s \<and>
    (\<exists>d. obj_get dep_name (c_deployments s) (srv_name obj) = Some d \<and> dep_replicas d = 1
       \<and> dep_template d = server_pod_template (x_cfg c) (x_uuid c) obj ps ex))"
proof -
  have "\<exists>d. obj_get dep_name (obj_apply dep_name (x_apply_deployment c) (server_deployment cfg u obj ps ex) ds) (srv_name obj) = Some d
      \<and> dep_replicas d = 1 \<and> dep_template d = server_pod_template cfg u obj ps ex" for ds cfg u
    using assms by (subst deployments.get_apply) (auto simp: apply_deployment_ok_def split: option.splits)
  then show ?thesis
    unfolding ensure_deployment_def api_apply_def by (simp add: triple_def act_simps calm_def)
qed

text \<open>The generation stamped on the Deployment of a name.\<close>

definition generation_of :: "string \<Rightarrow> ctl \<Rightarrow> string option" where
  "generation_of n s =
    Option.bind (obj_get dep_name (c_deployments s) n)
      (\<lambda>d. map_of (pt_annotations (dep_template d)) ''magpie.skua.io/content-generation'')"

definition deployed :: "string \<Rightarrow> string \<Rightarrow> deployment list \<Rightarrow> bool" where
  "deployed n uuid ds = (\<exists>d. obj_get dep_name ds n = Some d \<and> dep_replicas d = 1
     \<and> map_of (pt_annotations (dep_template d)) ''magpie.skua.io/content-generation'' = Some uuid)"

lemma deployed_nonempty: "deployed n uuid ds \<Longrightarrow> ds \<noteq> []"
  by (auto simp: deployed_def obj_get_def)

lemma total_render:
  assumes "\<forall>files. is_ok (render_and_write (x_f64 c) (x_cluster c) (x_db c) (cfg_namespace (x_cfg c))
        (cfg_user_secrets_namespace (x_cfg c)) (cfg_server_root_base (x_cfg c)) (cfg_arma_config_baseline (x_cfg c)) obj files)"
  shows "total (calm K S) (render_config c obj) (\<lambda>_. calm K S)"
  unfolding triple_def
proof (intro allI impI)
  fix s :: ctl
  assume "calm K S s"
  moreover obtain e f where "render_and_write (x_f64 c) (x_cluster c) (x_db c) (cfg_namespace (x_cfg c))
        (cfg_user_secrets_namespace (x_cfg c)) (cfg_server_root_base (x_cfg c)) (cfg_arma_config_baseline (x_cfg c)) obj (c_files s) = Inr (e, f)"
    using assms unfolding is_ok_iff by fastforce
  ultimately show "case render_config c obj s of (Inr x, s') \<Rightarrow> calm K S s' | (Inl e, s') \<Rightarrow> False"
    by (simp add: render_config_def calm_def)
qed

lemma total_run_pending:
  assumes "gate_open c obj S" "apply_deployment_ok c"
    and "\<forall>i \<in> set (mod_source_ids (srv_spec obj)). is_ok (sa_get_source_mods (x_sync c) i)"
    and "\<forall>files. is_ok (render_and_write (x_f64 c) (x_cluster c) (x_db c) (cfg_namespace (x_cfg c))
        (cfg_user_secrets_namespace (x_cfg c)) (cfg_server_root_base (x_cfg c)) (cfg_arma_config_baseline (x_cfg c)) obj files)"
  shows "total (calm K S) (run_pending c obj) (\<lambda>_ s. calm K S s \<and> deployed (srv_name obj) (x_uuid c) (c_deployments s))"
proof -
  have dep: "total (calm K S) (ensure_deployment c obj ps ex) (\<lambda>_ s. calm K S s \<and> deployed (srv_name obj) (x_uuid c) (c_deployments s))" for ps ex
    by (rule triple_post [OF total_ensure_deployment [OF assms(2)]])
       (auto simp: deployed_def server_pod_template_def server_generation)
  have "all_synced S (mod_source_ids (srv_spec obj))" using assms(1) by (simp add: gate_open_def)
  then show ?thesis
    unfolding run_pending_def
    by (intro total_bind [OF total_mod_paths] total_bind [OF total_render] total_bind [OF dep] total_ensure_hcs assms(3,4))
qed

lemma total_set_status:
  "obj_get srv_name K n = Some x \<Longrightarrow> total (\<lambda>s. calm K S s \<and> P (c_deployments s)) (set_status n st)
    (\<lambda>_ s. P (c_deployments s) \<and> obj_get srv_name (k_servers s) n = Some (x\<lparr>srv_status := Some st\<rparr>))"
  by (simp add: triple_def set_status_def api_patch_def act_simps calm_def servers.get_update)

lemma total_apply_pending:
  assumes "gate_open c obj S" "apply_deployment_ok c"
    and "\<forall>i \<in> set (mod_source_ids (srv_spec obj)). is_ok (sa_get_source_mods (x_sync c) i)"
    and "\<forall>files. is_ok (render_and_write (x_f64 c) (x_cluster c) (x_db c) (cfg_namespace (x_cfg c))
        (cfg_user_secrets_namespace (x_cfg c)) (cfg_server_root_base (x_cfg c)) (cfg_arma_config_baseline (x_cfg c)) obj files)"
    and "obj_get srv_name K (srv_name obj) = Some x"
  shows "total (calm K S) (apply_pending c obj) (\<lambda>a s. a = Requeue SLOW_REQUEUE
    \<and> deployed (srv_name obj) (x_uuid c) (c_deployments s)
    \<and> obj_get srv_name (k_servers s) (srv_name obj) = Some (x\<lparr>srv_status := Some (fresh_status Running)\<rparr>))"
    (is "total _ _ ?Q")
proof -
  let ?D = "\<lambda>s. calm K S s \<and> deployed (srv_name obj) (x_uuid c) (c_deployments s)"
  have fin: "total ?D (act_bind (set_status (srv_name obj) (fresh_status Running)) (\<lambda>_. ret (Requeue SLOW_REQUEUE))) ?Q"
    by (rule triple_bind [OF total_set_status [OF assms(5)]]) (auto intro!: triple_intros)
  have run: "total (calm K S) (act_match (run_pending c obj) (\<lambda>r. act_bind (set_status (srv_name obj)
        (case r of Inr _ \<Rightarrow> fresh_status Running | Inl e \<Rightarrow> \<lparr>phase = Failed, message = e\<rparr>)) (\<lambda>_. ret (Requeue SLOW_REQUEUE)))) ?Q"
    by (rule triple_match [OF total_run_pending [OF assms(1-4)]]) (simp_all add: fin, simp add: triple_def)
  have synced: "all_synced S (mod_source_ids (srv_spec obj))" and status: "sa_sync_status (x_sync c) = Inr (False, True)"
    using assms(1) by (simp_all add: gate_open_def)
  have "total (calm K S) (sync_call q (Inr (False, True))) (\<lambda>r s. calm K S s \<and> r = (False, True))" for q
    by (simp add: triple_def sync_call_def calm_def)
  then show ?thesis
    unfolding apply_pending_def status not_yet_synced_mod_source_def
    by (rule triple_match) (auto intro!: triple_pure triple_match [OF total_first_unsynced [OF synced]] run simp: triple_def [of "\<lambda>_. False"])
qed

lemma triple_hc_apply:
  assumes "apply_deployment_ok c"
  shows "triple (\<lambda>s. k_replies s = []) (hc_apply c obj)
    (\<lambda>a s. a = Requeue SLOW_REQUEUE \<and> generation_of (hcl_name obj) s = Some (x_uuid c)) (\<lambda>_ _. True)"
proof -
  let ?G = "\<lambda>s. generation_of (hcl_name obj) s = Some (x_uuid c)"
  have paths: "keeps (\<lambda>s. k_replies s = []) (resolve_mod_paths c x)" for x
    unfolding resolve_mod_paths_def source_paths_def get_mod_source_def api_get_def
    by (auto intro!: triple_intros keeps_sync_call split: mod_source_input.splits)
       (auto simp: triple_def act_simps split: sum.splits)
  have owner: "keeps (\<lambda>s. k_replies s = []) (owning_server n)" for n
    by (auto simp: triple_def owning_server_def api_get_def act_simps split: sum.splits)
  have ensure: "total (\<lambda>s. k_replies s = []) (ensure_hc_deployment c obj x ps lc) (\<lambda>_. ?G)" for x ps lc
  proof -
    have "\<exists>d. obj_get dep_name (obj_apply dep_name (x_apply_deployment c) (hc_deployment cfg u obj x ps lc) ds) (hcl_name obj) = Some d
       \<and> dep_template d = hc_pod_template cfg u obj x ps lc" for ds cfg u
      using assms by (subst deployments.get_apply) (auto simp: apply_deployment_ok_def split: option.splits)
    then show ?thesis
      by (auto simp: triple_def ensure_hc_deployment_def api_apply_def act_simps generation_of_def hc_generation)
         (metis bind.bind_lunit hc_generation)
  qed
  have status: "triple ?G (act_bind (set_hc_status n st) (\<lambda>_. ret (Requeue SLOW_REQUEUE)))
      (\<lambda>a s. a = Requeue SLOW_REQUEUE \<and> ?G s) (\<lambda>_ _. True)" for n st
    unfolding set_hc_status_def
    by (rule triple_bind [where R = "\<lambda>_. ?G"], rule triple_bind [where R = "\<lambda>_. ?G"], rule triple_map_err,
        rule triple_weaken_error [OF triple_patch [where F = ?G]])
       (auto intro!: triple_intros simp: stable_def generation_of_def)
  show ?thesis
    unfolding hc_apply_def
    by (rule triple_bind [OF triple_weaken_error [OF owner]], rule triple_bind [OF triple_weaken_error [OF paths]],
        rule triple_bind [where R = "\<lambda>_ s. k_replies s = []"], (auto intro!: triple_intros)[1],
        rule triple_match [OF ensure]) (simp_all add: status, simp add: triple_def)
qed

lemma stop_scales_down:
  "triple (\<lambda>_. True) (scale_down n) (\<lambda>_ s. \<forall>d. obj_get dep_name (c_deployments s) n = Some d \<longrightarrow> dep_replicas d = 0) (\<lambda>_ _. True)"
  unfolding scale_down_def api_patch_def
  by (rule triple_ignore_404 [where E = "\<lambda>_ _. True"], rule triple_api_call_err)
     (auto simp: triple_def stable_def deployments.get_update split: option.splits)

definition wound_down :: "string \<Rightarrow> ctl \<Rightarrow> bool" where
  "wound_down n s = ((\<forall>d. obj_get dep_name (c_deployments s) n = Some d \<longrightarrow> dep_replicas d = 0)
     \<and> (\<forall>hc \<in> set (c_hcs s). hc_server (hcl_spec hc) = n \<longrightarrow> hcl_deleting hc))"

lemma triple_not_desired:
  "triple (\<lambda>_. True) (apply_not_desired n) (\<lambda>a s. a = AwaitChange \<and> wound_down n s
     \<and> (\<forall>y. obj_get srv_name (k_servers s) n = Some y \<longrightarrow> srv_status y = Some (fresh_status Stopped))) (\<lambda>_ _. True)"
  (is "triple _ _ ?Q _")
proof -
  let ?D = "\<lambda>s. \<forall>d. obj_get dep_name (c_deployments s) n = Some d \<longrightarrow> dep_replicas d = 0"
  have hcs: "triple ?D (delete_all_headless_clients n) (\<lambda>_. wound_down n) (\<lambda>_ _. True)"
  proof -
    have "keeps ?D (delete_all_headless_clients n)"
      by (rule keeps_delete_all) (simp add: blind_hcs_def stable_def)
    from triple_conj [OF this delete_all_leaves [of n]] show ?thesis
      by (rule triple_conseq) (auto simp: wound_down_def leaving_def)
  qed
  have "triple (wound_down n) (set_status n st) (\<lambda>_ s. wound_down n s
      \<and> (\<forall>y. obj_get srv_name (k_servers s) n = Some y \<longrightarrow> srv_status y = Some st)) (\<lambda>_ _. True)" for st
    unfolding set_status_def api_patch_def
    by (rule triple_bind [where R = "\<lambda>_ s. wound_down n s
          \<and> (\<forall>y. obj_get srv_name (k_servers s) n = Some y \<longrightarrow> srv_status y = Some st)"], rule triple_map_err,
        rule triple_success [where E = "\<lambda>_ _. True"])
       (auto simp: triple_def stable_def wound_down_def servers.get_update act_simps split: option.splits)
  then show ?thesis
    unfolding apply_not_desired_def
    by (intro triple_bind [OF stop_scales_down] triple_bind [OF hcs] triple_bind [where R = "\<lambda>_ s. wound_down n s
      \<and> (\<forall>y. obj_get srv_name (k_servers s) n = Some y \<longrightarrow> srv_status y = Some (fresh_status Stopped))"] triple_ret) auto
qed

section \<open>Properties\<close>

text \<open>C4: No Pod is created or changed before the gate opens. A pass of a server that is meant to run changes
  the Deployments only from phase \<open>Pending\<close>, when the sync daemon answers that no pass is in flight and the
  game files are ready, and when every mod source of the server exists with phase \<open>Synced\<close>. (A server that is
  meant to be stopped is scaled down from any phase; \<open>Synced\<close> is what the sync daemon writes once a source
  is resolved.)\<close>

theorem deployment_only_through_the_gate:
  assumes "desired_state (srv_spec obj) = DesiredRunning"
    and "c_deployments (snd (apply_server c obj s)) \<noteq> c_deployments s"
  shows "phase_of obj = Pending \<and> sa_sync_status (x_sync c) = Inr (False, True)
    \<and> (\<forall>i \<in> set (mod_source_ids (srv_spec obj)). \<exists>x. obj_get src_name (k_sources s) i = Some x \<and> source_phase x = MsSynced)"
proof -
  let ?Q = "\<lambda>s'. gate_open c obj (k_sources s) \<and> (\<exists>st. srv_status obj = Some st \<and> phase st = Pending)
    \<or> c_deployments s' = c_deployments s"
  have "?Q (snd (apply_server c obj s))"
    using tripleD [OF triple_apply_server [OF assms(1), of "c_deployments s" "k_sources s" c], of s]
    by (cases "apply_server c obj s") (auto simp: idle_def split: sum.splits)
  with assms(2) show ?thesis by (auto simp: gate_open_def all_synced_def phase_of_def)
qed

definition demo_ctx :: ctx where
  "demo_ctx = \<lparr>x_cfg = (config_from_env Map.empty)\<lparr>cfg_namespace := ''arma'', cfg_user_secrets_namespace := ''user'',
       cfg_server_root_base := ''/srv'', cfg_arma_config_baseline := ''base''\<rparr>,
     x_sync = \<lparr>sa_sync_content = Inr (), sa_sync_status = Inr (False, True), sa_get_source_mods = (\<lambda>_. Inr [])\<rparr>,
     x_cluster = demo_cluster, x_db = empty_db, x_f64 = (\<lambda>_. None), x_uuid = ''gen-1'',
     x_apply_deployment = (\<lambda>old new. new), x_apply_hc = (\<lambda>old new. new)\<rparr>"

definition demo_object :: "arma_server_phase \<Rightarrow> desired_state \<Rightarrow> arma_server" where
  "demo_object p d = demo_server\<lparr>srv_status := Some (fresh_status p), srv_spec := (srv_spec demo_server)\<lparr>desired_state := d\<rparr>\<rparr>"

definition demo_ctl :: "arma_server list \<Rightarrow> headless_client list \<Rightarrow> ctl" where
  "demo_ctl xs hs = \<lparr>k_servers = xs, k_sources = [], k_replies = [], k_sync_log = [],
     c_hcs = hs, c_deployments = [], c_files = Map.empty\<rparr>"

text \<open>Whether a configuration renders does not depend on the files already there.\<close>

lemma render_ok_files:
  "is_ok (render_and_write f64 cl d ns us root base obj files) = is_ok (render_and_write f64 cl d ns us root base obj files')"
  by (simp add: render_and_write_def rbind_def is_ok_def Let_def split: sum.splits prod.splits)

lemma demo_renders:
  "is_ok (render_and_write (x_f64 demo_ctx) (x_cluster demo_ctx) (x_db demo_ctx) (cfg_namespace (x_cfg demo_ctx))
     (cfg_user_secrets_namespace (x_cfg demo_ctx)) (cfg_server_root_base (x_cfg demo_ctx))
     (cfg_arma_config_baseline (x_cfg demo_ctx)) (demo_object p d) files)"
proof -
  have "is_ok (render_and_write (\<lambda>_. None) demo_cluster empty_db ''arma'' ''user'' ''/srv'' ''base'' demo_server files)"
    using demo_render by (simp only: render_ok_files [of _ _ _ _ _ _ _ _ files Map.empty])
  moreover have "render_and_write f64 cl db ns us root base (demo_object p d) files =
      render_and_write f64 cl db ns us root base demo_server files" for f64 cl db ns us root base
    by (simp add: render_and_write_def demo_object_def)
  ultimately show ?thesis by (simp add: demo_ctx_def)
qed

lemmas demo_defs = demo_ctl_def demo_object_def demo_server_def fresh_status_def phase_of_def

lemma demo_laws: "apply_deployment_ok demo_ctx" "apply_hc_ok demo_ctx" "gate_open demo_ctx (demo_object p d) []"
  by (simp_all add: apply_deployment_ok_def apply_hc_ok_def demo_ctx_def gate_open_def all_synced_def demo_object_def demo_server_def)

lemma demo_pass_runs:
  "\<exists>s'. apply_server demo_ctx (demo_object Pending DesiredRunning) (demo_ctl [demo_object Pending DesiredRunning] []) = (Inr (Requeue SLOW_REQUEUE), s')
     \<and> deployed ''skua-ops'' ''gen-1'' (c_deployments s')"
proof -
  let ?o = "demo_object Pending DesiredRunning"
  have "total (calm [?o] []) (apply_pending demo_ctx ?o) (\<lambda>a s. a = Requeue SLOW_REQUEUE
    \<and> deployed (srv_name ?o) (x_uuid demo_ctx) (c_deployments s)
    \<and> obj_get srv_name (k_servers s) (srv_name ?o) = Some (?o\<lparr>srv_status := Some (fresh_status Running)\<rparr>))"
    by (rule total_apply_pending [OF demo_laws(3,1)]) (simp_all add: demo_renders obj_get_def, simp add: demo_object_def demo_server_def)
  from tripleD [OF this, of "demo_ctl [?o] []" "fst (apply_pending demo_ctx ?o (demo_ctl [?o] []))" "snd (apply_pending demo_ctx ?o (demo_ctl [?o] []))"]
  have "\<exists>s'. apply_pending demo_ctx ?o (demo_ctl [?o] []) = (Inr (Requeue SLOW_REQUEUE), s') \<and> deployed (srv_name ?o) (x_uuid demo_ctx) (c_deployments s')"
    by (cases "apply_pending demo_ctx ?o (demo_ctl [?o] [])"; cases "fst (apply_pending demo_ctx ?o (demo_ctl [?o] []))")
       (auto simp: calm_def demo_ctl_def)
  then show ?thesis by (simp add: apply_server_def demo_object_def demo_server_def fresh_status_def demo_ctx_def)
qed

theorem deployment_only_through_the_gate_witness:
  "sa_sync_status (x_sync demo_ctx) = Inr (False, True)
   \<and> c_deployments (snd (apply_server demo_ctx (demo_object Pending DesiredRunning) (demo_ctl [demo_object Pending DesiredRunning] []))) \<noteq> []"
proof -
  let ?o = "demo_object Pending DesiredRunning"
  obtain s' where "apply_server demo_ctx ?o (demo_ctl [?o] []) = (Inr (Requeue SLOW_REQUEUE), s')" "c_deployments s' \<noteq> []"
    using demo_pass_runs deployed_nonempty by blast
  with deployment_only_through_the_gate [of ?o demo_ctx "demo_ctl [?o] []"] show ?thesis
    by (auto simp: demo_object_def demo_ctl_def)
qed

text \<open>C6: one pass writes at most the status of its own server, and only along the edges of the phase
  machine: Stopped to Pending, Pending to Running or Failed, Failed to Pending while the server is
  meant to run, anything to Stopped otherwise. Running is left alone and specs never change.\<close>

theorem apply_follows_phase_machine:
  "k_servers (snd (apply_server c obj s)) = k_servers s \<or>
   (\<exists>st. phase st \<in> next_phases (desired_state (srv_spec obj)) (phase_of obj)
      \<and> k_servers (snd (apply_server c obj s)) =
          obj_update srv_name (srv_name obj) (\<lambda>x. x\<lparr>srv_status := Some st\<rparr>) (k_servers s))"
  using tripleD [OF apply_server_writes [where obj = obj and K = "k_servers s" and c = c], where s = s, OF refl]
  by (cases "apply_server c obj s") (auto simp: status_written_def split: sum.splits)

text \<open>A successful pass of a running server that is no longer wanted leaves it scaled to zero,
  every headless client of it on its way out, and the status Stopped.\<close>

theorem stop_winds_down:
  assumes "desired_state (srv_spec obj) = DesiredStopped" "phase_of obj \<noteq> Stopped"
    and "apply_server c obj s = (Inr a, s')"
  shows "a = AwaitChange
    \<and> (\<forall>d. obj_get dep_name (c_deployments s') (srv_name obj) = Some d \<longrightarrow> dep_replicas d = 0)
    \<and> (\<forall>hc \<in> set (c_hcs s'). hc_server (hcl_spec hc) = srv_name obj \<longrightarrow> hcl_deleting hc)
    \<and> (\<forall>y. obj_get srv_name (k_servers s') (srv_name obj) = Some y \<longrightarrow> phase_of y = Stopped)"
proof -
  have "apply_server c obj s = apply_not_desired (srv_name obj) s"
    using assms(1,2) by (auto simp: apply_server_def Let_def phase_of_def split: arma_server_phase.splits option.splits)
  with assms(3) have "apply_not_desired (srv_name obj) s = (Inr a, s')" by simp
  from triple_okD [OF triple_not_desired _ this] show ?thesis
    by (auto simp: wound_down_def phase_of_def fresh_status_def)
qed

theorem stop_winds_down_witness:
  "\<exists>s'. apply_server demo_ctx (demo_object Running DesiredStopped)
      (demo_ctl [demo_object Running DesiredStopped] [(new_headless_client ''skua-ops'' 0)\<lparr>hcl_finalizers := [''f'']\<rparr>]) = (Inr AwaitChange, s')
    \<and> (\<forall>hc \<in> set (c_hcs s'). hc_server (hcl_spec hc) = ''skua-ops'' \<longrightarrow> hcl_deleting hc)"
proof -
  let ?o = "demo_object Running DesiredStopped"
  let ?s = "demo_ctl [?o] [(new_headless_client ''skua-ops'' 0)\<lparr>hcl_finalizers := [''f'']\<rparr>]"
  have "\<exists>a s'. apply_server demo_ctx ?o ?s = (Inr a, s')"
    by (simp add: apply_server_def Let_def demo_defs apply_not_desired_def scale_down_def ignore_404_def act_simps api_patch_def
        delete_all_headless_clients_def list_headless_clients_def api_list_def api_delete_def set_status_def obj_get_def
        new_headless_client_def)
  then obtain a s' where run: "apply_server demo_ctx ?o ?s = (Inr a, s')" by blast
  from stop_winds_down [OF _ _ run] run show ?thesis by (auto simp: demo_defs)
qed

text \<open>C11: The headless clients of a server converge. After a successful pass over clients that carry the
  names the controller gives them (\<open>hcs_wf\<close>) there is a client object for every index below the count, and
  every client at or above it is being deleted. A client below the count may itself be on its way out: it is
  not replaced before it is gone.\<close>

theorem headless_clients_converge:
  assumes "apply_hc_ok c" "hcs_wf (c_hcs s)" "ensure_headless_clients c obj s = (Inr (), s')"
  shows "hcs_wf (c_hcs s')
    \<and> (\<forall>i < headless_clients (srv_spec obj). \<exists>hc \<in> set (c_hcs s'). client_of (srv_name obj) i hc)
    \<and> (\<forall>hc \<in> set (c_hcs s'). \<forall>i. client_of (srv_name obj) i hc \<and> headless_clients (srv_spec obj) \<le> i \<longrightarrow> hcl_deleting hc)"
  using triple_okD [OF triple_ensure_hcs [OF assms(1)] assms(2,3)]
  by (auto simp: hc_loop_def no_excess_def present_def)

theorem headless_clients_converge_witness:
  "\<exists>s'. ensure_headless_clients demo_ctx demo_server (demo_ctl [] [new_headless_client ''skua-ops'' 1]) = (Inr (), s')
    \<and> (\<exists>hc \<in> set (c_hcs s'). client_of ''skua-ops'' 0 hc)"
proof -
  let ?s = "demo_ctl [] [new_headless_client ''skua-ops'' 1]"
  have "\<exists>s'. ensure_headless_clients demo_ctx demo_server ?s = (Inr (), s')"
    by (simp add: ensure_headless_clients_def list_headless_clients_def Let_def act_simps api_list_def api_delete_def
        api_apply_def ignore_404_def demo_ctl_def demo_server_def new_headless_client_def obj_get_def)
  then obtain s' where run: "ensure_headless_clients demo_ctx demo_server ?s = (Inr (), s')" by blast
  have "hcs_wf (c_hcs ?s)" by (simp add: hcs_wf_def demo_ctl_def new_headless_client_def)
  from headless_clients_converge [OF demo_laws(2) this run] run show ?thesis by (auto simp: demo_server_def)
qed

text \<open>C5: progress. When the gate is open, the configuration renders and the calls are answered, one
  pass takes a Pending server to Running, with its Deployment at one replica and stamped with the
  generation of this pass.\<close>

theorem pending_reaches_running:
  assumes "k_replies s = []" "obj_get srv_name (k_servers s) (srv_name obj) = Some obj"
    and "desired_state (srv_spec obj) = DesiredRunning" "phase_of obj = Pending"
    and "gate_open c obj (k_sources s)" "apply_deployment_ok c"
    and "\<forall>i \<in> set (mod_source_ids (srv_spec obj)). is_ok (sa_get_source_mods (x_sync c) i)"
    and "\<forall>files. is_ok (render_and_write (x_f64 c) (x_cluster c) (x_db c) (cfg_namespace (x_cfg c))
        (cfg_user_secrets_namespace (x_cfg c)) (cfg_server_root_base (x_cfg c)) (cfg_arma_config_baseline (x_cfg c)) obj files)"
  shows "\<exists>s' y. apply_server c obj s = (Inr (Requeue SLOW_REQUEUE), s')
    \<and> obj_get srv_name (k_servers s') (srv_name obj) = Some y \<and> phase_of y = Running
    \<and> deployed (srv_name obj) (x_uuid c) (c_deployments s')"
proof -
  have pending: "apply_server c obj s = apply_pending c obj s"
    using assms(3,4) by (auto simp: apply_server_def Let_def phase_of_def split: arma_server_phase.splits option.splits)
  have "calm (k_servers s) (k_sources s) s" using assms(1) by (simp add: calm_def)
  from tripleD [OF total_apply_pending [OF assms(5-8,2)] this, of "fst (apply_pending c obj s)" "snd (apply_pending c obj s)"]
  show ?thesis
    unfolding pending by (cases "apply_pending c obj s"; cases "fst (apply_pending c obj s)")
      (auto simp: phase_of_def fresh_status_def)
qed

theorem pending_reaches_running_witness:
  "\<exists>s'. apply_server demo_ctx (demo_object Pending DesiredRunning) (demo_ctl [demo_object Pending DesiredRunning] []) = (Inr (Requeue SLOW_REQUEUE), s')
     \<and> deployed ''skua-ops'' ''gen-1'' (c_deployments s')"
proof -
  let ?o = "demo_object Pending DesiredRunning"
  have "\<exists>s' y. apply_server demo_ctx ?o (demo_ctl [?o] []) = (Inr (Requeue SLOW_REQUEUE), s')
    \<and> obj_get srv_name (k_servers s') (srv_name ?o) = Some y \<and> phase_of y = Running
    \<and> deployed (srv_name ?o) (x_uuid demo_ctx) (c_deployments s')"
    using demo_laws demo_renders
    by (intro pending_reaches_running) (simp_all add: demo_defs obj_get_def demo_laws)
  then show ?thesis by (auto simp: demo_object_def demo_server_def demo_ctx_def)
qed

text \<open>A headless client is restarted by every reconcile pass, also by the periodic one. Each
  successful pass asks to run again after five minutes and stamps the Pod template with a fresh
  generation, so the Deployment is rolled, while a pass over a running server changes nothing.\<close>

theorem headless_client_rolls_every_pass:
  assumes "apply_deployment_ok c" "k_replies s = []"
  shows "(hc_apply c hc s = (Inr a, s') \<longrightarrow>
      a = Requeue SLOW_REQUEUE \<and> generation_of (hcl_name hc) s' = Some (x_uuid c))
    \<and> (desired_state (srv_spec obj) = DesiredRunning \<and> phase_of obj = Running \<longrightarrow>
      apply_server c obj s = (Inr (Requeue SLOW_REQUEUE), s))"
proof -
  have "apply_server c obj s = (Inr (Requeue SLOW_REQUEUE), s)"
    if "desired_state (srv_spec obj) = DesiredRunning" "phase_of obj = Running"
    using that by (simp add: apply_server_def Let_def phase_of_def [symmetric] act_simps)
  moreover have "hc_apply c hc s = (Inr a, s') \<longrightarrow>
      a = Requeue SLOW_REQUEUE \<and> generation_of (hcl_name hc) s' = Some (x_uuid c)"
    using triple_okD [OF triple_hc_apply [OF assms(1)] assms(2)] by blast
  ultimately show ?thesis by blast
qed

theorem headless_client_rolls_every_pass_witness:
  "apply_server demo_ctx (demo_object Running DesiredRunning) (demo_ctl [demo_object Running DesiredRunning] [])
     = (Inr (Requeue SLOW_REQUEUE), demo_ctl [demo_object Running DesiredRunning] [])
   \<and> (\<exists>s'. hc_apply demo_ctx (new_headless_client ''skua-ops'' 0) (demo_ctl [demo_object Running DesiredRunning] [new_headless_client ''skua-ops'' 0])
        = (Inr (Requeue SLOW_REQUEUE), s') \<and> generation_of ''skua-ops-hc-0'' s' = Some ''gen-1'')"
proof -
  let ?o = "demo_object Running DesiredRunning"
  let ?hc = "new_headless_client ''skua-ops'' 0"
  have "is_ok (resolve_headless_client_config demo_cluster ''arma'' ''user'' ''base'' ?o)" by code_simp
  then have "\<exists>a s'. hc_apply demo_ctx ?hc (demo_ctl [?o] [?hc]) = (Inr a, s')"
    by (auto simp: hc_apply_def owning_server_def act_simps api_get_def demo_ctl_def resolve_mod_paths_def
        demo_object_def demo_server_def obj_get_def new_headless_client_def demo_ctx_def is_ok_iff
        ensure_hc_deployment_def api_apply_def set_hc_status_def api_patch_def)
  then obtain a s' where run: "hc_apply demo_ctx ?hc (demo_ctl [?o] [?hc]) = (Inr a, s')" by blast
  have "?hc = ?hc \<and> hcl_name ?hc = ''skua-ops-hc-0''"
    by (simp add: new_headless_client_def hc_object_name_def show_word_def show_nat.simps)
  with headless_client_rolls_every_pass [OF demo_laws(1), of "demo_ctl [?o] [?hc]" ?hc a s' ?o]
    headless_client_rolls_every_pass [OF demo_laws(1), of "demo_ctl [?o] []" ?hc a s' ?o] run
  show ?thesis by (auto simp: demo_defs demo_ctx_def)
qed

text \<open>A client that is still being deleted counts as present. A server restarted while the
  finalizer of its client 0 has not run gets no replacement, and nothing is left to create it once
  the old one is gone.\<close>

theorem terminating_client_is_not_replaced:
  assumes "c_hcs s = [mark_hc (new_headless_client (srv_name obj) 0)]" "headless_clients (srv_spec obj) = 1" "k_replies s = []"
  shows "ensure_headless_clients c obj s = (Inr (), s)"
  using assms
  by (simp add: ensure_headless_clients_def list_headless_clients_def Let_def act_simps api_list_def new_headless_client_def)

theorem terminating_client_is_not_replaced_witness:
  "ensure_headless_clients demo_ctx demo_server (demo_ctl [] [mark_hc (new_headless_client ''skua-ops'' 0)])
     = (Inr (), demo_ctl [] [mark_hc (new_headless_client ''skua-ops'' 0)])"
  by (rule terminating_client_is_not_replaced) (simp_all add: demo_ctl_def demo_server_def)

end
