(* ===== verification/Lowercase.thy ===== *)
theory Lowercase
  imports Prelude
begin

text \<open>
  Repair of workshop trees (\<open>crates/steam-sync/src/lowercase.rs\<close>): folding names to lower case and
  pruning mixed-case duplicates.

  A directory is its entries in name order, which is the order \<open>read_dir_sorted\<close> gives; every object
  carries its inode, which is what \<open>same_entry\<close> compares. \<open>to_lower\<close> is \<open>str::to_lowercase\<close>, a
  parameter because only its idempotence matters. \<open>io p\<close> says whether renaming or removing the object
  at path \<open>p\<close> succeeds; a failure ends the pass and keeps what was done so far. A symbolic link is a
  leaf and is never followed.
\<close>

section \<open>Trees\<close>

datatype tree =
    Leaf nat string
  | Link nat
  | Dir nat "(string \<times> tree) list"

fun ino :: "tree \<Rightarrow> nat" where
  "ino (Leaf i _) = i"
| "ino (Link i) = i"
| "ino (Dir i _) = i"

fun is_dir :: "tree \<Rightarrow> bool" where
  "is_dir (Dir _ _) = True"
| "is_dir _ = False"

record fold_stats =
  renamed :: nat
  collisions :: nat

definition fold_stats_default :: fold_stats where
  "fold_stats_default = \<lparr>renamed = 0, collisions = 0\<rparr>"

definition set_entry :: "string \<Rightarrow> tree \<Rightarrow> (string \<times> tree) list \<Rightarrow> (string \<times> tree) list" where
  "set_entry n t cs = map (\<lambda>p. (fst p, if fst p = n then t else snd p)) cs"

definition remove_entry :: "string \<Rightarrow> (string \<times> tree) list \<Rightarrow> (string \<times> tree) list" where
  "remove_entry n cs = filter (\<lambda>p. fst p \<noteq> n) cs"

text \<open>\<open>rename\<close>: two names of one object are left as they are.\<close>

definition rename_entry :: "string \<Rightarrow> string \<Rightarrow> (string \<times> tree) list \<Rightarrow> (string \<times> tree) list" where
  "rename_entry n l cs =
    (case (map_of cs n, map_of cs l) of
       (Some t, None) \<Rightarrow> btree_insert l t (remove_entry n cs)
     | (Some t, Some t') \<Rightarrow> if ino t = ino t' then cs else btree_insert l t (remove_entry n cs)
     | _ \<Rightarrow> cs)"

definition same_entry :: "(string \<times> tree) list \<Rightarrow> tree \<Rightarrow> string \<Rightarrow> bool option" where
  "same_entry cs source target = map_option (\<lambda>t. ino source = ino t) (map_of cs target)"

section \<open>Folding\<close>

definition fold_entry :: "(string \<Rightarrow> string) \<Rightarrow> (string list \<Rightarrow> bool) \<Rightarrow> string list \<Rightarrow> string \<Rightarrow> tree
    \<Rightarrow> (string \<times> tree) list \<Rightarrow> fold_stats \<Rightarrow> string option \<times> (string \<times> tree) list \<times> fold_stats" where
  "fold_entry to_lower io dir n t cur st =
    (if \<not> valid_utf8 n then (None, cur, st)
     else let l = to_lower n in
       if l = n then (None, cur, st)
       else if same_entry cur t l = Some False then (None, cur, st\<lparr>collisions := collisions st + 1\<rparr>)
       else if \<not> io (dir @ [n]) then (Some (''failed to rename '' @ n), cur, st)
       else (None, rename_entry n l cur, st\<lparr>renamed := renamed st + 1\<rparr>))"

text \<open>\<open>fold_dir\<close> over a listing of the directory whose current entries are \<open>cur\<close>.\<close>

fun fold_dir :: "(string \<Rightarrow> string) \<Rightarrow> (string list \<Rightarrow> bool) \<Rightarrow> string list \<Rightarrow> (string \<times> tree) list
    \<Rightarrow> (string \<times> tree) list \<Rightarrow> fold_stats \<Rightarrow> string option \<times> (string \<times> tree) list \<times> fold_stats" where
  "fold_dir to_lower io dir [] cur st = (None, cur, st)"
| "fold_dir to_lower io dir ((n, t) # rest) cur st =
     (let (e, t', st1) = (case t of
            Dir i cs \<Rightarrow> (let (e, cs', st') = fold_dir to_lower io (dir @ [n]) cs cs st in (e, Dir i cs', st'))
          | _ \<Rightarrow> (None, t, st));
          cur1 = set_entry n t' cur
      in case e of
           Some x \<Rightarrow> (Some x, cur1, st1)
         | None \<Rightarrow>
             (let (e2, cur2, st2) = fold_entry to_lower io dir n t' cur1 st1
              in case e2 of
                   Some x \<Rightarrow> (Some x, cur2, st2)
                 | None \<Rightarrow> fold_dir to_lower io dir rest cur2 st2))"

definition lowercase_tree :: "(string \<Rightarrow> string) \<Rightarrow> (string list \<Rightarrow> bool) \<Rightarrow> tree \<Rightarrow> (string + fold_stats) \<times> tree" where
  "lowercase_tree to_lower io root =
    (case root of
       Dir i cs \<Rightarrow>
         (let (e, cs', st) = fold_dir to_lower io [] cs cs fold_stats_default
          in (case e of Some x \<Rightarrow> Inl x | None \<Rightarrow> Inr st, Dir i cs'))
     | _ \<Rightarrow> (Inr fold_stats_default, root))"

section \<open>Pruning\<close>

fun children :: "tree \<Rightarrow> (string \<times> tree) list" where
  "children (Dir _ cs) = cs"
| "children _ = []"

fun prune_into_twin :: "(string \<Rightarrow> string) \<Rightarrow> (string list \<Rightarrow> bool) \<Rightarrow> string list \<Rightarrow> (string \<times> tree) list
    \<Rightarrow> (string \<times> tree) list \<Rightarrow> (string \<times> tree) list \<Rightarrow> nat \<Rightarrow> string option \<times> (string \<times> tree) list \<times> nat" where
  "prune_into_twin to_lower io dir [] cur tw pruned = (None, cur, pruned)"
| "prune_into_twin to_lower io dir ((n, t) # rest) cur tw pruned =
     (case (if valid_utf8 n then map_of tw (to_lower n) else None) of
        None \<Rightarrow> prune_into_twin to_lower io dir rest cur tw pruned
      | Some t2 \<Rightarrow>
          if ino t = ino t2 then prune_into_twin to_lower io dir rest cur tw pruned
          else if is_dir t \<and> is_dir t2 then
            (case t of
               Dir i cs \<Rightarrow>
                 (let (e, cs', p1) = prune_into_twin to_lower io (dir @ [n]) cs cs (children t2) pruned
                  in case e of
                       Some x \<Rightarrow> (Some x, set_entry n (Dir i cs') cur, p1)
                     | None \<Rightarrow>
                         if cs' = [] \<and> io (dir @ [n])
                         then prune_into_twin to_lower io dir rest (remove_entry n cur) tw (p1 + 1)
                         else prune_into_twin to_lower io dir rest (set_entry n (Dir i cs') cur) tw p1)
             | _ \<Rightarrow> (None, cur, pruned))
          else if is_dir t \<noteq> is_dir t2 then prune_into_twin to_lower io dir rest cur tw pruned
          else if \<not> io (dir @ [n]) then (Some (''failed to remove '' @ n), cur, pruned)
          else prune_into_twin to_lower io dir rest (remove_entry n cur) tw (pruned + 1))"

text \<open>What \<open>prune_dir\<close> does to one entry once its own contents have been pruned.\<close>

definition prune_entry :: "(string \<Rightarrow> string) \<Rightarrow> (string list \<Rightarrow> bool) \<Rightarrow> string list \<Rightarrow> string \<Rightarrow> tree
    \<Rightarrow> (string \<times> tree) list \<Rightarrow> nat \<Rightarrow> string option \<times> (string \<times> tree) list \<times> nat" where
  "prune_entry to_lower io dir n t cur pruned =
    (if \<not> valid_utf8 n \<or> to_lower n = n then (None, cur, pruned)
     else case map_of cur (to_lower n) of
       None \<Rightarrow> (None, cur, pruned)
     | Some twin \<Rightarrow>
         if ino t = ino twin then (None, cur, pruned)
         else (case t of
             Dir i cs \<Rightarrow>
               (let (e, cs', p1) = prune_into_twin to_lower io (dir @ [n]) cs cs (children twin) pruned
                in case e of
                     Some x \<Rightarrow> (Some x, set_entry n (Dir i cs') cur, p1)
                   | None \<Rightarrow>
                       if cs' = [] \<and> io (dir @ [n]) then (None, remove_entry n cur, p1 + 1)
                       else (None, set_entry n (Dir i cs') cur, p1))
           | _ \<Rightarrow>
               if io (dir @ [n]) then (None, remove_entry n cur, pruned + 1)
               else (Some (''failed to remove '' @ n), cur, pruned)))"

fun prune_dir :: "(string \<Rightarrow> string) \<Rightarrow> (string list \<Rightarrow> bool) \<Rightarrow> string list \<Rightarrow> (string \<times> tree) list
    \<Rightarrow> (string \<times> tree) list \<Rightarrow> nat \<Rightarrow> string option \<times> (string \<times> tree) list \<times> nat" where
  "prune_dir to_lower io dir [] cur pruned = (None, cur, pruned)"
| "prune_dir to_lower io dir ((n, t) # rest) cur pruned =
     (let (e, t', p1) = (case t of
            Dir i cs \<Rightarrow> (let (e, cs', p) = prune_dir to_lower io (dir @ [n]) cs cs pruned in (e, Dir i cs', p))
          | _ \<Rightarrow> (None, t, pruned));
          cur1 = set_entry n t' cur
      in case e of
           Some x \<Rightarrow> (Some x, cur1, p1)
         | None \<Rightarrow>
             (let (e2, cur2, p2) = prune_entry to_lower io dir n t' cur1 p1
              in case e2 of
                   Some x \<Rightarrow> (Some x, cur2, p2)
                 | None \<Rightarrow> prune_dir to_lower io dir rest cur2 p2))"

definition prune_mixed_case_duplicates :: "(string \<Rightarrow> string) \<Rightarrow> (string list \<Rightarrow> bool) \<Rightarrow> tree \<Rightarrow> (string + nat) \<times> tree" where
  "prune_mixed_case_duplicates to_lower io root =
    (case root of
       Dir i cs \<Rightarrow>
         (let (e, cs', p) = prune_dir to_lower io [] cs cs 0
          in (case e of Some x \<Rightarrow> Inl x | None \<Rightarrow> Inr p, Dir i cs'))
     | _ \<Rightarrow> (Inr 0, root))"

text \<open>\<open>repair_folded_tree\<close> of \<open>steam.rs\<close>: both passes, neither failure fatal.\<close>

definition repair_folded_tree :: "(string \<Rightarrow> string) \<Rightarrow> (string list \<Rightarrow> bool) \<Rightarrow> tree \<Rightarrow> tree" where
  "repair_folded_tree to_lower io root =
    snd (lowercase_tree to_lower io (snd (prune_mixed_case_duplicates to_lower io root)))"

section \<open>What a tree holds\<close>

text \<open>The name the engine looks an entry up by, and everything a tree holds under such names: \<open>g\<close> says
  what of a leaf is observed.\<close>

definition folded :: "(string \<Rightarrow> string) \<Rightarrow> string \<Rightarrow> string" where
  "folded L n = (if valid_utf8 n then L n else n)"

fun holdings :: "(tree \<Rightarrow> 'p) \<Rightarrow> (string \<Rightarrow> string) \<Rightarrow> tree \<Rightarrow> (string list \<times> 'p) set" where
  "holdings g L (Dir i cs) = (\<Union>p \<in> set cs. (\<lambda>(q, x). (folded L (fst p) # q, x)) ` holdings g L (snd p))"
| "holdings g L t = {([], g t)}"

abbreviation entry_holdings :: "(tree \<Rightarrow> 'p) \<Rightarrow> (string \<Rightarrow> string) \<Rightarrow> string \<Rightarrow> tree \<Rightarrow> (string list \<times> 'p) set" where
  "entry_holdings g L n t \<equiv> (\<lambda>(q, x). (folded L n # q, x)) ` holdings g L t"

definition dir_holdings :: "(tree \<Rightarrow> 'p) \<Rightarrow> (string \<Rightarrow> string) \<Rightarrow> (string \<times> tree) list \<Rightarrow> (string list \<times> 'p) set" where
  "dir_holdings g L cs = (\<Union>p \<in> set cs. entry_holdings g L (fst p) (snd p))"

definition lower_ok :: "(string \<Rightarrow> string) \<Rightarrow> bool" where
  "lower_ok L = (\<forall>n. valid_utf8 n \<longrightarrow> valid_utf8 (L n) \<and> L (L n) = L n)"

fun tree_wf :: "tree \<Rightarrow> bool" where
  "tree_wf (Dir i cs) = (btree cs \<and> (\<forall>p \<in> set cs. tree_wf (snd p)))"
| "tree_wf _ = True"

definition dir_wf :: "(string \<times> tree) list \<Rightarrow> bool" where
  "dir_wf cs = (btree cs \<and> (\<forall>p \<in> set cs. tree_wf (snd p)))"

lemma holdings_dir [simp]: "holdings g L (Dir i cs) = dir_holdings g L cs"
  by (simp add: dir_holdings_def)

lemma dir_holdings_Nil [simp]: "dir_holdings g L [] = {}"
  by (simp add: dir_holdings_def)

lemma holdings_leaf: "\<not> is_dir t \<Longrightarrow> holdings g L t = {([], g t)}"
  by (cases t) auto

lemma tree_wf_dir [simp]: "tree_wf (Dir i cs) = dir_wf cs"
  by (simp add: dir_wf_def)

declare holdings.simps(1) [simp del] tree_wf.simps(1) [simp del]

lemma folded_lower [simp]: "lower_ok L \<Longrightarrow> valid_utf8 n \<Longrightarrow> folded L (L n) = L n"
  by (simp add: folded_def lower_ok_def)

lemma btree_distinct: "btree cs \<Longrightarrow> distinct (map fst cs)"
  by (simp add: strict_sorted_iff)

lemma set_entry_simps [simp]:
  "map fst (set_entry n t cs) = map fst cs"
  "map_of (set_entry n t cs) m = (if m = n then map_option (\<lambda>_. t) (map_of cs n) else map_of cs m)"
proof -
  show "map fst (set_entry n t cs) = map fst cs"
    by (simp add: set_entry_def)
  show "map_of (set_entry n t cs) m = (if m = n then map_option (\<lambda>_. t) (map_of cs n) else map_of cs m)"
    by (induction cs) (auto simp: set_entry_def)
qed

lemma set_set_entry:
  "(n, u) \<in> set cs \<Longrightarrow> set (set_entry n t cs) = insert (n, t) {p \<in> set cs. fst p \<noteq> n}"
proof (intro set_eqI iffI)
  fix x
  assume "x \<in> set (set_entry n t cs)"
  then show "x \<in> insert (n, t) {p \<in> set cs. fst p \<noteq> n}" by (auto simp: set_entry_def split: if_splits)
next
  fix x
  let ?f = "\<lambda>p. (fst p, if fst p = n then t else snd p)"
  assume n: "(n, u) \<in> set cs" and x: "x \<in> insert (n, t) {p \<in> set cs. fst p \<noteq> n}"
  from x show "x \<in> set (set_entry n t cs)"
    unfolding set_entry_def set_map
  proof (elim insertE)
    assume "x = (n, t)"
    then show "x \<in> ?f ` set cs" using n by (intro image_eqI [where x = "(n, u)"]) simp_all
  next
    assume "x \<in> {p \<in> set cs. fst p \<noteq> n}"
    then show "x \<in> ?f ` set cs" by (intro image_eqI [where x = x]) simp_all
  qed
qed

lemma set_remove_entry [simp]: "set (remove_entry n cs) = {p \<in> set cs. fst p \<noteq> n}"
  by (auto simp: remove_entry_def)

lemma dir_wf_set_entry: "dir_wf cs \<Longrightarrow> tree_wf t \<Longrightarrow> dir_wf (set_entry n t cs)"
  unfolding dir_wf_def by (auto simp: set_entry_def o_def)

lemma dir_wf_remove_entry: "dir_wf cs \<Longrightarrow> dir_wf (remove_entry n cs)"
  by (auto simp: dir_wf_def remove_entry_def btree_filter)

lemma dir_holdings_split:
  assumes "(n, t) \<in> set cs" "distinct (map fst cs)"
  shows "dir_holdings g L cs = entry_holdings g L n t \<union> dir_holdings g L (remove_entry n cs)"
proof -
  have "set cs = insert (n, t) {p \<in> set cs. fst p \<noteq> n}"
  proof (intro set_eqI iffI)
    fix x
    assume x: "x \<in> set cs"
    show "x \<in> insert (n, t) {p \<in> set cs. fst p \<noteq> n}"
    proof (cases "fst x = n")
      case True
      then have "(n, snd x) \<in> set cs" using x by (cases x) simp
      from eq_key_imp_eq_value [OF assms(2,1) this] True show ?thesis by (cases x) simp
    qed (use x in simp)
  qed (use assms(1) in auto)
  from SUP_cong [OF this refl, of "\<lambda>p. entry_holdings g L (fst p) (snd p)"] show ?thesis
    unfolding dir_holdings_def set_remove_entry UN_insert fst_conv snd_conv .
qed

lemma dir_holdings_set_entry:
  assumes "(n, u) \<in> set cs"
  shows "dir_holdings g L (set_entry n t cs) = entry_holdings g L n t \<union> dir_holdings g L (remove_entry n cs)"
  unfolding dir_holdings_def set_set_entry [OF assms] set_remove_entry by simp

lemma in_set_entry: "(n, u) \<in> set cs \<Longrightarrow> (n, t) \<in> set (set_entry n t cs)"
  by (simp add: set_set_entry)

lemma rest_set_entry:
  "n \<notin> fst ` set rest \<Longrightarrow> set rest \<subseteq> set cs \<Longrightarrow> set rest \<subseteq> set (set_entry n t cs)"
  by (force simp: set_entry_def)

lemma rest_remove_entry:
  "n \<notin> fst ` set rest \<Longrightarrow> set rest \<subseteq> set cs \<Longrightarrow> set rest \<subseteq> set (remove_entry n cs)"
  by (force simp: remove_entry_def)

lemma dir_holdings_member: "(n, t) \<in> set cs \<Longrightarrow> entry_holdings g L n t \<subseteq> dir_holdings g L cs"
  by (force simp: dir_holdings_def)

section \<open>Pruning keeps every path\<close>

text \<open>Only where something is held is observed: the payload is the unit.\<close>

abbreviation paths :: "(string \<Rightarrow> string) \<Rightarrow> (string \<times> tree) list \<Rightarrow> (string list \<times> unit) set" where
  "paths L cs \<equiv> dir_holdings (\<lambda>_. ()) L cs"

text \<open>What a pass over a listing \<open>snap\<close> of the directory \<open>cur\<close> starts from.\<close>

definition listing_of :: "(string \<times> tree) list \<Rightarrow> (string \<times> tree) list \<Rightarrow> bool" where
  "listing_of snap cur = (set snap \<subseteq> set cur \<and> distinct (map fst snap) \<and> dir_wf cur)"

lemma listing_ofD:
  assumes "listing_of ((n, t) # rest) cur"
  shows "(n, t) \<in> set cur" "n \<notin> fst ` set rest" "distinct (map fst cur)" "tree_wf t" "dir_wf cur"
  using assms by (auto simp: listing_of_def dir_wf_def btree_distinct)

lemma listing_of_refl: "dir_wf cs \<Longrightarrow> listing_of cs cs"
  by (simp add: listing_of_def dir_wf_def btree_distinct)

lemma listing_of_skip: "listing_of ((n, t) # rest) cur \<Longrightarrow> listing_of rest cur"
  by (simp add: listing_of_def)

lemma listing_of_set: "listing_of ((n, t) # rest) cur \<Longrightarrow> tree_wf u \<Longrightarrow> listing_of rest (set_entry n u cur)"
  using rest_set_entry [of n rest cur u] by (auto simp: listing_of_def dir_wf_set_entry)

lemma listing_of_remove: "listing_of ((n, t) # rest) cur \<Longrightarrow> listing_of rest (remove_entry n cur)"
  using rest_remove_entry [of n rest cur] by (auto simp: listing_of_def dir_wf_remove_entry)

text \<open>The contract of a pass against a twin directory: it only removes, and only what the twin has.\<close>

definition covered :: "(string \<Rightarrow> string) \<Rightarrow> (string \<times> tree) list \<Rightarrow> (string \<times> tree) list \<Rightarrow> (string \<times> tree) list \<Rightarrow> bool" where
  "covered L cur tw cur' = (dir_wf cur' \<and> paths L cur' \<subseteq> paths L cur \<and> paths L cur \<subseteq> paths L cur' \<union> paths L tw)"

lemma covered_refl: "dir_wf cur \<Longrightarrow> covered L cur tw cur"
  by (simp add: covered_def)

lemma covered_trans: "covered L cur tw cur1 \<Longrightarrow> covered L cur1 tw cur2 \<Longrightarrow> covered L cur tw cur2"
  unfolding covered_def by blast

lemma covered_remove:
  assumes "listing_of ((n, t) # rest) cur" "entry_holdings (\<lambda>_. ()) L n t \<subseteq> paths L tw"
  shows "covered L cur tw (remove_entry n cur)"
proof -
  have eq: "paths L cur = entry_holdings (\<lambda>_. ()) L n t \<union> paths L (remove_entry n cur)"
    by (rule dir_holdings_split [OF listing_ofD(1,3) [OF assms(1)]])
  show ?thesis
    unfolding covered_def eq using assms(2) dir_wf_remove_entry [OF listing_ofD(5) [OF assms(1)], of n] by blast
qed

lemma covered_set:
  assumes "listing_of ((n, t) # rest) cur" "tree_wf u"
    and "entry_holdings (\<lambda>_. ()) L n u \<subseteq> entry_holdings (\<lambda>_. ()) L n t"
    and "entry_holdings (\<lambda>_. ()) L n t \<subseteq> entry_holdings (\<lambda>_. ()) L n u \<union> paths L tw"
  shows "covered L cur tw (set_entry n u cur)"
proof -
  have eq: "paths L cur = entry_holdings (\<lambda>_. ()) L n t \<union> paths L (remove_entry n cur)"
    by (rule dir_holdings_split [OF listing_ofD(1,3) [OF assms(1)]])
  have eq': "paths L (set_entry n u cur) = entry_holdings (\<lambda>_. ()) L n u \<union> paths L (remove_entry n cur)"
    by (rule dir_holdings_set_entry [OF listing_ofD(1) [OF assms(1)]])
  show ?thesis
    unfolding covered_def eq eq' using assms(3,4) dir_wf_set_entry [OF listing_ofD(5) [OF assms(1)] assms(2), of n] by blast
qed

text \<open>A directory pruned against its twin, seen from the directory that holds both.\<close>

lemma twin_holdings:
  assumes "lower_ok L" "valid_utf8 n" "map_of tw (L n) = Some t2" "covered L cs (children t2) cs'"
  shows "entry_holdings (\<lambda>_. ()) L n (Dir i cs) \<subseteq> entry_holdings (\<lambda>_. ()) L n (Dir i cs') \<union> paths L tw"
    and "entry_holdings (\<lambda>_. ()) L n (Dir i cs') \<subseteq> entry_holdings (\<lambda>_. ()) L n (Dir i cs)"
proof -
  let ?f = "\<lambda>(q, x). (folded L n # q, x)"
  have sub: "paths L cs \<subseteq> paths L cs' \<union> paths L (children t2)" "paths L cs' \<subseteq> paths L cs"
    using assms(4) by (simp_all add: covered_def)
  have "paths L (children t2) \<subseteq> holdings (\<lambda>_. ()) L t2"
    by (cases t2) (simp_all add: dir_holdings_def)
  then have "?f ` paths L (children t2) \<subseteq> entry_holdings (\<lambda>_. ()) L (L n) t2"
    using assms(1,2) by (auto simp: folded_def lower_ok_def)
  also have "\<dots> \<subseteq> paths L tw" by (rule dir_holdings_member [OF map_of_SomeD [OF assms(3)]])
  finally show "entry_holdings (\<lambda>_. ()) L n (Dir i cs) \<subseteq> entry_holdings (\<lambda>_. ()) L n (Dir i cs') \<union> paths L tw"
    using image_mono [OF sub(1), of ?f] unfolding image_Un holdings_dir by blast
  show "entry_holdings (\<lambda>_. ()) L n (Dir i cs') \<subseteq> entry_holdings (\<lambda>_. ()) L n (Dir i cs)"
    using image_mono [OF sub(2), of ?f] unfolding holdings_dir .
qed

lemma twin_leaf:
  assumes "lower_ok L" "valid_utf8 n" "map_of tw (L n) = Some t2" "\<not> is_dir t" "\<not> is_dir t2"
  shows "entry_holdings (\<lambda>_. ()) L n t \<subseteq> paths L tw"
  using dir_holdings_member [OF map_of_SomeD [OF assms(3)], where g = "\<lambda>_. ()" and L = L] assms
  by (simp add: holdings_leaf folded_def lower_ok_def)

lemma prune_into_twin_covered:
  "lower_ok L \<Longrightarrow> listing_of snap cur \<Longrightarrow> covered L cur tw (fst (snd (prune_into_twin L io dir snap cur tw pruned)))"
proof (induction L io dir snap cur tw pruned rule: prune_into_twin.induct)
  case (1 L io dir cur tw pruned)
  then show ?case by (simp add: covered_def listing_of_def)
next
  case (2 L io dir n t rest cur tw pruned)
  note wf = 2(9)
  let ?look = "if valid_utf8 n then map_of tw (L n) else None"
  show ?case
  proof (cases "\<exists>t2. ?look = Some t2 \<and> ino t \<noteq> ino t2 \<and> (is_dir t \<longleftrightarrow> is_dir t2)")
    case False
    then show ?thesis
      using 2 listing_of_skip [OF wf] by (auto split: option.splits)
  next
    case True
    then obtain t2 where t2: "?look = Some t2" "ino t \<noteq> ino t2" "is_dir t \<longleftrightarrow> is_dir t2" by blast
    then have look: "valid_utf8 n" "map_of tw (L n) = Some t2" by (auto split: if_splits)
    show ?thesis
    proof (cases "is_dir t")
      case True
      then obtain i cs where Dir: "t = Dir i cs" by (cases t) auto
      obtain e cs' p1 where r: "prune_into_twin L io (dir @ [n]) cs cs (children t2) pruned = (e, cs', p1)"
        by (metis prod_cases3)
      have cs: "covered L cs (children t2) cs'"
        using 2(3) [OF t2(1,2)] t2 Dir r 2(8) listing_ofD(4) [OF wf] by (auto simp: listing_of_refl)
      have step: "covered L cur tw (set_entry n (Dir i cs') cur)"
        using twin_holdings [OF 2(8) look cs] cs Dir by (intro covered_set [OF wf]) (simp_all add: covered_def)
      have empty: "covered L cur tw (remove_entry n cur)" if "cs' = []"
        using twin_holdings(1) [OF 2(8) look cs] that Dir by (intro covered_remove [OF wf]) (simp add: dir_holdings_def)
      have wf': "tree_wf (Dir i cs')" using cs by (simp add: covered_def)
      have removed: "covered L (remove_entry n cur) tw (fst (snd (prune_into_twin L io dir rest (remove_entry n cur) tw (p1 + 1))))"
        if "e = None" "cs' = [] \<and> io (dir @ [n])"
        using 2(4) [OF t2(1,2)] t2 Dir r that 2(8) listing_of_remove [OF wf] by auto
      have kept: "covered L (set_entry n (Dir i cs') cur) tw (fst (snd (prune_into_twin L io dir rest (set_entry n (Dir i cs') cur) tw p1)))"
        if "e = None" "\<not> (cs' = [] \<and> io (dir @ [n]))"
        using 2(5) [OF t2(1,2)] t2 Dir r that 2(8) listing_of_set [OF wf wf'] by auto
      show ?thesis
      proof (cases e)
        case None
        then show ?thesis
          using t2 Dir r removed kept covered_trans [OF empty] covered_trans [OF step] by simp
      next
        case (Some x)
        then show ?thesis using t2 Dir r step by simp
      qed
    next
      case False
      have "covered L cur tw (remove_entry n cur)"
        using t2(3) False by (intro covered_remove [OF wf] twin_leaf [OF 2(8) look]) auto
      moreover have "covered L (remove_entry n cur) tw (fst (snd (prune_into_twin L io dir rest (remove_entry n cur) tw (pruned + 1))))"
        if "io (dir @ [n])"
        using 2(7) [OF t2(1,2)] t2 False that 2(8) listing_of_remove [OF wf] by auto
      ultimately show ?thesis
        using t2 False covered_trans covered_refl [OF listing_ofD(5) [OF wf]] by simp
    qed
  qed
qed

text \<open>Entries that fold to the same name are of one kind.\<close>

definition kinds_agree_here :: "(string \<Rightarrow> string) \<Rightarrow> (string \<times> tree) list \<Rightarrow> bool" where
  "kinds_agree_here L cs = (\<forall>p \<in> set cs. \<forall>q \<in> set cs. folded L (fst p) = folded L (fst q) \<longrightarrow> is_dir (snd p) = is_dir (snd q))"

fun kinds_agree :: "(string \<Rightarrow> string) \<Rightarrow> tree \<Rightarrow> bool" where
  "kinds_agree L (Dir i cs) = (kinds_agree_here L cs \<and> (\<forall>p \<in> set cs. kinds_agree L (snd p)))"
| "kinds_agree L _ = True"

lemma kinds_agree_set_entry:
  assumes "(n, t) \<in> set cs" "kinds_agree_here L cs" "is_dir u = is_dir t"
  shows "kinds_agree_here L (set_entry n u cs)"
  using assms unfolding kinds_agree_here_def set_set_entry [OF assms(1)] by fastforce

lemma kinds_agree_remove_entry: "kinds_agree_here L cs \<Longrightarrow> kinds_agree_here L (remove_entry n cs)"
  by (auto simp: kinds_agree_here_def)

text \<open>One entry of \<open>prune_dir\<close>: the directory holds the same paths afterwards.\<close>

lemma prune_entry_keeps:
  assumes "lower_ok L" "listing_of ((n, t) # rest) cur" "kinds_agree_here L cur"
    and run: "prune_entry L io dir n t cur pruned = (e, cur', p)"
  shows "paths L cur' = paths L cur \<and> listing_of rest cur' \<and> kinds_agree_here L cur'"
proof (cases "valid_utf8 n \<and> L n \<noteq> n \<and> (\<exists>twin. map_of cur (L n) = Some twin \<and> ino t \<noteq> ino twin)")
  case False
  then have "cur' = cur" using run by (auto simp: prune_entry_def split: option.splits if_splits)
  then show ?thesis using assms(2,3) by (simp add: listing_of_skip)
next
  case True
  then obtain twin where n: "valid_utf8 n" "L n \<noteq> n" and twin: "map_of cur (L n) = Some twin" "ino t \<noteq> ino twin" by blast
  note mem = listing_ofD(1) [OF assms(2)]
  have split: "paths L cur = entry_holdings (\<lambda>_. ()) L n t \<union> paths L (remove_entry n cur)"
    by (rule dir_holdings_split [OF mem listing_ofD(3) [OF assms(2)]])
  have twin': "map_of (remove_entry n cur) (L n) = Some twin"
    using twin(1) n(2) map_of_filter_lt [of "\<lambda>x. x \<noteq> n" cur "L n"] by (simp add: remove_entry_def)
  have kind: "is_dir t = is_dir twin"
    using bspec [OF bspec [OF assms(3) [unfolded kinds_agree_here_def] mem] map_of_SomeD [OF twin(1)]] assms(1) n(1)
    by (simp add: folded_def lower_ok_def)
  show ?thesis
  proof (cases "is_dir t")
    case False
    have "paths L (remove_entry n cur) = paths L cur"
      using split twin_leaf [OF assms(1) n(1) twin' False] False kind by blast
    moreover have "cur' = remove_entry n cur \<or> cur' = cur"
      using run n twin False by (cases t) (auto simp: prune_entry_def split: if_splits)
    ultimately show ?thesis
      using assms(2,3) by (auto simp: listing_of_skip listing_of_remove kinds_agree_remove_entry)
  next
    case True
    then obtain i cs where t: "t = Dir i cs" by (cases t) auto
    obtain e1 cs' p1 where r: "prune_into_twin L io (dir @ [n]) cs cs (children twin) pruned = (e1, cs', p1)"
      by (metis prod_cases3)
    have cov: "covered L cs (children twin) cs'"
      using prune_into_twin_covered [OF assms(1) listing_of_refl, of cs "children twin" io "dir @ [n]" pruned]
        listing_ofD(4) [OF assms(2)] t r by simp
    have wf': "tree_wf (Dir i cs')" using cov by (simp add: covered_def)
    have new: "paths L (set_entry n (Dir i cs') cur) = paths L cur"
      unfolding split dir_holdings_set_entry [OF mem] t using twin_holdings [OF assms(1) n(1) twin' cov, of i] by blast
    have gone: "paths L (remove_entry n cur) = paths L cur" if "cs' = []"
    proof -
      have "entry_holdings (\<lambda>_. ()) L n (Dir i cs) \<subseteq> paths L (remove_entry n cur)"
        using twin_holdings(1) [OF assms(1) n(1) twin' cov, of i] that by simp
      then show ?thesis unfolding split t by blast
    qed
    have "cur' = set_entry n (Dir i cs') cur \<or> (cs' = [] \<and> cur' = remove_entry n cur)"
      using run n twin t r by (auto simp: prune_entry_def split: if_splits option.splits)
    then show ?thesis
    proof
      assume "cur' = set_entry n (Dir i cs') cur"
      then show ?thesis
        using new listing_of_set [OF assms(2) wf'] kinds_agree_set_entry [OF mem assms(3)] t by simp
    next
      assume "cs' = [] \<and> cur' = remove_entry n cur"
      then show ?thesis
        using gone listing_of_remove [OF assms(2)] kinds_agree_remove_entry [OF assms(3)] by simp
    qed
  qed
qed

lemma dir_holdings_set_same:
  assumes "listing_of ((n, t) # rest) cur" "holdings g L u = holdings g L t"
  shows "dir_holdings g L (set_entry n u cur) = dir_holdings g L cur"
  unfolding dir_holdings_set_entry [OF listing_ofD(1) [OF assms(1)]]
    dir_holdings_split [OF listing_ofD(1,3) [OF assms(1)]] assms(2) ..

lemma listing_of_set_head:
  assumes "listing_of ((n, t) # rest) cur" "tree_wf u"
  shows "listing_of ((n, u) # rest) (set_entry n u cur)"
  using listing_of_set [OF assms] in_set_entry [OF listing_ofD(1) [OF assms(1)], of u] listing_ofD(2) [OF assms(1)]
  by (auto simp: listing_of_def)

lemma prune_dir_keeps:
  "lower_ok L \<Longrightarrow> listing_of snap cur \<Longrightarrow> kinds_agree_here L cur \<Longrightarrow> (\<forall>p \<in> set snap. kinds_agree L (snd p)) \<Longrightarrow>
    prune_dir L io dir snap cur pruned = (e, cur', p) \<Longrightarrow> paths L cur' = paths L cur \<and> dir_wf cur'"
proof (induction L io dir snap cur pruned arbitrary: e cur' p rule: prune_dir.induct)
  case (1 L io dir cur pruned)
  then show ?case by (simp add: listing_of_def)
next
  case (2 L io dir n t rest cur pruned)
  obtain e1 t' p1 where child: "(case t of
            Dir i cs \<Rightarrow> (let (e, cs', p) = prune_dir L io (dir @ [n]) cs cs pruned in (e, Dir i cs', p))
          | _ \<Rightarrow> (None, t, pruned)) = (e1, t', p1)" by (rule prod_cases3)
  have t': "holdings (\<lambda>_. ()) L t' = holdings (\<lambda>_. ()) L t \<and> tree_wf t' \<and> is_dir t' = is_dir t"
  proof (cases t)
    case (Dir i cs)
    obtain e2 cs2 p2 where r: "prune_dir L io (dir @ [n]) cs cs pruned = (e2, cs2, p2)" by (metis prod_cases3)
    have l: "listing_of cs cs" using listing_ofD(4) [OF 2(4)] Dir by (simp add: listing_of_refl)
    have k: "kinds_agree_here L cs" "\<forall>p \<in> set cs. kinds_agree L (snd p)" using 2(6) unfolding Dir by simp_all
    have "paths L cs2 = paths L cs \<and> dir_wf cs2" by (rule 2(1) [OF Dir 2(3) l k r])
    moreover have "t' = Dir i cs2" using child r unfolding Dir by simp
    ultimately show ?thesis unfolding Dir by simp
  qed (use child listing_ofD(4) [OF 2(4)] in auto)
  have set: "paths L (set_entry n t' cur) = paths L cur" using dir_holdings_set_same [OF 2(4)] t' by blast
  have list: "listing_of ((n, t') # rest) (set_entry n t' cur)" using listing_of_set_head [OF 2(4)] t' by blast
  have kinds: "kinds_agree_here L (set_entry n t' cur)"
    using kinds_agree_set_entry [OF listing_ofD(1) [OF 2(4)] 2(5)] t' by blast
  show ?case
  proof (cases e1)
    case (Some x)
    then show ?thesis using 2(7) child set list by (auto simp: listing_of_def)
  next
    case None
    obtain e3 cur3 p3 where step: "prune_entry L io dir n t' (set_entry n t' cur) p1 = (e3, cur3, p3)" by (metis prod_cases3)
    have cur3: "paths L cur3 = paths L cur \<and> listing_of rest cur3 \<and> kinds_agree_here L cur3"
      using prune_entry_keeps [OF 2(3) list kinds step] set by simp
    show ?thesis
    proof (cases e3)
      case (Some x)
      then show ?thesis using 2(7) child None step cur3 by (auto simp: listing_of_def)
    next
      case e3: None
      have "prune_dir L io dir rest cur3 p3 = (e, cur', p)" using 2(7) child None step e3 by simp
      from 2(2) [OF child [symmetric] refl refl refl None step [symmetric] refl refl e3 2(3) _ _ _ this] cur3 2(6) show ?thesis by simp
    qed
  qed
qed

section \<open>Folding keeps every file\<close>

text \<open>Names that are not lower case yet belong to entries still to come, and distinct names are
  distinct objects.\<close>

definition inodes_differ :: "(string \<times> tree) list \<Rightarrow> bool" where
  "inodes_differ cs = distinct (map (\<lambda>p. ino (snd p)) cs)"

fun no_hard_links :: "tree \<Rightarrow> bool" where
  "no_hard_links (Dir i cs) = (inodes_differ cs \<and> (\<forall>p \<in> set cs. no_hard_links (snd p)))"
| "no_hard_links _ = True"

fun all_folded :: "(string \<Rightarrow> string) \<Rightarrow> tree \<Rightarrow> bool" where
  "all_folded L (Dir i cs) = (\<forall>p \<in> set cs. folded L (fst p) = fst p \<and> all_folded L (snd p))"
| "all_folded L _ = True"

lemma inodes_set_entry: "inodes_differ cs \<Longrightarrow> (n, t) \<in> set cs \<Longrightarrow> distinct (map fst cs) \<Longrightarrow> ino u = ino t \<Longrightarrow> inodes_differ (set_entry n u cs)"
proof -
  assume "inodes_differ cs" "(n, t) \<in> set cs" "distinct (map fst cs)" "ino u = ino t"
  then have "map (\<lambda>p. ino (snd p)) (set_entry n u cs) = map (\<lambda>p. ino (snd p)) cs"
    by (auto simp: set_entry_def dest: eq_key_imp_eq_value)
  then show ?thesis using \<open>inodes_differ cs\<close> by (simp add: inodes_differ_def)
qed

lemma rename_fresh:
  assumes "(n, t) \<in> set cur" "distinct (map fst cur)" "map_of cur l = None"
  shows "rename_entry n l cur = btree_insert l t (remove_entry n cur)"
  using assms by (simp add: rename_entry_def)

lemma set_btree_insert: "btree m \<Longrightarrow> map_of m k = None \<Longrightarrow> set (btree_insert k v m) = insert (k, v) (set m)"
proof -
  assume m: "btree m" "map_of m k = None"
  have "set m = {p \<in> set m. fst p < k} \<union> {p \<in> set m. k < fst p}"
    using m(2) by (auto simp: map_of_eq_None_iff) (metis fst_conv image_eqI linorder_less_linear)
  then show ?thesis by (auto simp: btree_insert_filter [OF m(1)])
qed

lemma set_rename_fresh:
  assumes "listing_of ((n, t) # rest) cur" "map_of cur l = None"
  shows "set (rename_entry n l cur) = insert (l, t) {p \<in> set cur. fst p \<noteq> n}" "btree (rename_entry n l cur)"
proof -
  note d = listing_ofD [OF assms(1)]
  have b: "btree (remove_entry n cur)" using dir_wf_remove_entry [OF d(5)] by (simp add: dir_wf_def)
  have m: "map_of (remove_entry n cur) l = None"
    using assms(2) map_of_filter_lt [of "\<lambda>x. x \<noteq> n" cur l] by (simp add: remove_entry_def)
  show "set (rename_entry n l cur) = insert (l, t) {p \<in> set cur. fst p \<noteq> n}" "btree (rename_entry n l cur)"
    unfolding rename_fresh [OF d(1,3) assms(2)] using set_btree_insert [OF b m] btree_btree_insert [OF b] by simp_all
qed

lemma listing_of_rename:
  assumes "listing_of ((n, t) # rest) cur" "map_of cur l = None"
  shows "listing_of rest (rename_entry n l cur)"
  using assms(1) listing_ofD [OF assms(1)] set_rename_fresh [OF assms]
  by (auto simp: listing_of_def dir_wf_def image_iff)

lemma holdings_rename:
  assumes "lower_ok L" "valid_utf8 n" "listing_of ((n, t) # rest) cur" "map_of cur (L n) = None"
  shows "dir_holdings g L (rename_entry n (L n) cur) = dir_holdings g L cur"
proof -
  have "dir_holdings g L (rename_entry n (L n) cur) = entry_holdings g L (L n) t \<union> dir_holdings g L (remove_entry n cur)"
    unfolding dir_holdings_def set_rename_fresh(1) [OF assms(3,4)] set_remove_entry by simp
  also have "entry_holdings g L (L n) t = entry_holdings g L n t"
    using assms(1,2) by (simp add: folded_def lower_ok_def)
  finally show ?thesis using dir_holdings_split [OF listing_ofD(1,3) [OF assms(3)], of g L] by simp
qed

lemma fold_entry_cases:
  assumes "fold_entry L io dir n t cur st = (e, cur', st')"
  shows "(cur' = cur \<and> e = None \<and> st' = st \<and> folded L n = n)
    \<or> (cur' = cur \<and> e = None \<and> collisions st' = collisions st + 1)
    \<or> (cur' = cur \<and> e \<noteq> None)
    \<or> (valid_utf8 n \<and> L n \<noteq> n \<and> same_entry cur t (L n) \<noteq> Some False \<and> e = None
       \<and> cur' = rename_entry n (L n) cur \<and> collisions st' = collisions st)"
  using assms by (auto simp: fold_entry_def folded_def Let_def split: if_splits)

lemma fold_entry_keeps:
  assumes "lower_ok L" "listing_of ((n, t) # rest) cur" "fold_entry L io dir n t cur st = (e, cur', st')"
  shows "dir_holdings g L cur' = dir_holdings g L cur \<and> listing_of rest cur'"
  using fold_entry_cases [OF assms(3)]
proof (elim disjE conjE)
  assume r: "valid_utf8 n" "L n \<noteq> n" "same_entry cur t (L n) \<noteq> Some False" "cur' = rename_entry n (L n) cur"
  show ?thesis
  proof (cases "map_of cur (L n)")
    case None
    then show ?thesis
      using r holdings_rename [OF assms(1) r(1) assms(2)] listing_of_rename [OF assms(2)] by simp
  next
    case (Some u)
    have "map_of cur n = Some t" using listing_ofD(1,3) [OF assms(2)] by simp
    then have "cur' = cur" using r Some by (simp add: rename_entry_def same_entry_def)
    then show ?thesis using listing_of_skip [OF assms(2)] by simp
  qed
qed (use listing_of_skip [OF assms(2)] in simp_all)

text \<open>What \<open>fold_dir\<close> does to the contents of one entry.\<close>

abbreviation fold_child :: "(string \<Rightarrow> string) \<Rightarrow> (string list \<Rightarrow> bool) \<Rightarrow> string list \<Rightarrow> tree \<Rightarrow> fold_stats
    \<Rightarrow> string option \<times> tree \<times> fold_stats" where
  "fold_child L io dir t st \<equiv> (case t of
      Dir i cs \<Rightarrow> (let (e, cs', st') = fold_dir L io dir cs cs st in (e, Dir i cs', st'))
    | _ \<Rightarrow> (None, t, st))"

lemma fold_child_dir:
  "fold_child L io dir (Dir i cs) st = (e, t', st') \<longleftrightarrow> (\<exists>cs'. t' = Dir i cs' \<and> fold_dir L io dir cs cs st = (e, cs', st'))"
  by (auto split: prod.splits)

lemma fold_child_leaf: "\<not> is_dir t \<Longrightarrow> fold_child L io dir t st = (None, t, st)"
  by (cases t) auto

lemma fold_dir_step:
  assumes "fold_child L io (dir @ [n]) t st = (e1, t', st1)"
    and "fold_dir L io dir ((n, t) # rest) cur st = (e, cur', st')"
  shows "(e1 \<noteq> None \<and> e = e1 \<and> cur' = set_entry n t' cur \<and> st' = st1)
    \<or> (e1 = None \<and> (\<exists>e2 cur2 st2. fold_entry L io dir n t' (set_entry n t' cur) st1 = (e2, cur2, st2)
        \<and> ((e2 \<noteq> None \<and> e = e2 \<and> cur' = cur2 \<and> st' = st2)
           \<or> (e2 = None \<and> fold_dir L io dir rest cur2 st2 = (e, cur', st')))))"
  using assms by (auto simp del: fold_dir.simps(1) simp: Let_def split: prod.splits option.splits)

lemma fold_dir_keeps:
  "lower_ok L \<Longrightarrow> listing_of snap cur \<Longrightarrow> fold_dir L io dir snap cur st = (e, cur', st') \<Longrightarrow>
    dir_holdings g L cur' = dir_holdings g L cur \<and> dir_wf cur'"
proof (induction L io dir snap cur st arbitrary: e cur' st' rule: fold_dir.induct)
  case (1 L io dir cur st)
  then show ?case by (simp add: listing_of_def)
next
  case (2 L io dir n t rest cur st)
  obtain e1 t' st1 where child: "fold_child L io (dir @ [n]) t st = (e1, t', st1)" by (rule prod_cases3)
  have t': "holdings g L t' = holdings g L t \<and> tree_wf t'"
  proof (cases t)
    case (Dir i cs)
    then obtain cs' where cs': "t' = Dir i cs'" "fold_dir L io (dir @ [n]) cs cs st = (e1, cs', st1)"
      using child unfolding Dir fold_child_dir by blast
    have l: "listing_of cs cs" using listing_ofD(4) [OF 2(4)] unfolding Dir by (simp add: listing_of_refl)
    have "dir_holdings g L cs' = dir_holdings g L cs \<and> dir_wf cs'" by (rule 2(1) [OF Dir 2(3) l cs'(2)])
    then show ?thesis unfolding Dir cs'(1) by simp
  qed (use child listing_ofD(4) [OF 2(4)] in auto)
  have set: "dir_holdings g L (set_entry n t' cur) = dir_holdings g L cur" using dir_holdings_set_same [OF 2(4)] t' by blast
  have list: "listing_of ((n, t') # rest) (set_entry n t' cur)" using listing_of_set_head [OF 2(4)] t' by blast
  from fold_dir_step [OF child 2(5)] show ?case
  proof (elim disjE conjE exE)
    assume "cur' = set_entry n t' cur"
    then show ?thesis using set list by (simp add: listing_of_def)
  next
    fix e2 cur2 st2
    assume "fold_entry L io dir n t' (set_entry n t' cur) st1 = (e2, cur2, st2)" "cur' = cur2"
    with fold_entry_keeps [OF 2(3) list this(1), of g] set show ?thesis by (simp add: listing_of_def)
  next
    fix e2 cur2 st2
    assume e1: "e1 = None" and step: "fold_entry L io dir n t' (set_entry n t' cur) st1 = (e2, cur2, st2)"
      and e2: "e2 = None" and run: "fold_dir L io dir rest cur2 st2 = (e, cur', st')"
    from fold_entry_keeps [OF 2(3) list step, of g] set
    have c2: "dir_holdings g L cur2 = dir_holdings g L cur" "listing_of rest cur2" by simp_all
    from 2(2) [OF child [symmetric] refl refl refl e1 step [symmetric] refl refl e2 2(3) c2(2) run] c2(1)
    show ?thesis by simp
  qed
qed

lemma fold_dir_collisions:
  "fold_dir L io dir snap cur st = (e, cur', st') \<Longrightarrow> collisions st \<le> collisions st'"
proof (induction L io dir snap cur st arbitrary: e cur' st' rule: fold_dir.induct)
  case (2 L io dir n t rest cur st)
  obtain e1 t' st1 where child: "fold_child L io (dir @ [n]) t st = (e1, t', st1)" by (rule prod_cases3)
  have st1: "collisions st \<le> collisions st1"
  proof (cases t)
    case (Dir i cs)
    then show ?thesis using child 2(1) [OF Dir] unfolding Dir fold_child_dir by blast
  qed (use child in auto)
  have entry: "collisions a \<le> collisions b" if "fold_entry L io dir n t' c a = (x, y, b)" for a b c x y
    using that by (auto simp: fold_entry_def Let_def split: if_splits)
  from fold_dir_step [OF child 2(3)] show ?case
  proof (elim disjE conjE exE)
    fix e2 cur2 st2
    assume e1: "e1 = None" and step: "fold_entry L io dir n t' (set_entry n t' cur) st1 = (e2, cur2, st2)"
      and e2: "e2 = None" and run: "fold_dir L io dir rest cur2 st2 = (e, cur', st')"
    from 2(2) [OF child [symmetric] refl refl refl e1 step [symmetric] refl refl e2 run] entry [OF step] st1
    show ?thesis by simp
  qed (use st1 entry in \<open>fastforce+\<close>)
qed simp

definition settled :: "(string \<Rightarrow> string) \<Rightarrow> (string \<times> tree) list \<Rightarrow> (string \<times> tree) list \<Rightarrow> bool" where
  "settled L rest cur = (inodes_differ cur \<and>
     (\<forall>p \<in> set cur. p \<in> set rest \<or> (folded L (fst p) = fst p \<and> all_folded L (snd p))))"

lemma inodes_twins:
  assumes "inodes_differ cur" "(n, t) \<in> set cur" "(l, u) \<in> set cur" "ino t = ino u"
  shows "n = l"
  using assms unfolding inodes_differ_def distinct_map
  by (metis (mono_tags, lifting) inj_onD snd_conv prod.inject)

lemma inodes_rename:
  assumes "listing_of ((n, t) # rest) cur" "map_of cur l = None" "inodes_differ cur"
  shows "inodes_differ (rename_entry n l cur)"
proof -
  note d = listing_ofD [OF assms(1)] and r = set_rename_fresh [OF assms(1,2)]
  have "inj_on (\<lambda>p. ino (snd p)) (insert (l, t) {p \<in> set cur. fst p \<noteq> n})"
    using assms(3) inodes_twins [OF assms(3) d(1)] unfolding inodes_differ_def distinct_map
    by (auto simp: inj_on_def)
  moreover have "distinct (rename_entry n l cur)" using btree_distinct [OF r(2)] by (simp add: distinct_map)
  ultimately show ?thesis unfolding inodes_differ_def distinct_map r(1) by simp
qed

lemma fold_entry_settles:
  assumes "lower_ok L" "listing_of ((n, t) # rest) cur" "settled L ((n, t) # rest) cur" "all_folded L t"
    and run: "fold_entry L io dir n t cur st = (None, cur', st')" and "collisions st' = collisions st"
  shows "settled L rest cur'"
  using fold_entry_cases [OF run]
proof (elim disjE conjE)
  assume "cur' = cur" "folded L n = n"
  then show ?thesis using assms(3,4) by (auto simp: settled_def)
next
  assume r: "valid_utf8 n" "L n \<noteq> n" "same_entry cur t (L n) \<noteq> Some False" "cur' = rename_entry n (L n) cur"
  have fresh: "map_of cur (L n) = None"
  proof (rule ccontr)
    assume "map_of cur (L n) \<noteq> None"
    then obtain u where u: "map_of cur (L n) = Some u" by blast
    then have "ino t = ino u" using r(3) by (simp add: same_entry_def)
    with inodes_twins [OF _ listing_ofD(1) [OF assms(2)] map_of_SomeD [OF u]] assms(3) r(2) show False
      by (simp add: settled_def)
  qed
  note d = listing_ofD [OF assms(2)]
  have "folded L (L n) = L n" using assms(1) r(1) by simp
  then show ?thesis
    using assms(3,4) inodes_rename [OF assms(2) fresh] d(1)
    unfolding settled_def r(4) set_rename_fresh(1) [OF assms(2) fresh] by auto
qed (use assms(6) in simp_all)

lemma fold_dir_folds:
  "lower_ok L \<Longrightarrow> listing_of snap cur \<Longrightarrow> settled L snap cur \<Longrightarrow> (\<forall>p \<in> set snap. no_hard_links (snd p)) \<Longrightarrow>
    fold_dir L io dir snap cur st = (None, cur', st') \<Longrightarrow> collisions st' = collisions st \<Longrightarrow> settled L [] cur'"
proof (induction L io dir snap cur st arbitrary: cur' st' rule: fold_dir.induct)
  case (2 L io dir n t rest cur st)
  obtain e1 t' st1 where child: "fold_child L io (dir @ [n]) t st = (e1, t', st1)" by (rule prod_cases3)
  from fold_dir_step [OF child 2(7)] obtain cur2 st2 where e1: "e1 = None"
    and step: "fold_entry L io dir n t' (set_entry n t' cur) st1 = (None, cur2, st2)"
    and run: "fold_dir L io dir rest cur2 st2 = (None, cur', st')" by auto
  have child_mono: "collisions st \<le> collisions st1"
    using child fold_dir_collisions by (cases t) (auto split: prod.splits)
  have eqs: "collisions st1 = collisions st" "collisions st2 = collisions st1" "collisions st' = collisions st2"
    using child_mono fold_dir_collisions [OF run] fold_entry_cases [OF step] 2(8) by auto
  have t': "all_folded L t' \<and> tree_wf t' \<and> ino t' = ino t"
  proof (cases t)
    case (Dir i cs)
    then obtain cs' where cs': "t' = Dir i cs'" "fold_dir L io (dir @ [n]) cs cs st = (None, cs', st1)"
      using child e1 unfolding Dir fold_child_dir by blast
    have l: "listing_of cs cs" using listing_ofD(4) [OF 2(4)] unfolding Dir by (simp add: listing_of_refl)
    have h: "settled L cs cs" "\<forall>p \<in> set cs. no_hard_links (snd p)" using 2(6) unfolding Dir by (auto simp: settled_def)
    have "settled L [] cs'" by (rule 2(1) [OF Dir 2(3) l h cs'(2) eqs(1)])
    moreover have "dir_wf cs'" using fold_dir_keeps [OF 2(3) l cs'(2), of "\<lambda>_. ()"] by blast
    ultimately show ?thesis unfolding Dir cs'(1) by (auto simp: settled_def)
  qed (use child listing_ofD(4) [OF 2(4)] in auto)
  note d = listing_ofD [OF 2(4)]
  have list: "listing_of ((n, t') # rest) (set_entry n t' cur)" using listing_of_set_head [OF 2(4)] t' by blast
  have "settled L ((n, t') # rest) (set_entry n t' cur)"
    using 2(5) t' inodes_set_entry [OF _ d(1,3), of t'] unfolding settled_def set_set_entry [OF d(1)] by fastforce
  from fold_entry_settles [OF 2(3) list this _ step eqs(2)] t' have s2: "settled L rest cur2" by blast
  have l2: "listing_of rest cur2" using fold_entry_keeps [OF 2(3) list step, of "\<lambda>_. ()"] by blast
  show ?case
    using 2(2) [OF child [symmetric] refl refl refl e1 step [symmetric] refl refl refl 2(3) l2 s2 _ run eqs(3)] 2(6) by simp
qed simp

lemma all_folded_fixed:
  "(\<forall>p \<in> set snap. folded L (fst p) = fst p \<and> all_folded L (snd p)) \<Longrightarrow> listing_of snap cur \<Longrightarrow>
    fold_dir L io dir snap cur st = (None, cur, st)"
proof (induction L io dir snap cur st rule: fold_dir.induct)
  case (2 L io dir n t rest cur st)
  have child: "fold_child L io (dir @ [n]) t st = (None, t, st)"
  proof (cases t)
    case (Dir i cs)
    have "fold_dir L io (dir @ [n]) cs cs st = (None, cs, st)"
      using 2(1) [OF Dir] 2(3) listing_ofD(4) [OF 2(4)] unfolding Dir by (simp add: listing_of_refl)
    then show ?thesis unfolding Dir by simp
  qed auto
  have same: "set_entry n t cur = cur"
    using listing_ofD(1,3) [OF 2(4)] by (auto simp: set_entry_def intro!: map_idI dest: eq_key_imp_eq_value)
  have entry: "fold_entry L io dir n t cur st = (None, cur, st)"
    using 2(3) by (auto simp: fold_entry_def folded_def Let_def)
  have "fold_dir L io dir rest cur st = (None, cur, st)"
    by (rule 2(2) [where xc = cur, OF child [symmetric] refl refl _ refl, unfolded same, OF refl entry [symmetric] refl refl refl])
       (use 2(3) listing_of_skip [OF 2(4)] in auto)
  then show ?case using child by (simp add: same entry)
qed simp

section \<open>Properties\<close>

text \<open>C19: a repair loses no path. In a tree where entries that fold to one name are of one kind, the
  folded paths that hold a file are the same before and after pruning and folding, wherever an I/O
  error stops either pass.\<close>

theorem repair_keeps_every_path:
  assumes "lower_ok L" "tree_wf root" "kinds_agree L root"
  shows "holdings (\<lambda>_. ()) L (repair_folded_tree L io root) = holdings (\<lambda>_. ()) L root"
proof (cases root)
  case (Dir i cs)
  obtain e cs1 p where pr: "prune_dir L io [] cs cs 0 = (e, cs1, p)" by (rule prod_cases3)
  have "paths L cs1 = paths L cs \<and> dir_wf cs1"
    by (rule prune_dir_keeps [OF assms(1) _ _ _ pr]) (use assms(2,3) in \<open>simp_all add: Dir listing_of_refl\<close>)
  then have c1: "paths L cs1 = paths L cs" "listing_of cs1 cs1" by (simp_all add: listing_of_refl)
  obtain e2 cs2 st where fd: "fold_dir L io [] cs1 cs1 fold_stats_default = (e2, cs2, st)" by (rule prod_cases3)
  have "paths L cs2 = paths L cs1" using fold_dir_keeps [OF assms(1) c1(2) fd] by blast
  then show ?thesis
    unfolding Dir using pr fd c1(1) by (simp add: repair_folded_tree_def prune_mixed_case_duplicates_def lowercase_tree_def)
qed (simp_all add: repair_folded_tree_def prune_mixed_case_duplicates_def lowercase_tree_def)

definition demo_tree :: tree where
  "demo_tree = Dir 0 [(''Addons'', Dir 1 [(''Main.pbo'', Leaf 2 ''old'')]), (''addons'', Dir 3 [(''main.pbo'', Leaf 4 ''new'')])]"

text \<open>Lower-casing of the two names of the examples.\<close>

definition demo_lower :: "string \<Rightarrow> string" where
  "demo_lower n = (if n = ''Addons'' then ''addons'' else if n = ''Main.pbo'' then ''main.pbo''
     else if n = ''README'' then ''readme'' else n)"

lemma ascii_valid_utf8: "list_all (in_range 0 127) n \<Longrightarrow> valid_utf8 n"
  by (induction n rule: valid_utf8.induct) simp_all

lemma demo_utf8:
  "valid_utf8 ''addons''" "valid_utf8 ''main.pbo''" "valid_utf8 ''readme''"
  "valid_utf8 ''Addons''" "valid_utf8 ''Main.pbo''" "valid_utf8 ''README''"
  by (rule ascii_valid_utf8, simp add: in_range_def)+

lemma demo_lower_ok: "lower_ok demo_lower"
  unfolding lower_ok_def demo_lower_def by (simp add: demo_utf8 del: valid_utf8.simps)

lemmas demo_eval = demo_lower_def demo_utf8 prune_entry_def fold_entry_def rename_entry_def same_entry_def
  set_entry_def remove_entry_def btree_insert_def lowercase_tree_def prune_mixed_case_duplicates_def
  fold_stats_default_def

theorem repair_keeps_every_path_witness:
  "holdings (\<lambda>_. ()) demo_lower (repair_folded_tree demo_lower (\<lambda>_. True) demo_tree) = {([''addons'', ''main.pbo''], ())}
   \<and> repair_folded_tree demo_lower (\<lambda>_. True) demo_tree = Dir 0 [(''addons'', Dir 3 [(''main.pbo'', Leaf 4 ''new'')])]"
proof -
  have "tree_wf demo_tree" "kinds_agree demo_lower demo_tree"
    by (simp_all add: demo_tree_def dir_wf_def kinds_agree_here_def less_char_def)
  from repair_keeps_every_path [OF demo_lower_ok this, of "\<lambda>_. True"]
  have "holdings (\<lambda>_. ()) demo_lower (repair_folded_tree demo_lower (\<lambda>_. True) demo_tree) = holdings (\<lambda>_. ()) demo_lower demo_tree" .
  moreover have "repair_folded_tree demo_lower (\<lambda>_. True) demo_tree = Dir 0 [(''addons'', Dir 3 [(''main.pbo'', Leaf 4 ''new'')])]"
    by (simp add: repair_folded_tree_def demo_tree_def demo_eval del: valid_utf8.simps)
  ultimately show ?thesis
    by (simp add: demo_tree_def dir_holdings_def folded_def demo_lower_def demo_utf8 del: valid_utf8.simps)
qed

text \<open>C20: folding converges and loses no content. Every file is held with its bytes under the same
  folded path afterwards, and a pass over a tree without hard links that reports no collision leaves
  every name folded, after which a further pass renames nothing.\<close>

theorem lowercase_tree_converges:
  assumes "lower_ok L" "tree_wf root" "no_hard_links root" "lowercase_tree L io root = (Inr st, root')"
  shows "holdings id L root' = holdings id L root
    \<and> (collisions st = 0 \<longrightarrow> all_folded L root' \<and> lowercase_tree L io root' = (Inr fold_stats_default, root'))"
proof (cases root)
  case (Dir i cs)
  obtain cs' where fd: "fold_dir L io [] cs cs fold_stats_default = (None, cs', st)" and r: "root' = Dir i cs'"
    using assms(4) unfolding Dir by (auto simp: lowercase_tree_def split: prod.splits option.splits)
  have l: "listing_of cs cs" using assms(2) unfolding Dir by (simp add: listing_of_refl)
  have keep: "dir_holdings id L cs' = dir_holdings id L cs \<and> dir_wf cs'" by (rule fold_dir_keeps [OF assms(1) l fd])
  have "settled L [] cs'" if "collisions st = 0"
    by (rule fold_dir_folds [OF assms(1) l _ _ fd])
       (use assms(3) that in \<open>simp_all add: Dir settled_def fold_stats_default_def\<close>)
  moreover have "fold_dir L io [] cs' cs' fold_stats_default = (None, cs', fold_stats_default)" if "settled L [] cs'"
    by (rule all_folded_fixed) (use that keep in \<open>auto simp: settled_def listing_of_refl\<close>)
  ultimately show ?thesis
    using keep unfolding Dir r by (auto simp: lowercase_tree_def settled_def)
qed (use assms(4) in \<open>auto simp: lowercase_tree_def\<close>)

theorem lowercase_tree_converges_witness:
  "\<exists>st root'. lowercase_tree demo_lower (\<lambda>_. True) (Dir 0 [(''Addons'', Dir 1 [(''Main.pbo'', Leaf 2 ''x'')])]) = (Inr st, root')
     \<and> renamed st = 2 \<and> all_folded demo_lower root'"
proof -
  let ?t = "Dir 0 [(''Addons'', Dir 1 [(''Main.pbo'', Leaf 2 ''x'')])]"
  have wf: "tree_wf ?t" "no_hard_links ?t" by (simp_all add: dir_wf_def inodes_differ_def)
  have run: "lowercase_tree demo_lower (\<lambda>_. True) ?t =
      (Inr \<lparr>renamed = 2, collisions = 0\<rparr>, Dir 0 [(''addons'', Dir 1 [(''main.pbo'', Leaf 2 ''x'')])])"
    by (simp add: demo_eval del: valid_utf8.simps)
  from lowercase_tree_converges [OF demo_lower_ok wf run] run show ?thesis by auto
qed

text \<open>Pruning deletes a mixed-case file whose lower-case name belongs to a directory, although the
  directory holds no copy of it; the rule for nested entries refuses exactly this case.\<close>

theorem prune_deletes_file_beside_directory:
  "prune_mixed_case_duplicates demo_lower (\<lambda>_. True) (Dir 0 [(''README'', Leaf 1 ''text''), (''readme'', Dir 2 [])])
     = (Inr 1, Dir 0 [(''readme'', Dir 2 [])])"
  by (simp add: demo_eval del: valid_utf8.simps)

end
