(* ===== verification/Identity.thy ===== *)
theory Identity
  imports Authz Effect
begin

text \<open>
  The identity service (\<open>services/identity/src\<close>): the signing key, access and refresh tokens, the
  signed state of a login in progress, the Steam and OAuth2 checks and the HTTP handlers. The state
  is the database and the map of one-time exchange codes. A request brings its own clock readings and
  random values (\<open>id_env\<close>); \<open>jsonwebtoken\<close>, \<open>url\<close>, \<open>oauth2\<close> and the providers' HTTP endpoints are the
  functions of \<open>id_lib\<close>. Times are microseconds, the time stamps inside a token seconds.
\<close>

section \<open>Providers\<close>

datatype provider_kind = Discord | Github | Google

definition provider_as_str :: "provider_kind \<Rightarrow> string" where
  "provider_as_str k = (case k of Discord \<Rightarrow> ''discord'' | Github \<Rightarrow> ''github'' | Google \<Rightarrow> ''google'')"

definition provider_parse :: "string \<Rightarrow> provider_kind option" where
  "provider_parse s =
    (if s = ''discord'' then Some Discord else if s = ''github'' then Some Github
     else if s = ''google'' then Some Google else None)"

definition provider_auth_url :: "provider_kind \<Rightarrow> string" where
  "provider_auth_url k = (case k of
      Discord \<Rightarrow> ''https://discord.com/api/oauth2/authorize''
    | Github \<Rightarrow> ''https://github.com/login/oauth/authorize''
    | Google \<Rightarrow> ''https://accounts.google.com/o/oauth2/v2/auth'')"

definition provider_token_url :: "provider_kind \<Rightarrow> string" where
  "provider_token_url k = (case k of
      Discord \<Rightarrow> ''https://discord.com/api/oauth2/token''
    | Github \<Rightarrow> ''https://github.com/login/oauth/access_token''
    | Google \<Rightarrow> ''https://oauth2.googleapis.com/token'')"

definition provider_scopes :: "provider_kind \<Rightarrow> string list" where
  "provider_scopes k = (case k of
      Discord \<Rightarrow> [''identify''] | Github \<Rightarrow> [''read:user''] | Google \<Rightarrow> [''openid'', ''profile''])"

definition provider_userinfo_url :: "provider_kind \<Rightarrow> string" where
  "provider_userinfo_url k = (case k of
      Discord \<Rightarrow> ''https://discord.com/api/users/@me''
    | Github \<Rightarrow> ''https://api.github.com/user''
    | Google \<Rightarrow> ''https://www.googleapis.com/oauth2/v3/userinfo'')"

record oauth_provider =
  op_kind :: provider_kind
  op_client_id :: string
  op_client_secret :: string
  op_redirect_uri :: string

section \<open>URLs\<close>

datatype url_host = Domain string | Ipv4 u32 | Ipv6 "128 word"

text \<open>A parsed URL: its host, and the serialised origin when that is a tuple origin.\<close>

record url =
  url_host :: "url_host option"
  url_origin :: "string option"

definition host_is_loopback :: "url_host option \<Rightarrow> bool" where
  "host_is_loopback h = (case h of
      Some (Domain d) \<Rightarrow> d = ''localhost''
    | Some (Ipv4 ip) \<Rightarrow> drop_bit 24 ip = 127
    | Some (Ipv6 ip) \<Rightarrow> ip = 1
    | None \<Rightarrow> False)"

section \<open>Tokens\<close>

record token_pair =
  tp_access_token :: string
  tp_refresh_token :: string
  tp_expires_in :: int

record access_claims =
  ac_sub :: string
  ac_iss :: string
  ac_aud :: string
  ac_exp :: int
  ac_iat :: int

record state_claims =
  sc_aud :: string
  sc_exp :: int
  sc_provider :: string
  sc_link_user_id :: "uuid option"
  sc_redirect_uri :: "string option"

definition ACCESS_TOKEN_TTL_SECS :: int where "ACCESS_TOKEN_TTL_SECS = 3600"
definition REFRESH_TOKEN_TTL_DAYS :: int where "REFRESH_TOKEN_TTL_DAYS = 30"
definition STATE_AUDIENCE :: string where "STATE_AUDIENCE = ''identity-state''"
definition STATE_TTL_SECS :: int where "STATE_TTL_SECS = 600"
definition EXCHANGE_CODE_TTL :: int where "EXCHANGE_CODE_TTL = 120 * 1000000"
definition STEAM_OPENID_URL :: string where "STEAM_OPENID_URL = ''https://steamcommunity.com/openid/login''"

abbreviation seconds :: "int \<Rightarrow> int" where "seconds n \<equiv> n * 1000000"

definition timestamp :: "int \<Rightarrow> int" where
  "timestamp t = t div 1000000"

record id_env =
  e_now :: int
  e_uuid :: uuid
  e_nonce :: string
  e_refresh :: string
  e_code :: string

record id_lib =
  l_jwk_ok :: bool
  l_sign_access :: "string \<Rightarrow> access_claims \<Rightarrow> string + string"
  l_sign_state :: "string \<Rightarrow> state_claims \<Rightarrow> string + string"
  l_decode_access :: "string \<Rightarrow> string \<Rightarrow> int \<Rightarrow> string \<Rightarrow> string option"
  l_decode_state :: "string \<Rightarrow> int \<Rightarrow> string \<Rightarrow> state_claims option"
  l_hash :: "string \<Rightarrow> string"
  l_parse_uuid :: "string \<Rightarrow> uuid option"
  l_url_parse :: "string \<Rightarrow> url option"
  l_urlencode :: "string \<Rightarrow> string"
  l_url_with_query :: "string \<Rightarrow> (string \<times> string) list \<Rightarrow> string"
  l_authorize_url :: "oauth_provider \<Rightarrow> string \<Rightarrow> string list \<Rightarrow> string \<Rightarrow> string"
  l_steam_post :: "(string \<times> string) list \<Rightarrow> string + string"
  l_exchange_code :: "oauth_provider \<Rightarrow> string \<Rightarrow> string \<Rightarrow> string + string"
  l_userinfo :: "string \<Rightarrow> string \<Rightarrow> string + json"
  l_db_text :: "db_error \<Rightarrow> string"

record exchange_entry =
  xe_tokens :: token_pair
  xe_expires_at :: int

record app_config =
  app_base_url :: string
  app_allowed_redirect_origins :: "string list"
  app_issuer :: string
  app_audience :: string
  app_oauth_providers :: "(provider_kind \<times> oauth_provider) list"

record idp =
  idp_db :: db
  exchange_codes :: "(string \<times> exchange_entry) list"

type_synonym 'a id_act = "(idp, string, 'a) act"

text \<open>A statement on the database; \<open>?\<close> turns its error into text.\<close>

definition db_read :: "id_lib \<Rightarrow> (db \<Rightarrow> db_error + 'a) \<Rightarrow> 'a id_act" where
  "db_read L f = (\<lambda>s. (map_err (l_db_text L) (f (idp_db s)), s))"

definition db_write :: "id_lib \<Rightarrow> (db \<Rightarrow> db_error + 'a \<times> db) \<Rightarrow> 'a id_act" where
  "db_write L f = (\<lambda>s. case f (idp_db s) of
      Inl e \<Rightarrow> (Inl (l_db_text L e), s)
    | Inr (x, d) \<Rightarrow> (Inr x, s\<lparr>idp_db := d\<rparr>))"

definition no_result :: "db_error + db \<Rightarrow> db_error + unit \<times> db" where
  "no_result r = rbind r (\<lambda>d. Inr ((), d))"

definition token_issue :: "id_lib \<Rightarrow> app_config \<Rightarrow> id_env \<Rightarrow> uuid \<Rightarrow> token_pair id_act" where
  "token_issue L app e user_id =
    (let claims = \<lparr>ac_sub = user_id, ac_iss = app_issuer app, ac_aud = app_audience app,
           ac_exp = timestamp (e_now e + seconds ACCESS_TOKEN_TTL_SECS), ac_iat = timestamp (e_now e)\<rparr> in
     act_bind (lift_res (l_sign_access L (e_nonce e) claims)) (\<lambda>access_token.
     let raw_refresh = e_refresh e; hash = l_hash L raw_refresh in
     act_bind (db_write L (\<lambda>d. no_result
         (insert_refresh_token hash user_id (e_now e + seconds (REFRESH_TOKEN_TTL_DAYS * 86400)) d))) (\<lambda>_.
     ret \<lparr>tp_access_token = access_token, tp_refresh_token = raw_refresh,
          tp_expires_in = ACCESS_TOKEN_TTL_SECS\<rparr>)))"

text \<open>\<open>TokenIssuer::refresh\<close>, in the two parts between which another request may run.\<close>

definition refresh_check :: "id_lib \<Rightarrow> id_env \<Rightarrow> string \<Rightarrow> uuid id_act" where
  "refresh_check L e raw =
    act_bind (db_read L (valid_refresh_token_user (e_now e) (l_hash L raw))) (\<lambda>found.
    lift_res (ok_or found ''invalid, expired, or already-used refresh token''))"

definition refresh_commit :: "id_lib \<Rightarrow> app_config \<Rightarrow> id_env \<Rightarrow> string \<Rightarrow> uuid \<Rightarrow> token_pair id_act" where
  "refresh_commit L app e raw user_id =
    act_bind (db_write L (\<lambda>d. no_result (revoke_refresh_token (e_now e) (l_hash L raw) d))) (\<lambda>_.
    token_issue L app e user_id)"

definition token_refresh :: "id_lib \<Rightarrow> app_config \<Rightarrow> id_env \<Rightarrow> string \<Rightarrow> token_pair id_act" where
  "token_refresh L app e raw = act_bind (refresh_check L e raw) (refresh_commit L app e raw)"

section \<open>The signed state of a login\<close>

definition origin_of :: "url \<Rightarrow> string option" where
  "origin_of u = url_origin u"

definition check_redirect_uri :: "id_lib \<Rightarrow> string \<Rightarrow> string list \<Rightarrow> string + unit" where
  "check_redirect_uri L uri allowed_origins =
    rbind (ok_or (l_url_parse L uri) ''redirect_uri is not a valid URL'') (\<lambda>parsed.
    if host_is_loopback (url_host parsed) then Inr ()
    else ensure (case origin_of parsed of Some origin \<Rightarrow> origin \<in> set allowed_origins | None \<Rightarrow> False)
      (''redirect_uri must be a loopback address (127.0.0.1/localhost) or a configured allowed origin -- got '' @ uri))"

definition state_issue :: "id_lib \<Rightarrow> id_env \<Rightarrow> string \<Rightarrow> uuid option \<Rightarrow> string option \<Rightarrow> string list
    \<Rightarrow> string + state_claims \<times> string" where
  "state_issue L e provider link_user_id redirect_uri allowed_origins =
    rbind (case redirect_uri of Some uri \<Rightarrow> check_redirect_uri L uri allowed_origins | None \<Rightarrow> Inr ()) (\<lambda>_.
    let claims = \<lparr>sc_aud = STATE_AUDIENCE, sc_exp = timestamp (e_now e) + STATE_TTL_SECS, sc_provider = provider,
          sc_link_user_id = link_user_id, sc_redirect_uri = redirect_uri\<rparr> in
    rbind (l_sign_state L (e_nonce e) claims) (\<lambda>t. Inr (claims, t)))"

definition state_verify :: "id_lib \<Rightarrow> id_env \<Rightarrow> string \<Rightarrow> string \<Rightarrow> string + state_claims" where
  "state_verify L e token expected_provider =
    rbind (ensure (l_jwk_ok L) ''invalid signer jwk'') (\<lambda>_.
    rbind (ok_or (l_decode_state L STATE_AUDIENCE (timestamp (e_now e)) token) ''invalid or expired state'') (\<lambda>claims.
    rbind (ensure (sc_provider claims = expected_provider) ''state provider mismatch'') (\<lambda>_.
    Inr claims)))"

section \<open>Steam and OAuth2\<close>

definition login_url :: "id_lib \<Rightarrow> string \<Rightarrow> string \<Rightarrow> string" where
  "login_url L return_to realm = l_url_with_query L STEAM_OPENID_URL
    [(''openid.ns'', ''http://specs.openid.net/auth/2.0''),
     (''openid.mode'', ''checkid_setup''),
     (''openid.return_to'', return_to),
     (''openid.realm'', realm),
     (''openid.identity'', ''http://specs.openid.net/auth/2.0/identifier_select''),
     (''openid.claimed_id'', ''http://specs.openid.net/auth/2.0/identifier_select'')]"

definition openid_params :: "(string, string) hashmap \<Rightarrow> (string \<times> string) list" where
  "openid_params qs =
    map (\<lambda>(k, v). (k, if k = ''openid.mode'' then ''check_authentication'' else v))
      (filter (\<lambda>(k, _). starts_with k ''openid.'') qs)"

definition steam_verify :: "id_lib \<Rightarrow> (string, string) hashmap \<Rightarrow> string + string" where
  "steam_verify L qs =
    rbind (l_steam_post L (openid_params qs)) (\<lambda>body.
    rbind (ensure (list_ex (\<lambda>l. trim l = ''is_valid:true'') (str_lines body)) ''steam openid verification failed'') (\<lambda>_.
    rbind (ok_or (map_of qs ''openid.claimed_id'') ''callback missing openid.claimed_id'') (\<lambda>claimed_id.
    let steam_id = last (split_on (CHR ''/'') claimed_id) in
    rbind (ensure (steam_id \<noteq> []) ''malformed claimed_id'') (\<lambda>_.
    rbind (ensure (steam_id \<noteq> [] \<and> list_all is_digit steam_id)
      (''claimed_id did not end in a numeric SteamID64: '' @ claimed_id)) (\<lambda>_.
    Inr steam_id)))))"

definition json_index :: "json \<Rightarrow> string \<Rightarrow> json" where
  "json_index v k = (case v of JObject kvs \<Rightarrow> (case map_of kvs k of Some x \<Rightarrow> x | None \<Rightarrow> JNull) | _ \<Rightarrow> JNull)"

definition json_as_str :: "json \<Rightarrow> string option" where
  "json_as_str v = (case v of JString s \<Rightarrow> Some s | _ \<Rightarrow> None)"

definition json_as_i64 :: "json \<Rightarrow> int option" where
  "json_as_i64 v = (case v of JNumber t \<Rightarrow> parse_i64 t | _ \<Rightarrow> None)"

definition str_or_default :: "json \<Rightarrow> string" where
  "str_or_default v = (case json_as_str v of Some s \<Rightarrow> s | None \<Rightarrow> [])"

definition fetch_identity :: "id_lib \<Rightarrow> oauth_provider \<Rightarrow> string \<Rightarrow> string + string \<times> string" where
  "fetch_identity L p access_token =
    rbind (l_userinfo L (provider_userinfo_url (op_kind p)) access_token) (\<lambda>body.
    case op_kind p of
      Discord \<Rightarrow> rbind (ok_or (json_as_str (json_index body ''id'')) ''discord userinfo missing id'') (\<lambda>i.
        Inr (i, str_or_default (json_index body ''username'')))
    | Github \<Rightarrow> rbind (ok_or (json_as_i64 (json_index body ''id'')) ''github userinfo missing id'') (\<lambda>i.
        Inr (show_int i, str_or_default (json_index body ''login'')))
    | Google \<Rightarrow> rbind (ok_or (json_as_str (json_index body ''sub'')) ''google userinfo missing sub'') (\<lambda>i.
        Inr (i, str_or_default (json_index body ''name''))))"

section \<open>Handlers\<close>

datatype response =
    Status nat string
  | ProvidersJson "string list"
  | MeJson uuid "(string \<times> string \<times> string) list"
  | UrlJson string
  | TokensJson token_pair
  | RedirectTo string

definition verify_bearer :: "id_lib \<Rightarrow> app_config \<Rightarrow> id_env \<Rightarrow> string option \<Rightarrow> uuid option" where
  "verify_bearer L app e authorization =
    Option.bind authorization (\<lambda>v.
    Option.bind (header_to_str v) (\<lambda>t.
    Option.bind (strip_prefix t ''Bearer '') (\<lambda>token.
    if \<not> l_jwk_ok L then None else
    Option.bind (l_decode_access L (app_issuer app) (app_audience app) (timestamp (e_now e)) token) (\<lambda>sub.
    l_parse_uuid L sub))))"

definition providers_handler :: "app_config \<Rightarrow> response" where
  "providers_handler app =
    ProvidersJson (''steam'' # sort (map (\<lambda>(k, _). provider_as_str k) (app_oauth_providers app)))"

definition me_handler :: "id_lib \<Rightarrow> app_config \<Rightarrow> id_env \<Rightarrow> string option \<Rightarrow> idp \<Rightarrow> response" where
  "me_handler L app e authorization s =
    (case verify_bearer L app e authorization of
       None \<Rightarrow> Status 401 ''missing or invalid bearer token''
     | Some user_id \<Rightarrow>
         (case linked_accounts_for_user user_id (idp_db s) of
            Inr accounts \<Rightarrow> MeJson user_id accounts
          | Inl _ \<Rightarrow> Status 500 ''failed to read linked accounts''))"

text \<open>\<open>start\<close> answers with the provider's URL; beside the answer, the state token it signed.\<close>

definition start_handler :: "id_lib \<Rightarrow> app_config \<Rightarrow> id_env \<Rightarrow> string \<Rightarrow> (string, string) hashmap
    \<Rightarrow> string option \<Rightarrow> response \<times> (string \<times> state_claims) list" where
  "start_handler L app e provider qs authorization =
    (let link_user_id = verify_bearer L app e authorization;
         redirect_uri = map_of qs ''redirect_uri'' in
     case state_issue L e provider link_user_id redirect_uri (app_allowed_redirect_origins app) of
       Inl msg \<Rightarrow> (Status 400 msg, [])
     | Inr (claims, state_token) \<Rightarrow>
         ((if provider = ''steam''
           then UrlJson (login_url L (app_base_url app @ ''/auth/steam/callback?state='' @ l_urlencode L state_token)
                  (app_base_url app))
           else case provider_parse provider of
             None \<Rightarrow> Status 404 (''unknown provider: '' @ provider)
           | Some kind \<Rightarrow>
               (case map_of (app_oauth_providers app) kind of
                  None \<Rightarrow> Status 404 (''provider not configured: '' @ provider)
                | Some oauth \<Rightarrow> UrlJson (l_authorize_url L oauth (provider_auth_url kind) (provider_scopes kind) state_token))),
          [(state_token, claims)]))"

text \<open>The identity a callback proves, or the answer that ends it.\<close>

definition callback_identity :: "id_lib \<Rightarrow> app_config \<Rightarrow> string \<Rightarrow> (string, string) hashmap
    \<Rightarrow> response + string \<times> string" where
  "callback_identity L app provider qs =
    (if provider = ''steam''
     then rbind (map_err (Status 400) (steam_verify L qs)) (\<lambda>steam_id. Inr (steam_id, steam_id))
     else
       rbind (ok_or (provider_parse provider) (Status 404 (''unknown provider: '' @ provider))) (\<lambda>kind.
       rbind (ok_or (map_of (app_oauth_providers app) kind) (Status 404 (''provider not configured: '' @ provider))) (\<lambda>oauth.
       rbind (ok_or (map_of qs ''code'') (Status 400 ''missing code'')) (\<lambda>code.
       rbind (map_err (Status 502) (l_exchange_code L oauth (provider_token_url kind) code)) (\<lambda>access_token.
       map_err (Status 502) (fetch_identity L oauth access_token))))))"

text \<open>The user the login is for: the one linking, or the owner of the account, or a new one.\<close>

definition callback_user :: "id_lib \<Rightarrow> id_env \<Rightarrow> string \<Rightarrow> uuid option \<Rightarrow> string \<Rightarrow> string \<Rightarrow> uuid id_act" where
  "callback_user L e provider link_user_id provider_user_id display_name =
    (case link_user_id of
       Some existing \<Rightarrow> act_bind (db_write L (\<lambda>d. no_result
           (link_account_to_user provider provider_user_id existing display_name d))) (\<lambda>_. ret existing)
     | None \<Rightarrow> act_bind (db_read L (find_linked_account provider provider_user_id)) (\<lambda>found.
         case found of
           Some user_id \<Rightarrow> ret user_id
         | None \<Rightarrow> db_write L (create_user_and_link (e_now e) (e_uuid e) provider provider_user_id display_name)))"

definition insert_code :: "string \<Rightarrow> exchange_entry \<Rightarrow> idp \<Rightarrow> idp" where
  "insert_code c entry s = s\<lparr>exchange_codes := AList.update c entry (exchange_codes s)\<rparr>"

definition callback_finish :: "id_lib \<Rightarrow> app_config \<Rightarrow> id_env \<Rightarrow> state_claims \<Rightarrow> string \<Rightarrow> string \<times> string
    \<Rightarrow> (idp, response, response) act" where
  "callback_finish L app e claims provider identity =
    act_bind (act_map_err (Status 500)
      (callback_user L e provider (sc_link_user_id claims) (fst identity) (snd identity))) (\<lambda>user_id.
    act_bind (act_map_err (Status 500) (token_issue L app e user_id)) (\<lambda>pair.
    case sc_redirect_uri claims of
      None \<Rightarrow> ret (TokensJson pair)
    | Some redirect_uri \<Rightarrow>
        act_bind (modify_act (insert_code (e_code e)
            \<lparr>xe_tokens = pair, xe_expires_at = e_now e + EXCHANGE_CODE_TTL\<rparr>)) (\<lambda>_.
        ret (RedirectTo (redirect_uri @ [if CHR ''?'' \<in> set redirect_uri then CHR ''&'' else CHR ''?'']
          @ ''code='' @ l_urlencode L (e_code e))))))"

definition answer :: "(idp, response, response) act \<Rightarrow> idp \<Rightarrow> response \<times> idp" where
  "answer m s = (case m s of (Inl r, s') \<Rightarrow> (r, s') | (Inr r, s') \<Rightarrow> (r, s'))"

definition callback_handler :: "id_lib \<Rightarrow> app_config \<Rightarrow> id_env \<Rightarrow> string \<Rightarrow> (string, string) hashmap
    \<Rightarrow> idp \<Rightarrow> response \<times> idp" where
  "callback_handler L app e provider qs = answer
    (act_bind (lift_res (ok_or (map_of qs ''state'') (Status 400 ''missing state''))) (\<lambda>state_token.
     act_bind (lift_res (map_err (Status 400) (state_verify L e state_token provider))) (\<lambda>claims.
     act_bind (lift_res (callback_identity L app provider qs)) (\<lambda>identity.
     callback_finish L app e claims provider identity))))"

definition refresh_handler :: "id_lib \<Rightarrow> app_config \<Rightarrow> id_env \<Rightarrow> string \<Rightarrow> idp \<Rightarrow> response \<times> idp" where
  "refresh_handler L app e refresh_token s =
    (case token_refresh L app e refresh_token s of
       (Inr pair, s') \<Rightarrow> (TokensJson pair, s')
     | (Inl _, s') \<Rightarrow> (Status 401 ''invalid, expired, or already-used refresh token'', s'))"

definition exchange_handler :: "id_env \<Rightarrow> string \<Rightarrow> idp \<Rightarrow> response \<times> idp" where
  "exchange_handler e code s =
    (let entry = map_of (exchange_codes s) code;
         s' = s\<lparr>exchange_codes := AList.delete code (exchange_codes s)\<rparr> in
     case entry of
       Some x \<Rightarrow> if e_now e \<le> xe_expires_at x then (TokensJson (xe_tokens x), s')
                 else (Status 401 ''invalid, expired, or already-used exchange code'', s')
     | None \<Rightarrow> (Status 401 ''invalid, expired, or already-used exchange code'', s'))"

section \<open>Start-up\<close>

text \<open>\<open>Signer::load_or_create\<close>: generating a key pair and reading it back from its encoding are the
  \<open>ring\<close> and \<open>jsonwebtoken\<close> crates'.\<close>

definition load_or_create :: "(db_error \<Rightarrow> string) \<Rightarrow> string + u8 list \<Rightarrow> (u8 list \<Rightarrow> string + 'signer) \<Rightarrow> db
    \<Rightarrow> (string + 'signer) \<times> db" where
  "load_or_create db_text generated from_der d =
    (case get_signing_key d of
       Inl e \<Rightarrow> (Inl (db_text e), d)
     | Inr (Some der) \<Rightarrow> (from_der der, d)
     | Inr None \<Rightarrow>
         (case generated of
            Inl e \<Rightarrow> (Inl e, d)
          | Inr pkcs8 \<Rightarrow>
              (case insert_signing_key_if_absent pkcs8 d of
                 Inl e \<Rightarrow> (Inl (db_text e), d)
               | Inr (der, d') \<Rightarrow> (from_der der, d'))))"

definition require_env :: "(string \<rightharpoonup> string) \<Rightarrow> string \<Rightarrow> string + string" where
  "require_env env k = ok_or (env k) (''missing required env var '' @ k)"

definition trim_end_slash :: "string \<Rightarrow> string" where
  "trim_end_slash t = rev (dropWhile (\<lambda>c. c = CHR ''/'') (rev t))"

fun redirect_origins :: "(string \<Rightarrow> url option) \<Rightarrow> string list \<Rightarrow> string list \<Rightarrow> string + string list" where
  "redirect_origins parse [] acc = Inr acc"
| "redirect_origins parse (r # rs) acc =
    (let raw = trim r in
     if raw = [] then redirect_origins parse rs acc
     else rbind (ok_or (parse raw) (''ALLOWED_REDIRECT_ORIGINS entry '' @ raw @ '' is not a URL'')) (\<lambda>parsed.
          rbind (ok_or (origin_of parsed) (''ALLOWED_REDIRECT_ORIGINS entry '' @ raw @ '' has no host to match on'')) (\<lambda>origin.
          redirect_origins parse rs (if origin \<in> set acc then acc else acc @ [origin]))))"

record provider_config =
  pc_kind :: provider_kind
  pc_client_id :: string
  pc_client_secret :: string

record identity_config =
  ic_listen_addr :: string
  ic_database_url :: string
  ic_base_url :: string
  ic_issuer :: string
  ic_audience :: string
  ic_allowed_redirect_origins :: "string list"
  ic_providers :: "provider_config list"

definition provider_configs :: "(string \<rightharpoonup> string) \<Rightarrow> provider_config list" where
  "provider_configs env = concat (map (\<lambda>(kind, pre).
      case (env (pre @ ''_CLIENT_ID''), env (pre @ ''_CLIENT_SECRET'')) of
        (Some client_id, Some client_secret) \<Rightarrow> [\<lparr>pc_kind = kind, pc_client_id = client_id, pc_client_secret = client_secret\<rparr>]
      | _ \<Rightarrow> [])
    [(Discord, ''DISCORD''), (Github, ''GITHUB''), (Google, ''GOOGLE'')])"

definition identity_from_env :: "(string \<Rightarrow> url option) \<Rightarrow> (string \<rightharpoonup> string) \<Rightarrow> string + identity_config" where
  "identity_from_env parse env =
    rbind (require_env env ''BASE_URL'') (\<lambda>b.
    let base_url = trim_end_slash b;
        extra_origins = env_or env ''ALLOWED_REDIRECT_ORIGINS'' [] in
    rbind (redirect_origins parse (base_url # split_on (CHR '','') extra_origins) []) (\<lambda>origins.
    rbind (require_env env ''DATABASE_URL'') (\<lambda>database_url.
    rbind (require_env env ''JWT_ISSUER'') (\<lambda>issuer.
    rbind (require_env env ''JWT_AUDIENCE'') (\<lambda>audience.
    Inr \<lparr>ic_listen_addr = env_or env ''LISTEN_ADDR'' ''0.0.0.0:8445'', ic_database_url = database_url,
         ic_base_url = base_url, ic_issuer = issuer, ic_audience = audience,
         ic_allowed_redirect_origins = origins, ic_providers = provider_configs env\<rparr>)))))"

text \<open>The application \<open>main\<close> assembles: one client per configured provider.\<close>

definition app_of_config :: "identity_config \<Rightarrow> app_config" where
  "app_of_config cfg =
    \<lparr>app_base_url = ic_base_url cfg, app_allowed_redirect_origins = ic_allowed_redirect_origins cfg,
     app_issuer = ic_issuer cfg, app_audience = ic_audience cfg,
     app_oauth_providers = map (\<lambda>p. (pc_kind p, \<lparr>op_kind = pc_kind p, op_client_id = pc_client_id p,
       op_client_secret = pc_client_secret p,
       op_redirect_uri = ic_base_url cfg @ ''/auth/'' @ provider_as_str (pc_kind p) @ ''/callback''\<rparr>)) (ic_providers cfg)\<rparr>"

section \<open>Requests in sequence\<close>

datatype request =
    ProvidersReq
  | MeReq "string option"
  | StartReq string "(string, string) hashmap" "string option"
  | CallbackReq string "(string, string) hashmap"
  | RefreshReq string
  | ExchangeReq string

text \<open>Beside the service's state, the state tokens it has signed so far.\<close>

type_synonym served = "idp \<times> (string \<times> state_claims) list"

definition serve :: "id_lib \<Rightarrow> app_config \<Rightarrow> id_env \<Rightarrow> request \<Rightarrow> served \<Rightarrow> response \<times> served" where
  "serve L app e rq x = (case rq of
      ProvidersReq \<Rightarrow> (providers_handler app, x)
    | MeReq a \<Rightarrow> (me_handler L app e a (fst x), x)
    | StartReq p qs a \<Rightarrow> (case start_handler L app e p qs a of (r, ts) \<Rightarrow> (r, fst x, snd x @ ts))
    | CallbackReq p qs \<Rightarrow> (case callback_handler L app e p qs (fst x) of (r, s) \<Rightarrow> (r, s, snd x))
    | RefreshReq t \<Rightarrow> (case refresh_handler L app e t (fst x) of (r, s) \<Rightarrow> (r, s, snd x))
    | ExchangeReq c \<Rightarrow> (case exchange_handler e c (fst x) of (r, s) \<Rightarrow> (r, s, snd x)))"

primrec serve_all :: "id_lib \<Rightarrow> app_config \<Rightarrow> (id_env \<times> request) list \<Rightarrow> served \<Rightarrow> served" where
  "serve_all L app [] x = x"
| "serve_all L app (er # ers) x = serve_all L app ers (snd (serve L app (fst er) (snd er) x))"

text \<open>ES256 signatures are not forged: a state token that decodes is one this service signed.\<close>

definition unforged :: "id_lib \<Rightarrow> id_env \<Rightarrow> request \<Rightarrow> (string \<times> state_claims) list \<Rightarrow> bool" where
  "unforged L e rq issued = (case rq of
      CallbackReq p qs \<Rightarrow> (\<forall>t c. map_of qs ''state'' = Some t
        \<and> l_decode_state L STATE_AUDIENCE (timestamp (e_now e)) t = Some c \<longrightarrow> (t, c) \<in> set issued)
    | _ \<Rightarrow> True)"

inductive id_reach :: "id_lib \<Rightarrow> app_config \<Rightarrow> served \<Rightarrow> bool" for L app where
  id_init: "db_reach d \<Longrightarrow> id_reach L app (\<lparr>idp_db = d, exchange_codes = []\<rparr>, [])"
| id_serve: "id_reach L app x \<Longrightarrow> unforged L e rq (snd x) \<Longrightarrow> id_reach L app (snd (serve L app e rq x))"

section \<open>Lemmas\<close>

text \<open>Every handler changes the database by the crate's own writes only.\<close>

abbreviation db_steps :: "db \<Rightarrow> db \<Rightarrow> bool" where
  "db_steps \<equiv> db_step\<^sup>*\<^sup>*"

abbreviation by_steps :: "db \<Rightarrow> idp \<Rightarrow> bool" where
  "by_steps d s \<equiv> db_steps d (idp_db s)"

lemma keeps_db_read [triple_intros]: "keeps P (db_read L f)"
  by (auto simp: triple_def db_read_def split: sum.splits)

lemma keeps_db_write:
  "(\<And>s x d'. P s \<Longrightarrow> f (idp_db s) = Inr (x, d') \<Longrightarrow> P (s\<lparr>idp_db := d'\<rparr>)) \<Longrightarrow> keeps P (db_write L f)"
  by (auto simp: triple_def db_write_def split: sum.splits)

lemma no_result_eq_Inr [result_simps]: "no_result r = Inr (x, d) \<longleftrightarrow> r = Inr d"
  by (cases r) (auto simp: no_result_def)

lemma steps_db_write:
  "(\<And>d x d'. f d = Inr (x, d') \<Longrightarrow> db_step d d') \<Longrightarrow> keeps (by_steps d0) (db_write L f)"
  by (rule keeps_db_write) (auto intro: rtranclp.rtrancl_into_rtrancl)

lemma steps_token_issue: "keeps (by_steps d0) (token_issue L app e u)"
  unfolding token_issue_def Let_def
  by (intro triple_intros steps_db_write) (auto simp: result_simps intro: db_step.intros)

lemma steps_refresh: "keeps (by_steps d0) (token_refresh L app e raw)"
  unfolding token_refresh_def refresh_check_def refresh_commit_def
  by (intro triple_intros steps_db_write steps_token_issue) (auto simp: result_simps intro: db_step.intros)

lemma steps_callback_user: "keeps (by_steps d0) (callback_user L e p link pid nm)"
  unfolding callback_user_def
  by (cases link) (auto intro!: triple_intros steps_db_write simp: result_simps intro: db_step.intros split: option.splits)

lemma snd_answer [simp]: "snd (answer m s) = snd (m s)"
  by (auto simp: answer_def split: prod.splits sum.splits)

lemma steps_callback: "by_steps d0 s \<Longrightarrow> by_steps d0 (snd (callback_handler L app e p qs s))"
proof -
  assume s: "by_steps d0 s"
  let ?m = "act_bind (lift_res (ok_or (map_of qs ''state'') (Status 400 ''missing state''))) (\<lambda>state_token.
     act_bind (lift_res (map_err (Status 400) (state_verify L e state_token p))) (\<lambda>claims.
     act_bind (lift_res (callback_identity L app p qs)) (\<lambda>identity.
     callback_finish L app e claims p identity)))"
  have "keeps (by_steps d0) (callback_finish L app e claims p i)" for claims i
    unfolding callback_finish_def
    by (intro triple_intros steps_callback_user steps_token_issue)
       (auto intro!: triple_intros simp: insert_code_def split: option.splits)
  then have "keeps (by_steps d0) ?m" by (intro triple_intros)
  from keepsD [OF this s] show ?thesis by (simp add: callback_handler_def)
qed

lemma serve_steps: "db_steps (idp_db (fst x)) (idp_db (fst (snd (serve L app e rq x))))"
proof (cases rq)
  case (CallbackReq p qs)
  have "by_steps (idp_db (fst x)) (snd (callback_handler L app e p qs (fst x)))" by (rule steps_callback) simp
  then show ?thesis by (simp add: serve_def CallbackReq split_beta)
next
  case (RefreshReq t)
  have "by_steps (idp_db (fst x)) (snd (token_refresh L app e t (fst x)))" by (rule keepsD [OF steps_refresh]) simp
  then show ?thesis by (auto simp: serve_def RefreshReq refresh_handler_def split: prod.splits sum.splits)
qed (auto simp: serve_def exchange_handler_def Let_def split: prod.splits option.splits)

lemma steps_wf: "db_steps d d' \<Longrightarrow> db_wf d \<Longrightarrow> db_wf d'"
  by (induction rule: rtranclp_induct) (auto intro: db_step_wf)

text \<open>A stored signing key is never replaced.\<close>

lemma step_signing_key_kept:
  assumes "db_step d d'" "signing_keys d = Some k"
  shows "signing_keys d' = Some k"
  using assms
proof (cases rule: db_step.cases)
  case (step_link p pid u nm)
  then show ?thesis using assms(2)
    by (auto simp: link_account_to_user_def merge_user_def repoint_accounts_def merge_grants_def delete_user_def
        delete_refresh_tokens_of_def insert_linked_account_def set_display_name_def Let_def result_simps
        split: option.splits if_splits)
next
  case (step_create_user now u p pid nm u')
  then show ?thesis using assms(2)
    by (auto simp: create_user_and_link_eq_Inr insert_user_def insert_linked_account_def split: if_splits)
qed (auto simp: upsert_mission_def set_mission_metadata_def delete_mission_def set_scopes_def grant_scopes_def
      insert_signing_key_if_absent_def insert_refresh_token_def revoke_refresh_token_def Let_def result_simps split: if_splits)

lemma steps_signing_key_kept: "db_steps d d' \<Longrightarrow> signing_keys d = Some k \<Longrightarrow> signing_keys d' = Some k"
  by (induction rule: rtranclp_induct) (auto intro: step_signing_key_kept)

text \<open>An answer that is not a refusal comes from a verified state and a proved identity.\<close>

lemma callback_identity_error: "callback_identity L app p qs = Inl r \<Longrightarrow> \<exists>n m. r = Status n m"
  by (auto simp: callback_identity_def result_simps split: if_splits)

lemma callback_finish_error: "callback_finish L app e c p i s = (Inl r, s') \<Longrightarrow> \<exists>n m. r = Status n m"
  by (auto simp: callback_finish_def act_simps map_err_eq_Inl split: prod.splits sum.splits option.splits)

lemma callback_success:
  assumes "callback_handler L app e p qs s = (r, s')" "\<forall>n m. r \<noteq> Status n m"
  obtains t c i where "map_of qs ''state'' = Some t" "l_decode_state L STATE_AUDIENCE (timestamp (e_now e)) t = Some c"
    "sc_provider c = p" "callback_identity L app p qs = Inr i" "callback_finish L app e c p i s = (Inr r, s')"
  using assms
  by (auto simp: callback_handler_def answer_def act_simps state_verify_def result_simps
      dest: callback_identity_error callback_finish_error split: prod.splits sum.splits)

lemma callback_finish_success:
  assumes "callback_finish L app e c p (pid, nm) s = (Inr r, s')"
  obtains u pair s1 s2 where "callback_user L e p (sc_link_user_id c) pid nm s = (Inr u, s1)"
    "token_issue L app e u s1 = (Inr pair, s2)" "idp_db s' = idp_db s2"
    "sc_redirect_uri c = None \<and> r = TokensJson pair \<and> s' = s2
     \<or> (\<exists>uri. sc_redirect_uri c = Some uri
        \<and> r = RedirectTo (uri @ [if CHR ''?'' \<in> set uri then CHR ''&'' else CHR ''?''] @ ''code='' @ l_urlencode L (e_code e))
        \<and> s' = insert_code (e_code e) \<lparr>xe_tokens = pair, xe_expires_at = e_now e + EXCHANGE_CODE_TTL\<rparr> s2)"
  using assms
  by (auto simp: callback_finish_def act_simps insert_code_def map_err_eq_Inr map_err_eq_Inl
      split: prod.splits sum.splits option.splits)

lemma token_issue_success:
  "token_issue L app e u s = (Inr pair, s') \<longleftrightarrow>
    (\<exists>a d'. l_sign_access L (e_nonce e) \<lparr>ac_sub = u, ac_iss = app_issuer app, ac_aud = app_audience app,
          ac_exp = timestamp (e_now e + seconds ACCESS_TOKEN_TTL_SECS), ac_iat = timestamp (e_now e)\<rparr> = Inr a
       \<and> insert_refresh_token (l_hash L (e_refresh e)) u (e_now e + seconds (REFRESH_TOKEN_TTL_DAYS * 86400)) (idp_db s) = Inr d'
       \<and> s' = s\<lparr>idp_db := d'\<rparr>
       \<and> pair = \<lparr>tp_access_token = a, tp_refresh_token = e_refresh e, tp_expires_in = ACCESS_TOKEN_TTL_SECS\<rparr>)"
  by (auto simp: token_issue_def Let_def act_simps db_write_def no_result_def result_simps split: prod.splits sum.splits)

text \<open>A token just issued is valid for its user.\<close>

lemma insert_refresh_token_valid:
  assumes "insert_refresh_token h u x d = Inr d'" "now < x"
  shows "valid_refresh_token_user now h d' = Inr (Some u)"
proof -
  have "find (\<lambda>r. rt_token_hash r = h \<and> rt_revoked_at r = None \<and> now < rt_expires_at r) (refresh_tokens d) = None"
    if "\<forall>r \<in> set (refresh_tokens d). rt_token_hash r \<noteq> h"
    using that by (simp add: find_None_ball)
  then show ?thesis
    using assms by (auto simp: insert_refresh_token_def valid_refresh_token_user_def result_simps find_append split: if_splits)
qed

lemma insert_linked_account_owner:
  assumes "insert_linked_account la d = Inr d'"
  shows "account_owner (la_provider la) (la_provider_user_id la) d' = Some (la_user_id la)"
  using assms
  by (auto simp: insert_linked_account_def account_owner_def find_append is_account_def split: if_splits)

lemma create_user_owner:
  assumes "create_user_and_link now u p pid nm d = Inr (u', d')"
  shows "u' = u \<and> account_owner p pid d' = Some u"
proof -
  obtain d1 d2 where la: "insert_linked_account \<lparr>la_provider = p, la_provider_user_id = pid, la_user_id = u,
      la_display_name = nm\<rparr> d1 = Inr d2"
    and d': "(if users d = [] then d2\<lparr>acl_grants := upsert_grant u [''*''] (acl_grants d2)\<rparr> else d2) = d'"
    and u': "u' = u"
    using assms unfolding create_user_and_link_eq_Inr by blast
  have "linked_accounts d' = linked_accounts d2" using d' by (auto split: if_splits)
  with insert_linked_account_owner [OF la] u' show ?thesis by (simp add: account_owner_def)
qed

lemma link_account_owner:
  assumes "link_account_to_user p pid u nm d = Inr d'"
  shows "account_owner p pid d' = Some u"
proof -
  obtain d1 where d': "d' = set_display_name p pid nm d1"
    and d1: "(case account_owner p pid d of
        Some o_id \<Rightarrow> if o_id \<noteq> u then merge_user o_id u d else Inr d
      | None \<Rightarrow> insert_linked_account \<lparr>la_provider = p, la_provider_user_id = pid, la_user_id = u, la_display_name = nm\<rparr> d) = Inr d1"
    using assms by (auto simp: link_account_to_user_def result_simps)
  show ?thesis
  proof (cases "account_owner p pid d")
    case None
    with d1 insert_linked_account_owner show ?thesis by (fastforce simp: d')
  next
    case (Some other)
    show ?thesis
    proof (cases "other = u")
      case False
      with Some d1 have "merge_user other u d = Inr d1" by simp
      from account_owner_repoint [OF merge_user_result(2) [OF this False]] Some show ?thesis by (simp add: d')
    qed (use Some d1 in \<open>simp add: d'\<close>)
  qed
qed

lemma callback_user_owner:
  assumes "callback_user L e p link pid nm s = (Inr u, s')"
  shows "account_owner p pid (idp_db s') = Some u"
proof (cases link)
  case (Some existing)
  with assms show ?thesis
    by (auto simp: callback_user_def act_simps db_write_def no_result_eq_Inr dest: link_account_owner split: prod.splits sum.splits)
next
  case None
  show ?thesis
  proof (cases "account_owner p pid (idp_db s)")
    case None
    with \<open>link = None\<close> assms show ?thesis
      by (auto simp: callback_user_def act_simps db_write_def db_read_def find_linked_account_def query_def
          dest: create_user_owner split: prod.splits sum.splits if_splits)
  next
    case (Some v)
    with \<open>link = None\<close> assms show ?thesis
      by (auto simp: callback_user_def act_simps db_read_def find_linked_account_def query_def split: prod.splits sum.splits if_splits option.splits)
  qed
qed

text \<open>A refresh token no row of which is still unrevoked.\<close>

definition spent :: "string \<Rightarrow> db \<Rightarrow> bool" where
  "spent h d = (\<forall>r \<in> set (refresh_tokens d). rt_token_hash r = h \<longrightarrow> rt_revoked_at r \<noteq> None)"

abbreviation spent_in :: "string \<Rightarrow> idp \<Rightarrow> bool" where
  "spent_in h s \<equiv> spent h (idp_db s)"

lemma spent_insert: "insert_refresh_token h' u x d = Inr d' \<Longrightarrow> h' \<noteq> h \<Longrightarrow> spent h d \<Longrightarrow> spent h d'"
  by (auto simp: insert_refresh_token_def spent_def result_simps split: if_splits)

lemma spent_revoke: "revoke_refresh_token now h' d = Inr d' \<Longrightarrow> h = h' \<or> spent h d \<Longrightarrow> spent h d'"
  by (auto simp: revoke_refresh_token_def spent_def result_simps)

lemma spent_create: "create_user_and_link now u p pid nm d = Inr (u', d') \<Longrightarrow> spent h d \<Longrightarrow> spent h d'"
  by (auto simp: create_user_and_link_eq_Inr insert_user_def insert_linked_account_def spent_def split: if_splits)

lemma spent_link: "link_account_to_user p pid u nm d = Inr d' \<Longrightarrow> spent h d \<Longrightarrow> spent h d'"
  by (auto simp: link_account_to_user_def merge_user_def repoint_accounts_def merge_grants_def delete_user_def
      delete_refresh_tokens_of_def insert_linked_account_def set_display_name_def spent_def Let_def result_simps
      split: option.splits if_splits)

lemma spent_token_issue: "l_hash L (e_refresh e) \<noteq> h \<Longrightarrow> keeps (spent_in h) (token_issue L app e u)"
  unfolding token_issue_def Let_def
  by (intro triple_intros keeps_db_write) (auto simp: result_simps intro: spent_insert)

lemma spent_token_refresh: "l_hash L (e_refresh e) \<noteq> h \<Longrightarrow> keeps (spent_in h) (token_refresh L app e raw)"
  unfolding token_refresh_def refresh_check_def refresh_commit_def
  by (intro triple_intros keeps_db_write spent_token_issue) (auto simp: result_simps intro: spent_revoke)

lemma spent_callback_finish: "l_hash L (e_refresh e) \<noteq> h \<Longrightarrow> keeps (spent_in h) (callback_finish L app e c p i)"
proof -
  assume h: "l_hash L (e_refresh e) \<noteq> h"
  have "keeps (spent_in h) (callback_user L e p link pid nm)" for link pid nm
    unfolding callback_user_def
    by (cases link) (auto intro!: triple_intros keeps_db_write simp: result_simps intro: spent_link
        elim!: spent_create split: option.splits)
  then show ?thesis
    unfolding callback_finish_def
    by (intro triple_intros spent_token_issue h) (auto intro!: triple_intros simp: insert_code_def split: option.splits)
qed

lemma spent_serve:
  assumes "l_hash L (e_refresh e) \<noteq> h" "spent_in h (fst x)"
  shows "spent_in h (fst (snd (serve L app e rq x)))"
proof (cases rq)
  case (CallbackReq p qs)
  have "spent_in h (snd (callback_handler L app e p qs (fst x)))"
    unfolding callback_handler_def snd_answer
    by (rule keepsD [where P = "spent_in h", OF _ assms(2)]) (intro triple_intros spent_callback_finish assms(1))
  then show ?thesis by (simp add: serve_def CallbackReq split_beta)
next
  case (RefreshReq t)
  have "spent_in h (snd (token_refresh L app e t (fst x)))" by (rule keepsD [OF spent_token_refresh]) (use assms in auto)
  then show ?thesis by (auto simp: serve_def RefreshReq refresh_handler_def split: prod.splits sum.splits)
qed (use assms(2) in \<open>auto simp: serve_def exchange_handler_def Let_def split: prod.splits option.splits\<close>)

lemma spent_serve_all:
  "\<forall>er \<in> set ers. l_hash L (e_refresh (fst er)) \<noteq> h \<Longrightarrow> spent_in h (fst x) \<Longrightarrow> spent_in h (fst (serve_all L app ers x))"
proof (induction ers arbitrary: x)
  case (Cons er ers)
  have "spent_in h (fst (snd (serve L app (fst er) (snd er) x)))" using Cons.prems by (intro spent_serve) auto
  then show ?case using Cons by simp
qed simp

lemma spent_refused:
  assumes "spent_in (l_hash L t) s"
  shows "refresh_handler L app e t s = (Status 401 ''invalid, expired, or already-used refresh token'', s)"
proof -
  have "find (\<lambda>r. rt_token_hash r = l_hash L t \<and> rt_revoked_at r = None \<and> e_now e < rt_expires_at r) (refresh_tokens (idp_db s)) = None"
    using assms by (auto simp: find_None_ball spent_def)
  then show ?thesis
    by (simp add: refresh_handler_def token_refresh_def refresh_check_def act_simps db_read_def valid_refresh_token_user_def query_def)
qed

lemma refresh_check_success:
  "refresh_check L e t s = (Inr u, s') \<longleftrightarrow>
    s' = s \<and> valid_refresh_token_user (e_now e) (l_hash L t) (idp_db s) = Inr (Some u)"
  by (auto simp: refresh_check_def act_simps db_read_def map_err_eq_Inr ok_or_eq_Inr split: prod.splits sum.splits)

lemma valid_token_row:
  "valid_refresh_token_user now h d = Inr (Some u) \<Longrightarrow> db_up d \<and> (\<exists>r \<in> set (refresh_tokens d). rt_token_hash r = h \<and> rt_user_id r = u)"
  by (auto simp: valid_refresh_token_user_def result_simps eq_commute [of "Some u"] dest: find_SomeD)

lemma revoke_hashes:
  "revoke_refresh_token now h d = Inr d' \<Longrightarrow> map rt_token_hash (refresh_tokens d') = map rt_token_hash (refresh_tokens d)"
  by (auto simp: revoke_refresh_token_def result_simps)

lemma revoke_keeps_rows:
  assumes "revoke_refresh_token now h d = Inr d'" "r \<in> set (refresh_tokens d)"
  obtains r' where "r' \<in> set (refresh_tokens d')" "rt_token_hash r' = rt_token_hash r"
  using arg_cong [OF revoke_hashes [OF assms(1)], of set] assms(2) by (metis (no_types, lifting) imageE image_eqI set_map)

text \<open>A successful refresh spends the token it was given: the row it revokes still holds the hash, so
  the fresh token has another.\<close>

lemma refresh_spends:
  assumes "token_refresh L app e t s = (Inr pair, s')"
  shows "spent_in (l_hash L t) s'"
proof -
  obtain u where u: "refresh_check L e t s = (Inr u, s)" and c: "refresh_commit L app e t u s = (Inr pair, s')"
    using assms by (auto simp: token_refresh_def act_simps refresh_check_success split: prod.splits sum.splits)
  then obtain d1 where d1: "revoke_refresh_token (e_now e) (l_hash L t) (idp_db s) = Inr d1"
    and i: "token_issue L app e u (s\<lparr>idp_db := d1\<rparr>) = (Inr pair, s')"
    by (auto simp: refresh_commit_def act_simps db_write_def no_result_def split: prod.splits sum.splits)
      (auto simp: result_simps)
  obtain r where r: "r \<in> set (refresh_tokens d1)" "rt_token_hash r = l_hash L t"
    using u valid_token_row revoke_keeps_rows [OF d1] unfolding refresh_check_success by metis
  have "spent (l_hash L t) d1" by (rule spent_revoke [OF d1]) simp
  moreover obtain x d2 where ins: "insert_refresh_token (l_hash L (e_refresh e)) u x d1 = Inr d2" "s' = s\<lparr>idp_db := d2\<rparr>"
    using i unfolding token_issue_success by auto
  moreover have "l_hash L (e_refresh e) \<noteq> l_hash L t"
    using ins(1) r by (auto simp: insert_refresh_token_def result_simps split: if_splits)
  ultimately show ?thesis by (auto intro: spent_insert)
qed

lemma refresh_commit_succeeds:
  assumes "db_up (idp_db s)" "has_user u (idp_db s)" "l_hash L (e_refresh e) \<notin> rt_token_hash ` set (refresh_tokens (idp_db s))"
    and "\<And>n c. is_ok (l_sign_access L n c)"
  obtains p s' where "refresh_commit L app e t u s = (Inr p, s')" "tp_refresh_token p = e_refresh e" "db_up (idp_db s')"
    "\<forall>y. has_user y (idp_db s') = has_user y (idp_db s)"
    "rt_token_hash ` set (refresh_tokens (idp_db s')) \<subseteq> insert (l_hash L (e_refresh e)) (rt_token_hash ` set (refresh_tokens (idp_db s)))"
proof -
  obtain d where d: "revoke_refresh_token (e_now e) (l_hash L t) (idp_db s) = Inr d"
    using assms(1) by (simp add: revoke_refresh_token_def)
  have up: "db_up d" "\<And>y. has_user y d = has_user y (idp_db s)"
    using d assms(1) by (auto simp: revoke_refresh_token_def result_simps)
  have hs: "rt_token_hash ` set (refresh_tokens d) = rt_token_hash ` set (refresh_tokens (idp_db s))"
    using arg_cong [OF revoke_hashes [OF d], of set] by simp
  define x where "x = e_now e + seconds (REFRESH_TOKEN_TTL_DAYS * 86400)"
  define d' where "d' = d\<lparr>refresh_tokens := refresh_tokens d @
    [\<lparr>rt_token_hash = l_hash L (e_refresh e), rt_user_id = u, rt_expires_at = x, rt_revoked_at = None\<rparr>]\<rparr>"
  have "\<not> (\<exists>r \<in> set (refresh_tokens d). rt_token_hash r = l_hash L (e_refresh e))"
    using assms(3) hs by (metis imageI)
  then have ins: "insert_refresh_token (l_hash L (e_refresh e)) u x d = Inr d'"
    using up assms(2) by (simp add: insert_refresh_token_def d'_def)
  obtain a where a: "l_sign_access L (e_nonce e) \<lparr>ac_sub = u, ac_iss = app_issuer app, ac_aud = app_audience app,
      ac_exp = timestamp (e_now e + seconds ACCESS_TOKEN_TTL_SECS), ac_iat = timestamp (e_now e)\<rparr> = Inr a"
    using assms(4) unfolding is_ok_iff by blast
  define p where "p = \<lparr>tp_access_token = a, tp_refresh_token = e_refresh e, tp_expires_in = ACCESS_TOKEN_TTL_SECS\<rparr>"
  have p: "token_issue L app e u (s\<lparr>idp_db := d\<rparr>) = (Inr p, s\<lparr>idp_db := d'\<rparr>)" "tp_refresh_token p = e_refresh e"
    unfolding token_issue_success using a ins [unfolded x_def] by (simp_all add: p_def)
  show ?thesis
  proof (rule that)
    show "refresh_commit L app e t u s = (Inr p, s\<lparr>idp_db := d'\<rparr>)"
      by (simp add: refresh_commit_def act_simps db_write_def no_result_def d p(1))
  qed (use p(2) up hs in \<open>simp_all add: d'_def\<close>)
qed

section \<open>Properties\<close>

text \<open>C26: refresh tokens are rotated. Once a refresh has succeeded, the token it was given is refused
  for good, whatever requests are served in between, as long as no later random token has its hash.\<close>

theorem refresh_token_is_single_use:
  assumes "refresh_handler L app e t s = (TokensJson pair, s1)"
    and "\<forall>er \<in> set ers. l_hash L (e_refresh (fst er)) \<noteq> l_hash L t"
  shows "fst (refresh_handler L app e' t (fst (serve_all L app ers (s1, issued))))
    = Status 401 ''invalid, expired, or already-used refresh token''"
proof -
  have "token_refresh L app e t s = (Inr pair, s1)"
    using assms(1) by (auto simp: refresh_handler_def split: prod.splits sum.splits)
  from spent_serve_all [OF assms(2), of "(s1, issued)"] refresh_spends [OF this] show ?thesis
    by (simp add: spent_refused)
qed

text \<open>An unused refresh token can be used twice at once. When two requests both read it as valid
  before either revokes it, both commit and the one token has become two.\<close>

theorem concurrent_refresh_forks:
  assumes "refresh_check L e1 t s = (Inr u, s)" "refresh_check L e2 t s = (Inr v, s)" "db_wf (idp_db s)"
    and "\<And>n c. is_ok (l_sign_access L n c)"
    and "l_hash L (e_refresh e1) \<noteq> l_hash L (e_refresh e2)"
    and "l_hash L (e_refresh e1) \<notin> rt_token_hash ` set (refresh_tokens (idp_db s))"
    and "l_hash L (e_refresh e2) \<notin> rt_token_hash ` set (refresh_tokens (idp_db s))"
  shows "\<exists>p1 p2 s1 s2. refresh_commit L app e1 t u s = (Inr p1, s1) \<and> refresh_commit L app e2 t v s1 = (Inr p2, s2)
    \<and> tp_refresh_token p1 = e_refresh e1 \<and> tp_refresh_token p2 = e_refresh e2"
proof -
  have up: "db_up (idp_db s)" "has_user u (idp_db s)" "has_user v (idp_db s)"
    using assms(1-3) valid_token_row unfolding refresh_check_success db_wf_def by blast+
  obtain p1 s1 where c1: "refresh_commit L app e1 t u s = (Inr p1, s1)" "tp_refresh_token p1 = e_refresh e1" "db_up (idp_db s1)"
      "\<forall>y. has_user y (idp_db s1) = has_user y (idp_db s)"
      "rt_token_hash ` set (refresh_tokens (idp_db s1)) \<subseteq> insert (l_hash L (e_refresh e1)) (rt_token_hash ` set (refresh_tokens (idp_db s)))"
    by (rule refresh_commit_succeeds [OF up(1,2) assms(6,4)]) blast
  have "has_user v (idp_db s1)" "l_hash L (e_refresh e2) \<notin> rt_token_hash ` set (refresh_tokens (idp_db s1))"
    using c1(4,5) up(3) assms(5,7) by auto
  then obtain p2 s2 where "refresh_commit L app e2 t v s1 = (Inr p2, s2)" "tp_refresh_token p2 = e_refresh e2"
    by (rule refresh_commit_succeeds [OF c1(3) _ _ assms(4)])
  with c1 show ?thesis by blast
qed

lemma issued_redirects_checked:
  "id_reach L app x \<Longrightarrow> (t, c) \<in> set (snd x) \<Longrightarrow> sc_redirect_uri c = Some uri \<Longrightarrow>
    check_redirect_uri L uri (app_allowed_redirect_origins app) = Inr ()"
proof (induction rule: id_reach.induct)
  case (id_serve x e rq)
  then show ?case
    by (cases rq) (auto simp: serve_def start_handler_def state_issue_def Let_def result_simps split: prod.splits sum.splits)
qed simp

lemma checked_redirect:
  assumes "check_redirect_uri L uri origins = Inr ()"
  shows "\<exists>parsed. l_url_parse L uri = Some parsed
    \<and> (url_host parsed = Some (Domain ''localhost'') \<or> (\<exists>ip. url_host parsed = Some (Ipv4 ip) \<and> drop_bit 24 ip = 127)
       \<or> url_host parsed = Some (Ipv6 1) \<or> (\<exists>origin. url_origin parsed = Some origin \<and> origin \<in> set origins))"
proof -
  obtain parsed where parsed: "l_url_parse L uri = Some parsed"
    using assms by (cases "l_url_parse L uri") (auto simp: check_redirect_uri_def)
  then have "host_is_loopback (url_host parsed) \<or> (\<exists>origin. url_origin parsed = Some origin \<and> origin \<in> set origins)"
    using assms by (cases "url_origin parsed") (auto simp: check_redirect_uri_def ensure_def origin_of_def split: if_splits)
  then show ?thesis
    using parsed by (auto simp: host_is_loopback_def split: option.splits url_host.splits)
qed

text \<open>C28: The redirect that ends a browser login goes to a URL whose host is \<open>localhost\<close>, an IPv4 loopback
  address (127.x.x.x) or \<open>::1\<close>, or whose origin is one of the configured ones, and carries a one-time code,
  in every run in which state tokens are not forged.\<close>

theorem callback_redirects_where_allowed:
  assumes "id_reach L app (s, issued)" "unforged L e (CallbackReq p qs) issued"
    and "callback_handler L app e p qs s = (RedirectTo u, s')"
  shows "\<exists>uri sep parsed. u = uri @ [sep] @ ''code='' @ l_urlencode L (e_code e) \<and> l_url_parse L uri = Some parsed
    \<and> (url_host parsed = Some (Domain ''localhost'') \<or> (\<exists>ip. url_host parsed = Some (Ipv4 ip) \<and> drop_bit 24 ip = 127)
       \<or> url_host parsed = Some (Ipv6 1)
       \<or> (\<exists>origin. url_origin parsed = Some origin \<and> origin \<in> set (app_allowed_redirect_origins app)))"
proof -
  obtain t c i where c: "map_of qs ''state'' = Some t" "l_decode_state L STATE_AUDIENCE (timestamp (e_now e)) t = Some c"
    and fin: "callback_finish L app e c p i s = (Inr (RedirectTo u), s')"
    by (rule callback_success [OF assms(3)]) auto
  obtain uri where uri: "sc_redirect_uri c = Some uri"
      "u = uri @ [if CHR ''?'' \<in> set uri then CHR ''&'' else CHR ''?''] @ ''code='' @ l_urlencode L (e_code e)"
    using callback_finish_success [of L app e c p "fst i" "snd i" s] fin by (metis prod.collapse response.distinct(29) response.inject(6))
  have "(t, c) \<in> set issued" using assms(2) c by (simp add: unforged_def)
  then have "check_redirect_uri L uri (app_allowed_redirect_origins app) = Inr ()"
    using issued_redirects_checked [OF assms(1), of t c uri] uri(1) by simp
  from checked_redirect [OF this] uri(2) show ?thesis by blast
qed

text \<open>C27: the tokens of a login are those of the user who owns the proved account: after a callback that
  answers with tokens, or with a code that stands for them, the account belongs to some user and the
  refresh token is valid for exactly that user.\<close>

theorem tokens_belong_to_the_proved_account:
  assumes "callback_handler L app e p qs s = (r, s')" "\<forall>n m. r \<noteq> Status n m"
  shows "\<exists>pid nm u pair. callback_identity L app p qs = Inr (pid, nm)
    \<and> account_owner p pid (idp_db s') = Some u
    \<and> valid_refresh_token_user (e_now e) (l_hash L (tp_refresh_token pair)) (idp_db s') = Inr (Some u)
    \<and> (r = TokensJson pair
      \<or> (\<exists>url. r = RedirectTo url) \<and> map_option xe_tokens (map_of (exchange_codes s') (e_code e)) = Some pair)"
proof -
  obtain t c pid nm where i: "callback_identity L app p qs = Inr (pid, nm)"
    and fin: "callback_finish L app e c p (pid, nm) s = (Inr r, s')"
    by (rule callback_success [OF assms]) auto
  obtain u pair s1 s2 where cu: "callback_user L e p (sc_link_user_id c) pid nm s = (Inr u, s1)"
    and ti: "token_issue L app e u s1 = (Inr pair, s2)" and db: "idp_db s' = idp_db s2"
    and r: "r = TokensJson pair
      \<or> (\<exists>url. r = RedirectTo url) \<and> map_option xe_tokens (map_of (exchange_codes s') (e_code e)) = Some pair"
    by (rule callback_finish_success [OF fin]) (auto simp: insert_code_def update_conv')
  obtain d' where ins: "insert_refresh_token (l_hash L (e_refresh e)) u (e_now e + seconds (REFRESH_TOKEN_TTL_DAYS * 86400)) (idp_db s1) = Inr d'"
    and d': "idp_db s2 = d'" "tp_refresh_token pair = e_refresh e"
    using ti unfolding token_issue_success by auto
  have "account_owner p pid (idp_db s1) = Some u" by (rule callback_user_owner [OF cu])
  moreover have "linked_accounts d' = linked_accounts (idp_db s1)"
    using ins by (auto simp: insert_refresh_token_def result_simps split: if_splits)
  moreover have "valid_refresh_token_user (e_now e) (l_hash L (e_refresh e)) d' = Inr (Some u)"
    by (rule insert_refresh_token_valid [OF ins]) (simp add: REFRESH_TOKEN_TTL_DAYS_def)
  ultimately have "account_owner p pid (idp_db s') = Some u"
      "valid_refresh_token_user (e_now e) (l_hash L (tp_refresh_token pair)) (idp_db s') = Inr (Some u)"
    using db d' by (simp_all add: account_owner_def)
  with i r show ?thesis by blast
qed

text \<open>A link URL takes over whoever follows it. The state a user obtains for linking names that user
  only; when somebody else completes the login with it, their account is merged into the first user,
  who gains every scope they held, and their own user is gone.\<close>

theorem link_state_takes_over_account:
  assumes "start_handler L app e ''steam'' qs0 authorization = (UrlJson link_url, [(t, c)])"
    and "verify_bearer L app e authorization = Some u"
    and "l_jwk_ok L" "l_decode_state L STATE_AUDIENCE (timestamp (e_now e')) t = Some c"
    and "map_of qs ''state'' = Some t" "steam_verify L qs = Inr sid"
    and "db_up (idp_db s)" "has_user u (idp_db s)" "account_owner ''steam'' sid (idp_db s) = Some victim" "victim \<noteq> u"
  shows "let d' = idp_db (snd (callback_handler L app e' ''steam'' qs s)) in
    set (granted u d') = set (granted u (idp_db s)) \<union> set (granted victim (idp_db s)) \<and> \<not> has_user victim d'"
proof -
  have c: "sc_provider c = ''steam''" "sc_link_user_id c = Some u"
    using assms(1,2) by (auto simp: start_handler_def state_issue_def Let_def result_simps split: prod.splits sum.splits)
  obtain d1 where d1: "link_account_to_user ''steam'' sid u sid (idp_db s) = Inr d1"
      "set (granted u d1) = set (granted u (idp_db s)) \<union> set (granted victim (idp_db s))" "\<not> has_user victim d1"
    using link_merges [OF assms(7-10)] by metis
  have user: "callback_user L e' ''steam'' (sc_link_user_id c) sid sid s = (Inr u, s\<lparr>idp_db := d1\<rparr>)"
    by (simp add: callback_user_def c act_simps db_write_def no_result_def d1(1))
  have rest: "granted u (idp_db (snd (token_issue L app e' u x))) = granted u (idp_db x)
      \<and> has_user v (idp_db (snd (token_issue L app e' u x))) = has_user v (idp_db x)" for x v
    by (auto simp: token_issue_def Let_def act_simps db_write_def no_result_def insert_refresh_token_def granted_def
        split: sum.splits)
      (auto simp: result_simps split: if_splits)
  have "idp_db (snd (callback_handler L app e' ''steam'' qs s)) = idp_db (snd (token_issue L app e' u (s\<lparr>idp_db := d1\<rparr>)))"
    by (auto simp: callback_handler_def act_simps state_verify_def assms(3-6) c(1) callback_identity_def
        callback_finish_def user insert_code_def split: prod.splits sum.splits option.splits)
  with rest [of "s\<lparr>idp_db := d1\<rparr>"] d1(2,3) show ?thesis by (simp add: Let_def)
qed

text \<open>All replicas sign with one key. Once a replica has started with a key, any replica that starts
  later, or that had found no key and stores its own only now, ends up with that same key.\<close>

theorem signing_key_converges:
  assumes "load_or_create txt gen1 Inr d = (Inr k, d1)" "db_steps d1 d2"
  shows "fst (load_or_create txt gen2 Inr d2) \<in> {Inr k, Inl (txt DbUnavailable)}
    \<and> (\<forall>k' k2 d3. insert_signing_key_if_absent k' d2 = Inr (k2, d3) \<longrightarrow> k2 = k)"
proof -
  have "signing_keys d1 = Some k"
    using assms(1) by (auto simp: load_or_create_def get_signing_key_def insert_signing_key_if_absent_def Let_def query_def
        split: sum.splits option.splits if_splits)
  from steps_signing_key_kept [OF assms(2) this] show ?thesis
    by (auto simp: load_or_create_def get_signing_key_def insert_signing_key_if_absent_def Let_def query_def)
qed

section \<open>Examples\<close>

text \<open>A world in which the state token \<open>st\<close> carries the given claims, the bearer token \<open>a2\<close> is user
  \<open>u2\<close>'s, and Steam confirms every assertion.\<close>

definition demo_claims :: "uuid option \<Rightarrow> string option \<Rightarrow> state_claims" where
  "demo_claims link uri = \<lparr>sc_aud = STATE_AUDIENCE, sc_exp = 600, sc_provider = ''steam'', sc_link_user_id = link, sc_redirect_uri = uri\<rparr>"

definition demo_lib :: "state_claims \<Rightarrow> id_lib" where
  "demo_lib c = \<lparr>l_jwk_ok = True, l_sign_access = (\<lambda>n a. Inr (n @ ac_sub a)), l_sign_state = (\<lambda>n _. Inr n),
     l_decode_access = (\<lambda>_ _ _ t. if t = ''a2'' then Some ''u2'' else None),
     l_decode_state = (\<lambda>_ _ t. if t = ''st'' then Some c else None), l_hash = (\<lambda>t. t), l_parse_uuid = Some,
     l_url_parse = (\<lambda>_. Some \<lparr>url_host = Some (Ipv6 1), url_origin = None\<rparr>), l_urlencode = (\<lambda>t. t),
     l_url_with_query = (\<lambda>u _. u), l_authorize_url = (\<lambda>_ u _ _. u), l_steam_post = (\<lambda>_. Inr ''is_valid:true''),
     l_exchange_code = (\<lambda>_ _ _. Inl ''x''), l_userinfo = (\<lambda>_ _. Inl ''x''), l_db_text = (\<lambda>_. ''db'')\<rparr>"

definition demo_app :: app_config where
  "demo_app = \<lparr>app_base_url = ''b'', app_allowed_redirect_origins = [], app_issuer = ''i'', app_audience = ''a'', app_oauth_providers = []\<rparr>"

definition demo_env :: "string \<Rightarrow> id_env" where
  "demo_env r = \<lparr>e_now = 0, e_uuid = ''u9'', e_nonce = ''st'', e_refresh = r, e_code = ''code''\<rparr>"

definition demo_idp :: idp where
  "demo_idp = \<lparr>idp_db = two_users_db\<lparr>refresh_tokens :=
      [\<lparr>rt_token_hash = ''t0'', rt_user_id = ''u1'', rt_expires_at = 9, rt_revoked_at = None\<rparr>]\<rparr>, exchange_codes = []\<rparr>"

definition demo_query :: "(string, string) hashmap" where
  "demo_query = [(''state'', ''st''), (''openid.claimed_id'', ''x/7'')]"

lemmas id_eval = demo_lib_def demo_app_def demo_env_def demo_idp_def two_users_db_def empty_db_def demo_query_def demo_claims_def
  act_simps db_write_def db_read_def no_result_def has_user_def

lemma demo_steam: "steam_verify (demo_lib c) demo_query = Inr ''7''"
  by (simp add: steam_verify_def demo_lib_def demo_query_def str_lines_def strip_cr_def trim_def is_ws_def is_digit_def Let_def)

lemma demo_refresh_check: "refresh_check (demo_lib c) (demo_env r) ''t0'' demo_idp = (Inr ''u1'', demo_idp)"
  by (simp add: refresh_check_success valid_refresh_token_user_def id_eval)

lemma demo_db_wf: "db_wf (idp_db demo_idp)"
  by (simp add: db_wf_def id_eval account_key_def)

theorem refresh_token_is_single_use_witness:
  "\<exists>pair s1. refresh_handler (demo_lib (demo_claims None None)) demo_app (demo_env ''t1'') ''t0'' demo_idp = (TokensJson pair, s1)
     \<and> fst (refresh_handler (demo_lib (demo_claims None None)) demo_app (demo_env ''t3'') ''t0''
         (fst (serve_all (demo_lib (demo_claims None None)) demo_app [(demo_env ''t2'', RefreshReq ''t1'')] (s1, []))))
       = Status 401 ''invalid, expired, or already-used refresh token''"
proof -
  obtain pair s1 where run: "refresh_handler (demo_lib (demo_claims None None)) demo_app (demo_env ''t1'') ''t0'' demo_idp = (TokensJson pair, s1)"
    by (simp add: refresh_handler_def token_refresh_def act_simps demo_refresh_check)
       (simp add: refresh_commit_def token_issue_def Let_def revoke_refresh_token_def insert_refresh_token_def id_eval)
  have "\<forall>er \<in> set [(demo_env ''t2'', RefreshReq ''t1'')]. l_hash (demo_lib (demo_claims None None)) (e_refresh (fst er)) \<noteq> l_hash (demo_lib (demo_claims None None)) ''t0''"
    by (simp add: demo_env_def demo_lib_def)
  from refresh_token_is_single_use [OF run this, of "demo_env ''t3''" "[]"] run show ?thesis by blast
qed

theorem concurrent_refresh_forks_witness:
  "\<exists>p1 p2 s1 s2. refresh_commit (demo_lib (demo_claims None None)) demo_app (demo_env ''t1'') ''t0'' ''u1'' demo_idp = (Inr p1, s1)
     \<and> refresh_commit (demo_lib (demo_claims None None)) demo_app (demo_env ''t2'') ''t0'' ''u1'' s1 = (Inr p2, s2)
     \<and> tp_refresh_token p1 = ''t1'' \<and> tp_refresh_token p2 = ''t2''"
proof -
  have "l_hash (demo_lib (demo_claims None None)) (e_refresh (demo_env ''t1'')) \<noteq> l_hash (demo_lib (demo_claims None None)) (e_refresh (demo_env ''t2''))"
    "l_hash (demo_lib (demo_claims None None)) (e_refresh (demo_env ''t1'')) \<notin> rt_token_hash ` set (refresh_tokens (idp_db demo_idp))"
    "l_hash (demo_lib (demo_claims None None)) (e_refresh (demo_env ''t2'')) \<notin> rt_token_hash ` set (refresh_tokens (idp_db demo_idp))"
    "\<And>n a. is_ok (l_sign_access (demo_lib (demo_claims None None)) n a)"
    by (simp_all add: id_eval)
  from concurrent_refresh_forks [OF demo_refresh_check demo_refresh_check demo_db_wf this(4,1-3), of demo_app]
  show ?thesis by (simp add: demo_env_def)
qed

theorem tokens_belong_to_the_proved_account_witness:
  "\<exists>pair s'. callback_handler (demo_lib (demo_claims None None)) demo_app (demo_env ''t1'') ''steam'' demo_query demo_idp = (TokensJson pair, s')
     \<and> valid_refresh_token_user 0 (tp_refresh_token pair) (idp_db s') = Inr (account_owner ''steam'' ''7'' (idp_db s'))"
proof -
  let ?L = "demo_lib (demo_claims None None)"
  have id: "callback_identity ?L demo_app ''steam'' demo_query = Inr (''7'', ''7'')"
    by (simp add: callback_identity_def demo_steam)
  obtain pair s' where run: "callback_handler ?L demo_app (demo_env ''t1'') ''steam'' demo_query demo_idp = (TokensJson pair, s')"
    by (simp add: callback_handler_def answer_def act_simps id)
       (simp add: state_verify_def callback_finish_def callback_user_def find_linked_account_def account_owner_def is_account_def
          token_issue_def Let_def insert_refresh_token_def id_eval)
  from tokens_belong_to_the_proved_account [OF run] obtain u where
    "account_owner ''steam'' ''7'' (idp_db s') = Some u"
    "valid_refresh_token_user (e_now (demo_env ''t1'')) (l_hash ?L (tp_refresh_token pair)) (idp_db s') = Inr (Some u)"
    using id by auto
  with run show ?thesis by (simp add: demo_lib_def demo_env_def)
qed

theorem callback_redirects_where_allowed_witness:
  "\<exists>u s'. callback_handler (demo_lib (demo_claims None (Some ''cb''))) demo_app (demo_env ''t1'') ''steam'' demo_query
       \<lparr>idp_db = empty_db, exchange_codes = []\<rparr> = (RedirectTo u, s')
     \<and> (\<exists>uri sep. u = uri @ [sep] @ ''code='' @ l_urlencode (demo_lib (demo_claims None (Some ''cb''))) (e_code (demo_env ''t1'')))"
proof -
  let ?L = "demo_lib (demo_claims None (Some ''cb''))"
  let ?s = "\<lparr>idp_db = empty_db, exchange_codes = []\<rparr>"
  let ?start = "StartReq ''steam'' [(''redirect_uri'', ''cb'')] None"
  have check: "check_redirect_uri ?L ''cb'' [] = Inr ()"
    by (simp add: check_redirect_uri_def demo_lib_def host_is_loopback_def)
  have start: "snd (serve ?L demo_app (demo_env ''t1'') ?start (?s, [])) = (?s, [(''st'', demo_claims None (Some ''cb''))])"
    using check by (simp add: serve_def start_handler_def state_issue_def verify_bearer_def Let_def demo_app_def demo_env_def
        demo_claims_def timestamp_def STATE_TTL_SECS_def) (simp add: demo_lib_def)
  have reach: "id_reach ?L demo_app (?s, [(''st'', demo_claims None (Some ''cb''))])"
    using id_serve [OF id_init [OF reach_empty], of ?L "demo_env ''t1''" ?start demo_app] unfolding start by (simp add: unforged_def)
  have unforged: "unforged ?L (demo_env ''t1'') (CallbackReq ''steam'' demo_query) [(''st'', demo_claims None (Some ''cb''))]"
    by (simp add: unforged_def demo_query_def demo_lib_def)
  have id: "callback_identity ?L demo_app ''steam'' demo_query = Inr (''7'', ''7'')"
    by (simp add: callback_identity_def demo_steam)
  obtain u s' where run: "callback_handler ?L demo_app (demo_env ''t1'') ''steam'' demo_query ?s = (RedirectTo u, s')"
    by (simp add: callback_handler_def answer_def act_simps id)
       (simp add: state_verify_def callback_finish_def callback_user_def find_linked_account_def account_owner_def
          create_user_and_link_def insert_user_def insert_linked_account_def token_issue_def Let_def insert_refresh_token_def id_eval)
  from callback_redirects_where_allowed [OF reach unforged run] run show ?thesis by blast
qed

theorem link_state_takes_over_account_witness:
  "set (granted ''u2'' (idp_db (snd (callback_handler (demo_lib (demo_claims (Some ''u2'') None)) demo_app (demo_env ''t1'') ''steam''
      demo_query demo_idp)))) = {''servers:read'', ''*''}"
proof -
  let ?L = "demo_lib (demo_claims (Some ''u2'') None)"
  have bearer: "verify_bearer ?L demo_app (demo_env ''t1'') (Some ''Bearer a2'') = Some ''u2''"
    by (simp add: verify_bearer_def header_to_str_def strip_prefix_def demo_lib_def)
  have start: "start_handler ?L demo_app (demo_env ''t1'') ''steam'' [] (Some ''Bearer a2'') =
      (UrlJson STEAM_OPENID_URL, [(''st'', demo_claims (Some ''u2'') None)])"
    by (simp add: start_handler_def bearer state_issue_def Let_def)
       (simp add: login_url_def demo_lib_def demo_env_def demo_claims_def timestamp_def STATE_TTL_SECS_def)
  have "l_jwk_ok ?L" "l_decode_state ?L STATE_AUDIENCE (timestamp (e_now (demo_env ''t1''))) ''st'' = Some (demo_claims (Some ''u2'') None)"
    "map_of demo_query ''state'' = Some ''st''" "db_up (idp_db demo_idp)" "has_user ''u2'' (idp_db demo_idp)"
    "account_owner ''steam'' ''7'' (idp_db demo_idp) = Some ''u1''" "''u1'' \<noteq> ''u2''"
    by (simp_all add: id_eval account_owner_def is_account_def)
  from link_state_takes_over_account [OF start bearer this(1-3) demo_steam this(4-7)] show ?thesis
    by (simp add: Let_def demo_idp_def two_users_db_def granted_def) blast
qed

theorem signing_key_converges_witness:
  "\<exists>d1. load_or_create (\<lambda>_. ''db'') (Inr [1]) Inr empty_db = (Inr [1], d1)
     \<and> fst (load_or_create (\<lambda>_. ''db'') (Inr [2]) Inr d1) \<in> {Inr [1], Inl ''db''}"
proof -
  obtain d1 where run: "load_or_create (\<lambda>_. ''db'') (Inr [1]) Inr empty_db = (Inr [1], d1)"
    by (simp add: load_or_create_def get_signing_key_def insert_signing_key_if_absent_def empty_db_def)
  from signing_key_converges [OF run rtranclp.rtrancl_refl] run show ?thesis by blast
qed

end
