(* ===== verification/ModSources.thy ===== *)
theory ModSources
  imports Gateway WorkshopParse RegistryDb "HOL-Library.Product_Lexorder" "HOL-Library.Multiset"
begin

text \<open>
  \<open>ModSourceService\<close> of the registry (\<open>services/registry/src/service/mod_source.rs\<close> and
  \<open>preset_export.rs\<close>) and the part of \<open>storage.rs\<close> that holds uploaded mods. The state is the stored
  \<open>ModSource\<close> objects and the tree of the local-content volume. Reading a zip archive, the sync
  daemon's answers, fresh UUIDs and \<open>str::to_lowercase\<close> are parameters. An error of the volume itself
  (a full disk, say) and the creation time of an object are not modelled.
\<close>

section \<open>The local-content volume\<close>

datatype node = FileNode string | DirNode "(string \<times> node) list"

definition validate_path_component :: "string \<Rightarrow> string + unit" where
  "validate_path_component s =
    ensure (\<not> (s = [] \<or> CHR ''/'' \<in> set s \<or> CHR 0x5C \<in> set s \<or> s = ''.'' \<or> s = ''..'')) (''invalid identifier: '' @ s)"

definition has_file :: "string \<Rightarrow> (string \<times> node) list \<Rightarrow> bool" where
  "has_file n es = (case map_of es n of Some (FileNode _) \<Rightarrow> True | _ \<Rightarrow> False)"

text \<open>Moving the entries of the wrapper folder \<open>w\<close> up beside it: an entry named like the wrapper cannot
  replace the folder it is still in.\<close>

fun flatten_wrapper :: "string \<Rightarrow> (string \<times> node) list \<Rightarrow> (string \<times> node) list \<Rightarrow> (string + unit) \<times> (string \<times> node) list" where
  "flatten_wrapper w [] moved = (Inr (), moved)"
| "flatten_wrapper w ((n, t) # rest) moved =
     (if n = w then (Inl ''Directory not empty'', (w, DirNode ((n, t) # rest)) # moved)
      else flatten_wrapper w rest (moved @ [(n, t)]))"

text \<open>\<open>unzip\<close> gives the outcome of reading and extracting an archive into an empty directory, and what
  the directory holds afterwards.\<close>

definition extract_local_mod :: "(string \<Rightarrow> (string + unit) \<times> (string \<times> node) list) \<Rightarrow> string \<Rightarrow> string
    \<Rightarrow> (string \<times> node) list \<Rightarrow> (string + unit) \<times> (string \<times> node) list" where
  "extract_local_mod unzip unique_id zip_bytes mods =
    (case validate_path_component unique_id of
       Inl e \<Rightarrow> (Inl e, mods)
     | Inr _ \<Rightarrow>
         (case unzip zip_bytes of
            (Inl e, es) \<Rightarrow> (Inl e, AList.update unique_id (DirNode es) mods)
          | (Inr _, es) \<Rightarrow>
              (if has_file ''mod.cpp'' es then (Inr (), AList.update unique_id (DirNode es) mods)
               else case es of
                 [(w, DirNode cs)] \<Rightarrow>
                   (if has_file ''mod.cpp'' cs
                    then (case flatten_wrapper w cs [] of (r, es') \<Rightarrow> (r, AList.update unique_id (DirNode es') mods))
                    else (Inl ''extracted archive has no mod.cpp at its root or in a single wrapping folder'',
                          AList.update unique_id (DirNode es) mods))
               | _ \<Rightarrow> (Inl ''extracted archive has no mod.cpp at its root or in a single wrapping folder'',
                        AList.update unique_id (DirNode es) mods))))"

fun node_size :: "node \<Rightarrow> nat" where
  "node_size (FileNode bytes) = length bytes"
| "node_size (DirNode es) = sum_list (map (node_size \<circ> snd) es)"

definition local_mod_size :: "string \<Rightarrow> (string \<times> node) list \<Rightarrow> u64" where
  "local_mod_size unique_id mods = (case map_of mods unique_id of Some t \<Rightarrow> of_nat (node_size t) | None \<Rightarrow> 0)"

definition delete_local_mod :: "string \<Rightarrow> (string \<times> node) list \<Rightarrow> (string + unit) \<times> (string \<times> node) list" where
  "delete_local_mod unique_id mods =
    (case validate_path_component unique_id of
       Inl e \<Rightarrow> (Inl e, mods)
     | Inr _ \<Rightarrow> (Inr (), AList.delete unique_id mods))"

section \<open>The service\<close>

record reg = kube +
  rg_local_mods :: "(string \<times> node) list"

type_synonym ('z, 'a) reg_act = "('z reg_scheme, connect_error, 'a) act"

datatype source_kind = KindUnspecified | KindMod | KindCollection | KindLocal | KindPreset

record mod_source_info =
  mi_source_id :: string
  mi_kind :: source_kind
  mi_reference :: string
  mi_display_name :: string
  mi_size_bytes :: u64
  mi_source_metadata :: "(string, string) hashmap"

definition reference_for :: "mod_source_input \<Rightarrow> string" where
  "reference_for i = (case i of
      SteamUrl url \<Rightarrow> url | HtmlUrl url \<Rightarrow> url | HtmlContent _ \<Rightarrow> ''(uploaded HTML)'' | Local unique_id \<Rightarrow> unique_id)"

definition kind_str_to_proto :: "string \<Rightarrow> source_kind" where
  "kind_str_to_proto k =
    (if k = ''mod'' then KindMod else if k = ''collection'' then KindCollection else if k = ''local'' then KindLocal
     else if k = ''preset'' then KindPreset else KindUnspecified)"

text \<open>The registry's copy of the gateway's metadata check.\<close>

definition source_metadata_to_annotations :: "(string \<times> string) list \<Rightarrow> connect_error + (string \<times> string) list" where
  "source_metadata_to_annotations entries = metadata_loop [] entries"

definition source_status :: "mod_source \<Rightarrow> mod_source_status" where
  "source_status obj = (case src_status obj of Some st \<Rightarrow> st | None \<Rightarrow> mod_source_status_default)"

definition source_metadata :: "(string, string) hashmap \<Rightarrow> (string, string) hashmap" where
  "source_metadata ann = List.map_filter (\<lambda>(k, v). map_option (\<lambda>k'. (k', v)) (strip_prefix k METADATA_PREFIX)) ann"

definition to_mod_source_info :: "mod_source \<Rightarrow> mod_source_info" where
  "to_mod_source_info obj =
    \<lparr>mi_source_id = src_name obj, mi_kind = kind_str_to_proto (ms_kind (source_status obj)),
     mi_reference = reference_for (src_input obj), mi_display_name = ms_display_name (source_status obj),
     mi_size_bytes = ms_size_bytes (source_status obj), mi_source_metadata = source_metadata (src_annotations obj)\<rparr>"

definition kube_internal :: "kube_error \<Rightarrow> connect_error" where
  "kube_internal e = Internal (kube_text e)"

definition source_annotation_patch :: "mod_source \<Rightarrow> (string \<times> string) list \<Rightarrow> (string \<times> string option) list" where
  "source_annotation_patch existing wanted =
    map (\<lambda>k. (k, None)) (filter (\<lambda>k. starts_with k METADATA_PREFIX \<and> k \<notin> set (map fst wanted)) (map fst (src_annotations existing)))
    @ map (\<lambda>(k, v). (k, Some v)) wanted"

definition set_mod_source_metadata :: "string \<Rightarrow> (string, string) hashmap \<Rightarrow> ('z, mod_source_info) reg_act" where
  "set_mod_source_metadata i md =
    act_bind (act_map_err (\<lambda>_. NotFound (''no such mod source: '' @ i)) (api_get k_sources src_name i)) (\<lambda>existing.
    act_bind (lift_res (source_metadata_to_annotations md)) (\<lambda>wanted.
    act_bind (act_map_err (\<lambda>e. Internal (''failed to update '' @ i @ '': '' @ kube_text e))
      (api_patch k_sources k_sources_update src_name i
        (\<lambda>obj. obj\<lparr>src_annotations := merge_map (source_annotation_patch existing wanted) (src_annotations obj)\<rparr>))) (\<lambda>patched.
    ret (to_mod_source_info patched))))"

datatype source_view = HtmlUrlView string | HtmlContentView string | SteamUrlView string | LocalModView string string

text \<open>An operation on the volume, as an action.\<close>

definition volume_act :: "((string \<times> node) list \<Rightarrow> (string + 'a) \<times> (string \<times> node) list) \<Rightarrow> ('z reg_scheme, string, 'a) act" where
  "volume_act f = (\<lambda>s. case f (rg_local_mods s) of (r, ms) \<Rightarrow> (r, s\<lparr>rg_local_mods := ms\<rparr>))"

definition source_input :: "(string \<Rightarrow> (string + unit) \<times> (string \<times> node) list) \<Rightarrow> source_view option
    \<Rightarrow> ('z, mod_source_input) reg_act" where
  "source_input unzip src = (case src of
      Some (HtmlUrlView url) \<Rightarrow> ret (HtmlUrl url)
    | Some (HtmlContentView html) \<Rightarrow>
        (if html = [] then throw (InvalidArgument ''html_content is empty'') else ret (HtmlContent html))
    | Some (SteamUrlView url) \<Rightarrow>
        (if extract_single_id url = None
         then throw (InvalidArgument (''not a recognizable Workshop filedetails URL: '' @ url))
         else ret (SteamUrl url))
    | Some (LocalModView unique_id zip_content) \<Rightarrow>
        act_bind (act_map_err InvalidArgument (volume_act (extract_local_mod unzip unique_id zip_content))) (\<lambda>_.
        ret (Local unique_id))
    | None \<Rightarrow> throw (InvalidArgument ''missing source''))"

definition new_mod_source :: "string \<Rightarrow> (string \<times> string) list \<Rightarrow> mod_source_input \<Rightarrow> mod_source" where
  "new_mod_source i annotations input =
    \<lparr>src_name = i, src_annotations = annotations, src_input = input, src_status = None, src_finalizers = [], src_deleting = False\<rparr>"

definition mark_local_synced :: "string \<Rightarrow> string \<Rightarrow> ('z, unit) reg_act" where
  "mark_local_synced i unique_id =
    act_bind (gets_act (\<lambda>s. local_mod_size unique_id (rg_local_mods s))) (\<lambda>size_bytes.
    act_bind (act_map_err kube_internal (api_patch k_sources k_sources_update src_name i
      (\<lambda>obj. obj\<lparr>src_status := Some \<lparr>ms_phase = MsSynced, ms_kind = ''local'', ms_display_name = [],
         ms_resolved_mod_ids = [], ms_size_bytes = size_bytes, ms_message = []\<rparr>\<rparr>))) (\<lambda>_. ret ()))"

definition add_mod_source :: "(string \<Rightarrow> (string + unit) \<times> (string \<times> node) list) \<Rightarrow> uuid \<Rightarrow> source_view option
    \<Rightarrow> (string, string) hashmap \<Rightarrow> ('z, string) reg_act" where
  "add_mod_source unzip new_id src md =
    act_bind (source_input unzip src) (\<lambda>input.
    act_bind (lift_res (source_metadata_to_annotations md)) (\<lambda>annotations.
    act_bind (act_map_err kube_internal (api_create k_sources k_sources_update src_name (new_mod_source new_id annotations input))) (\<lambda>_.
    act_bind (case input of Local unique_id \<Rightarrow> mark_local_synced new_id unique_id | _ \<Rightarrow> ret ()) (\<lambda>_.
    ret new_id))))"

definition get_source_or_404 :: "string \<Rightarrow> ('z, mod_source) reg_act" where
  "get_source_or_404 i = act_map_err
    (\<lambda>e. case e of KubeNotFound \<Rightarrow> NotFound (''no such mod source: '' @ i) | _ \<Rightarrow> kube_internal e)
    (api_get k_sources src_name i)"

definition delete_mod_source :: "string \<Rightarrow> ('z, unit) reg_act" where
  "delete_mod_source i =
    act_bind (get_source_or_404 i) (\<lambda>obj.
    act_bind (case src_input obj of
        Local unique_id \<Rightarrow> act_map_err Internal (volume_act (delete_local_mod unique_id))
      | _ \<Rightarrow> ret ()) (\<lambda>_.
    act_map_err kube_internal (api_delete k_sources k_sources_update src_name src_finalizers mark_source i)))"

definition list_mod_sources :: "('z, mod_source_info list) reg_act" where
  "list_mod_sources = act_bind (act_map_err kube_internal (api_list k_sources)) (\<lambda>objs. ret (map to_mod_source_info objs))"

text \<open>The sync daemon's answers to one request.\<close>

record proto_synced_mod =
  psm_mod_id :: u64
  psm_manifest_id :: u64
  psm_size_bytes :: u64
  psm_title :: string

record reg_sync =
  rs_refresh_source :: "string \<Rightarrow> string + unit"
  rs_sync_content :: "string + unit"
  rs_list_synced_mods :: "string + proto_synced_mod list"
  rs_get_synced_mod :: "u64 \<Rightarrow> string + proto_synced_mod option \<times> string list"
  rs_invalidate_mod :: "u64 \<Rightarrow> string + unit"
  rs_resolve_workshop_items :: "u64 list \<Rightarrow> string + (u64 \<times> string) list"

definition sync_mod_source :: "reg_sync \<Rightarrow> string \<Rightarrow> ('z, unit) reg_act" where
  "sync_mod_source sy i =
    act_bind (get_source_or_404 i) (\<lambda>obj.
    if is_local (src_input obj) then throw (InvalidArgument ''local mod sources have no Steam content to sync'')
    else
      act_bind (act_map_err Internal (sync_call i (rs_refresh_source sy i))) (\<lambda>_.
      act_map_err Internal (sync_call ''sync_content'' (rs_sync_content sy))))"

definition get_synced_mod_rpc :: "reg_sync \<Rightarrow> u64 \<Rightarrow> ('z, proto_synced_mod option \<times> mod_source_info list) reg_act" where
  "get_synced_mod_rpc sy mod_id =
    act_bind (act_map_err Internal (lift_res (rs_get_synced_mod sy mod_id))) (\<lambda>(m, source_ids).
    act_bind (map_act (\<lambda>i. act_match (api_get k_sources src_name i)
        (\<lambda>r. ret (case r of Inr obj \<Rightarrow> [to_mod_source_info obj] | Inl _ \<Rightarrow> []))) source_ids) (\<lambda>infos.
    ret (m, concat infos)))"

definition invalidate_mod_rpc :: "reg_sync \<Rightarrow> u64 \<Rightarrow> ('z, unit) reg_act" where
  "invalidate_mod_rpc sy mod_id = act_map_err Internal (sync_call (show_word mod_id) (rs_invalidate_mod sy mod_id))"

section \<open>Preset export\<close>

record export_plan =
  ep_mod_ids :: "u64 list"
  ep_skipped_local :: "string list"
  ep_missing :: "string list"
  ep_unresolved :: "string list"

definition export_plan_default :: export_plan where
  "export_plan_default = \<lparr>ep_mod_ids = [], ep_skipped_local = [], ep_missing = [], ep_unresolved = []\<rparr>"

definition resolved_ids :: "mod_source \<Rightarrow> u64 list" where
  "resolved_ids obj = (case src_status obj of Some st \<Rightarrow> ms_resolved_mod_ids st | None \<Rightarrow> [])"

fun plan_loop :: "(string \<rightharpoonup> mod_source) \<Rightarrow> string list \<Rightarrow> string list \<Rightarrow> export_plan \<Rightarrow> export_plan" where
  "plan_loop by_name seen [] out = out"
| "plan_loop by_name seen (i # is) out =
    (if i \<in> set seen then plan_loop by_name seen is out
     else plan_loop by_name (i # seen) is
       (case by_name i of
          None \<Rightarrow> out\<lparr>ep_missing := ep_missing out @ [i]\<rparr>
        | Some source \<Rightarrow>
            (if is_local (src_input source) then out\<lparr>ep_skipped_local := ep_skipped_local out @ [i]\<rparr>
             else if resolved_ids source = [] then out\<lparr>ep_unresolved := ep_unresolved out @ [i]\<rparr>
             else out\<lparr>ep_mod_ids := ep_mod_ids out @ dedup_seen (ep_mod_ids out) (resolved_ids source)\<rparr>)))"

definition plan :: "string list \<Rightarrow> mod_source list \<Rightarrow> export_plan" where
  "plan requested sources =
    plan_loop (map_of (rev (map (\<lambda>s. (src_name s, s)) sources))) [] requested export_plan_default"

definition usable_title :: "(u64 \<rightharpoonup> string) \<Rightarrow> u64 \<Rightarrow> string option" where
  "usable_title known i = (case known i of Some t \<Rightarrow> (if trim t = [] then None else Some t) | None \<Rightarrow> None)"

definition titled :: "u64 list \<Rightarrow> (u64 \<rightharpoonup> string) \<Rightarrow> (u64 \<times> string) list" where
  "titled mod_ids known =
    map (\<lambda>i. (i, case usable_title known i of Some t \<Rightarrow> t | None \<Rightarrow> ''Workshop item '' @ show_word i)) mod_ids"

definition untitled :: "u64 list \<Rightarrow> (u64 \<rightharpoonup> string) \<Rightarrow> u64 list" where
  "untitled mod_ids known = filter (\<lambda>i. usable_title known i = None) mod_ids"

definition launcher_order :: "(string \<Rightarrow> string) \<Rightarrow> (u64 \<times> string) list \<Rightarrow> (u64 \<times> string) list" where
  "launcher_order lower mods = sort_key (\<lambda>(i, t). (lower t, i)) mods"

definition preset_name :: "string \<Rightarrow> string" where
  "preset_name requested = (if trim requested = [] then ''magpie'' else trim requested)"

definition nothing_to_export_reason :: "export_plan \<Rightarrow> string" where
  "nothing_to_export_reason p = join ''; ''
    ((if ep_skipped_local p = [] then []
      else [''local sources can'' @ [CHR 0x27] @ ''t go in a preset ('' @ join '', '' (ep_skipped_local p) @ '')''])
     @ (if ep_unresolved p = [] then [] else [''not resolved from Steam yet ('' @ join '', '' (ep_unresolved p) @ '')''])
     @ (if ep_missing p = [] then [] else [''no such mod source ('' @ join '', '' (ep_missing p) @ '')'']))"

record export_preset_response =
  xr_html :: string
  xr_mod_count :: u32
  xr_skipped_local_sources :: "string list"
  xr_missing_sources :: "string list"
  xr_unresolved_sources :: "string list"

definition with_titles :: "reg_sync \<Rightarrow> u64 list \<Rightarrow> (u64 \<rightharpoonup> string) \<Rightarrow> (u64 \<rightharpoonup> string)" where
  "with_titles sy mod_ids known =
    (if untitled mod_ids known = [] then known
     else case rs_resolve_workshop_items sy (untitled mod_ids known) of
       Inr resolved \<Rightarrow> known ++ map_of (rev resolved)
     | Inl _ \<Rightarrow> known)"

definition export_preset :: "(string \<Rightarrow> string) \<Rightarrow> reg_sync \<Rightarrow> string list \<Rightarrow> string \<Rightarrow> ('z, export_preset_response) reg_act" where
  "export_preset lower sy requested requested_name =
    (if requested = [] then throw (InvalidArgument ''source_ids must not be empty'')
     else
       act_bind (act_map_err kube_internal (api_list k_sources)) (\<lambda>sources.
       let p = plan requested sources in
       if ep_mod_ids p = [] then throw (FailedPrecondition (''nothing to export: '' @ nothing_to_export_reason p))
       else
         act_bind (act_map_err Internal (lift_res (rs_list_synced_mods sy))) (\<lambda>synced.
         let known = with_titles sy (ep_mod_ids p) (map_of (rev (map (\<lambda>m. (psm_mod_id m, psm_title m)) synced)));
             mods = launcher_order lower (titled (ep_mod_ids p) known) in
         ret \<lparr>xr_html = render_preset_html (preset_name requested_name) mods, xr_mod_count = of_nat (length mods),
              xr_skipped_local_sources = ep_skipped_local p, xr_missing_sources = ep_missing p,
              xr_unresolved_sources = ep_unresolved p\<rparr>)))"

section \<open>Lemmas\<close>

text \<open>What a plan says of the sources not seen before.\<close>

lemma plan_loop_sets:
  "set (ep_mod_ids (plan_loop by_name seen is out)) =
     set (ep_mod_ids out) \<union> (\<Union>i \<in> set is - set seen. case by_name i of
       Some src \<Rightarrow> if is_local (src_input src) then {} else set (resolved_ids src) | None \<Rightarrow> {})"
  "set (ep_missing (plan_loop by_name seen is out)) =
     set (ep_missing out) \<union> {i \<in> set is - set seen. by_name i = None}"
  "set (ep_skipped_local (plan_loop by_name seen is out)) =
     set (ep_skipped_local out) \<union> {i \<in> set is - set seen. \<exists>src. by_name i = Some src \<and> is_local (src_input src)}"
  "set (ep_unresolved (plan_loop by_name seen is out)) =
     set (ep_unresolved out) \<union> {i \<in> set is - set seen. \<exists>src. by_name i = Some src \<and> \<not> is_local (src_input src) \<and> resolved_ids src = []}"
  by (induction by_name seen "is" out rule: plan_loop.induct) (auto split: option.splits if_splits)

lemma plan_loop_distinct:
  "distinct (ep_mod_ids out) \<Longrightarrow> distinct (ep_mod_ids (plan_loop by_name seen is out))"
  by (induction by_name seen "is" out rule: plan_loop.induct) (auto split: option.splits)

lemma by_name_get:
  assumes "distinct (map src_name sources)"
  shows "map_of (rev (map (\<lambda>s. (src_name s, s)) sources)) i = Some src \<longleftrightarrow> src \<in> set sources \<and> src_name src = i"
proof -
  have "distinct (map fst (rev (map (\<lambda>s. (src_name s, s)) sources)))" using assms by (simp add: rev_map [symmetric] comp_def)
  then show ?thesis by (auto simp: map_of_eq_Some_iff)
qed

lemma plan_mod_ids:
  assumes "distinct (map src_name sources)"
  shows "set (ep_mod_ids (plan requested sources)) =
    {m. \<exists>src \<in> set sources. src_name src \<in> set requested \<and> \<not> is_local (src_input src) \<and> m \<in> set (resolved_ids src)}"
proof -
  let ?by = "map_of (rev (map (\<lambda>s. (src_name s, s)) sources))"
  have "m \<in> (case ?by i of Some src \<Rightarrow> if is_local (src_input src) then {} else set (resolved_ids src) | None \<Rightarrow> {}) \<longleftrightarrow>
      (\<exists>src \<in> set sources. src_name src = i \<and> \<not> is_local (src_input src) \<and> m \<in> set (resolved_ids src))" for m i
  proof (cases "?by i")
    case (Some a)
    then have a: "a \<in> set sources" "src_name a = i" "\<And>src. src \<in> set sources \<Longrightarrow> src_name src = i \<Longrightarrow> src = a"
      using by_name_get [OF assms] by (metis option.inject)+
    then have "(\<exists>src \<in> set sources. src_name src = i \<and> \<not> is_local (src_input src) \<and> m \<in> set (resolved_ids src)) \<longleftrightarrow>
        \<not> is_local (src_input a) \<and> m \<in> set (resolved_ids a)" by blast
    then show ?thesis using Some by simp
  qed (use by_name_get [OF assms, of i] in auto)
  then show ?thesis unfolding plan_def plan_loop_sets by (auto simp: export_plan_default_def)
qed

lemma no_marker: "CHR ''?'' \<notin> set t \<Longrightarrow> \<not> contains_str t filedetails"
  by (auto simp: contains_str_iff filedetails_def dest!: set_mono_sublist)

lemma trim_no_marker: "\<not> contains_str t filedetails \<Longrightarrow> \<not> contains_str (trim t) filedetails"
proof -
  have "suffix (dropWhile is_ws t) t" by (rule suffix_dropWhile)
  moreover have "prefix (trim t) (dropWhile is_ws t)"
    unfolding trim_def using suffix_dropWhile [of is_ws "rev (dropWhile is_ws t)"] by (simp add: suffix_to_prefix)
  ultimately have "sublist (trim t) t" by (meson prefix_imp_sublist sublist_order.order_trans suffix_imp_sublist)
  then show "\<not> contains_str t filedetails \<Longrightarrow> \<not> contains_str (trim t) filedetails"
    unfolding contains_str_iff by (meson sublist_order.order_trans)
qed

lemma preset_name_no_marker: "\<not> contains_str n filedetails \<Longrightarrow> \<not> contains_str (preset_name n) filedetails"
  by (simp add: preset_name_def trim_no_marker no_marker del: contains_str.simps)

lemma placeholder_no_marker: "\<not> contains_str (''Workshop item '' @ show_word (i :: u64)) filedetails"
  by (rule no_marker) (use show_word_no_char [of "CHR ''?''" i] in \<open>auto simp: is_digit_def\<close>)

definition titles_plain :: "(u64 \<rightharpoonup> string) \<Rightarrow> bool" where
  "titles_plain known = (\<forall>t \<in> ran known. \<not> contains_str t filedetails)"

lemma titles_plain_map_of: "(\<And>i t. (i, t) \<in> set xs \<Longrightarrow> \<not> contains_str t filedetails) \<Longrightarrow> titles_plain (map_of (rev xs))"
  by (auto simp: titles_plain_def ran_def dest!: map_of_SomeD)

lemma titles_plain_add: "titles_plain a \<Longrightarrow> titles_plain b \<Longrightarrow> titles_plain (a ++ b)"
  by (auto simp: titles_plain_def ran_def map_add_Some_iff)

lemma titled_no_marker:
  "titles_plain known \<Longrightarrow> \<forall>(i, t) \<in> set (launcher_order lower (titled ids known)). \<not> contains_str t filedetails"
  by (auto simp: launcher_order_def titled_def usable_title_def titles_plain_def ran_def placeholder_no_marker
      simp del: contains_str.simps append.simps split: option.splits if_splits)

lemma launcher_order_ids: "mset (map fst (launcher_order lower (titled ids known))) = mset ids"
  by (simp add: launcher_order_def titled_def multiset.map_comp comp_def)

text \<open>Every upload and deletion stays inside the directory it names.\<close>

lemma extract_confined: "k \<noteq> uid \<Longrightarrow> map_of (snd (extract_local_mod unzip uid z mods)) k = map_of mods k"
  by (auto simp: extract_local_mod_def update_conv' split: sum.splits prod.splits list.splits node.splits)

lemma delete_confined: "k \<noteq> uid \<Longrightarrow> map_of (snd (delete_local_mod uid mods)) k = map_of mods k"
  by (auto simp: delete_local_mod_def delete_conv' split: sum.splits)

section \<open>Properties\<close>

text \<open>C38: An exported preset is the mods the cluster runs. When neither the preset's name nor a title Steam
  gives contains the link marker, scanning the page gives exactly the mods the requested Steam sources have
  resolved to, each counted once; every requested source is a contributor or is named as local, unresolved
  or missing.\<close>

theorem export_preset_lists_resolved_mods:
  assumes "export_preset lower sy requested nm s = (Inr r, s')" "distinct (map src_name (k_sources s))"
    and "\<not> contains_str nm filedetails"
    and "\<And>ms m. rs_list_synced_mods sy = Inr ms \<Longrightarrow> m \<in> set ms \<Longrightarrow> \<not> contains_str (psm_title m) filedetails"
    and "\<And>ids ts i t. rs_resolve_workshop_items sy ids = Inr ts \<Longrightarrow> (i, t) \<in> set ts \<Longrightarrow> \<not> contains_str t filedetails"
  shows "set (parse_preset_html (xr_html r)) =
      {m. \<exists>src \<in> set (k_sources s). src_name src \<in> set requested \<and> \<not> is_local (src_input src) \<and> m \<in> set (resolved_ids src)}
    \<and> xr_mod_count r = of_nat (card (set (parse_preset_html (xr_html r))))
    \<and> set requested = {src_name src | src. src \<in> set (k_sources s) \<and> src_name src \<in> set requested \<and> \<not> is_local (src_input src) \<and> resolved_ids src \<noteq> []}
        \<union> set (xr_skipped_local_sources r) \<union> set (xr_unresolved_sources r) \<union> set (xr_missing_sources r)"
proof -
  let ?p = "plan requested (k_sources s)"
  let ?known0 = "\<lambda>synced. map_of (rev (map (\<lambda>m. (psm_mod_id m, psm_title m)) synced))"
  obtain synced where synced: "rs_list_synced_mods sy = Inr synced"
    and r: "r = \<lparr>xr_html = render_preset_html (preset_name nm) (launcher_order lower (titled (ep_mod_ids ?p) (with_titles sy (ep_mod_ids ?p) (?known0 synced)))),
      xr_mod_count = of_nat (length (launcher_order lower (titled (ep_mod_ids ?p) (with_titles sy (ep_mod_ids ?p) (?known0 synced))))),
      xr_skipped_local_sources = ep_skipped_local ?p, xr_missing_sources = ep_missing ?p, xr_unresolved_sources = ep_unresolved ?p\<rparr>"
    using assms(1)
    by (auto simp: export_preset_def act_simps api_list_def api_call_def Let_def map_err_def
        split: if_splits list.splits reply.splits sum.splits)
  define known where "known = with_titles sy (ep_mod_ids ?p) (?known0 synced)"
  have k0: "titles_plain (?known0 synced)"
    by (rule titles_plain_map_of) (use assms(4) [OF synced] in auto)
  have plain: "titles_plain known"
    unfolding known_def with_titles_def
    by (auto intro!: k0 titles_plain_add titles_plain_map_of dest: assms(5) simp del: map_of_eq_None_iff split: sum.splits)
  define mods where "mods = launcher_order lower (titled (ep_mod_ids ?p) known)"
  have ids: "mset (map fst mods) = mset (ep_mod_ids ?p)" unfolding mods_def by (rule launcher_order_ids)
  have "parse_preset_html (xr_html r) = concat (map (\<lambda>(i, _). [i, i]) mods)"
    using parse_render [OF preset_name_no_marker [OF assms(3)] titled_no_marker [OF plain, of lower "ep_mod_ids ?p"]]
    by (simp add: r known_def mods_def)
  then have parsed: "set (parse_preset_html (xr_html r)) = set (ep_mod_ids ?p)"
    using mset_eq_setD [OF ids, symmetric] by (auto simp: image_iff) force
  have "length mods = length (ep_mod_ids ?p)" using mset_eq_length [OF ids] by simp
  moreover have "distinct (ep_mod_ids ?p)" unfolding plan_def by (rule plan_loop_distinct) (simp add: export_plan_default_def)
  ultimately have "xr_mod_count r = of_nat (card (set (parse_preset_html (xr_html r))))"
    unfolding parsed by (simp add: r known_def [symmetric] mods_def [symmetric] distinct_card)
  moreover have "set requested = {src_name src | src. src \<in> set (k_sources s) \<and> src_name src \<in> set requested \<and> \<not> is_local (src_input src) \<and> resolved_ids src \<noteq> []}
        \<union> set (xr_skipped_local_sources r) \<union> set (xr_unresolved_sources r) \<union> set (xr_missing_sources r)"
    unfolding r using by_name_get [OF assms(2)]
    by (fastforce simp: plan_def plan_loop_sets export_plan_default_def)
  ultimately show ?thesis using parsed plan_mod_ids [OF assms(2)] by simp
qed

text \<open>A failed upload destroys the mod it was to replace. When the archive cannot be extracted the
  request is refused, but the directory of that id already holds whatever was extracted instead of the
  mod that was there; no other directory and no stored object changes.\<close>

theorem failed_upload_destroys_local_mod:
  assumes "validate_path_component uid = Inr ()" "unzip z = (Inl e, es)"
  shows "add_mod_source unzip new_id (Some (LocalModView uid z)) md s =
      (Inl (InvalidArgument e), s\<lparr>rg_local_mods := AList.update uid (DirNode es) (rg_local_mods s)\<rparr>)"
  using assms by (simp add: add_mod_source_def source_input_def act_simps volume_act_def extract_local_mod_def)

text \<open>Deleting one of two sources that were uploaded under one id removes the content of both. The
  other source stays stored as it was, Synced included, with no directory behind it.\<close>

theorem delete_takes_shared_content:
  assumes "delete_mod_source a s = (Inr (), s')" "k_replies s = []"
    and "obj_get src_name (k_sources s) a = Some x" "src_input x = Local uid"
    and "obj_get src_name (k_sources s) b = Some y" "src_input y = Local uid" "b \<noteq> a"
  shows "map_of (rg_local_mods s') uid = None \<and> obj_get src_name (k_sources s') b = Some y"
proof -
  have "s' = s\<lparr>rg_local_mods := AList.delete uid (rg_local_mods s), k_sources := obj_delete src_name src_finalizers mark_source a (k_sources s)\<rparr>"
    using assms(1-4)
    by (auto simp: delete_mod_source_def get_source_or_404_def act_simps api_get_def api_delete_def volume_act_def
        delete_local_mod_def split: sum.splits)
  then show ?thesis using assms(5,7) by (simp add: delete_conv' sources.get_delete)
qed

section \<open>Examples\<close>

definition demo_source :: "string \<Rightarrow> mod_source_input \<Rightarrow> u64 list \<Rightarrow> mod_source" where
  "demo_source n i ids = \<lparr>src_name = n, src_annotations = [], src_input = i,
     src_status = Some \<lparr>ms_phase = MsSynced, ms_kind = [], ms_display_name = [], ms_resolved_mod_ids = ids, ms_size_bytes = 0, ms_message = []\<rparr>,
     src_finalizers = [], src_deleting = False\<rparr>"

definition demo_reg :: "mod_source list \<Rightarrow> reg" where
  "demo_reg xs = \<lparr>k_servers = [], k_sources = xs, k_replies = [], k_sync_log = [], rg_local_mods = [(''u'', DirNode [])]\<rparr>"

definition demo_sync :: reg_sync where
  "demo_sync = \<lparr>rs_refresh_source = (\<lambda>_. Inr ()), rs_sync_content = Inr (),
     rs_list_synced_mods = Inr [\<lparr>psm_mod_id = 1, psm_manifest_id = 0, psm_size_bytes = 0, psm_title = ''ace''\<rparr>],
     rs_get_synced_mod = (\<lambda>_. Inr (None, [])), rs_invalidate_mod = (\<lambda>_. Inr ()), rs_resolve_workshop_items = (\<lambda>_. Inl ''down'')\<rparr>"

theorem export_preset_lists_resolved_mods_witness:
  "\<exists>r s'. export_preset to_lowercase demo_sync [''a'', ''b'', ''c''] ''ops''
       (demo_reg [demo_source ''a'' (SteamUrl ''x'') [1, 2], demo_source ''b'' (Local ''u'') []]) = (Inr r, s')
     \<and> set (parse_preset_html (xr_html r)) = {1, 2}"
proof -
  let ?s = "demo_reg [demo_source ''a'' (SteamUrl ''x'') [1, 2], demo_source ''b'' (Local ''u'') []]"
  obtain r s' where run: "export_preset to_lowercase demo_sync [''a'', ''b'', ''c''] ''ops'' ?s = (Inr r, s')"
    by (simp add: export_preset_def act_simps api_list_def demo_reg_def demo_source_def demo_sync_def plan_def
        is_local_def resolved_ids_def export_plan_default_def Let_def)
  have "set (parse_preset_html (xr_html r)) =
      {m. \<exists>src \<in> set (k_sources ?s). src_name src \<in> set [''a'', ''b'', ''c''] \<and> \<not> is_local (src_input src) \<and> m \<in> set (resolved_ids src)}"
    by (rule conjunct1 [OF export_preset_lists_resolved_mods [OF run]])
       (auto simp: demo_reg_def demo_source_def demo_sync_def filedetails_def)
  then show ?thesis using run by (auto simp: demo_reg_def demo_source_def is_local_def resolved_ids_def)
qed

theorem failed_upload_destroys_local_mod_witness:
  "map_of (rg_local_mods (snd (add_mod_source (\<lambda>_. (Inl ''not a zip'', [])) ''id'' (Some (LocalModView ''u'' ''z'')) []
     ((demo_reg [])\<lparr>rg_local_mods := [(''u'', DirNode [(''mod.cpp'', FileNode ''x'')])]\<rparr>)))) ''u'' = Some (DirNode [])"
proof -
  have "validate_path_component ''u'' = Inr ()" by (simp add: validate_path_component_def)
  from failed_upload_destroys_local_mod [OF this, of "\<lambda>_. (Inl ''not a zip'', [])" "''z''" "''not a zip''" "[]" "''id''" "[]"
      "(demo_reg [])\<lparr>rg_local_mods := [(''u'', DirNode [(''mod.cpp'', FileNode ''x'')])]\<rparr>"]
  show ?thesis by simp
qed

theorem delete_takes_shared_content_witness:
  "\<exists>s'. delete_mod_source ''a'' (demo_reg [demo_source ''a'' (Local ''u'') [], demo_source ''b'' (Local ''u'') []]) = (Inr (), s')
     \<and> map_of (rg_local_mods s') ''u'' = None \<and> obj_get src_name (k_sources s') ''b'' = Some (demo_source ''b'' (Local ''u'') [])"
proof -
  let ?s = "demo_reg [demo_source ''a'' (Local ''u'') [], demo_source ''b'' (Local ''u'') []]"
  have g: "k_replies ?s = []" "obj_get src_name (k_sources ?s) ''a'' = Some (demo_source ''a'' (Local ''u'') [])"
    "obj_get src_name (k_sources ?s) ''b'' = Some (demo_source ''b'' (Local ''u'') [])"
    by (simp_all add: demo_reg_def demo_source_def obj_get_def)
  obtain s' where run: "delete_mod_source ''a'' ?s = (Inr (), s')"
    using g(1,2) by (auto simp: delete_mod_source_def get_source_or_404_def act_simps api_get_def api_delete_def volume_act_def
        delete_local_mod_def validate_path_component_def demo_source_def)
  from delete_takes_shared_content [OF run g(1,2) _ g(3)] run show ?thesis by (auto simp: demo_source_def)
qed

end
