(* ===== verification/ClusterState.thy ===== *)
theory ClusterState
  imports ModSources
begin

text \<open>
  Export and import of declarative cluster state (\<open>services/registry/src/service/state.rs\<close>): mod source
  registrations, ConfigMaps and server specifications are written out with the ids of sources replaced
  by cluster-independent keys, and created again from such a payload. The time stamp of an export and
  the fresh UUIDs of an import (\<open>fresh k\<close> for the \<open>k\<close>-th source of the payload) are arguments.
\<close>

section \<open>Payload\<close>

record config_map_obj =
  cmo_name :: string
  cmo_data :: "(string \<times> string) list option"

record clus = kube +
  cl_configmaps :: "config_map_obj list"

datatype exported_desired = ExpUnspecified | ExpRunning | ExpStopped

record exported_mod_source =
  xm_kind :: source_kind
  xm_reference :: string
  xm_display_name :: string
  xm_resolved_mod_ids :: "u64 list"

record exported_config_map =
  xc_name :: string
  xc_data :: "(string, string) hashmap"

record exported_server =
  xs_name :: string
  xs_port :: u32
  xs_mod_source_references :: "string list"
  xs_config_map :: "string option"
  xs_cdlc :: "string list"
  xs_profiling :: bool
  xs_desired_state :: exported_desired
  xs_metrics_port :: "u32 option"
  xs_metrics_path :: "string option"
  xs_headless_clients :: u32

record export_state_response =
  er_schema_version :: u32
  er_exported_at :: string
  er_mod_sources :: "exported_mod_source list"
  er_config_maps :: "exported_config_map list"
  er_servers :: "exported_server list"
  er_warnings :: "string list"

record import_state_request =
  ir_mod_sources :: "exported_mod_source list"
  ir_config_maps :: "exported_config_map list"
  ir_servers :: "exported_server list"

definition STATE_SCHEMA_VERSION :: u32 where
  "STATE_SCHEMA_VERSION = 1"

definition uploaded_html :: string where
  "uploaded_html = ''(uploaded HTML)''"

definition match_key :: "source_kind \<Rightarrow> string \<Rightarrow> u64 list \<Rightarrow> string" where
  "match_key kind reference resolved_mod_ids =
    (if kind = KindPreset \<and> reference = uploaded_html
     then ''(uploaded HTML: '' @ join '','' (map show_word (remdups_adj (sort resolved_mod_ids))) @ '')''
     else reference)"

definition synthetic_preset_html :: "u64 list \<Rightarrow> string" where
  \<open>synthetic_preset_html mod_ids =
    join [CHR 0x0A] (map (\<lambda>i. ''<a href="'' @ workshop_url i @ ''"></a>'') mod_ids)\<close>

section \<open>Export\<close>

definition export_source :: "mod_source \<Rightarrow> exported_mod_source" where
  "export_source obj =
    (let info = to_mod_source_info obj in
     \<lparr>xm_kind = mi_kind info, xm_reference = mi_reference info, xm_display_name = mi_display_name info,
      xm_resolved_mod_ids = resolved_ids obj\<rparr>)"

definition source_key :: "mod_source \<Rightarrow> string" where
  "source_key obj = (let x = export_source obj in match_key (xm_kind x) (xm_reference x) (xm_resolved_mod_ids x))"

definition id_to_key :: "mod_source list \<Rightarrow> string \<Rightarrow> string option" where
  "id_to_key sources = map_of (rev (map (\<lambda>obj. (src_name obj, source_key obj)) sources))"

definition dropped_warning :: "string \<Rightarrow> string \<Rightarrow> string" where
  "dropped_warning n i = ''server '' @ n @ '': mod source '' @ i @ '' no longer exists, dropped from export''"

definition export_server :: "(string \<Rightarrow> string option) \<Rightarrow> arma_server \<Rightarrow> exported_server \<times> string list" where
  "export_server keys obj =
    (let sp = srv_spec obj in
     (\<lparr>xs_name = srv_name obj, xs_port = ucast (port sp),
       xs_mod_source_references = List.map_filter keys (mod_source_ids sp),
       xs_config_map = config_map sp, xs_cdlc = cdlc sp, xs_profiling = profiling sp,
       xs_desired_state = (case desired_state sp of DesiredRunning \<Rightarrow> ExpRunning | DesiredStopped \<Rightarrow> ExpStopped),
       xs_metrics_port = map_option (\<lambda>m. ucast (metrics_port m)) (metrics sp),
       xs_metrics_path = Option.bind (metrics sp) metrics_path,
       xs_headless_clients = headless_clients sp\<rparr>,
      map (dropped_warning (srv_name obj)) (filter (\<lambda>i. keys i = None) (mod_source_ids sp))))"

definition config_map_names :: "string \<Rightarrow> arma_server list \<Rightarrow> string list" where
  "config_map_names baseline servers =
    remdups_adj (sort (baseline # List.map_filter (\<lambda>obj. config_map (srv_spec obj)) servers))"

definition export_config_map :: "string \<Rightarrow> ('z clus_scheme, connect_error, exported_config_map + string) act" where
  "export_config_map n = act_match (api_get cl_configmaps cmo_name n) (\<lambda>r. case r of
      Inr cm \<Rightarrow> ret (Inl \<lparr>xc_name = n, xc_data = (case cmo_data cm of Some d \<Rightarrow> d | None \<Rightarrow> [])\<rparr>)
    | Inl KubeNotFound \<Rightarrow> ret (Inr (''ConfigMap '' @ n @ '' not found, skipped from export''))
    | Inl e \<Rightarrow> throw (Internal (''failed to read ConfigMap '' @ n @ '': '' @ kube_text e)))"

primrec lefts :: "('a + 'b) list \<Rightarrow> 'a list" where
  "lefts [] = []"
| "lefts (x # xs) = (case x of Inl a \<Rightarrow> a # lefts xs | Inr _ \<Rightarrow> lefts xs)"

primrec rights :: "('a + 'b) list \<Rightarrow> 'b list" where
  "rights [] = []"
| "rights (x # xs) = (case x of Inl _ \<Rightarrow> rights xs | Inr b \<Rightarrow> b # rights xs)"

definition export_state :: "string \<Rightarrow> string \<Rightarrow> ('z clus_scheme, connect_error, export_state_response) act" where
  "export_state baseline now =
    act_bind (act_map_err (\<lambda>e. Internal (''failed to list mod sources: '' @ kube_text e)) (api_list k_sources)) (\<lambda>sources.
    act_bind (act_map_err (\<lambda>e. Internal (''failed to list servers: '' @ kube_text e)) (api_list k_servers)) (\<lambda>servers.
    let exported = map (export_server (id_to_key sources)) servers in
    act_bind (map_act export_config_map (config_map_names baseline servers)) (\<lambda>cms.
    ret \<lparr>er_schema_version = STATE_SCHEMA_VERSION, er_exported_at = now, er_mod_sources = map export_source sources,
         er_config_maps = lefts cms, er_servers = map fst exported,
         er_warnings = concat (map snd exported) @ rights cms\<rparr>)))"

section \<open>Import\<close>

definition import_input :: "exported_mod_source \<Rightarrow> mod_source_input option" where
  "import_input x = (case xm_kind x of
      KindMod \<Rightarrow> Some (SteamUrl (xm_reference x))
    | KindCollection \<Rightarrow> Some (SteamUrl (xm_reference x))
    | KindPreset \<Rightarrow>
        (if xm_reference x \<noteq> uploaded_html then Some (HtmlUrl (xm_reference x))
         else if xm_resolved_mod_ids x \<noteq> [] then Some (HtmlContent (synthetic_preset_html (xm_resolved_mod_ids x)))
         else None)
    | _ \<Rightarrow> None)"

definition kind_debug :: "source_kind \<Rightarrow> string" where
  "kind_debug k = (case k of
      KindUnspecified \<Rightarrow> ''Unspecified'' | KindMod \<Rightarrow> ''Mod'' | KindCollection \<Rightarrow> ''Collection''
    | KindLocal \<Rightarrow> ''Local'' | KindPreset \<Rightarrow> ''Preset'')"

definition import_key :: "exported_mod_source \<Rightarrow> string" where
  "import_key x = match_key (xm_kind x) (xm_reference x) (xm_resolved_mod_ids x)"

text \<open>One source of the payload: the key and id it was created under, or a warning.\<close>

definition import_source :: "uuid \<Rightarrow> exported_mod_source \<Rightarrow> ('z clus_scheme, connect_error, (string \<times> string) + string) act" where
  "import_source new_id x = (case import_input x of
      None \<Rightarrow> ret (Inr (''mod source '' @ kind_debug (xm_kind x) @ '' ('' @ xm_reference x @ ''): content wasn'' @ [CHR 0x27]
        @ ''t part of the export, skipped''))
    | Some input \<Rightarrow> act_match (api_create k_sources k_sources_update src_name (new_mod_source new_id [] input)) (\<lambda>r. case r of
        Inr _ \<Rightarrow> ret (Inl (import_key x, new_id))
      | Inl e \<Rightarrow> ret (Inr (''mod source '' @ xm_reference x @ '': failed to create: '' @ kube_text e))))"

definition import_config_map :: "exported_config_map \<Rightarrow> ('z clus_scheme, connect_error, string list) act" where
  "import_config_map cm =
    act_match
      (act_match (api_get cl_configmaps cmo_name (xc_name cm)) (\<lambda>r. case r of
         Inr _ \<Rightarrow> act_bind (api_patch cl_configmaps cl_configmaps_update cmo_name (xc_name cm)
             (\<lambda>obj. obj\<lparr>cmo_data := Some (merge_map (map (\<lambda>(k, v). (k, Some v)) (xc_data cm))
               (case cmo_data obj of Some d \<Rightarrow> d | None \<Rightarrow> []))\<rparr>)) (\<lambda>_. ret ())
       | Inl KubeNotFound \<Rightarrow> api_create cl_configmaps cl_configmaps_update cmo_name
             \<lparr>cmo_name = xc_name cm, cmo_data = Some (btree_extend [] (xc_data cm))\<rparr>
       | Inl e \<Rightarrow> throw e))
      (\<lambda>r. ret (case r of Inr _ \<Rightarrow> [] | Inl e \<Rightarrow> [''ConfigMap '' @ xc_name cm @ '': failed to apply: '' @ kube_text e]))"

definition import_spec :: "string list \<Rightarrow> exported_server \<Rightarrow> arma_server_spec" where
  "import_spec ids x =
    \<lparr>mod_source_ids = ids, port = ucast (xs_port x), cdlc = xs_cdlc x, profiling = xs_profiling x,
     desired_state = (case xs_desired_state x of ExpStopped \<Rightarrow> DesiredStopped | _ \<Rightarrow> DesiredRunning),
     config_map = xs_config_map x,
     metrics = map_option (\<lambda>p. \<lparr>metrics_port = ucast p, metrics_path = xs_metrics_path x\<rparr>) (xs_metrics_port x),
     headless_clients = xs_headless_clients x\<rparr>"

definition import_server :: "(string \<Rightarrow> string option) \<Rightarrow> exported_server \<Rightarrow> ('z clus_scheme, connect_error, string list) act" where
  "import_server new_ids x =
    (let missing = map (\<lambda>r. ''server '' @ xs_name x @ '': mod source '' @ r @ '' wasn'' @ [CHR 0x27] @ ''t imported, dropped from its mod list'')
           (filter (\<lambda>r. new_ids r = None) (xs_mod_source_references x));
         obj = \<lparr>srv_name = xs_name x, srv_annotations = [],
           srv_spec = import_spec (List.map_filter new_ids (xs_mod_source_references x)) x,
           srv_status = None, srv_finalizers = [], srv_deleting = False\<rparr> in
     act_match (api_create k_servers k_servers_update srv_name obj) (\<lambda>r. ret (missing @ (case r of
        Inr _ \<Rightarrow> []
      | Inl KubeConflict \<Rightarrow> [''server '' @ xs_name x @ '': already exists, skipped (not overwritten)'']
      | Inl e \<Rightarrow> [''server '' @ xs_name x @ '': failed to create: '' @ kube_text e]))))"

definition import_state :: "(nat \<Rightarrow> uuid) \<Rightarrow> import_state_request \<Rightarrow> ('z clus_scheme, connect_error, string list) act" where
  "import_state fresh req =
    act_bind (map_act (\<lambda>(k, x). import_source (fresh k) x) (enumerate 0 (ir_mod_sources req))) (\<lambda>srcs.
    act_bind (map_act import_config_map (ir_config_maps req)) (\<lambda>cms.
    act_bind (map_act (import_server (map_of (rev (lefts srcs)))) (ir_servers req)) (\<lambda>srvs.
    ret (rights srcs @ concat cms @ concat srvs))))"

definition request_of :: "export_state_response \<Rightarrow> import_state_request" where
  "request_of r = \<lparr>ir_mod_sources = er_mod_sources r, ir_config_maps = er_config_maps r, ir_servers = er_servers r\<rparr>"

section \<open>Lemmas\<close>

lemma captures_iter_link:
  \<open>captures_iter (''<a href="'' @ workshop_url i @ ''"></a>'' @ ys) = show_word i # captures_iter ys\<close>
proof -
  have a: \<open>captures_iter (''<a href="'' @ zs) = captures_iter zs\<close> for zs by (rule captures_iter_static; code_simp)
  have b: \<open>captures_iter (''"></a>'' @ zs) = captures_iter zs\<close> for zs by (rule captures_iter_static; code_simp)
  have c: \<open>captures_iter (workshop_url i @ ''"></a>'' @ ys) = show_word i # captures_iter (''"></a>'' @ ys)\<close>
    by (rule captures_iter_url) (simp add: is_digit_def)
  show ?thesis unfolding a c b ..
qed

lemma captures_iter_links:
  "captures_iter (synthetic_preset_html ids) = map show_word ids"
proof -
  have newline: "captures_iter ([CHR 0x0A] @ ys) = captures_iter ys" for ys
    by (rule captures_iter_disjoint) (simp add: filedetails_def)
  have nothing: "captures_iter [] = []" by simp
  show ?thesis
    unfolding synthetic_preset_html_def
  proof (induction ids)
    case (Cons i ids)
    then show ?case
      using captures_iter_link [of i "[]"] captures_iter_link [of i "[CHR 0x0A] @ join [CHR 0x0A] zs" for zs]
      by (cases ids) (simp_all only: list.map join.simps append_assoc append_Nil2 newline nothing)
  qed simp
qed

text \<open>The synthetic page stands for the preset it replaces.\<close>

lemma parse_synthetic_preset: "parse_preset_html (synthetic_preset_html ids) = ids"
proof -
  have "List.map_filter parse_uint (map show_word ids) = ids" for ids :: "u64 list"
    by (induction ids) (simp_all add: map_filter_def)
  then show ?thesis by (simp add: parse_preset_html_def captures_iter_links)
qed

lemma import_spec_export:
  "import_spec ids (fst (export_server keys x)) = (srv_spec x)\<lparr>mod_source_ids := ids\<rparr>"
proof -
  have cast: "ucast (ucast (p :: u16) :: u32) = p" for p by (simp add: ucast_up_ucast_id is_up)
  show ?thesis
    by (cases "srv_spec x"; cases "metrics (srv_spec x)"; cases "desired_state (srv_spec x)")
       (auto simp: import_spec_def export_server_def Let_def cast)
qed

lemma triple_map_act:
  "(\<And>x. triple P (f x) (\<lambda>_. P) E) \<Longrightarrow> triple P (map_act f xs) (\<lambda>_. P) E"
  by (induction xs) (auto intro!: triple_ret triple_bind [where R = "\<lambda>_. P"])

abbreviation importable :: "exported_mod_source \<Rightarrow> bool" where
  "importable x \<equiv> import_input x \<noteq> None"

definition imported_objects :: "(nat \<Rightarrow> uuid) \<Rightarrow> nat \<Rightarrow> exported_mod_source list \<Rightarrow> mod_source list" where
  "imported_objects fresh k xs =
    map (\<lambda>(j, x). new_mod_source (fresh j) [] (the (import_input x))) (filter (\<lambda>(j, x). importable x) (enumerate k xs))"

definition imported_keys :: "(nat \<Rightarrow> uuid) \<Rightarrow> nat \<Rightarrow> exported_mod_source list \<Rightarrow> (string \<times> string) list" where
  "imported_keys fresh k xs = map (\<lambda>(j, x). (import_key x, fresh j)) (filter (\<lambda>(j, x). importable x) (enumerate k xs))"

lemma import_sources_run:
  assumes "k_replies u = []" "inj fresh" "\<forall>j \<ge> k. \<forall>a \<in> set (k_sources u). src_name a \<noteq> fresh j"
  shows "\<exists>rs. map_act (\<lambda>(k, x). import_source (fresh k) x) (enumerate k xs) u =
      (Inr rs, u\<lparr>k_sources := k_sources u @ imported_objects fresh k xs\<rparr>) \<and> lefts rs = imported_keys fresh k xs"
  using assms(1,3)
proof (induction xs arbitrary: k u)
  case Nil
  then show ?case by (simp add: act_simps imported_objects_def imported_keys_def)
next
  case (Cons x xs)
  show ?case
  proof (cases "import_input x")
    case None
    from Cons.IH [of u "Suc k"] Cons.prems obtain rs where
      rs: "map_act (\<lambda>(k, x). import_source (fresh k) x) (enumerate (Suc k) xs) u =
        (Inr rs, u\<lparr>k_sources := k_sources u @ imported_objects fresh (Suc k) xs\<rparr>)" "lefts rs = imported_keys fresh (Suc k) xs"
      by auto
    with None show ?thesis by (auto simp: act_simps import_source_def imported_objects_def imported_keys_def)
  next
    case (Some input)
    let ?o = "new_mod_source (fresh k) [] input"
    let ?u = "u\<lparr>k_sources := k_sources u @ [?o]\<rparr>"
    have "obj_get src_name (k_sources u) (fresh k) = None" using Cons.prems(2) by (simp add: sources.get_None)
    then have step: "import_source (fresh k) x u = (Inr (Inl (import_key x, fresh k)), ?u)"
      using Cons.prems(1) Some by (simp add: import_source_def act_simps api_create_def new_mod_source_def)
    have "\<forall>j \<ge> Suc k. \<forall>a \<in> set (k_sources ?u). src_name a \<noteq> fresh j"
      using Cons.prems(2) injD [OF assms(2)] by (auto simp: new_mod_source_def) fastforce
    from Cons.IH [OF _ this] Cons.prems obtain rs where
      rs: "map_act (\<lambda>(k, x). import_source (fresh k) x) (enumerate (Suc k) xs) ?u =
        (Inr rs, ?u\<lparr>k_sources := k_sources ?u @ imported_objects fresh (Suc k) xs\<rparr>)" "lefts rs = imported_keys fresh (Suc k) xs"
      by auto
    with Some step show ?thesis by (auto simp: act_simps imported_objects_def imported_keys_def)
  qed
qed

lemma import_config_maps_keep:
  fixes u :: "'z clus_scheme"
  assumes "k_replies u = []"
  shows "\<exists>ws u'. map_act import_config_map cms u = (Inr ws, u') \<and> k_replies u' = []
    \<and> k_servers u' = k_servers u \<and> k_sources u' = k_sources u"
proof -
  let ?P = "\<lambda>s :: 'z clus_scheme. k_replies s = [] \<and> k_servers s = k_servers u \<and> k_sources s = k_sources u"
  have "triple ?P (import_config_map cm) (\<lambda>_. ?P) (\<lambda>_ _. False)" for cm
    unfolding triple_def
  proof (intro allI impI)
    fix s :: "'z clus_scheme"
    assume "?P s"
    then show "case import_config_map cm s of (Inr _, s') \<Rightarrow> ?P s' | (Inl _, _) \<Rightarrow> False"
      by (cases "obj_get cmo_name (cl_configmaps s) (xc_name cm)")
      (simp_all add: import_config_map_def act_simps api_get_def api_patch_def api_create_def)
  qed
  then have "triple ?P (map_act import_config_map cms) (\<lambda>_. ?P) (\<lambda>_ _. False)" by (rule triple_map_act)
  from tripleD [OF this, of u "fst (map_act import_config_map cms u)" "snd (map_act import_config_map cms u)"] assms
  show ?thesis by (cases "map_act import_config_map cms u") (auto split: sum.splits)
qed

definition imported_server :: "(string \<Rightarrow> string option) \<Rightarrow> exported_server \<Rightarrow> arma_server" where
  "imported_server new_ids x = \<lparr>srv_name = xs_name x, srv_annotations = [],
     srv_spec = import_spec (List.map_filter new_ids (xs_mod_source_references x)) x,
     srv_status = None, srv_finalizers = [], srv_deleting = False\<rparr>"

lemma import_servers_run:
  assumes "k_replies u = []" "distinct (map srv_name (k_servers u) @ map xs_name xs)"
  shows "\<exists>ws. map_act (import_server m) xs u = (Inr ws, u\<lparr>k_servers := k_servers u @ map (imported_server m) xs\<rparr>)"
  using assms
proof (induction xs arbitrary: u)
  case (Cons x xs)
  let ?u = "u\<lparr>k_servers := k_servers u @ [imported_server m x]\<rparr>"
  have "obj_get srv_name (k_servers u) (xs_name x) = None" using Cons.prems(2) unfolding servers.get_None by (auto simp: image_iff)
  then obtain w where step: "import_server m x u = (Inr w, ?u)"
    using Cons.prems(1) by (simp add: import_server_def act_simps api_create_def imported_server_def)
  have "distinct (map srv_name (k_servers ?u) @ map xs_name xs)"
    using Cons.prems(2) by (auto simp: imported_server_def)
  with Cons.IH [of ?u] Cons.prems(1) step show ?case by (auto simp: act_simps)
qed (simp add: act_simps)

lemma export_state_run:
  assumes "export_state baseline now s = (Inr resp, s')" "k_replies s = []"
  shows "er_mod_sources resp = map export_source (k_sources s)"
    and "er_servers resp = map (\<lambda>x. fst (export_server (id_to_key (k_sources s)) x)) (k_servers s)"
  using assms by (auto simp: export_state_def act_simps api_list_def Let_def split: sum.splits prod.splits)

text \<open>What a source stands for, whatever the payload calls it: a link, or the mods of an uploaded preset. The
  input of a new source has the content of an old one when it is the same kind of link to the same place, or
  a page on which the scanner finds the mods the old one was resolved to.\<close>

definition same_content :: "mod_source \<Rightarrow> mod_source_input \<Rightarrow> bool" where
  "same_content a input = (case src_input a of
      SteamUrl url \<Rightarrow> input = SteamUrl url
    | HtmlUrl url \<Rightarrow> input = HtmlUrl url
    | HtmlContent _ \<Rightarrow> (case input of HtmlContent html \<Rightarrow> set (parse_preset_html html) = set (resolved_ids a) | _ \<Rightarrow> False)
    | Local _ \<Rightarrow> False)"

definition has_content :: "mod_source \<Rightarrow> bool" where
  "has_content a = (case src_input a of
      SteamUrl _ \<Rightarrow> True | HtmlUrl _ \<Rightarrow> True | HtmlContent _ \<Rightarrow> resolved_ids a \<noteq> [] | Local _ \<Rightarrow> False)"

definition restored :: "mod_source list \<Rightarrow> mod_source list \<Rightarrow> string \<Rightarrow> string \<Rightarrow> bool" where
  "restored old new i j = (\<exists>a \<in> set old. \<exists>c \<in> set new. src_name a = i \<and> src_name c = j \<and> same_content a (src_input c))"

definition restorable :: "mod_source list \<Rightarrow> string \<Rightarrow> bool" where
  "restorable old i = (\<exists>a \<in> set old. src_name a = i \<and> has_content a)"

text \<open>The sources of the exporting cluster: the sync daemon has resolved each once, so its status has the kind
  that goes with its input; no two different inputs share a link or a local id, and none of these looks
  like the name the export gives an uploaded page.\<close>

definition kind_fits :: "mod_source \<Rightarrow> bool" where
  "kind_fits a = (ms_kind (source_status a) \<in> (case src_input a of
      SteamUrl _ \<Rightarrow> {''mod'', ''collection''} | HtmlUrl _ \<Rightarrow> {''preset''} | HtmlContent _ \<Rightarrow> {''preset''} | Local _ \<Rightarrow> {''local''}))"

definition address :: "mod_source \<Rightarrow> string option" where
  "address a = (case src_input a of SteamUrl t \<Rightarrow> Some t | HtmlUrl t \<Rightarrow> Some t | HtmlContent _ \<Rightarrow> None | Local t \<Rightarrow> Some t)"

definition addresses_apart :: "mod_source list \<Rightarrow> bool" where
  "addresses_apart old = (list_all (\<lambda>a. list_all (\<lambda>b. address a \<noteq> address b \<or> address a = None \<or> src_input a = src_input b) old
     \<and> (case address a of None \<Rightarrow> True | Some t \<Rightarrow> \<not> starts_with t ''(uploaded HTML'')) old)"

lemma show_words_inj:
  assumes "join '','' (map show_word xs) = join '','' (map show_word (ys :: u64 list))"
  shows "xs = ys"
proof -
  have split: "split_on (CHR '','') (join '','' (map show_word zs)) = map show_word zs" if "zs \<noteq> []" for zs :: "u64 list"
    using that show_word_no_char [of "CHR '',''"] by (intro split_on_join) (auto simp: is_digit_def)
  have none: "join '','' (map show_word zs) = [] \<longleftrightarrow> zs = []" for zs :: "u64 list"
    by (induction zs rule: induct_list012) simp_all
  have inj: "map show_word us = map show_word vs \<Longrightarrow> us = vs" for us vs :: "u64 list"
    by (rule map_injective [of show_word]) (auto simp: inj_def)
  show ?thesis
  proof (cases "xs = [] \<or> ys = []")
    case True
    then show ?thesis using assms none [of xs] none [of ys] by metis
  next
    case False
    then have "map show_word xs = map show_word ys" using arg_cong [OF assms, of "split_on (CHR '','')"] split [of xs] split [of ys] by simp
    then show ?thesis by (rule inj)
  qed
qed

lemma uploaded_key_inj:
  assumes "match_key KindPreset uploaded_html us = match_key KindPreset uploaded_html vs"
  shows "set us = set vs"
proof -
  have "remdups_adj (sort us) = remdups_adj (sort vs)" using assms by (intro show_words_inj) (simp add: match_key_def)
  then have "set (remdups_adj (sort us)) = set (remdups_adj (sort vs))" by (rule arg_cong)
  then show ?thesis by simp
qed

lemma source_key_cases:
  assumes "kind_fits a" "addresses_apart old" "a \<in> set old"
  shows "source_key a = (case address a of None \<Rightarrow> match_key KindPreset uploaded_html (resolved_ids a) | Some t \<Rightarrow> t)"
    and "importable (export_source a) \<longleftrightarrow> has_content a"
    and "import_input (export_source a) = Some input \<Longrightarrow> same_content a input"
proof -
  have plain: "t \<noteq> uploaded_html" if "address a = Some t" for t
    using assms(2,3) that by (auto simp: addresses_apart_def list_all_iff uploaded_html_def starts_with_def)
  show "source_key a = (case address a of None \<Rightarrow> match_key KindPreset uploaded_html (resolved_ids a) | Some t \<Rightarrow> t)"
    "importable (export_source a) \<longleftrightarrow> has_content a"
    "import_input (export_source a) = Some input \<Longrightarrow> same_content a input"
    using assms(1) plain
    by (cases "src_input a"; auto simp: kind_fits_def address_def source_key_def match_key_def export_source_def to_mod_source_info_def
        kind_str_to_proto_def reference_for_def Let_def uploaded_html_def import_input_def has_content_def
        same_content_def parse_synthetic_preset split: if_splits)+
qed

text \<open>Sources that share a key share their content.\<close>

lemma same_key_same_content:
  assumes "list_all kind_fits old" "addresses_apart old" "a \<in> set old" "b \<in> set old" "source_key a = source_key b"
  shows "has_content b \<longleftrightarrow> has_content a"
    and "same_content b input \<longleftrightarrow> same_content a input"
proof -
  have fits: "kind_fits a" "kind_fits b" using assms(1,3,4) by (auto simp: list_all_iff)
  have keys: "(case address a of None \<Rightarrow> match_key KindPreset uploaded_html (resolved_ids a) | Some t \<Rightarrow> t) =
      (case address b of None \<Rightarrow> match_key KindPreset uploaded_html (resolved_ids b) | Some t \<Rightarrow> t)"
    using source_key_cases(1) [OF fits(1) assms(2,3)] source_key_cases(1) [OF fits(2) assms(2,4)] assms(5) by simp
  have marked: "starts_with (match_key KindPreset uploaded_html ids) ''(uploaded HTML''" for ids
    by (simp add: match_key_def starts_with_def)
  have plain: "\<not> starts_with t ''(uploaded HTML''" if "address x = Some t" "x \<in> set old" for x t
    using assms(2) that by (auto simp: addresses_apart_def list_all_iff)
  have "(address a \<noteq> None \<and> src_input a = src_input b) \<or> (address a = None \<and> address b = None \<and> set (resolved_ids a) = set (resolved_ids b))"
  proof (cases "address a")
    case None
    have "address b = None"
    proof (cases "address b")
      case (Some t)
      then show ?thesis using keys None marked [of "resolved_ids a"] plain [OF Some assms(4)] by simp
    qed
    then have "set (resolved_ids a) = set (resolved_ids b)" using keys None by (intro uploaded_key_inj) simp
    with None \<open>address b = None\<close> show ?thesis by blast
  next
    case (Some t)
    have "address b = Some t"
    proof (cases "address b")
      case None
      then show ?thesis using keys Some marked [of "resolved_ids b"] plain [OF Some assms(3)] by simp
    qed (use keys Some in simp)
    moreover have "address a \<noteq> address b \<or> address a = None \<or> src_input a = src_input b"
      using assms(2-4) unfolding addresses_apart_def list_all_iff by blast
    ultimately show ?thesis using Some by simp
  qed
  then have "(has_content b \<longleftrightarrow> has_content a) \<and> (same_content b input \<longleftrightarrow> same_content a input)"
  proof (elim disjE conjE)
    assume "address a \<noteq> None" "src_input a = src_input b"
    then show ?thesis by (cases "src_input b") (simp_all add: address_def has_content_def same_content_def)
  next
    assume none: "address a = None" "address b = None" and ids: "set (resolved_ids a) = set (resolved_ids b)"
    obtain h h' where "src_input a = HtmlContent h" "src_input b = HtmlContent h'"
      using none by (auto simp: address_def split: mod_source_input.splits)
    moreover have "resolved_ids a = [] \<longleftrightarrow> resolved_ids b = []" using ids by (metis set_empty)
    ultimately show ?thesis using ids by (simp add: has_content_def same_content_def split: mod_source_input.split)
  qed
  then show "has_content b \<longleftrightarrow> has_content a" "same_content b input \<longleftrightarrow> same_content a input" by simp_all
qed

lemma import_key_export [simp]: "import_key (export_source a) = source_key a"
  by (simp add: import_key_def source_key_def Let_def)

lemma imported_keys_iff:
  "p \<in> set (imported_keys fresh 0 xs) \<longleftrightarrow> (\<exists>n < length xs. importable (xs ! n) \<and> p = (import_key (xs ! n), fresh n))"
proof -
  have "p \<in> set (imported_keys fresh 0 xs) \<longleftrightarrow> (\<exists>q \<in> set (enumerate 0 xs). importable (snd q) \<and> p = (import_key (snd q), fresh (fst q)))"
    by (auto simp: imported_keys_def image_iff split_beta) (metis fst_conv snd_conv)+
  also have "\<dots> \<longleftrightarrow> (\<exists>n < length xs. importable (xs ! n) \<and> p = (import_key (xs ! n), fresh n))"
    by (auto simp: in_set_enumerate_eq Bex_def)
  finally show ?thesis .
qed

lemma imported_objects_mem:
  assumes "n < length xs" "importable (xs ! n)"
  shows "new_mod_source (fresh n) [] (the (import_input (xs ! n))) \<in> set (imported_objects fresh 0 xs)"
proof -
  have "(n, xs ! n) \<in> set (filter (\<lambda>(j, x). importable x) (enumerate 0 xs))"
    using assms by (auto simp: in_set_enumerate_eq)
  from imageI [OF this, of "\<lambda>(j, x). new_mod_source (fresh j) [] (the (import_input x))"] show ?thesis
    by (simp add: imported_objects_def)
qed

lemma imported_key_iff:
  "(\<exists>j. map_of (rev (imported_keys fresh 0 (map export_source old))) k = Some j) \<longleftrightarrow>
    (\<exists>b \<in> set old. source_key b = k \<and> importable (export_source b))"
proof -
  let ?ks = "imported_keys fresh 0 (map export_source old)"
  have "k \<in> fst ` set ?ks \<longleftrightarrow> (\<exists>n < length old. importable (export_source (old ! n)) \<and> k = source_key (old ! n))"
    by (force simp: image_iff imported_keys_iff)
  also have "\<dots> \<longleftrightarrow> (\<exists>b \<in> set old. source_key b = k \<and> importable (export_source b))"
    by (metis (no_types, lifting) in_set_conv_nth)
  finally have "k \<in> fst ` set ?ks \<longleftrightarrow> (\<exists>b \<in> set old. source_key b = k \<and> importable (export_source b))" .
  then have "map_of (rev ?ks) k \<noteq> None \<longleftrightarrow> (\<exists>b \<in> set old. source_key b = k \<and> importable (export_source b))"
    by (auto simp: map_of_eq_None_iff)
  then show ?thesis by auto
qed

lemma imported_key_object:
  assumes "map_of (rev (imported_keys fresh 0 (map export_source old))) k = Some j"
  shows "\<exists>b \<in> set old. \<exists>c \<in> set (imported_objects fresh 0 (map export_source old)).
    source_key b = k \<and> src_name c = j \<and> import_input (export_source b) = Some (src_input c)"
proof -
  have "(k, j) \<in> set (imported_keys fresh 0 (map export_source old))" using map_of_SomeD [OF assms] by simp
  then obtain n where n: "n < length old" "importable (export_source (old ! n))" "k = source_key (old ! n)" "j = fresh n"
    unfolding imported_keys_iff by auto
  have "new_mod_source (fresh n) [] (the (import_input (export_source (old ! n)))) \<in> set (imported_objects fresh 0 (map export_source old))"
    using imported_objects_mem [of n "map export_source old" fresh] n(1,2) by simp
  with n show ?thesis by (intro bexI [of _ "old ! n"] bexI) (auto simp: new_mod_source_def)
qed

lemma list_all2_map_filter:
  "(\<And>i j. g i = Some j \<Longrightarrow> P i j) \<Longrightarrow> list_all2 P (filter (\<lambda>i. g i \<noteq> None) xs) (List.map_filter g xs)"
  by (induction xs) (auto simp: map_filter_def split: option.splits)

lemma map_filter_map_filter: "List.map_filter g (List.map_filter f xs) = List.map_filter (\<lambda>x. Option.bind (f x) g) xs"
  by (induction xs) (auto simp: map_filter_def split: option.splits)

lemma id_to_key_iff:
  assumes "distinct (map src_name old)"
  shows "id_to_key old i = Some k \<longleftrightarrow> (\<exists>a \<in> set old. src_name a = i \<and> source_key a = k)"
proof -
  have "distinct (map fst (rev (map (\<lambda>obj. (src_name obj, source_key obj)) old)))"
    using assms by (simp add: rev_map [symmetric] comp_def)
  then show ?thesis unfolding id_to_key_def by (auto simp: map_of_eq_Some_iff)
qed

text \<open>A server that went through export and import, with the sources imported before it.\<close>

lemma imported_server_restores:
  fixes old :: "mod_source list" and fresh :: "nat \<Rightarrow> uuid"
  defines "m \<equiv> map_of (rev (imported_keys fresh 0 (map export_source old)))"
    and "new \<equiv> imported_objects fresh 0 (map export_source old)"
  assumes "distinct (map src_name old)" "y = imported_server m (fst (export_server (id_to_key old) x))"
    and fits: "list_all kind_fits old" and apart: "addresses_apart old"
  shows "srv_spec y = (srv_spec x)\<lparr>mod_source_ids := mod_source_ids (srv_spec y)\<rparr>
    \<and> list_all2 (restored old new) (filter (restorable old) (mod_source_ids (srv_spec x))) (mod_source_ids (srv_spec y))"
proof -
  note key = id_to_key_iff [OF assms(3)]
  define g where "g = (\<lambda>i. Option.bind (id_to_key old i) m)"
  have fit: "kind_fits a" if "a \<in> set old" for a using fits that by (simp add: list_all_iff)
  have g: "g i \<noteq> None \<longleftrightarrow> restorable old i" for i
  proof -
    have "g i \<noteq> None \<longleftrightarrow> (\<exists>a \<in> set old. src_name a = i \<and> (\<exists>b \<in> set old. source_key b = source_key a \<and> importable (export_source b)))"
      using key imported_key_iff [of fresh old] by (fastforce simp: g_def m_def bind_eq_Some_conv)
    moreover have "(\<exists>b \<in> set old. source_key b = source_key a \<and> importable (export_source b)) \<longleftrightarrow> has_content a" if "a \<in> set old" for a
      using that source_key_cases(2) [OF fit apart] same_key_same_content(1) [OF fits apart that] by metis
    ultimately show ?thesis unfolding restorable_def by blast
  qed
  have g': "restored old new i j" if gi: "g i = Some j" for i j
  proof -
    obtain k where k: "id_to_key old i = Some k" "m k = Some j" using gi by (auto simp: g_def bind_eq_Some_conv)
    obtain a where a: "a \<in> set old" "src_name a = i" "source_key a = k" using k(1) key by blast
    obtain b c where bc: "b \<in> set old" "c \<in> set new" "source_key b = k" "src_name c = j"
        "import_input (export_source b) = Some (src_input c)"
      using imported_key_object [OF k(2) [unfolded m_def]] unfolding new_def by blast
    have "same_content b (src_input c)" using source_key_cases(3) [OF fit apart] bc(1,5) by blast
    then have "same_content a (src_input c)" using same_key_same_content(2) [OF fits apart a(1) bc(1)] a(3) bc(3) by simp
    with a bc show ?thesis unfolding restored_def by blast
  qed
  have "mod_source_ids (srv_spec y) = List.map_filter g (mod_source_ids (srv_spec x))"
    by (simp add: assms(4) imported_server_def import_spec_def export_server_def Let_def map_filter_map_filter g_def)
  moreover have "restorable old = (\<lambda>i. g i \<noteq> None)" by (intro ext) (simp only: g)
  ultimately have "list_all2 (restored old new) (filter (restorable old) (mod_source_ids (srv_spec x))) (mod_source_ids (srv_spec y))"
    using list_all2_map_filter [of g "restored old new", OF g'] by simp
  then show ?thesis by (simp add: assms(4) imported_server_def import_spec_export)
qed

section \<open>Properties\<close>

text \<open>C37: Exported state imports again. On an empty cluster the import of an export creates every server
  with its specification unchanged but for its mod list, and that list has, in order, one new id per source
  that has content to restore, each naming a new source of that content: the same Workshop or preset link,
  or, for an uploaded preset, a page that parses to the mods it was resolved to. Every source of the old
  cluster has been resolved, and no link is written like the export's name of an uploaded page.\<close>

theorem export_import_roundtrip:
  assumes "export_state baseline now s = (Inr resp, s')" "k_replies s = []"
    and "distinct (map src_name (k_sources s))" "distinct (map srv_name (k_servers s))"
    and "list_all kind_fits (k_sources s)" "addresses_apart (k_sources s)"
    and "k_replies t = []" "k_servers t = []" "k_sources t = []" "inj fresh"
  shows "\<exists>warnings t'. import_state fresh (request_of resp) t = (Inr warnings, t')
    \<and> map srv_name (k_servers t') = map srv_name (k_servers s)
    \<and> list_all2 (\<lambda>x y. srv_spec y = (srv_spec x)\<lparr>mod_source_ids := mod_source_ids (srv_spec y)\<rparr>
        \<and> list_all2 (restored (k_sources s) (k_sources t')) (filter (restorable (k_sources s)) (mod_source_ids (srv_spec x)))
            (mod_source_ids (srv_spec y))) (k_servers s) (k_servers t')"
proof -
  let ?old = "k_sources s" and ?keys = "id_to_key (k_sources s)"
  let ?m = "map_of (rev (imported_keys fresh 0 (map export_source ?old)))"
  let ?new = "imported_objects fresh 0 (map export_source ?old)"
  note ex = export_state_run [OF assms(1,2)]
  obtain rs where src: "map_act (\<lambda>(k, x). import_source (fresh k) x) (enumerate 0 (map export_source ?old)) t =
      (Inr rs, t\<lparr>k_sources := ?new\<rparr>)" "lefts rs = imported_keys fresh 0 (map export_source ?old)"
    using import_sources_run [OF assms(7,10), of 0 "map export_source ?old"] assms(9) by auto
  obtain ws u where cms: "map_act import_config_map (er_config_maps resp) (t\<lparr>k_sources := ?new\<rparr>) = (Inr ws, u)"
      "k_replies u = []" "k_servers u = []" "k_sources u = ?new"
    using import_config_maps_keep [of "t\<lparr>k_sources := ?new\<rparr>" "er_config_maps resp"] assms(7,8) by auto
  have "distinct (map srv_name (k_servers u) @ map xs_name (er_servers resp))"
    using assms(4) by (simp add: cms(3) ex(2) comp_def export_server_def Let_def)
  from import_servers_run [OF cms(2) this, of ?m] obtain ws' where
    srv: "map_act (import_server ?m) (er_servers resp) u = (Inr ws', u\<lparr>k_servers := map (imported_server ?m) (er_servers resp)\<rparr>)"
    by (auto simp: cms(3))
  let ?t = "u\<lparr>k_servers := map (imported_server ?m) (er_servers resp)\<rparr>"
  have run: "import_state fresh (request_of resp) t = (Inr (rights rs @ concat ws @ concat ws'), ?t)"
    by (simp add: import_state_def request_of_def act_simps ex(1) src cms(1) srv)
  have one: "srv_spec y = (srv_spec x)\<lparr>mod_source_ids := mod_source_ids (srv_spec y)\<rparr>
      \<and> list_all2 (restored ?old ?new) (filter (restorable ?old) (mod_source_ids (srv_spec x))) (mod_source_ids (srv_spec y))"
    if "y = imported_server ?m (fst (export_server ?keys x))" for x y
    using imported_server_restores [OF assms(3) that assms(5,6)] .
  have "map srv_name (k_servers ?t) = map srv_name (k_servers s)"
    by (simp add: ex(2) comp_def imported_server_def export_server_def Let_def)
  moreover have "list_all2 (\<lambda>x y. srv_spec y = (srv_spec x)\<lparr>mod_source_ids := mod_source_ids (srv_spec y)\<rparr>
      \<and> list_all2 (restored ?old (k_sources ?t)) (filter (restorable ?old) (mod_source_ids (srv_spec x))) (mod_source_ids (srv_spec y)))
      (k_servers s) (k_servers ?t)"
    using one by (simp add: ex(2) cms(4) list_all2_map2 list_all2_same)
  ultimately show ?thesis using run by blast
qed

definition demo_cluster_objects :: clus where
  "demo_cluster_objects = \<lparr>
     k_servers = [\<lparr>srv_name = ''ops'', srv_annotations = [], srv_spec = \<lparr>mod_source_ids = [''a'', ''l''], port = 2302, cdlc = [''ws''],
         profiling = True, desired_state = DesiredStopped, config_map = None, metrics = None, headless_clients = 1\<rparr>,
         srv_status = None, srv_finalizers = [], srv_deleting = False\<rparr>],
     k_sources = [(demo_source ''a'' (SteamUrl ''u'') [1])\<lparr>src_status := Some (mod_source_status_default\<lparr>ms_kind := ''mod''\<rparr>)\<rparr>,
         (demo_source ''l'' (Local ''x'') [])\<lparr>src_status := Some (mod_source_status_default\<lparr>ms_kind := ''local''\<rparr>)\<rparr>],
     k_replies = [], k_sync_log = [], cl_configmaps = []\<rparr>"

definition empty_cluster :: clus where
  "empty_cluster = \<lparr>k_servers = [], k_sources = [], k_replies = [], k_sync_log = [], cl_configmaps = []\<rparr>"

text \<open>Only the Steam source comes back: the content of a local mod is not part of the payload.\<close>

theorem export_import_roundtrip_witness:
  "\<exists>resp s' warnings t' y. export_state ''base'' ''now'' demo_cluster_objects = (Inr resp, s')
     \<and> import_state (\<lambda>k. replicate k CHR ''n'') (request_of resp) empty_cluster = (Inr warnings, t')
     \<and> k_servers t' = [y] \<and> port (srv_spec y) = 2302 \<and> length (mod_source_ids (srv_spec y)) = 1"
proof -
  have cms: "config_map_names ''base'' (k_servers demo_cluster_objects) = [''base'']"
    by (simp add: config_map_names_def demo_cluster_objects_def map_filter_def)
  have list: "api_list k_servers demo_cluster_objects = (Inr (k_servers demo_cluster_objects), demo_cluster_objects)"
    "api_list k_sources demo_cluster_objects = (Inr (k_sources demo_cluster_objects), demo_cluster_objects)"
    "api_get cl_configmaps cmo_name n demo_cluster_objects = (Inl KubeNotFound, demo_cluster_objects)" for n
    by (simp_all add: api_list_def api_get_def act_simps demo_cluster_objects_def obj_get_def)
  obtain resp s' where run: "export_state ''base'' ''now'' demo_cluster_objects = (Inr resp, s')"
    by (simp add: export_state_def act_simps list cms export_config_map_def Let_def)
  have wf: "k_replies demo_cluster_objects = []" "distinct (map src_name (k_sources demo_cluster_objects))"
    "distinct (map srv_name (k_servers demo_cluster_objects))" "list_all kind_fits (k_sources demo_cluster_objects)"
    "addresses_apart (k_sources demo_cluster_objects)" "k_replies empty_cluster = []" "k_servers empty_cluster = []"
    "k_sources empty_cluster = []" "inj (\<lambda>k. replicate k CHR ''n'')"
    by (simp_all add: demo_cluster_objects_def empty_cluster_def demo_source_def inj_def kind_fits_def source_status_def
        addresses_apart_def address_def starts_with_def)
  from export_import_roundtrip [OF run wf] obtain warnings t' where
    imp: "import_state (\<lambda>k. replicate k CHR ''n'') (request_of resp) empty_cluster = (Inr warnings, t')"
    and all: "list_all2 (\<lambda>x y. srv_spec y = (srv_spec x)\<lparr>mod_source_ids := mod_source_ids (srv_spec y)\<rparr>
        \<and> list_all2 (restored (k_sources demo_cluster_objects) (k_sources t'))
            (filter (restorable (k_sources demo_cluster_objects)) (mod_source_ids (srv_spec x))) (mod_source_ids (srv_spec y)))
        (k_servers demo_cluster_objects) (k_servers t')"
    by blast
  have "filter (restorable (k_sources demo_cluster_objects)) [''a'', ''l''] = [''a'']"
    by (simp add: restorable_def has_content_def demo_cluster_objects_def demo_source_def)
  with all obtain y where "k_servers t' = [y]" "port (srv_spec y) = 2302" "length (mod_source_ids (srv_spec y)) = 1"
    by (auto simp: demo_cluster_objects_def list_all2_Cons1 dest!: list_all2_lengthD)
  with run imp show ?thesis by blast
qed

text \<open>An import bypasses the port check. A server of the payload that is to run is created on ports
  an existing running server holds, without a warning.\<close>

theorem import_ignores_port_conflicts:
  assumes "k_replies t = []" "x \<in> set (k_servers t)" "desired_state (srv_spec x) = DesiredRunning"
    and "xs_name y \<notin> srv_name ` set (k_servers t)" "xs_desired_state y \<noteq> ExpStopped" "xs_mod_source_references y = []"
    and "port_ranges_overlap (ucast (xs_port y)) (port (srv_spec x))"
  shows "\<exists>t' z. import_state fresh \<lparr>ir_mod_sources = [], ir_config_maps = [], ir_servers = [y]\<rparr> t = (Inr [], t')
    \<and> {x, z} \<subseteq> set (k_servers t') \<and> srv_name z \<noteq> srv_name x \<and> desired_state (srv_spec z) = DesiredRunning
    \<and> port_ranges_overlap (port (srv_spec z)) (port (srv_spec x))"
proof -
  have "obj_get srv_name (k_servers t) (xs_name y) = None" using assms(4) unfolding servers.get_None by (metis imageI)
  then have "import_state fresh \<lparr>ir_mod_sources = [], ir_config_maps = [], ir_servers = [y]\<rparr> t =
      (Inr [], t\<lparr>k_servers := k_servers t @ [imported_server (\<lambda>_. None) y]\<rparr>)"
    using assms(1,6) by (simp add: import_state_def act_simps import_server_def api_create_def imported_server_def map_filter_def Let_def)
  moreover have "srv_name (imported_server (\<lambda>_. None) y) \<noteq> srv_name x" using assms(2,4) by (auto simp: imported_server_def)
  moreover have "desired_state (srv_spec (imported_server (\<lambda>_. None) y)) = DesiredRunning"
      "port (srv_spec (imported_server (\<lambda>_. None) y)) = ucast (xs_port y)"
    using assms(5) by (auto simp: imported_server_def import_spec_def split: exported_desired.splits)
  ultimately show ?thesis
    using assms(2,7) by (intro exI [of _ "t\<lparr>k_servers := k_servers t @ [imported_server (\<lambda>_. None) y]\<rparr>"]
      exI [of _ "imported_server (\<lambda>_. None) y"]) simp
qed

theorem import_ignores_port_conflicts_witness:
  "\<exists>t' x z. x \<noteq> z \<and> {x, z} \<subseteq> set (k_servers t') \<and> port_ranges_overlap (port (srv_spec z)) (port (srv_spec x))
    \<and> (\<exists>r. import_state (\<lambda>_. []) r (empty_cluster\<lparr>k_servers := [create_object (demo_request ''a'' 2302) 2302 []]\<rparr>) = (Inr [], t'))"
proof -
  let ?x = "create_object (demo_request ''a'' 2302) 2302 []"
  let ?y = "(fst (export_server (\<lambda>_. None) ?x))\<lparr>xs_name := ''b''\<rparr>"
  have "k_replies (empty_cluster\<lparr>k_servers := [?x]\<rparr>) = []" "?x \<in> set (k_servers (empty_cluster\<lparr>k_servers := [?x]\<rparr>))"
    "desired_state (srv_spec ?x) = DesiredRunning" "xs_name ?y \<notin> srv_name ` set (k_servers (empty_cluster\<lparr>k_servers := [?x]\<rparr>))"
    "xs_desired_state ?y \<noteq> ExpStopped" "xs_mod_source_references ?y = []" "port_ranges_overlap (ucast (xs_port ?y)) (port (srv_spec ?x))"
    by (simp_all add: empty_cluster_def create_object_def create_spec_def demo_request_def export_server_def Let_def map_filter_def)
  from import_ignores_port_conflicts [OF this, of "\<lambda>_. []"] show ?thesis by metis
qed

end
