(* ===== verification/Launcher.thy ===== *)
theory Launcher
  imports Deploy ModSources
begin

text \<open>
  The process of a server Pod (\<open>services/launcher\<close>): reading its environment, the signing keys, the
  mission mirror, the wait for the game ports, the command line of the game server, and the
  health check. The state is what the launcher writes: the keys directory, the claim's
  \<open>mpmissions\<close>, the spawned child and the signals sent to it. A directory lists its entries in the order
  \<open>read_dir\<close> gives; links are not modelled. \<open>w_io p\<close> says whether the path \<open>p\<close> can be opened for
  writing. Time is in milliseconds, and the environment says which ports are bound when.
\<close>

section \<open>Configuration\<close>

record launcher_config =
  lc_claim_path :: string
  lc_mods :: "string list"
  lc_arma_binary :: string
  lc_arma_cdlc :: "string list"
  lc_client_connect :: "string option"
  lc_client_password :: "string option"
  lc_ld_preload :: "string option"

definition launcher_require_env :: "(string \<rightharpoonup> string) \<Rightarrow> string \<Rightarrow> string + string" where
  "launcher_require_env env key = ok_or (env key) (''missing required env var '' @ key)"

definition env_list :: "(string \<Rightarrow> string) \<Rightarrow> string \<Rightarrow> string list" where
  "env_list f v = filter (\<lambda>s. s \<noteq> []) (map (f \<circ> trim) (split_on (CHR '';'') v))"

definition env_nonempty :: "(string \<rightharpoonup> string) \<Rightarrow> string \<Rightarrow> string option" where
  "env_nonempty env k = (case env k of Some s \<Rightarrow> if s \<noteq> [] then Some s else None | None \<Rightarrow> None)"

definition from_env :: "(string \<rightharpoonup> string) \<Rightarrow> string + launcher_config" where
  "from_env env =
    rbind (launcher_require_env env ''CLAIM_PATH'') (\<lambda>claim_path. Inr
      \<lparr>lc_claim_path = claim_path,
       lc_mods = env_list id (env_or env ''MODS'' []),
       lc_arma_binary = env_or env ''ARMA_BINARY'' ''./arma3server_x64'',
       lc_arma_cdlc = env_list to_lowercase (env_or env ''ARMA_CDLC'' []),
       lc_client_connect = env_nonempty env ''ARMA_CLIENT_CONNECT'',
       lc_client_password = env_nonempty env ''ARMA_SERVER_PASSWORD'',
       lc_ld_preload = env_nonempty env ''ARMA_LD_PRELOAD''\<rparr>)"

definition port_of :: "(string \<rightharpoonup> string) \<Rightarrow> u16" where
  "port_of env = (case env ''PORT'' of
      None \<Rightarrow> 2302
    | Some p \<Rightarrow> (case parse_uint p of Some w \<Rightarrow> w | None \<Rightarrow> 2302))"

section \<open>The world of the process\<close>

datatype exit_status = Exited int | Signaled int

datatype child_event = ChildExit exit_status | WaitFailed string | Sigterm | Sigint

record launch_world =
  w_env :: "string \<Rightarrow> string option"
  w_content :: "string \<Rightarrow> node option"
  w_missions :: "node option"
  w_chdir :: "string \<Rightarrow> bool"
  w_io :: "string list \<Rightarrow> bool"
  w_busy :: "nat \<Rightarrow> u16 \<Rightarrow> bool"
  w_lag :: "nat \<Rightarrow> nat"
  w_over :: "nat \<Rightarrow> nat"
  w_now :: nat
  w_spawn :: "string + unit"
  w_signals :: "string + unit"
  w_events :: "child_event list"

record spawned =
  sp_binary :: string
  sp_args :: "string list"
  sp_env :: "(string \<times> string) list"

record launch_state =
  l_keys :: "node option"
  l_mpmissions :: "node option"
  l_child :: "spawned option"
  l_forwarded :: "string list"

type_synonym 'a launch_act = "(launch_state, string, 'a) act"

section \<open>Signing keys\<close>

definition ensure_keys_dir :: "launch_world \<Rightarrow> unit launch_act" where
  "ensure_keys_dir w = (\<lambda>s.
    let clear = (w_env w ''CLEAR_KEYS'' = Some ''true''); io = w_io w [''keys'']; fresh = s\<lparr>l_keys := Some (DirNode [])\<rparr>
    in case l_keys s of
         Some (DirNode _) \<Rightarrow>
           if \<not> clear then (Inr (), s)
           else if io then (Inr (), fresh) else (Inl ''failed to clear keys dir'', s)
       | Some (FileNode _) \<Rightarrow> if io then (Inr (), fresh) else (Inl ''failed to remove non-directory at keys path'', s)
       | None \<Rightarrow> if io then (Inr (), fresh) else (Inl ''failed to create keys dir'', s))"

definition has_bikey_extension :: "string \<Rightarrow> bool" where
  "has_bikey_extension n = (case rev (split_on (CHR ''.'') n) of
      e # r \<Rightarrow> e = ''bikey'' \<and> r \<noteq> [] \<and> r \<noteq> [[]] | [] \<Rightarrow> False)"

text \<open>\<open>WalkDir\<close> visits an entry before the entries below it; a path that does not exist has none.\<close>

fun walk_files :: "string \<Rightarrow> node \<Rightarrow> (string \<times> string) list" where
  "walk_files n (FileNode b) = [(n, b)]"
| "walk_files n (DirNode es) = concat (map (\<lambda>(m, t). walk_files m t) es)"

fun copy_keys :: "launch_world \<Rightarrow> (string \<times> string) list \<Rightarrow> (string \<times> node) list \<Rightarrow> (string + unit) \<times> (string \<times> node) list" where
  "copy_keys w [] cur = (Inr (), cur)"
| "copy_keys w ((n, b) # rest) cur =
     (if \<not> has_bikey_extension n then copy_keys w rest cur
      else case map_of cur n of
        Some (DirNode _) \<Rightarrow> (Inl (''failed to copy key '' @ n), cur)
      | _ \<Rightarrow> if w_io w [''keys'', n] then copy_keys w rest (AList.update n (FileNode b) cur)
             else (Inl (''failed to copy key '' @ n), cur))"

definition path_file_name :: "string \<Rightarrow> string" where
  "path_file_name p = last (split_on (CHR ''/'') p)"

definition keys_copy :: "launch_world \<Rightarrow> string \<Rightarrow> unit launch_act" where
  "keys_copy w mod_dir = (\<lambda>s.
    let files = (case w_content w mod_dir of Some t \<Rightarrow> walk_files (path_file_name mod_dir) t | None \<Rightarrow> [])
    in case l_keys s of
         Some (DirNode es) \<Rightarrow> (case copy_keys w files es of (r, es') \<Rightarrow> (r, s\<lparr>l_keys := Some (DirNode es')\<rparr>))
       | _ \<Rightarrow> (case filter (\<lambda>(n, _). has_bikey_extension n) files of
             [] \<Rightarrow> (Inr (), s) | (n, _) # _ \<Rightarrow> (Inl (''failed to copy key '' @ n), s)))"

section \<open>The mission mirror\<close>

text \<open>One entry copied over what the target holds: \<open>fs::copy\<close> for a file, \<open>copy_dir_all\<close> for a
  directory. The result counts the files written.\<close>

fun copy_node :: "(string list \<Rightarrow> bool) \<Rightarrow> string list \<Rightarrow> node \<Rightarrow> node option \<Rightarrow> (string + nat) \<times> node option"
  and copy_dir_all :: "(string list \<Rightarrow> bool) \<Rightarrow> string list \<Rightarrow> (string \<times> node) list \<Rightarrow> (string \<times> node) list \<Rightarrow> nat
    \<Rightarrow> (string + nat) \<times> (string \<times> node) list" where
  "copy_node io p (FileNode b) target =
     (case target of
        Some (DirNode _) \<Rightarrow> (Inl ''Is a directory'', target)
      | _ \<Rightarrow> if io p then (Inr 1, Some (FileNode b)) else (Inl ''failed to copy'', target))"
| "copy_node io p (DirNode es) target =
     (case target of
        Some (FileNode _) \<Rightarrow> (Inl ''File exists'', target)
      | Some (DirNode ds) \<Rightarrow> (case copy_dir_all io p es ds 0 of (r, ds') \<Rightarrow> (r, Some (DirNode ds')))
      | None \<Rightarrow> if io p then (case copy_dir_all io p es [] 0 of (r, ds') \<Rightarrow> (r, Some (DirNode ds')))
                else (Inl ''failed to create'', None))"
| "copy_dir_all io p [] cur copied = (Inr copied, cur)"
| "copy_dir_all io p ((n, t) # rest) cur copied =
     (case copy_node io (p @ [n]) t (map_of cur n) of
        (r, t') \<Rightarrow>
          (let cur' = (case t' of Some x \<Rightarrow> AList.update n x cur | None \<Rightarrow> cur)
           in case r of Inl e \<Rightarrow> (Inl e, cur') | Inr k \<Rightarrow> copy_dir_all io p rest cur' (copied + k)))"

text \<open>The missions of one entry of the source: the contents of an id directory, or the entry itself.\<close>

fun entry_missions :: "string \<times> node \<Rightarrow> (string \<times> node) list" where
  "entry_missions (n, DirNode cs) = cs"
| "entry_missions (n, FileNode b) = [(n, FileNode b)]"

fun mirror_entry :: "(string list \<Rightarrow> bool) \<Rightarrow> (string \<times> node) list \<Rightarrow> string list \<Rightarrow> (string \<times> node) list
    \<Rightarrow> (string + string list) \<times> (string \<times> node) list" where
  "mirror_entry io [] seen cur = (Inr seen, cur)"
| "mirror_entry io ((n, t) # rest) seen cur =
     (if n \<in> set seen then mirror_entry io rest seen cur
      else case copy_node io [''mpmissions'', n] t (map_of cur n) of
        (r, t') \<Rightarrow>
          (let cur' = (case t' of Some x \<Rightarrow> AList.update n x cur | None \<Rightarrow> cur)
           in case r of
                Inl e \<Rightarrow> (Inl (''failed to copy '' @ n @ '': '' @ e), cur')
              | Inr _ \<Rightarrow> mirror_entry io rest (n # seen) cur'))"

fun mirror_loop :: "(string list \<Rightarrow> bool) \<Rightarrow> (string \<times> node) list \<Rightarrow> string list \<Rightarrow> (string \<times> node) list
    \<Rightarrow> (string + unit) \<times> (string \<times> node) list" where
  "mirror_loop io [] seen cur = (Inr (), cur)"
| "mirror_loop io (e # rest) seen cur =
     (case mirror_entry io (entry_missions e) seen cur of
        (Inl x, cur') \<Rightarrow> (Inl x, cur')
      | (Inr seen', cur') \<Rightarrow> mirror_loop io rest seen' cur')"

definition mirror_missions :: "(string list \<Rightarrow> bool) \<Rightarrow> node option \<Rightarrow> node option \<Rightarrow> (string + unit) \<times> node option" where
  "mirror_missions io src dst =
    (case src of
       Some (DirNode es) \<Rightarrow>
         (case dst of
            Some (FileNode _) \<Rightarrow> (Inl ''failed to create mpmissions'', dst)
          | Some (DirNode ds) \<Rightarrow> (case mirror_loop io es [] ds of (r, ds') \<Rightarrow> (r, Some (DirNode ds')))
          | None \<Rightarrow> if io [''mpmissions''] then (case mirror_loop io es [] [] of (r, ds') \<Rightarrow> (r, Some (DirNode ds')))
                    else (Inl ''failed to create mpmissions'', dst))
     | _ \<Rightarrow> (Inr (), dst))"

section \<open>Waiting for the ports\<close>

definition PORT_RANGE_SIZE :: nat where "PORT_RANGE_SIZE = 5"
definition PORT_WAIT_RETRY_INTERVAL :: nat where "PORT_WAIT_RETRY_INTERVAL = 2000"
definition PORT_WAIT_TIMEOUT :: nat where "PORT_WAIT_TIMEOUT = 120000"

text \<open>The five ports, with the wrap-around of \<open>u16\<close> addition.\<close>

definition launch_ports :: "u16 \<Rightarrow> u16 list" where
  "launch_ports gp = map (\<lambda>offset. gp + of_nat offset) [0 ..< PORT_RANGE_SIZE]"

text \<open>One round of the loop probes at time \<open>t\<close>, reads the clock \<open>lag t\<close> later, and the sleep takes \<open>over\<close>
  longer than asked. The result carries the time of the last probe.\<close>

function wait_loop :: "(nat \<Rightarrow> u16 \<Rightarrow> bool) \<Rightarrow> (nat \<Rightarrow> nat) \<Rightarrow> (nat \<Rightarrow> nat) \<Rightarrow> u16 \<Rightarrow> nat \<Rightarrow> nat \<Rightarrow> (string + unit) \<times> nat" where
  "wait_loop busy lag over gp deadline t =
    (case find (busy t) (launch_ports gp) of
       None \<Rightarrow> (Inr (), t)
     | Some busy_port \<Rightarrow>
         let now = t + lag t in
         if now \<ge> deadline
         then (Inl (''port '' @ show_word busy_port @ '' (in range '' @ show_word gp @ ''..''
                @ show_word (gp + of_nat PORT_RANGE_SIZE - 1) @ '') still bound after 120s, giving up''), t)
         else wait_loop busy lag over gp deadline (now + PORT_WAIT_RETRY_INTERVAL + over now))"
  by pat_completeness auto
termination
  by (relation "measure (\<lambda>(busy, lag, over, gp, deadline, t). deadline - t)")
     (auto simp: PORT_WAIT_RETRY_INTERVAL_def)

declare wait_loop.simps [simp del]

definition wait_for_ports_free :: "(nat \<Rightarrow> u16 \<Rightarrow> bool) \<Rightarrow> (nat \<Rightarrow> nat) \<Rightarrow> (nat \<Rightarrow> nat) \<Rightarrow> u16 \<Rightarrow> nat \<Rightarrow> (string + unit) \<times> nat" where
  "wait_for_ports_free busy lag over gp start = wait_loop busy lag over gp (start + PORT_WAIT_TIMEOUT) start"

section \<open>Launching\<close>

definition SERVER_ROOT :: string where "SERVER_ROOT = ''/arma3/server''"

definition split_whitespace :: "string \<Rightarrow> string list" where
  "split_whitespace s = filter (\<lambda>x. x \<noteq> []) (split_on (CHR '' '') (map (\<lambda>c. if is_ws c then CHR '' '' else c) s))"

definition common_args :: "(string \<rightharpoonup> string) \<Rightarrow> launcher_config \<Rightarrow> string list" where
  "common_args env cfg =
    [''-limitFPS='' @ env_or env ''ARMA_LIMITFPS'' ''300'', ''-world=empty'']
    @ (case env ''ARMA_PARAMS'' of Some params \<Rightarrow> split_whitespace params | None \<Rightarrow> [])
    @ (if lc_mods cfg \<noteq> [] then [''-mod='' @ join '';'' (lc_mods cfg)] else [])
    @ map (\<lambda>cdlc. ''-mod='' @ cdlc) (lc_arma_cdlc cfg)"

definition mode_args :: "(string \<rightharpoonup> string) \<Rightarrow> launcher_config \<Rightarrow> string list" where
  "mode_args env cfg =
    (let game_port = port_of env; arma_profile = env_or env ''ARMA_PROFILE'' ''main'' in
     case lc_client_connect cfg of
       Some connect \<Rightarrow>
         [''-client'', ''-connect='' @ connect, ''-port='' @ show_word game_port]
         @ (case lc_client_password cfg of Some password \<Rightarrow> [''-password='' @ password] | None \<Rightarrow> [])
         @ [''-name='' @ arma_profile, ''-profiles='' @ SERVER_ROOT @ ''/configs/profiles'']
     | None \<Rightarrow>
         [''-config='' @ SERVER_ROOT @ ''/configs/main.cfg'', ''-port='' @ show_word game_port, ''-name='' @ arma_profile,
          ''-profiles='' @ SERVER_ROOT @ ''/configs/profiles'', ''-cfg='' @ SERVER_ROOT @ ''/configs/basic.cfg'',
          ''-keysFolder='' @ SERVER_ROOT @ ''/keys''])"

definition child_env :: "launcher_config \<Rightarrow> (string \<times> string) list" where
  "child_env cfg = (case lc_ld_preload cfg of
      None \<Rightarrow> []
    | Some ld_preload \<Rightarrow>
        [(''LD_PRELOAD'', ld_preload), (''MIMALLOC_ALLOW_LARGE_OS_PAGES'', ''1''), (''MIMALLOC_PURGE_DELAY'', ''60000'')])"

text \<open>Waiting for the child: a first signal is forwarded, later ones are not read. \<open>None\<close> while it
  runs.\<close>

fun wait_child :: "string \<Rightarrow> child_event list \<Rightarrow> (string + exit_status) option" where
  "wait_child ctx [] = None"
| "wait_child ctx (ChildExit st # _) = Some (Inr st)"
| "wait_child ctx (WaitFailed e # _) = Some (Inl (ctx @ '': '' @ e))"
| "wait_child ctx (_ # rest) = wait_child ctx rest"

fun await_child :: "child_event list \<Rightarrow> (string + exit_status) option \<times> string list" where
  "await_child (Sigterm # rest) = (wait_child ''failed to wait for arma3server after SIGTERM'' rest, [''SIGTERM''])"
| "await_child (Sigint # rest) = (wait_child ''failed to wait for arma3server after SIGINT'' rest, [''SIGINT''])"
| "await_child evs = (wait_child ''failed to wait for arma3server'' evs, [])"

definition exit_result :: "exit_status \<Rightarrow> string + unit" where
  "exit_result st = (case st of
      Exited c \<Rightarrow> if c = 0 then Inr () else Inl (''arma3server exited with status '' @ show_int c)
    | Signaled g \<Rightarrow> Inl (''arma3server exited with status '' @ show_int g))"

definition mirror_step :: "launch_world \<Rightarrow> unit launch_act" where
  "mirror_step w = (\<lambda>s. case mirror_missions (w_io w) (w_missions w) (l_mpmissions s) of
      (r, dst) \<Rightarrow> (r, s\<lparr>l_mpmissions := dst\<rparr>))"

definition spawn_step :: "launch_world \<Rightarrow> launcher_config \<Rightarrow> string list \<Rightarrow> unit launch_act" where
  "spawn_step w cfg args =
    act_bind (lift_res (w_spawn w)) (\<lambda>_.
    act_bind (modify_act (\<lambda>s. s\<lparr>l_child := Some \<lparr>sp_binary = lc_arma_binary cfg, sp_args = args, sp_env = child_env cfg\<rparr>\<rparr>)) (\<lambda>_.
    lift_res (w_signals w)))"

text \<open>\<open>None\<close> means that the game server still runs.\<close>

definition launch_run :: "launch_world \<Rightarrow> launcher_config \<Rightarrow> unit option launch_act" where
  "launch_run w cfg =
    act_bind (lift_res (ensure (w_chdir w (lc_claim_path cfg)) (''failed to chdir into '' @ lc_claim_path cfg))) (\<lambda>_.
    act_bind (act_when (lc_client_connect cfg = None)
      (act_bind (mirror_step w) (\<lambda>_.
       lift_res (fst (wait_for_ports_free (w_busy w) (w_lag w) (w_over w) (port_of (w_env w)) (w_now w)))))) (\<lambda>_.
    act_bind (spawn_step w cfg (common_args (w_env w) cfg @ mode_args (w_env w) cfg)) (\<lambda>_.
    case await_child (w_events w) of
      (status, sent) \<Rightarrow>
        act_bind (modify_act (\<lambda>s. s\<lparr>l_forwarded := l_forwarded s @ sent\<rparr>)) (\<lambda>_.
        case status of
          None \<Rightarrow> ret None
        | Some (Inl e) \<Rightarrow> throw e
        | Some (Inr st) \<Rightarrow> act_bind (lift_res (exit_result st)) (\<lambda>_. ret (Some ()))))))"

definition mod_dir :: "string \<Rightarrow> string \<Rightarrow> string" where
  "mod_dir claim_path mod_path = (if starts_with mod_path ''/'' then mod_path else claim_path @ ''/'' @ mod_path)"

text \<open>\<open>main\<close>, less the telemetry: a mod whose keys cannot be copied is only logged.\<close>

definition launcher_main :: "launch_world \<Rightarrow> unit option launch_act" where
  "launcher_main w =
    act_bind (lift_res (from_env (w_env w))) (\<lambda>cfg.
    act_bind (ensure_keys_dir w) (\<lambda>_.
    act_bind (for_each (\<lambda>p. act_match (keys_copy w (mod_dir (lc_claim_path cfg) p)) (\<lambda>_. ret ())) (lc_mods cfg)) (\<lambda>_.
    launch_run w cfg)))"

section \<open>Forwarding the output of the game server\<close>

datatype read_event = Chunk string | Interrupted | Broken string

definition trim_newlines :: "string \<Rightarrow> string" where
  "trim_newlines l = rev (dropWhile (\<lambda>c. c = CHR 0x0A \<or> c = CHR 0x0D) (rev l))"

text \<open>What the reads of a pipe give, up to its end; the result is the logged lines and whether the task
  returned. A broken descriptor parks the task with the pipe open.\<close>

fun forward_stream :: "(string \<Rightarrow> string) \<Rightarrow> read_event list \<Rightarrow> string list \<times> bool" where
  "forward_stream lossy [] = ([], True)"
| "forward_stream lossy (Chunk b # rest) =
     (case forward_stream lossy rest of (ls, r) \<Rightarrow> (trim_newlines (lossy b) # ls, r))"
| "forward_stream lossy (Interrupted # rest) = forward_stream lossy rest"
| "forward_stream lossy (Broken e # rest) = ([], False)"

lemma forward_stream_drains:
  "list_all (\<lambda>e. \<forall>x. e \<noteq> Broken x) evs \<Longrightarrow>
    forward_stream lossy evs =
      (List.map_filter (\<lambda>e. case e of Chunk b \<Rightarrow> Some (trim_newlines (lossy b)) | _ \<Rightarrow> None) evs, True)"
  by (induction lossy evs rule: forward_stream.induct) (simp_all add: map_filter_simps)

section \<open>The health check\<close>

definition A2S_HEADER :: string where
  "A2S_HEADER = replicate 4 (CHR 0xFF) @ ''TSource Engine Query'' @ [CHR 0x00]"

text \<open>\<open>recv\<close> into the 1024-byte buffer: a longer datagram is cut, older bytes stay behind a shorter
  one.\<close>

definition recv_into :: "string \<Rightarrow> string \<Rightarrow> nat \<times> string" where
  "recv_into reply buf = (min 1024 (length reply), take 1024 reply @ drop (length reply) buf)"

text \<open>\<open>answer\<close> gives the reply to the requests sent so far, \<open>None\<close> for a read that times out.\<close>

definition healthcheck :: "(string \<rightharpoonup> string) \<Rightarrow> string + unit \<Rightarrow> (string list \<Rightarrow> string option) \<Rightarrow> string + unit" where
  "healthcheck env sock answer =
    (let game_port = port_of env in
     rbind (ensure (game_port \<noteq> - 1) (''PORT '' @ show_word game_port @ '' has no room for a query port'')) (\<lambda>_.
     rbind sock (\<lambda>_.
     rbind (ok_or (answer [A2S_HEADER]) ''timed out'') (\<lambda>reply.
     let (n, buf) = recv_into reply (replicate 1024 (CHR 0x00)) in
     rbind (if n \<ge> 5 \<and> buf ! 4 = CHR ''A'' then
              (let challenge = take (min 9 n - 5) (drop 5 buf) in
               rbind (ensure (length challenge = 4) (''truncated challenge in '' @ show_nat n @ ''-byte reply'')) (\<lambda>_.
               rbind (ok_or (answer [A2S_HEADER, A2S_HEADER @ challenge]) ''timed out'') (\<lambda>reply2.
               Inr (recv_into reply2 buf))))
            else Inr (n, buf)) (\<lambda>(n, buf).
     ensure (n \<ge> 5 \<and> buf ! 4 = CHR ''I'')
       (''expected an A2S_INFO reply, got '' @ show_nat n @ '' bytes''))))))"

text \<open>A reply of the given kind.\<close>

definition reply_kind :: "char \<Rightarrow> string \<Rightarrow> bool" where
  "reply_kind c r = (length r \<ge> 5 \<and> r ! 4 = c)"

lemma recv_into_kind:
  assumes "recv_into r buf = (n, b)"
  shows "n \<ge> 5 \<and> b ! 4 = c \<longleftrightarrow> reply_kind c r"
  using assms by (auto simp: recv_into_def reply_kind_def nth_append)

lemma recv_into_ex: "(\<exists>n b. recv_into r buf = (n, b) \<and> 5 \<le> n \<and> b ! 4 = c) \<longleftrightarrow> reply_kind c r"
  using recv_into_kind [of r buf] by (cases "recv_into r buf") auto

lemma recv_into_challenge:
  "recv_into r buf = (n, b) \<Longrightarrow> reply_kind c r \<Longrightarrow>
    take (min 9 n - 5) (drop 5 b) = take 4 (drop 5 r)"
  by (auto simp: recv_into_def reply_kind_def min_def take_drop)

theorem healthcheck_iff:
  "healthcheck env sock answer = Inr () \<longleftrightarrow>
    port_of env \<noteq> - 1 \<and> sock = Inr () \<and>
    (\<exists>r. answer [A2S_HEADER] = Some r \<and>
       (reply_kind (CHR ''I'') r \<or>
        reply_kind (CHR ''A'') r \<and> length r \<ge> 9 \<and>
          (\<exists>r2. answer [A2S_HEADER, A2S_HEADER @ take 4 (drop 5 r)] = Some r2 \<and> reply_kind (CHR ''I'') r2)))"
proof (cases "answer [A2S_HEADER]")
  case None
  then show ?thesis by (auto simp: healthcheck_def result_simps Let_def)
next
  case (Some r)
  obtain n b where nb: "recv_into r (replicate 1024 (CHR 0x00)) = (n, b)" by (cases "recv_into r (replicate 1024 (CHR 0x00))")
  show ?thesis
  proof (cases "reply_kind (CHR ''A'') r")
    case True
    then have "\<not> reply_kind (CHR ''I'') r" by (simp add: reply_kind_def)
    moreover have "length (take 4 (drop 5 r)) = 4 \<longleftrightarrow> length r \<ge> 9" by auto
    ultimately show ?thesis
      using Some nb True recv_into_kind [OF nb, of "CHR ''A''"] recv_into_challenge [OF nb True]
      by (auto simp: healthcheck_def result_simps Let_def recv_into_ex dest: recv_into_kind)
  next
    case False
    then show ?thesis
      using Some nb recv_into_kind [OF nb] by (auto simp: healthcheck_def result_simps Let_def)
  qed
qed

section \<open>The wait ends\<close>

lemma wait_loop_result:
  assumes "wait_loop busy lag over gp deadline t = (r, t')"
  shows "t \<le> t' \<and> (r = Inr () \<longleftrightarrow> (\<forall>p \<in> set (launch_ports gp). \<not> busy t' p)) \<and> (\<forall>e. r = Inl e \<longrightarrow> deadline \<le> t' + lag t')"
  using assms
proof (induction busy lag over gp deadline t arbitrary: r t' rule: wait_loop.induct)
  case (1 busy lag over gp deadline t)
  show ?case
  proof (cases "find (busy t) (launch_ports gp)")
    case None
    then have "r = Inr ()" "t' = t" using "1.prems" by (simp_all add: wait_loop.simps [of busy])
    moreover have "\<forall>p \<in> set (launch_ports gp). \<not> busy t p" using None by (simp add: find_None_ball)
    ultimately show ?thesis by simp
  next
    case (Some b)
    then have b: "b \<in> set (launch_ports gp)" "busy t b" by (auto dest: find_SomeD)
    show ?thesis
    proof (cases "deadline \<le> t + lag t")
      case True
      then show ?thesis using "1.prems" Some b by (subst (asm) wait_loop.simps) (auto simp: Let_def)
    next
      case False
      with "1.prems" Some have
        "wait_loop busy lag over gp deadline (t + lag t + PORT_WAIT_RETRY_INTERVAL + over (t + lag t)) = (r, t')"
        by (subst (asm) wait_loop.simps) (simp add: Let_def)
      from "1.IH" [OF Some refl False this] show ?thesis by auto
    qed
  qed
qed

lemma wait_loop_last_probe:
  assumes "wait_loop busy lag over gp deadline t = (r, t')" "t < deadline + PORT_WAIT_RETRY_INTERVAL + L" "\<forall>u. over u \<le> L"
  shows "t' < deadline + PORT_WAIT_RETRY_INTERVAL + L"
  using assms
proof (induction busy lag over gp deadline t rule: wait_loop.induct)
  case (1 busy lag over gp deadline t)
  show ?case
  proof (cases "find (busy t) (launch_ports gp)")
    case None
    then show ?thesis using "1.prems" by (simp add: wait_loop.simps [of busy])
  next
    case (Some b)
    show ?thesis
    proof (cases "deadline \<le> t + lag t")
      case True
      then show ?thesis using "1.prems" Some by (simp add: wait_loop.simps [of busy] Let_def)
    next
      case False
      let ?u = "t + lag t + PORT_WAIT_RETRY_INTERVAL + over (t + lag t)"
      have "?u < deadline + PORT_WAIT_RETRY_INTERVAL + L"
        using False "1.prems"(3) [rule_format, of "t + lag t"] by simp
      moreover have "wait_loop busy lag over gp deadline ?u = (r, t')"
        using "1.prems"(1) Some False by (simp add: wait_loop.simps [of busy _ _ _ _ t] Let_def)
      ultimately show ?thesis using "1.IH" [OF Some refl False _ _ "1.prems"(3)] by blast
    qed
  qed
qed

text \<open>\<open>wait_for_ports_free\<close> returns, whatever the ports do, with its last probe at most one sleep
  past the timeout of 120 s. It succeeds exactly when that probe found all five ports free, and ports
  that stay free from some moment before the timeout on make it succeed.\<close>

theorem wait_for_ports_free_returns:
  assumes "\<forall>u. lag u \<le> L \<and> over u \<le> L"
  shows "\<exists>r t. wait_for_ports_free busy lag over gp start = (r, t)
    \<and> start \<le> t \<and> t < start + 122000 + L
    \<and> (r = Inr () \<longleftrightarrow> (\<forall>p \<in> set (launch_ports gp). \<not> busy t p))
    \<and> (\<forall>a. (\<forall>u \<ge> a. \<forall>p \<in> set (launch_ports gp). \<not> busy u p) \<and> a + L \<le> start + 120000 \<longrightarrow> r = Inr ())"
proof -
  obtain r t where run: "wait_for_ports_free busy lag over gp start = (r, t)"
    by (cases "wait_for_ports_free busy lag over gp start")
  then have loop: "wait_loop busy lag over gp (start + PORT_WAIT_TIMEOUT) start = (r, t)"
    by (simp add: wait_for_ports_free_def)
  note res = wait_loop_result [OF loop]
  have "t < start + 122000 + L"
    using wait_loop_last_probe [OF loop, of L] assms by (simp add: PORT_WAIT_TIMEOUT_def PORT_WAIT_RETRY_INTERVAL_def)
  moreover have "r = Inr ()"
    if free: "\<forall>u \<ge> a. \<forall>p \<in> set (launch_ports gp). \<not> busy u p" and a: "a + L \<le> start + 120000" for a
  proof (rule ccontr)
    assume "r \<noteq> Inr ()"
    then obtain e where "r = Inl e" by (cases r) auto
    with res have "start + 120000 \<le> t + lag t" by (simp add: PORT_WAIT_TIMEOUT_def)
    with a assms have "a \<le> t" by (metis add_le_cancel_right add_left_mono le_trans)
    with free res \<open>r \<noteq> Inr ()\<close> show False by blast
  qed
  ultimately show ?thesis using run res by blast
qed

theorem wait_for_ports_free_returns_witness:
  "let busy = (\<lambda>t p. t < 5000 \<and> p = (2304 :: u16)) in
     wait_for_ports_free busy (\<lambda>_. 0) (\<lambda>_. 0) 2302 1000 = (Inr (), 5000)
     \<and> (\<exists>r t. wait_for_ports_free busy (\<lambda>_. 0) (\<lambda>_. 0) 2302 1000 = (r, t) \<and> r = Inr ())"
proof -
  define busy where "busy = (\<lambda>t p. t < (5000::nat) \<and> p = (2304 :: u16))"
  have "wait_for_ports_free busy (\<lambda>_. 0) (\<lambda>_. 0) 2302 1000 = (Inr (), 5000)"
    by (simp add: wait_for_ports_free_def busy_def wait_loop.simps launch_ports_def PORT_RANGE_SIZE_def
        PORT_WAIT_TIMEOUT_def PORT_WAIT_RETRY_INTERVAL_def upt_rec Let_def)
  moreover have "\<exists>r t. wait_for_ports_free busy (\<lambda>_. 0) (\<lambda>_. 0) 2302 1000 = (r, t) \<and> r = Inr ()"
    using wait_for_ports_free_returns [of "\<lambda>_. 0" 0 "\<lambda>_. 0" busy 2302 1000] by (force simp: busy_def)
  ultimately show ?thesis by (simp add: Let_def busy_def)
qed

section \<open>What the mission mirror leaves\<close>

fun file_at :: "node \<Rightarrow> string list \<Rightarrow> string option" where
  "file_at (FileNode b) p = (if p = [] then Some b else None)"
| "file_at (DirNode es) [] = None"
| "file_at (DirNode es) (n # p) = (case map_of es n of Some t \<Rightarrow> file_at t p | None \<Rightarrow> None)"

definition file_in :: "node option \<Rightarrow> string list \<Rightarrow> string option" where
  "file_in t p = (case t of Some x \<Rightarrow> file_at x p | None \<Rightarrow> None)"

definition or_else :: "'a option \<Rightarrow> 'a option \<Rightarrow> 'a option" where
  "or_else a b = (case a of Some x \<Rightarrow> Some x | None \<Rightarrow> b)"

fun node_wf :: "node \<Rightarrow> bool" where
  "node_wf (FileNode _) = True"
| "node_wf (DirNode es) = (distinct (map fst es) \<and> (\<forall>p \<in> set es. node_wf (snd p)))"

lemma or_else_simps [simp]: "or_else (Some x) b = Some x" "or_else None b = b" "or_else a None = a"
  "or_else (or_else a b) c = or_else a (or_else b c)"
  by (auto simp: or_else_def split: option.splits)

lemma file_in_simps [simp]: "file_in None p = None" "file_in (Some x) p = file_at x p"
  by (simp_all add: file_in_def)

lemma file_at_dir: "file_at (DirNode es) (n # p) = file_in (map_of es n) p"
  by (simp add: file_in_def)

declare file_at.simps(3) [simp del]

lemmas dir_lookup = file_at_dir update_conv'

lemma file_at_empty [simp]: "file_at (DirNode []) p = None"
  by (cases p) (simp_all add: file_at_dir)

text \<open>A copy that succeeds lays the source over the target.\<close>

lemma copy_overlays:
  "node_wf t \<Longrightarrow> copy_node io q t target = (Inr k, t') \<Longrightarrow>
    \<exists>x. t' = Some x \<and> (\<forall>p. file_at x p = or_else (file_at t p) (file_in target p))"
  "node_wf (DirNode es) \<Longrightarrow> copy_dir_all io q es cur k0 = (Inr k', cur') \<Longrightarrow>
    (\<forall>p. file_at (DirNode cur') p = or_else (file_at (DirNode es) p) (file_at (DirNode cur) p))"
proof (induction io q t target and io q es cur k0 arbitrary: k t' and k' cur' rule: copy_node_copy_dir_all.induct)
  case (1 io q b target)
  then show ?case by (auto split: option.splits node.splits if_splits)
next
  case (2 io q es target)
  then show ?case by (fastforce split: option.splits node.splits if_splits prod.splits)
next
  case (3 io q cur copied)
  then show ?case by simp
next
  case (4 io q n t rest cur copied)
  obtain r t1 where c: "copy_node io (q @ [n]) t (map_of cur n) = (r, t1)" by fastforce
  with "4.prems"(2) obtain k1 where r: "r = Inr k1" by (cases r) (auto simp: Let_def)
  from "4.IH"(1) [of k1 t1] c r "4.prems"(1) obtain x where x: "t1 = Some x"
    "\<And>p. file_at x p = or_else (file_at t p) (file_in (map_of cur n) p)" by auto
  have n: "map_of rest n = None" using "4.prems"(1) by (simp add: map_of_eq_None_iff)
  from "4.prems" c r x have run: "copy_dir_all io q rest (AList.update n x cur) (copied + k1) = (Inr k', cur')" by simp
  have over: "\<forall>p. file_at (DirNode cur') p = or_else (file_at (DirNode rest) p) (file_at (DirNode (AList.update n x cur)) p)"
    by (rule "4.IH"(2) [OF c [symmetric] _ r]) (use "4.prems"(1) x run in auto)
  show ?case
  proof
    fix p
    show "file_at (DirNode cur') p = or_else (file_at (DirNode ((n, t) # rest)) p) (file_at (DirNode cur) p)"
      using spec [OF over, of p] n x(2) by (cases p) (auto simp: dir_lookup)
  qed
qed

lemma mirror_entry_overlays:
  assumes "mirror_entry io ms seen cur = (Inr seen', cur')" "\<forall>p \<in> set ms. node_wf (snd p)"
  shows "set seen' = set seen \<union> fst ` set ms \<and>
    (\<forall>n p. file_at (DirNode cur') (n # p) =
      or_else (if n \<in> set seen then None else file_at (DirNode ms) (n # p)) (file_at (DirNode cur) (n # p)))"
  using assms
proof (induction io ms seen cur rule: mirror_entry.induct)
  case (2 io n t rest seen cur)
  show ?case
  proof (cases "n \<in> set seen")
    case True
    with 2 show ?thesis by (auto simp: dir_lookup)
  next
    case False
    obtain r t1 where c: "copy_node io [''mpmissions'', n] t (map_of cur n) = (r, t1)" by fastforce
    with "2.prems"(1) False obtain k where r: "r = Inr k" by (cases r) (auto simp: Let_def)
    with c copy_overlays(1) [of t io "[''mpmissions'', n]" "map_of cur n" k t1] "2.prems"(2) obtain x where x: "t1 = Some x"
      "\<And>p. file_at x p = or_else (file_at t p) (file_in (map_of cur n) p)" by auto
    have run: "mirror_entry io rest (n # seen) (AList.update n x cur) = (Inr seen', cur')"
      using "2.prems"(1) False c r x by simp
    have "set seen' = set (n # seen) \<union> fst ` set rest \<and>
      (\<forall>m p. file_at (DirNode cur') (m # p) = or_else (if m \<in> set (n # seen) then None else file_at (DirNode rest) (m # p))
        (file_at (DirNode (AList.update n x cur)) (m # p)))"
      by (rule "2.IH"(2) [OF False c [symmetric] _ r]) (use "2.prems"(2) x run in auto)
    then show ?thesis using False x(2) by (auto simp: dir_lookup)
  qed
qed auto

definition all_missions :: "(string \<times> node) list \<Rightarrow> (string \<times> node) list" where
  "all_missions es = concat (map entry_missions es)"

lemma all_missions_simps [simp]:
  "all_missions [] = []" "all_missions (e # es) = entry_missions e @ all_missions es"
  by (simp_all add: all_missions_def)

lemma entry_missions_wf: "node_wf (snd e) \<Longrightarrow> \<forall>p \<in> set (entry_missions e). node_wf (snd p)"
  by (cases e rule: entry_missions.cases) auto

lemma mirror_loop_overlays:
  assumes "mirror_loop io es seen cur = (Inr (), cur')" "\<forall>p \<in> set es. node_wf (snd p)"
  shows "file_at (DirNode cur') (n # p) =
      or_else (if n \<in> set seen then None else file_at (DirNode (all_missions es)) (n # p)) (file_at (DirNode cur) (n # p))"
  using assms
proof (induction io es seen cur rule: mirror_loop.induct)
  case (2 io e rest seen cur)
  then obtain seen1 cur1 where m: "mirror_entry io (entry_missions e) seen cur = (Inr seen1, cur1)"
    by (auto split: prod.splits sum.splits)
  note one = mirror_entry_overlays [OF m entry_missions_wf]
  have "file_at (DirNode cur') (n # p) =
      or_else (if n \<in> set seen1 then None else file_at (DirNode (all_missions rest)) (n # p)) (file_at (DirNode cur1) (n # p))"
    by (rule "2.IH" [OF m [symmetric] refl]) (use "2.prems" m in auto)
  moreover have "n \<in> set seen1 \<longleftrightarrow> n \<in> set seen \<or> map_of (entry_missions e) n \<noteq> None"
    using one "2.prems"(2) by (simp add: map_of_eq_None_iff)
  ultimately show ?case
    using one "2.prems"(2) by (cases "map_of (entry_missions e) n") (auto simp: file_at_dir map_add_def)
qed auto

text \<open>Copying to a free name on a working disk succeeds.\<close>

lemma copy_succeeds:
  "\<forall>p. io p \<Longrightarrow> node_wf t \<Longrightarrow> target = None \<Longrightarrow> \<exists>k x. copy_node io q t target = (Inr k, Some x)"
  "\<forall>p. io p \<Longrightarrow> node_wf (DirNode es) \<Longrightarrow> fst ` set es \<inter> fst ` set cur = {} \<Longrightarrow>
    \<exists>k' cur'. copy_dir_all io q es cur k0 = (Inr k', cur')"
proof (induction io q t target and io q es cur k0 rule: copy_node_copy_dir_all.induct)
  case (4 io q n t rest cur copied)
  have n: "map_of cur n = None" using "4.prems"(3) by (auto simp: map_of_eq_None_iff)
  from "4.IH"(1) [OF "4.prems"(1) _ n] "4.prems"(2) obtain k x where
    c: "copy_node io (q @ [n]) t (map_of cur n) = (Inr k, Some x)" by auto
  have "\<exists>k' cur'. copy_dir_all io q rest (AList.update n x cur) (copied + k) = (Inr k', cur')"
    by (rule "4.IH"(2) [OF c [symmetric] _ refl]) (use "4.prems" in \<open>auto simp: dom_update\<close>)
  with c show ?case by simp
qed (fastforce split: prod.splits)+

lemma mirror_entry_succeeds:
  assumes "\<forall>p. io p" "\<forall>p \<in> set ms. node_wf (snd p)" "fst ` set ms \<inter> (fst ` set cur - set seen) = {}"
  shows "\<exists>seen' cur'. mirror_entry io ms seen cur = (Inr seen', cur')
    \<and> set seen' = set seen \<union> fst ` set ms \<and> fst ` set cur' - set seen' \<subseteq> fst ` set cur - set seen"
  using assms
proof (induction io ms seen cur rule: mirror_entry.induct)
  case (2 io n t rest seen cur)
  show ?case
  proof (cases "n \<in> set seen")
    case True
    then have "mirror_entry io ((n, t) # rest) seen cur = mirror_entry io rest seen cur" "insert n (set seen \<union> X) = set seen \<union> X" for X
      by auto
    with 2 True show ?thesis by auto
  next
    case False
    have "map_of cur n = None" using "2.prems"(3) False by (auto simp: map_of_eq_None_iff)
    then obtain k x where c: "copy_node io [''mpmissions'', n] t (map_of cur n) = (Inr k, Some x)"
      using copy_succeeds(1) [of io t "map_of cur n" "[''mpmissions'', n]"] "2.prems" by auto
    have "\<exists>seen' cur'. mirror_entry io rest (n # seen) (AList.update n x cur) = (Inr seen', cur')
      \<and> set seen' = set (n # seen) \<union> fst ` set rest
      \<and> fst ` set cur' - set seen' \<subseteq> fst ` set (AList.update n x cur) - set (n # seen)"
      by (rule "2.IH"(2) [OF False c [symmetric] _ refl]) (use "2.prems" in \<open>auto simp: dom_update\<close>)
    then obtain seen' cur' where run: "mirror_entry io rest (n # seen) (AList.update n x cur) = (Inr seen', cur')"
      and seen': "set seen' = set (n # seen) \<union> fst ` set rest"
      and sub: "fst ` set cur' - set seen' \<subseteq> fst ` set (AList.update n x cur) - set (n # seen)" by blast
    have "mirror_entry io ((n, t) # rest) seen cur = (Inr seen', cur')" using c False run by simp
    moreover have "set seen' = set seen \<union> fst ` set ((n, t) # rest)" using seen' by auto
    moreover have "fst ` set cur' - set seen' \<subseteq> fst ` set cur - set seen"
      by (rule subset_trans [OF sub]) (auto simp: dom_update)
    ultimately show ?thesis by blast
  qed
qed auto

lemma mirror_loop_succeeds:
  assumes "\<forall>p. io p" "\<forall>p \<in> set es. node_wf (snd p)" "fst ` set (all_missions es) \<inter> (fst ` set cur - set seen) = {}"
  shows "\<exists>cur'. mirror_loop io es seen cur = (Inr (), cur')"
  using assms
proof (induction io es seen cur rule: mirror_loop.induct)
  case (2 io e rest seen cur)
  then obtain seen1 cur1 where m: "mirror_entry io (entry_missions e) seen cur = (Inr seen1, cur1)"
    "set seen1 = set seen \<union> fst ` set (entry_missions e)" "fst ` set cur1 - set seen1 \<subseteq> fst ` set cur - set seen"
    using mirror_entry_succeeds [of io "entry_missions e" cur seen] entry_missions_wf [of e] by (auto simp: image_Un Int_Un_distrib2)
  have "fst ` set (all_missions rest) \<inter> (fst ` set cur1 - set seen1) = {}"
    using "2.prems"(3) m(3) unfolding all_missions_simps set_append image_Un by blast
  then have "\<exists>cur'. mirror_loop io rest seen1 cur1 = (Inr (), cur')"
    by (intro "2.IH" [OF m(1) [symmetric] refl]) (use "2.prems" in auto)
  with m(1) show ?case by simp
qed auto

text \<open>The mission of a name that an entry of the source offers: what an id directory holds under the name, or
  a file of that name at the top.\<close>

definition offers :: "string \<Rightarrow> string \<times> node \<Rightarrow> node option" where
  "offers n e = (case snd e of
      DirNode cs \<Rightarrow> map_of cs n
    | FileNode b \<Rightarrow> if fst e = n then Some (FileNode b) else None)"

lemma all_missions_offers:
  "map_of (all_missions es) n = Option.bind (find (\<lambda>e. offers n e \<noteq> None) es) (offers n)"
proof (induction es)
  case (Cons e es)
  obtain m t where e: "e = (m, t)" by (cases e)
  have "map_of (entry_missions e) n = offers n e" by (cases t) (simp_all add: e offers_def)
  with Cons show ?case by (cases "offers n e") (simp_all add: map_add_def)
qed simp

text \<open>C30: The mission mirror. When it succeeds, the claim's \<open>mpmissions\<close> holds under the name of a mission
  the files of the first entry of the source that offers the name, be it a file in an id directory or
  at the top, without the id; around and behind them, and under every other name, is what was there
  before. On a working disk it does succeed when no mission has the name of something already there.\<close>

theorem mirror_missions_flattens:
  assumes "node_wf (DirNode es)" "node_wf (DirNode ds)"
    and run: "mirror_missions io (Some (DirNode es)) (Some (DirNode ds)) = (r, dst)"
  shows "(r = Inr () \<longrightarrow> (\<forall>n p. file_in dst (n # p) =
      (case find (\<lambda>e. offers n e \<noteq> None) es of
         Some e \<Rightarrow> or_else (file_in (offers n e) p) (file_in (map_of ds n) p)
       | None \<Rightarrow> file_in (map_of ds n) p)))
    \<and> ((\<forall>p. io p) \<and> (\<forall>n. map_of ds n \<noteq> None \<longrightarrow> (\<forall>e \<in> set es. offers n e = None)) \<longrightarrow> r = Inr ())"
proof (intro conjI impI allI)
  obtain ds' where loop: "mirror_loop io es [] ds = (r, ds')" and dst: "dst = Some (DirNode ds')"
    using run by (auto simp: mirror_missions_def split: prod.splits)
  fix n p
  assume "r = Inr ()"
  then have "file_in dst (n # p) = or_else (file_in (map_of (all_missions es) n) p) (file_in (map_of ds n) p)"
    using mirror_loop_overlays [of io es "[]" ds ds' n p] loop dst assms(1) by (simp add: file_at_dir)
  then show "file_in dst (n # p) = (case find (\<lambda>e. offers n e \<noteq> None) es of
         Some e \<Rightarrow> or_else (file_in (offers n e) p) (file_in (map_of ds n) p)
       | None \<Rightarrow> file_in (map_of ds n) p)"
    by (simp add: all_missions_offers split: option.split)
next
  assume ok: "(\<forall>p. io p) \<and> (\<forall>n. map_of ds n \<noteq> None \<longrightarrow> (\<forall>e \<in> set es. offers n e = None))"
  have "fst ` set (all_missions es) \<inter> fst ` set ds = {}"
  proof (rule equals0I)
    fix n
    assume "n \<in> fst ` set (all_missions es) \<inter> fst ` set ds"
    then have "map_of (all_missions es) n \<noteq> None" "map_of ds n \<noteq> None" by (auto simp: map_of_eq_None_iff)
    moreover from this(2) have "find (\<lambda>e. offers n e \<noteq> None) es = None" using ok by (simp add: find_None_iff)
    ultimately show False by (simp add: all_missions_offers)
  qed
  with ok show "r = Inr ()"
    using mirror_loop_succeeds [of io es ds "[]"] run assms(1) by (auto simp: mirror_missions_def split: prod.splits)
qed

theorem mirror_missions_flattens_witness:
  "let es = [(''019f'', DirNode [(''a.Altis.pbo'', FileNode ''one'')]), (''01a0'', DirNode [(''a.Altis.pbo'', FileNode ''two'')])];
       ds = [(''readme.txt'', FileNode ''shipped'')];
       (r, dst) = mirror_missions (\<lambda>_. True) (Some (DirNode es)) (Some (DirNode ds)) in
     r = Inr () \<and> file_in dst [''a.Altis.pbo''] = Some ''one'' \<and> file_in dst [''readme.txt''] = Some ''shipped''"
proof -
  let ?es = "[(''019f'', DirNode [(''a.Altis.pbo'', FileNode ''one'')]), (''01a0'', DirNode [(''a.Altis.pbo'', FileNode ''two'')])]"
  let ?ds = "[(''readme.txt'', FileNode ''shipped'')]"
  obtain r dst where run: "mirror_missions (\<lambda>_. True) (Some (DirNode ?es)) (Some (DirNode ?ds)) = (r, dst)" by fastforce
  note mirrored = mirror_missions_flattens [OF _ _ run, simplified]
  have r: "r = Inr ()" using mirrored by (auto simp: offers_def split: if_splits)
  then have files: "file_in dst [n] = (case find (\<lambda>e. offers n e \<noteq> None) ?es of
         Some e \<Rightarrow> or_else (file_in (offers n e) []) (file_in (map_of ?ds n) []) | None \<Rightarrow> file_in (map_of ?ds n) [])" for n
    using mirror_missions_flattens [OF _ _ run] by auto
  show ?thesis unfolding Let_def run prod.case files using r by (simp add: offers_def)
qed

section \<open>Launching only on free ports\<close>

lemma keeps_no_child: "keeps (\<lambda>s. l_child s = None) (mirror_step w)"
  by (auto simp: triple_def mirror_step_def split: prod.splits sum.splits)

lemma run_client:
  assumes "lc_client_connect cfg = Some h" "w_chdir w (lc_claim_path cfg)" "w_spawn w = Inr ()" "w_signals w = Inr ()"
  shows "l_child (snd (launch_run w cfg s)) = Some \<lparr>sp_binary = lc_arma_binary cfg,
    sp_args = common_args (w_env w) cfg @ mode_args (w_env w) cfg, sp_env = child_env cfg\<rparr>"
  using assms
  by (simp add: launch_run_def spawn_step_def act_simps split: prod.split option.split sum.split)

lemma run_server_not_spawned:
  assumes "lc_client_connect cfg = None" "l_child s = None"
    "fst (wait_for_ports_free (w_busy w) (w_lag w) (w_over w) (port_of (w_env w)) (w_now w)) = Inl e"
  shows "l_child (snd (launch_run w cfg s)) = None"
  using assms keepsD [OF keeps_no_child, of s w]
  by (auto simp: launch_run_def act_simps ensure_def split: prod.splits sum.splits)

text \<open>A game server is only spawned after a probe found all five of its ports free, so the pod it
  replaces has released them; a headless client, which binds none of them, is spawned whatever the ports
  do, with the address and the port of the server it joins.\<close>

theorem spawn_respects_ports:
  "(lc_client_connect cfg = None \<and> l_child s = None \<and> l_child (snd (launch_run w cfg s)) \<noteq> None \<longrightarrow>
      (\<exists>t \<ge> w_now w. \<forall>p \<in> set (launch_ports (port_of (w_env w))). \<not> w_busy w t p))
   \<and> (lc_client_connect cfg = Some h \<and> w_chdir w (lc_claim_path cfg) \<and> w_spawn w = Inr () \<and> w_signals w = Inr () \<longrightarrow>
      (\<exists>c. l_child (snd (launch_run w cfg s)) = Some c \<and>
        {''-client'', ''-connect='' @ h, ''-port='' @ show_word (port_of (w_env w))} \<subseteq> set (sp_args c)))"
proof (intro conjI impI, goal_cases)
  case 1
  obtain r t where wait: "wait_for_ports_free (w_busy w) (w_lag w) (w_over w) (port_of (w_env w)) (w_now w) = (r, t)"
    by fastforce
  with 1 run_server_not_spawned have "r = Inr ()" by (cases r) auto
  with wait_loop_result [OF wait [unfolded wait_for_ports_free_def]] show ?case by auto
next
  case 2
  then show ?case by (simp add: run_client mode_args_def Let_def)
qed

definition demo_world :: "(string \<rightharpoonup> string) \<Rightarrow> (nat \<Rightarrow> u16 \<Rightarrow> bool) \<Rightarrow> launch_world" where
  "demo_world env busy = \<lparr>w_env = env, w_content = (\<lambda>_. None), w_missions = None, w_chdir = (\<lambda>_. True), w_io = (\<lambda>_. True),
     w_busy = busy, w_lag = (\<lambda>_. 0), w_over = (\<lambda>_. 0), w_now = 0, w_spawn = Inr (), w_signals = Inr (), w_events = []\<rparr>"

definition demo_launch_config :: "string option \<Rightarrow> launcher_config" where
  "demo_launch_config h = \<lparr>lc_claim_path = ''/arma3/content'', lc_mods = [], lc_arma_binary = ''./arma3server_x64'',
     lc_arma_cdlc = [], lc_client_connect = h, lc_client_password = None, lc_ld_preload = None\<rparr>"

abbreviation "idle \<equiv> \<lparr>l_keys = None, l_mpmissions = None, l_child = None, l_forwarded = []\<rparr>"

theorem spawn_respects_ports_witness:
  "(let w = demo_world Map.empty (\<lambda>_ _. False) in
      l_child (snd (launch_run w (demo_launch_config None) idle)) \<noteq> None
      \<and> (\<exists>t \<ge> w_now w. \<forall>p \<in> set (launch_ports (port_of (w_env w))). \<not> w_busy w t p))
   \<and> (\<exists>c. l_child (snd (launch_run (demo_world Map.empty (\<lambda>_ _. True)) (demo_launch_config (Some ''127.0.0.1'')) idle)) = Some c
      \<and> ''-connect=127.0.0.1'' \<in> set (sp_args c))"
proof -
  let ?w = "demo_world Map.empty (\<lambda>_ _. False)" and ?b = "demo_world Map.empty (\<lambda>_ _. True)"
  have srv: "l_child (snd (launch_run ?w (demo_launch_config None) idle)) \<noteq> None"
    by (simp add: launch_run_def act_simps demo_world_def demo_launch_config_def mirror_step_def mirror_missions_def
        wait_for_ports_free_def wait_loop.simps find_None_ball [THEN iffD2] spawn_step_def)
  with spawn_respects_ports [of "demo_launch_config None" idle ?w]
  have "\<exists>t \<ge> w_now ?w. \<forall>p \<in> set (launch_ports (port_of (w_env ?w))). \<not> w_busy ?w t p"
    by (simp add: demo_launch_config_def)
  moreover have "\<exists>c. l_child (snd (launch_run ?b (demo_launch_config (Some ''127.0.0.1'')) idle)) = Some c
      \<and> {''-client'', ''-connect='' @ ''127.0.0.1'', ''-port='' @ show_word (port_of (w_env ?b))} \<subseteq> set (sp_args c)"
    using spawn_respects_ports [of "demo_launch_config (Some ''127.0.0.1'')" idle ?b "''127.0.0.1''"]
    by (simp add: demo_launch_config_def demo_world_def)
  ultimately show ?thesis using srv unfolding Let_def by auto
qed

section \<open>The Pod's environment reaches the game server\<close>

text \<open>The environment of a container: of two entries of one name the kubelet takes the last, and \<open>secret\<close>
  reads a key of a Secret.\<close>

definition container_env :: "(string \<Rightarrow> string \<Rightarrow> string) \<Rightarrow> env_var list \<Rightarrow> (string \<rightharpoonup> string)" where
  "container_env secret vars =
    map_of (rev (map (\<lambda>(k, v). (k, case v of EnvText x \<Rightarrow> x | EnvSecretKey n key \<Rightarrow> secret n key)) vars))"

lemma container_env_append:
  "k \<notin> fst ` set ys \<Longrightarrow> container_env secret (xs @ ys) k = container_env secret xs k"
proof -
  assume "k \<notin> fst ` set ys"
  then have "container_env secret ys k = None"
    by (force simp: container_env_def map_of_eq_None_iff split: prod.splits)
  then show ?thesis by (simp add: container_env_def map_add_def)
qed

lemma container_env_Cons:
  "container_env secret ((j, v) # xs) k =
    (case container_env secret xs k of Some x \<Rightarrow> Some x
     | None \<Rightarrow> if k = j then Some (case v of EnvText x \<Rightarrow> x | EnvSecretKey n key \<Rightarrow> secret n key) else None)"
  by (simp add: container_env_def map_add_def split: option.splits)

lemma container_env_Nil [simp]: "container_env secret [] k = None"
  by (simp add: container_env_def)

definition mod_path_ok :: "string \<Rightarrow> bool" where
  "mod_path_ok p = (p \<noteq> [] \<and> CHR '';'' \<notin> set p \<and> trim p = p)"

lemma env_list_join:
  assumes "\<forall>p \<in> set ps. mod_path_ok p" "\<And>p. f p = [] \<longleftrightarrow> p = []"
  shows "env_list f (join '';'' ps) = map f ps"
proof (cases "ps = []")
  case False
  then have "split_on (CHR '';'') (join '';'' ps) = ps"
    using assms by (intro split_on_join) (auto simp: mod_path_ok_def)
  moreover have "map trim ps = ps" using assms by (auto simp: mod_path_ok_def intro: map_idI)
  moreover have "filter (\<lambda>s. s \<noteq> []) (map f ps) = map f ps" using assms by (auto simp: mod_path_ok_def)
  ultimately show ?thesis by (simp add: env_list_def map_map [symmetric] del: map_map)
qed (simp add: env_list_def trim_def assms(2))

text \<open>The variables the launcher's configuration of a server depends on.\<close>

abbreviation launcher_vars :: "string set" where
  "launcher_vars \<equiv> {''CLAIM_PATH'', ''MODS'', ''ARMA_CDLC'', ''PORT'', ''ARMA_CLIENT_CONNECT'', ''ARMA_SERVER_PASSWORD''}"

lemma server_env_lookup:
  assumes "fst ` set extra \<inter> launcher_vars = {}"
    and E_def: "E = container_env secret (server_env cfg obj ps extra)"
  shows "E ''CLAIM_PATH'' = Some CLAIM_PATH" "E ''MODS'' = Some (join '';'' ps)"
    "E ''ARMA_CDLC'' = Some (join '';'' (cdlc (srv_spec obj)))" "E ''PORT'' = Some (show_word (port (srv_spec obj)))"
    "E ''ARMA_CLIENT_CONNECT'' = None"
proof -
  have keys: "fst ` set (map (\<lambda>(k, v). env_text k v) extra) = fst ` set extra"
    by (induction extra) (auto simp: env_text_def)
  have base: "E k = container_env secret (server_env cfg obj ps []) k" if "k \<in> launcher_vars" for k
  proof -
    have "k \<notin> fst ` set (map (\<lambda>(k, v). env_text k v) extra)" unfolding keys using assms(1) that by blast
    moreover have "server_env cfg obj ps extra = server_env cfg obj ps [] @ map (\<lambda>(k, v). env_text k v) extra"
      by (simp add: server_env_def)
    ultimately show ?thesis unfolding E_def by (metis container_env_append)
  qed
  show "E ''CLAIM_PATH'' = Some CLAIM_PATH" "E ''MODS'' = Some (join '';'' ps)"
    "E ''ARMA_CDLC'' = Some (join '';'' (cdlc (srv_spec obj)))" "E ''PORT'' = Some (show_word (port (srv_spec obj)))"
    "E ''ARMA_CLIENT_CONNECT'' = None"
    by (simp_all add: base, simp_all add: server_env_def container_env_Cons env_text_def)
qed

lemma hc_env_lookup:
  assumes E_def: "E = container_env secret (hc_env cfg hc obj ps lc)"
  shows "E ''CLAIM_PATH'' = Some CLAIM_PATH" "E ''MODS'' = Some (join '';'' ps)"
    "E ''ARMA_CDLC'' = Some (join '';'' (cdlc (srv_spec obj)))" "E ''PORT'' = Some (show_word (port (srv_spec obj)))"
    "E ''ARMA_CLIENT_CONNECT'' = Some ''127.0.0.1''"
    "E ''ARMA_SERVER_PASSWORD'' = (if hl_password lc \<noteq> [] then Some (hl_password lc) else None)"
  unfolding E_def hc_env_def by (simp_all add: container_env_Cons env_text_def)

text \<open>C29: from the controller's Pod templates to the command lines. The launcher of a server Pod hosts
  on the server's port with exactly the mod paths the controller resolved, in order, and with the CDLC of the
  deployed spec in lower case; the launcher of its headless client joins 127.0.0.1 on the same port, with
  the same mods and CDLC, and with the server's password when there is one. Mod paths and CDLC names must be
  free of semicolons and outer white space, and the extra environment of the server's ConfigMap must not
  redefine the launcher's own variables.\<close>

theorem pods_launch_as_deployed:
  assumes "\<forall>p \<in> set ps. mod_path_ok p" "\<forall>c \<in> set (cdlc (srv_spec obj)). mod_path_ok c" "fst ` set extra \<inter> launcher_vars = {}"
    and se: "se = container_env secret (server_env cfg obj ps extra)"
    and he: "he = container_env secret (hc_env cfg hc obj ps lc)"
  shows "\<exists>sc cc. from_env se = Inr sc \<and> from_env he = Inr cc
    \<and> lc_mods sc = ps \<and> lc_mods cc = ps \<and> lc_arma_cdlc sc = map to_lowercase (cdlc (srv_spec obj)) \<and> lc_arma_cdlc cc = map to_lowercase (cdlc (srv_spec obj))
    \<and> lc_client_connect sc = None \<and> ''-port='' @ show_word (port (srv_spec obj)) \<in> set (mode_args se sc)
    \<and> {''-client'', ''-connect=127.0.0.1'', ''-port='' @ show_word (port (srv_spec obj))} \<subseteq> set (mode_args he cc)
    \<and> (hl_password lc \<noteq> [] \<longrightarrow> ''-password='' @ hl_password lc \<in> set (mode_args he cc))"
proof -
  have "to_lowercase p = [] \<longleftrightarrow> p = []" for p by (simp add: to_lowercase_def)
  then show ?thesis
    using server_env_lookup [OF assms(3) se] hc_env_lookup [OF he] env_list_join [OF assms(1), of id]
      env_list_join [OF assms(2), of to_lowercase]
    by (auto simp: from_env_def launcher_require_env_def env_or_def env_nonempty_def mode_args_def port_of_def Let_def)
qed

definition demo_cdlc_server :: arma_server where
  "demo_cdlc_server = demo_server\<lparr>srv_spec := (srv_spec demo_server)\<lparr>cdlc := [''WS'', ''vn'']\<rparr>\<rparr>"

theorem pods_launch_as_deployed_witness:
  "\<exists>sc. from_env (container_env (\<lambda>_ _. ''s3cret'')
      (server_env (config_from_env Map.empty) demo_cdlc_server [''workshop/450814997'', ''/srv/local/mods/ace''] [(''ARMA_LIMITFPS'', ''60'')])) = Inr sc
    \<and> lc_mods sc = [''workshop/450814997'', ''/srv/local/mods/ace''] \<and> lc_arma_cdlc sc = [''ws'', ''vn'']"
proof -
  have paths: "\<forall>p \<in> set [''workshop/450814997'', ''/srv/local/mods/ace'']. mod_path_ok p"
    and cdlcs: "\<forall>c \<in> set (cdlc (srv_spec demo_cdlc_server)). mod_path_ok c"
    and spec: "map to_lowercase (cdlc (srv_spec demo_cdlc_server)) = [''ws'', ''vn'']"
    by (simp_all add: demo_cdlc_server_def mod_path_ok_def trim_def is_ws_def) code_simp?
  have extra: "fst ` set [(''ARMA_LIMITFPS'', ''60'')] \<inter> launcher_vars = {}" by simp
  show ?thesis
    using pods_launch_as_deployed [OF paths cdlcs extra refl refl, of "\<lambda>_ _. ''s3cret''" "config_from_env Map.empty"]
    unfolding spec by blast
qed

end
