(* ===== verification/Collections.thy ===== *)
theory Collections
  imports Resolve WorkshopParse Kube "HOL-Library.Multiset"
begin

text \<open>
  Workshop collections published as the cluster's Steam account: \<open>crates/steam-sync/src/collection.rs\<close>,
  the retry policy of \<open>steam.rs\<close>, the collection operations of the sync daemon
  (\<open>services/sync-daemon/src/service.rs\<close>) and the registry's half
  (\<open>services/registry/src/service/collections.rs\<close> and the handlers of \<open>admin.rs\<close>).

  Steam is an arbitrary function that answers a request in the light of every request sent before; the
  state is the log of requests with their answers and whether the pooled connection was marked bad.
  Resolving ids is the model of \<open>Resolve\<close> over a parameter for the details query, whose requests are not
  logged. An \<open>anyhow::Error\<close> is its message and the Steam error in its chain, if there is one.
\<close>

section \<open>Errors and retries\<close>

datatype steam_error =
    WebSocketErr | IoErr | ConnectionClosed | ServiceMethodTimeout | EResultErr u32 | OtherSteamErr

datatype any_error = AnyErr "steam_error option" string

definition with_context :: "string \<Rightarrow> any_error \<Rightarrow> any_error" where
  "with_context ctx e = (case e of AnyErr c m \<Rightarrow> AnyErr c (ctx @ '': '' @ m))"

definition err_text :: "any_error \<Rightarrow> string" where
  "err_text e = (case e of AnyErr _ m \<Rightarrow> m)"

definition bail_msg :: "string \<Rightarrow> any_error" where
  "bail_msg m = AnyErr None m"

definition is_transient :: "any_error \<Rightarrow> bool" where
  "is_transient e =
    (case e of
       AnyErr None _ \<Rightarrow> True
     | AnyErr (Some se) _ \<Rightarrow>
         (case se of
            WebSocketErr \<Rightarrow> True | IoErr \<Rightarrow> True | ConnectionClosed \<Rightarrow> True | ServiceMethodTimeout \<Rightarrow> True
          | EResultErr r \<Rightarrow> r \<in> set [3, 10, 16, 33, 34, 35, 36, 50]
          | OtherSteamErr \<Rightarrow> False))"

definition DEFAULT_RETRY_ATTEMPTS :: nat where "DEFAULT_RETRY_ATTEMPTS = 3"

text \<open>The argument is the number of attempts left; the pauses between them are not modelled.\<close>

fun with_retry :: "nat \<Rightarrow> ('s, any_error, 'a) act \<Rightarrow> ('s, any_error, 'a) act" where
  "with_retry 0 f = throw (bail_msg ''loop always returns on its last attempt'')"
| "with_retry (Suc n) f =
     act_match f (\<lambda>r. case r of
         Inr v \<Rightarrow> ret v
       | Inl e \<Rightarrow> if is_transient e \<and> 0 < n then with_retry n f else throw e)"

section \<open>Requests to Steam\<close>

datatype steam_request =
    Publish string string u32
  | Update u64 string string u32
  | SetCollectionChildren u64 "u64 list"
  | DeleteFile u64
  | GetDetails "u64 list"
  | GetUserFiles u64 nat

record file_details = details +
  fd_description :: "string option"
  fd_visibility :: "u32 option"
  fd_creator :: "u64 option"
  fd_time_updated :: "u32 option"
  fd_num_children :: "u32 option"

datatype steam_answer =
    Published "u64 option"
  | Done
  | Files "file_details list" "u32 option"

record steam_env =
  se_pool :: bool
  se_session :: "(bool \<times> u64) option"
  se_answer :: "(steam_request \<times> (any_error + steam_answer)) list \<Rightarrow> steam_request \<Rightarrow> any_error + steam_answer"
  se_details :: "u64 list \<Rightarrow> string + details list"
  se_cause :: "string \<Rightarrow> steam_error option"

record steam_conn =
  sc_log :: "(steam_request \<times> (any_error + steam_answer)) list"
  sc_bad :: bool

type_synonym 'a steam_act = "(steam_conn, any_error, 'a) act"

definition send :: "steam_env \<Rightarrow> steam_request \<Rightarrow> steam_answer steam_act" where
  "send E req = (\<lambda>s. let r = se_answer E (sc_log s) req in (r, s\<lparr>sc_log := sc_log s @ [(req, r)]\<rparr>))"

definition call :: "steam_env \<Rightarrow> bool \<Rightarrow> steam_request \<Rightarrow> steam_answer steam_act" where
  "call E retry req = with_retry (if retry then DEFAULT_RETRY_ATTEMPTS else 1) (send E req)"

definition decode_error :: "string \<Rightarrow> any_error" where
  "decode_error m = bail_msg (''failed to decode '' @ m @ '' response'')"

section \<open>Visibility\<close>

datatype visibility = Public | FriendsOnly | Private | Unlisted

definition as_steam :: "visibility \<Rightarrow> u32" where
  "as_steam v = (case v of Public \<Rightarrow> 0 | FriendsOnly \<Rightarrow> 1 | Private \<Rightarrow> 2 | Unlisted \<Rightarrow> 3)"

definition from_steam :: "u32 \<Rightarrow> visibility option" where
  "from_steam v =
    (if v = 0 then Some Public else if v = 1 then Some FriendsOnly else if v = 2 then Some Private
     else if v = 3 then Some Unlisted else None)"

definition as_proto :: "visibility \<Rightarrow> int" where
  "as_proto v = int (unat (as_steam v)) + 1"

definition from_proto :: "int \<Rightarrow> any_error + visibility" where
  "from_proto v =
    (if v = 1 then Inr Public else if v = 2 then Inr FriendsOnly else if v = 3 then Inr Private
     else if v = 4 then Inr Unlisted else Inl (bail_msg (''unknown visibility '' @ show_int v)))"

section \<open>Collections\<close>

definition MAX_CHILDREN :: nat where "MAX_CHILDREN = 1000"
definition USER_FILES_PAGE_SIZE :: nat where "USER_FILES_PAGE_SIZE = 100"

record collection_details =
  cd_id :: u64
  cd_title :: string
  cd_description :: string
  cd_visibility :: "visibility option"
  cd_creator :: u64
  cd_time_updated :: u32
  cd_children :: "u64 list"

record collection_summary =
  cs_id :: u64
  cs_title :: string
  cs_visibility :: "visibility option"
  cs_item_count :: u32
  cs_time_updated :: u32

definition account_steam_id :: "steam_env \<Rightarrow> any_error + u64" where
  "account_steam_id E = (case se_session E of
      Some (True, steam_id) \<Rightarrow> Inr steam_id
    | _ \<Rightarrow> Inl (bail_msg ''this needs an authenticated Steam session, but the connection is anonymous''))"

definition validate_title :: "string \<Rightarrow> any_error + string" where
  "validate_title title =
    (if trim title = [] then Inl (bail_msg ''collection title must not be empty'') else Inr (trim title))"

definition validate_children :: "u64 list \<Rightarrow> any_error + u64 list" where
  "validate_children children =
    (let cs = dedup_seen [] children in
     if cs = [] then Inl (bail_msg ''refusing to set an empty membership on a collection'')
     else if length cs > MAX_CHILDREN
     then Inl (bail_msg (''collection would have '' @ show_nat (length cs) @ '' members, over Steam's 1000 limit''))
     else Inr cs)"

definition publish_collection :: "steam_env \<Rightarrow> string \<Rightarrow> string \<Rightarrow> visibility \<Rightarrow> u64 steam_act" where
  "publish_collection E title description vis =
    act_bind (lift_res (validate_title title)) (\<lambda>t.
    act_bind (act_map_err (with_context ''failed to publish collection'') (call E False (Publish t description (as_steam vis)))) (\<lambda>resp.
    case resp of
      Published (Some i) \<Rightarrow>
        if i \<noteq> 0 then ret i else throw (bail_msg ''Steam accepted the publish but returned no collection id'')
    | Published None \<Rightarrow> throw (bail_msg ''Steam accepted the publish but returned no collection id'')
    | _ \<Rightarrow> throw (with_context ''failed to publish collection'' (decode_error ''PublishedFile.Publish#1''))))"

definition update_collection :: "steam_env \<Rightarrow> u64 \<Rightarrow> string \<Rightarrow> string \<Rightarrow> visibility \<Rightarrow> unit steam_act" where
  "update_collection E i title description vis =
    act_bind (lift_res (validate_title title)) (\<lambda>t.
    act_bind (act_map_err (with_context (''failed to update collection '' @ show_word i))
      (call E True (Update i t description (as_steam vis)))) (\<lambda>_. ret ()))"

definition set_collection_children :: "steam_env \<Rightarrow> u64 \<Rightarrow> u64 list \<Rightarrow> unit steam_act" where
  "set_collection_children E i children =
    act_bind (lift_res (validate_children children)) (\<lambda>cs.
    act_bind (act_map_err (with_context (''failed to set children on collection '' @ show_word i))
      (call E True (SetCollectionChildren i cs))) (\<lambda>_. ret ()))"

definition delete_collection :: "steam_env \<Rightarrow> u64 \<Rightarrow> unit steam_act" where
  "delete_collection E i =
    act_bind (act_map_err (with_context (''failed to delete collection '' @ show_word i)) (call E True (DeleteFile i))) (\<lambda>_. ret ())"

definition collection_details_from :: "file_details \<Rightarrow> any_error + collection_details" where
  "collection_details_from d =
    (let i = opt_default 0 (d_id d); eresult = opt_default 0 (d_result d) in
     if eresult \<noteq> 1
     then Inl (bail_msg (''Workshop item '' @ show_word i @ '' is not visible to the cluster's Steam account (eresult ''
            @ show_word eresult @ '')''))
     else if opt_default 0 (d_file_type d) \<noteq> WORKSHOP_FILE_TYPE_COLLECTION
     then Inl (bail_msg (''Workshop item '' @ show_word i @ '' is not a collection''))
     else Inr \<lparr>cd_id = i, cd_title = opt_default [] (d_title d), cd_description = opt_default [] (fd_description d),
            cd_visibility = Option.bind (fd_visibility d) from_steam, cd_creator = opt_default 0 (fd_creator d),
            cd_time_updated = opt_default 0 (fd_time_updated d), cd_children = ordered_children (d_children d)\<rparr>)"

definition get_collection_details :: "steam_env \<Rightarrow> u64 \<Rightarrow> collection_details steam_act" where
  "get_collection_details E i =
    act_bind (act_map_err (with_context (''failed to look up collection '' @ show_word i)) (call E True (GetDetails [i]))) (\<lambda>resp.
    case resp of
      Files ds _ \<Rightarrow>
        (case find (\<lambda>d. d_id d = Some i) ds of
           None \<Rightarrow> throw (bail_msg (''Steam returned nothing for '' @ show_word i))
         | Some d \<Rightarrow> lift_res (collection_details_from d))
    | _ \<Rightarrow> throw (with_context (''failed to look up collection '' @ show_word i) (decode_error ''PublishedFile.GetDetails#1'')))"

definition collection_summary_from :: "file_details \<Rightarrow> collection_summary option" where
  "collection_summary_from d =
    (if opt_default 0 (d_result d) \<noteq> 1 \<or> opt_default 0 (d_file_type d) \<noteq> WORKSHOP_FILE_TYPE_COLLECTION then None
     else map_option (\<lambda>i. \<lparr>cs_id = i, cs_title = opt_default [] (d_title d),
        cs_visibility = Option.bind (fd_visibility d) from_steam,
        cs_item_count = opt_default (of_nat (length (d_children d))) (fd_num_children d),
        cs_time_updated = opt_default 0 (fd_time_updated d)\<rparr>) (d_id d))"

lemma page_below: "\<not> page * USER_FILES_PAGE_SIZE \<ge> unat (t :: u32) \<Longrightarrow> page < 42949673"
proof -
  have "unat t < 2 ^ 32" using unsigned_less [of t, where ?'a = nat] by simp
  then show "\<not> page * USER_FILES_PAGE_SIZE \<ge> unat t \<Longrightarrow> page < 42949673" by (simp add: USER_FILES_PAGE_SIZE_def)
qed

text \<open>The page loop of \<open>list_owned_collections\<close>. It ends for every Steam: a further page needs
  \<open>page * 100\<close> below a 32-bit total.\<close>

function list_pages :: "steam_env \<Rightarrow> u64 \<Rightarrow> nat \<Rightarrow> collection_summary list \<Rightarrow> collection_summary list steam_act" where
  "list_pages E steam_id page out =
    act_bind (act_map_err (with_context ''failed to list the account's Workshop collections'')
      (call E True (GetUserFiles steam_id page))) (\<lambda>resp.
    case resp of
      Files ds n_total \<Rightarrow>
        (let out' = out @ List.map_filter collection_summary_from ds in
         if length ds < USER_FILES_PAGE_SIZE \<or> page * USER_FILES_PAGE_SIZE \<ge> unat (opt_default 0 n_total) then ret out'
         else list_pages E steam_id (page + 1) out')
    | _ \<Rightarrow> throw (with_context ''failed to list the account's Workshop collections'' (decode_error ''PublishedFile.GetUserFiles#1'')))"
  by pat_completeness auto

termination
  by (relation "measure (\<lambda>(E, steam_id, page, out). 42949673 - page)") (auto dest: page_below)

declare list_pages.simps [simp del]

definition list_owned_collections :: "steam_env \<Rightarrow> u64 \<Rightarrow> collection_summary list steam_act" where
  "list_owned_collections E steam_id =
    act_bind (list_pages E steam_id 1 []) (\<lambda>out. ret (sort_key (\<lambda>c. - int (unat (cs_time_updated c))) out))"

section \<open>The sync daemon\<close>

definition require_pool :: "steam_env \<Rightarrow> any_error + unit" where
  "require_pool E = ensure (se_pool E) (bail_msg ''no Steam session established -- call RefreshSteamAuth first'')"

definition with_conn :: "steam_env \<Rightarrow> 'a steam_act \<Rightarrow> 'a steam_act" where
  "with_conn E f =
    act_bind (lift_res (require_pool E)) (\<lambda>_.
    act_match f (\<lambda>r. case r of
        Inr v \<Rightarrow> ret v
      | Inl e \<Rightarrow> act_bind (act_when (is_transient e) (modify_act (\<lambda>s. s\<lparr>sc_bad := True\<rparr>))) (\<lambda>_. throw e)))"

definition with_account :: "steam_env \<Rightarrow> (u64 \<Rightarrow> 'a steam_act) \<Rightarrow> 'a steam_act" where
  "with_account E f = with_conn E (act_bind (lift_res (account_steam_id E)) f)"

definition resolve_ids :: "steam_env \<Rightarrow> u64 list \<Rightarrow> resolve_outcome steam_act" where
  "resolve_ids E ids = lift_res (map_err (\<lambda>m. AnyErr (se_cause E m) m) (resolve_source_ids (se_details E) ids))"

definition resolve_items_impl :: "steam_env \<Rightarrow> u64 list \<Rightarrow> resolve_outcome steam_act" where
  "resolve_items_impl E ids = with_conn E (resolve_ids E ids)"

definition list_owned_collections_impl :: "steam_env \<Rightarrow> collection_summary list steam_act" where
  "list_owned_collections_impl E = with_account E (list_owned_collections E)"

record collection_view =
  cv_details :: collection_details
  cv_owned :: bool
  cv_resolved :: resolve_outcome

definition get_collection_impl :: "steam_env \<Rightarrow> u64 \<Rightarrow> collection_view steam_act" where
  "get_collection_impl E i = with_account E (\<lambda>steam_id.
    act_bind (get_collection_details E i) (\<lambda>d.
    act_bind (resolve_ids E (cd_children d)) (\<lambda>r.
    ret \<lparr>cv_details = d, cv_owned = (cd_creator d = steam_id), cv_resolved = r\<rparr>)))"

definition ensure_owned :: "collection_details \<Rightarrow> u64 \<Rightarrow> any_error + unit" where
  "ensure_owned d steam_id =
    ensure (cd_creator d = steam_id)
      (bail_msg (''collection '' @ show_word (cd_id d) @ '' ('' @ cd_title d
        @ '') was published by another Steam account, not the cluster's''))"

record publish_outcome =
  po_collection_id :: u64
  po_created :: bool
  po_mods :: "resolved_mod list"
  po_unresolved :: "u64 list"

text \<open>A failed cleanup is only logged.\<close>

definition publish_new :: "steam_env \<Rightarrow> string \<Rightarrow> string \<Rightarrow> visibility \<Rightarrow> u64 list \<Rightarrow> u64 steam_act" where
  "publish_new E title description vis mod_ids =
    act_bind (publish_collection E title description vis) (\<lambda>i.
    act_match (set_collection_children E i mod_ids) (\<lambda>r. case r of
        Inr _ \<Rightarrow> ret i
      | Inl e \<Rightarrow> act_match (delete_collection E i) (\<lambda>_. throw e)))"

definition replace_existing :: "steam_env \<Rightarrow> u64 \<Rightarrow> u64 \<Rightarrow> string \<Rightarrow> string \<Rightarrow> visibility \<Rightarrow> u64 list \<Rightarrow> u64 steam_act" where
  "replace_existing E steam_id i title description vis mod_ids =
    act_bind (get_collection_details E i) (\<lambda>d.
    act_bind (lift_res (ensure_owned d steam_id)) (\<lambda>_.
    act_bind (set_collection_children E i mod_ids) (\<lambda>_.
    act_bind (update_collection E i title description vis) (\<lambda>_. ret i))))"

definition publish_collection_impl :: "steam_env \<Rightarrow> u64 option \<Rightarrow> string \<Rightarrow> string \<Rightarrow> visibility \<Rightarrow> u64 list
    \<Rightarrow> publish_outcome steam_act" where
  "publish_collection_impl E existing title description vis candidate_ids = with_account E (\<lambda>steam_id.
    act_bind (resolve_ids E candidate_ids) (\<lambda>resolved.
    let mod_ids = map rm_id (ro_mods resolved) in
    if mod_ids = []
    then throw (bail_msg (''none of the '' @ show_nat (length candidate_ids) @ '' requested ids resolved to a mod''))
    else
      act_bind (case existing of
          Some i \<Rightarrow> replace_existing E steam_id i title description vis mod_ids
        | None \<Rightarrow> publish_new E title description vis mod_ids) (\<lambda>i.
      ret \<lparr>po_collection_id = i, po_created = (existing = None), po_mods = ro_mods resolved,
           po_unresolved = ro_unresolved resolved\<rparr>)))"

definition delete_collection_impl :: "steam_env \<Rightarrow> u64 \<Rightarrow> unit steam_act" where
  "delete_collection_impl E i = with_account E (\<lambda>steam_id.
    act_bind (get_collection_details E i) (\<lambda>d.
    act_bind (lift_res (ensure_owned d steam_id)) (\<lambda>_.
    delete_collection E i)))"

section \<open>The RPCs of the sync daemon\<close>

definition internal_any :: "any_error \<Rightarrow> connect_error" where
  "internal_any e = Internal (err_text e)"

definition required_collection_id :: "u64 \<Rightarrow> connect_error + u64" where
  "required_collection_id i = (if i = 0 then Inl (InvalidArgument ''collection_id is required'') else Inr i)"

definition proto_visibility :: "visibility option \<Rightarrow> int" where
  "proto_visibility v = (case v of Some x \<Rightarrow> as_proto x | None \<Rightarrow> 0)"

definition unix_ms :: "u32 \<Rightarrow> int" where
  "unix_ms seconds = int (unat seconds) * 1000"

text \<open>A \<open>WorkshopItem\<close> of either proto: id, title and file size.\<close>

type_synonym workshop_item = "u64 \<times> string \<times> u64"

definition to_proto_items :: "resolved_mod list \<Rightarrow> workshop_item list" where
  "to_proto_items ms = map (\<lambda>m. (rm_id m, rm_title m, rm_file_size m)) ms"

record publish_request =
  pq_collection_id :: u64
  pq_title :: string
  pq_description :: string
  pq_visibility :: int
  pq_candidate_ids :: "u64 list"

record publish_response =
  pp_collection_id :: u64
  pp_url :: string
  pp_mods :: "workshop_item list"
  pp_unresolved :: "u64 list"
  pp_created :: bool

record summary_response =
  sr_id :: u64
  sr_title :: string
  sr_visibility :: int
  sr_item_count :: u32
  sr_updated_at :: int
  sr_url :: string

record collection_response =
  cr_id :: u64
  cr_title :: string
  cr_description :: string
  cr_visibility :: int
  cr_owned :: bool
  cr_updated_at :: int
  cr_mods :: "workshop_item list"
  cr_unresolved :: "u64 list"
  cr_url :: string

type_synonym 'a rpc_act = "(steam_conn, connect_error, 'a) act"

definition resolve_workshop_items_rpc :: "steam_env \<Rightarrow> u64 list \<Rightarrow> (workshop_item list \<times> u64 list) rpc_act" where
  "resolve_workshop_items_rpc E ids =
    (if ids = [] then throw (InvalidArgument ''candidate_ids must not be empty'')
     else act_bind (act_map_err internal_any (resolve_items_impl E ids)) (\<lambda>r.
       ret (to_proto_items (ro_mods r), ro_unresolved r)))"

text \<open>The daemon sends no link; the registry adds it.\<close>

definition list_owned_collections_rpc :: "steam_env \<Rightarrow> summary_response list rpc_act" where
  "list_owned_collections_rpc E =
    act_bind (act_map_err internal_any (list_owned_collections_impl E)) (\<lambda>cs.
    ret (map (\<lambda>c. \<lparr>sr_id = cs_id c, sr_title = cs_title c, sr_visibility = proto_visibility (cs_visibility c),
      sr_item_count = cs_item_count c, sr_updated_at = unix_ms (cs_time_updated c), sr_url = []\<rparr>) cs))"

definition get_collection_rpc :: "steam_env \<Rightarrow> u64 \<Rightarrow> collection_response rpc_act" where
  "get_collection_rpc E i =
    act_bind (lift_res (required_collection_id i)) (\<lambda>i'.
    act_bind (act_map_err internal_any (get_collection_impl E i')) (\<lambda>v.
    let d = cv_details v in
    ret \<lparr>cr_id = cd_id d, cr_title = cd_title d, cr_description = cd_description d,
         cr_visibility = proto_visibility (cd_visibility d), cr_owned = cv_owned v,
         cr_updated_at = unix_ms (cd_time_updated d), cr_mods = to_proto_items (ro_mods (cv_resolved v)),
         cr_unresolved = ro_unresolved (cv_resolved v), cr_url = []\<rparr>))"

definition publish_collection_rpc :: "steam_env \<Rightarrow> publish_request \<Rightarrow> publish_response rpc_act" where
  "publish_collection_rpc E q =
    act_bind (lift_res (map_err (\<lambda>e. InvalidArgument (err_text e)) (from_proto (pq_visibility q)))) (\<lambda>vis.
    if trim (pq_title q) = [] then throw (InvalidArgument ''a collection needs a title'')
    else if pq_candidate_ids q = [] then throw (InvalidArgument ''candidate_ids must not be empty'')
    else
      act_bind (act_map_err internal_any (publish_collection_impl E
        (if pq_collection_id q \<noteq> 0 then Some (pq_collection_id q) else None)
        (pq_title q) (pq_description q) vis (pq_candidate_ids q))) (\<lambda>out.
      ret \<lparr>pp_collection_id = po_collection_id out, pp_url = workshop_url (po_collection_id out),
           pp_mods = to_proto_items (po_mods out), pp_unresolved = po_unresolved out, pp_created = po_created out\<rparr>))"

definition delete_collection_rpc :: "steam_env \<Rightarrow> u64 \<Rightarrow> unit rpc_act" where
  "delete_collection_rpc E i =
    act_bind (lift_res (required_collection_id i)) (\<lambda>i'. act_map_err internal_any (delete_collection_impl E i'))"

section \<open>The registry\<close>

definition candidate_ids :: "string \<Rightarrow> u64 list \<Rightarrow> connect_error + u64 list" where
  "candidate_ids preset_html ids =
    (let candidates = dedup_seen [] (filter (\<lambda>i. i \<noteq> 0) (parse_preset_html preset_html @ ids)) in
     if candidates = []
     then Inl (InvalidArgument
       (if trim preset_html = [] then ''nothing to resolve -- give a preset export or at least one Workshop id''
        else ''no Steam Workshop links found -- expected an Arma 3 Launcher preset export''))
     else Inr candidates)"

text \<open>The two generated enums, with the numbers of their protos.\<close>

datatype registry_visibility = RegUnspecified | RegPublic | RegFriendsOnly | RegPrivate | RegUnlisted
datatype sync_visibility = SyncUnspecified | SyncPublic | SyncFriendsOnly | SyncPrivate | SyncUnlisted

definition reg_visibility_of :: "int \<Rightarrow> registry_visibility option" where
  "reg_visibility_of v =
    (if v = 0 then Some RegUnspecified else if v = 1 then Some RegPublic else if v = 2 then Some RegFriendsOnly
     else if v = 3 then Some RegPrivate else if v = 4 then Some RegUnlisted else None)"

definition reg_visibility_num :: "registry_visibility \<Rightarrow> int" where
  "reg_visibility_num v = (case v of RegUnspecified \<Rightarrow> 0 | RegPublic \<Rightarrow> 1 | RegFriendsOnly \<Rightarrow> 2 | RegPrivate \<Rightarrow> 3 | RegUnlisted \<Rightarrow> 4)"

definition sync_visibility_of :: "int \<Rightarrow> sync_visibility option" where
  "sync_visibility_of v =
    (if v = 0 then Some SyncUnspecified else if v = 1 then Some SyncPublic else if v = 2 then Some SyncFriendsOnly
     else if v = 3 then Some SyncPrivate else if v = 4 then Some SyncUnlisted else None)"

definition sync_visibility_num :: "sync_visibility \<Rightarrow> int" where
  "sync_visibility_num v = (case v of SyncUnspecified \<Rightarrow> 0 | SyncPublic \<Rightarrow> 1 | SyncFriendsOnly \<Rightarrow> 2 | SyncPrivate \<Rightarrow> 3 | SyncUnlisted \<Rightarrow> 4)"

definition to_sync_visibility :: "int \<Rightarrow> connect_error + sync_visibility" where
  "to_sync_visibility v = (case reg_visibility_of v of
      Some RegPublic \<Rightarrow> Inr SyncPublic
    | Some RegFriendsOnly \<Rightarrow> Inr SyncFriendsOnly
    | Some RegPrivate \<Rightarrow> Inr SyncPrivate
    | Some RegUnlisted \<Rightarrow> Inr SyncUnlisted
    | _ \<Rightarrow> Inl (InvalidArgument ''visibility must be set explicitly (public, friends-only, private, or unlisted)''))"

definition to_registry_visibility :: "int \<Rightarrow> int" where
  "to_registry_visibility v = reg_visibility_num (case sync_visibility_of v of
      Some SyncPublic \<Rightarrow> RegPublic
    | Some SyncFriendsOnly \<Rightarrow> RegFriendsOnly
    | Some SyncPrivate \<Rightarrow> RegPrivate
    | Some SyncUnlisted \<Rightarrow> RegUnlisted
    | _ \<Rightarrow> RegUnspecified)"

definition relay :: "connect_error \<Rightarrow> connect_error" where
  "relay e = (case e of
      InvalidArgument m \<Rightarrow> InvalidArgument m
    | NotFound m \<Rightarrow> NotFound m
    | FailedPrecondition m \<Rightarrow> FailedPrecondition m
    | AlreadyExists m \<Rightarrow> Internal m
    | PermissionDenied m \<Rightarrow> Internal m
    | Unauthenticated m \<Rightarrow> Internal m
    | Internal m \<Rightarrow> Internal m)"

definition summary :: "summary_response \<Rightarrow> summary_response" where
  "summary c = c\<lparr>sr_visibility := to_registry_visibility (sr_visibility c), sr_url := workshop_url (sr_id c)\<rparr>"

definition collection_of :: "collection_response \<Rightarrow> collection_response" where
  "collection_of c = c\<lparr>cr_visibility := to_registry_visibility (cr_visibility c), cr_url := workshop_url (cr_id c)\<rparr>"

definition resolve_workshop_items :: "steam_env \<Rightarrow> string \<Rightarrow> u64 list \<Rightarrow> (workshop_item list \<times> u64 list) rpc_act" where
  "resolve_workshop_items E preset_html ids =
    act_bind (lift_res (candidate_ids preset_html ids)) (\<lambda>candidates.
    act_map_err relay (resolve_workshop_items_rpc E candidates))"

definition list_workshop_collections :: "steam_env \<Rightarrow> summary_response list rpc_act" where
  "list_workshop_collections E =
    act_bind (act_map_err relay (list_owned_collections_rpc E)) (\<lambda>cs. ret (map summary cs))"

definition get_workshop_collection :: "steam_env \<Rightarrow> u64 \<Rightarrow> collection_response rpc_act" where
  "get_workshop_collection E i =
    act_bind (act_map_err relay (get_collection_rpc E i)) (\<lambda>c. ret (collection_of c))"

definition publish_workshop_collection :: "steam_env \<Rightarrow> publish_request \<Rightarrow> publish_response rpc_act" where
  "publish_workshop_collection E q =
    (let title = trim (pq_title q) in
     if title = [] then throw (InvalidArgument ''a collection needs a title'')
     else
       act_bind (lift_res (to_sync_visibility (pq_visibility q))) (\<lambda>vis.
       act_bind (lift_res (candidate_ids [] (pq_candidate_ids q))) (\<lambda>candidates.
       act_map_err relay (publish_collection_rpc E
         (q\<lparr>pq_title := title, pq_visibility := sync_visibility_num vis, pq_candidate_ids := candidates\<rparr>)))))"

definition delete_workshop_collection :: "steam_env \<Rightarrow> u64 \<Rightarrow> unit rpc_act" where
  "delete_workshop_collection E i = act_map_err relay (delete_collection_rpc E i)"

section \<open>Only the account's own collections are changed\<close>

fun mutates :: "steam_request \<Rightarrow> u64 option" where
  "mutates (Update i _ _ _) = Some i"
| "mutates (SetCollectionChildren i _) = Some i"
| "mutates (DeleteFile i) = Some i"
| "mutates _ = None"

definition says_owned :: "u64 \<Rightarrow> u64 \<Rightarrow> file_details list \<Rightarrow> bool" where
  "says_owned steam_id i ds = (\<exists>d. find (\<lambda>d. d_id d = Some i) ds = Some d \<and> opt_default 0 (d_result d) = 1
     \<and> opt_default 0 (d_file_type d) = WORKSHOP_FILE_TYPE_COLLECTION \<and> opt_default 0 (fd_creator d) = steam_id)"

text \<open>Steam has answered that \<open>i\<close> was just published here, or that it is a collection of the account.\<close>

definition vouched :: "u64 \<Rightarrow> u64 \<Rightarrow> (steam_request \<times> (any_error + steam_answer)) list \<Rightarrow> bool" where
  "vouched steam_id i log =
    ((\<exists>t d v. (Publish t d v, Inr (Published (Some i))) \<in> set log)
     \<or> (\<exists>ds n. (GetDetails [i], Inr (Files ds n)) \<in> set log \<and> says_owned steam_id i ds))"

definition log_ok :: "u64 \<Rightarrow> (steam_request \<times> (any_error + steam_answer)) list \<Rightarrow> bool" where
  "log_ok steam_id log =
    (\<forall>k < length log. \<forall>i. mutates (fst (log ! k)) = Some i \<longrightarrow> vouched steam_id i (take k log))"

lemma log_ok_Nil [simp]: "log_ok sid []"
  by (simp add: log_ok_def)

lemma vouched_append: "vouched sid i log \<Longrightarrow> vouched sid i (log @ xs)"
  by (fastforce simp: vouched_def)

lemma log_ok_snoc:
  "log_ok sid (log @ [x]) \<longleftrightarrow> log_ok sid log \<and> (\<forall>i. mutates (fst x) = Some i \<longrightarrow> vouched sid i log)"
  by (auto simp: log_ok_def less_Suc_eq nth_append)

lemma triple_with_retry:
  "triple P f Q (\<lambda>_. P) \<Longrightarrow> triple P (with_retry n f) Q (\<lambda>_. P)"
proof (induction n)
  case (Suc n)
  show ?case
    unfolding with_retry.simps
    by (rule triple_match [OF Suc.prems]) (auto intro!: triple_intros Suc split: if_splits)
qed (auto intro!: triple_intros)

lemma triple_send: "(\<And>s. P s \<Longrightarrow> P (s\<lparr>sc_log := sc_log s @ [(req, se_answer E (sc_log s) req)]\<rparr>)) \<Longrightarrow>
    triple P (send E req) (\<lambda>r s. P s \<and> (req, Inr r) \<in> set (sc_log s)) (\<lambda>_. P)"
proof (rule tripleI)
  fix s r s'
  assume keep: "\<And>s. P s \<Longrightarrow> P (s\<lparr>sc_log := sc_log s @ [(req, se_answer E (sc_log s) req)]\<rparr>)"
    and P: "P s" and run: "send E req s = (r, s')"
  from keep [OF P] run have "P s'" "(req, r) \<in> set (sc_log s')" by (auto simp: send_def Let_def)
  then show "case r of Inr x \<Rightarrow> P s' \<and> (req, Inr x) \<in> set (sc_log s') | Inl e \<Rightarrow> P s'" by (cases r) auto
qed

lemma triple_call: "(\<And>s. P s \<Longrightarrow> P (s\<lparr>sc_log := sc_log s @ [(req, se_answer E (sc_log s) req)]\<rparr>)) \<Longrightarrow>
    triple P (call E retry req) (\<lambda>r s. P s \<and> (req, Inr r) \<in> set (sc_log s)) (\<lambda>_. P)"
  unfolding call_def by (rule triple_with_retry, rule triple_send)

abbreviation ok_log :: "u64 \<Rightarrow> steam_conn \<Rightarrow> bool" where
  "ok_log sid s \<equiv> log_ok sid (sc_log s)"

abbreviation own_log :: "u64 \<Rightarrow> u64 \<Rightarrow> steam_conn \<Rightarrow> bool" where
  "own_log sid i s \<equiv> log_ok sid (sc_log s) \<and> vouched sid i (sc_log s)"

lemma own_mutation:
  assumes "mutates req = Some i \<or> mutates req = None"
  shows "triple (own_log sid i) (call E retry req) (\<lambda>r. own_log sid i) (\<lambda>_. own_log sid i)"
  by (rule triple_post, rule triple_call) (use assms in \<open>auto simp: log_ok_snoc vouched_append\<close>)

lemma own_set_children: "keeps (own_log sid i) (set_collection_children E i cs)"
  unfolding set_collection_children_def by (auto intro!: triple_intros own_mutation)

lemma own_update: "keeps (own_log sid i) (update_collection E i t d v)"
  unfolding update_collection_def by (auto intro!: triple_intros own_mutation)

lemma own_delete: "keeps (own_log sid i) (delete_collection E i)"
  unfolding delete_collection_def by (auto intro!: triple_intros own_mutation)

lemma details_owned:
  "collection_details_from d = Inr x \<Longrightarrow> find (\<lambda>d. d_id d = Some i) ds = Some d \<Longrightarrow> says_owned (cd_creator x) i ds"
  by (auto simp: collection_details_from_def says_owned_def Let_def split: if_splits)

lemma ok_details:
  "triple (ok_log sid) (get_collection_details E i)
     (\<lambda>d s. ok_log sid s \<and> (cd_creator d = sid \<longrightarrow> own_log sid i s)) (\<lambda>_. ok_log sid)"
  unfolding get_collection_details_def
proof (rule triple_bind)
  show "triple (ok_log sid) (act_map_err (with_context (''failed to look up collection '' @ show_word i)) (call E True (GetDetails [i])))
      (\<lambda>r s. ok_log sid s \<and> (GetDetails [i], Inr r) \<in> set (sc_log s)) (\<lambda>_. ok_log sid)"
    by (intro triple_intros, rule triple_call) (simp add: log_ok_snoc)
next
  fix resp
  show "triple (\<lambda>s. ok_log sid s \<and> (GetDetails [i], Inr resp) \<in> set (sc_log s))
      (case resp of
        Files ds _ \<Rightarrow>
          (case find (\<lambda>d. d_id d = Some i) ds of
             None \<Rightarrow> throw (bail_msg (''Steam returned nothing for '' @ show_word i))
           | Some d \<Rightarrow> lift_res (collection_details_from d))
      | _ \<Rightarrow> throw (with_context (''failed to look up collection '' @ show_word i) (decode_error ''PublishedFile.GetDetails#1'')))
      (\<lambda>d s. ok_log sid s \<and> (cd_creator d = sid \<longrightarrow> own_log sid i s)) (\<lambda>_. ok_log sid)"
  proof (cases resp)
    case (Files ds n)
    then show ?thesis
      by (cases "find (\<lambda>d. d_id d = Some i) ds") (auto intro!: triple_intros simp: vouched_def dest: details_owned)
  qed (auto intro!: triple_intros)
qed

lemma ok_read:
  assumes "mutates req = None"
  shows "keeps (ok_log sid) (call E retry req)"
  by (rule triple_post, rule triple_call) (use assms in \<open>auto simp: log_ok_snoc\<close>)

lemma ok_list_pages: "keeps (ok_log sid) (list_pages E steam_id page out)"
proof (induction E steam_id page out rule: list_pages.induct)
  case (1 E steam_id page out)
  show ?case
    unfolding list_pages.simps [of E steam_id page out]
  proof (intro keeps_bind triple_map_err ok_read)
    fix resp
    show "keeps (ok_log sid) (case resp of
        Files ds n_total \<Rightarrow>
          (let out' = out @ List.map_filter collection_summary_from ds in
           if length ds < USER_FILES_PAGE_SIZE \<or> page * USER_FILES_PAGE_SIZE \<ge> unat (opt_default 0 n_total) then ret out'
           else list_pages E steam_id (page + 1) out')
      | _ \<Rightarrow> throw (with_context ''failed to list the account's Workshop collections'' (decode_error ''PublishedFile.GetUserFiles#1'')))"
      using "1.IH" by (cases resp) (auto intro!: triple_intros simp: Let_def)
  qed simp
qed

lemma ok_publish:
  "triple (ok_log sid) (publish_collection E title description vis) (\<lambda>i. own_log sid i) (\<lambda>_. ok_log sid)"
  unfolding publish_collection_def
proof (rule triple_bind)
  show "triple (ok_log sid) (lift_res (validate_title title)) (\<lambda>_. ok_log sid) (\<lambda>_. ok_log sid)"
    by (auto intro!: triple_intros)
next
  fix t
  let ?req = "Publish t description (as_steam vis)"
  show "triple (ok_log sid) (act_bind (act_map_err (with_context ''failed to publish collection'') (call E False ?req)) (\<lambda>resp.
      case resp of
        Published (Some i) \<Rightarrow>
          if i \<noteq> 0 then ret i else throw (bail_msg ''Steam accepted the publish but returned no collection id'')
      | Published None \<Rightarrow> throw (bail_msg ''Steam accepted the publish but returned no collection id'')
      | _ \<Rightarrow> throw (with_context ''failed to publish collection'' (decode_error ''PublishedFile.Publish#1''))))
    (\<lambda>i. own_log sid i) (\<lambda>_. ok_log sid)"
    by (rule triple_bind [OF triple_map_err [OF triple_call]])
       (auto simp: log_ok_snoc vouched_def intro!: triple_intros split: steam_answer.split option.split)
qed

lemma ok_with_conn: "keeps (ok_log sid) f \<Longrightarrow> keeps (ok_log sid) (with_conn E f)"
  unfolding with_conn_def
  by (intro keeps_bind keeps_match) (auto intro!: triple_intros split: sum.split)

lemma ok_publish_new: "keeps (ok_log sid) (publish_new E title description vis ms)"
  unfolding publish_new_def
proof (rule triple_bind [OF ok_publish])
  fix i
  show "triple (own_log sid i) (act_match (set_collection_children E i ms) (\<lambda>r. case r of
        Inr _ \<Rightarrow> ret i | Inl e \<Rightarrow> act_match (delete_collection E i) (\<lambda>_. throw e))) (\<lambda>_. ok_log sid) (\<lambda>_. ok_log sid)"
    by (rule triple_match [OF own_set_children])
       (auto intro!: triple_intros triple_match [OF own_delete])
qed

lemma triple_guarded:
  "(\<And>x s. r = Inr x \<Longrightarrow> P s \<Longrightarrow> P' s) \<Longrightarrow> (\<And>x. r = Inr x \<Longrightarrow> triple P' (f x) Q E) \<Longrightarrow> (\<And>e s. P s \<Longrightarrow> E e s)
    \<Longrightarrow> triple P (act_bind (lift_res r) f) Q E"
  by (cases r) (auto simp: triple_def act_simps)

lemma ok_replace: "keeps (ok_log sid) (replace_existing E sid i title description vis ms)"
  unfolding replace_existing_def
proof (rule triple_bind [OF ok_details], rule triple_guarded [where P' = "own_log sid i"])
  fix d x and s :: steam_conn
  assume "ensure_owned d sid = Inr x" "ok_log sid s \<and> (cd_creator d = sid \<longrightarrow> own_log sid i s)"
  then show "own_log sid i s" by (auto simp: ensure_owned_def result_simps)
next
  have "keeps (own_log sid i) (act_bind (set_collection_children E i ms) (\<lambda>_.
      act_bind (update_collection E i title description vis) (\<lambda>_. ret i)))"
    by (auto intro!: triple_intros own_set_children own_update)
  then show "triple (own_log sid i) (act_bind (set_collection_children E i ms) (\<lambda>_.
      act_bind (update_collection E i title description vis) (\<lambda>_. ret i))) (\<lambda>_. ok_log sid) (\<lambda>_. ok_log sid)"
    by (rule triple_conseq) auto
qed auto

lemma ok_delete_own: "keeps (ok_log sid) (act_bind (get_collection_details E i) (\<lambda>d.
    act_bind (lift_res (ensure_owned d sid)) (\<lambda>_. delete_collection E i)))"
proof (rule triple_bind [OF ok_details], rule triple_guarded [where P' = "own_log sid i"])
  fix d x and s :: steam_conn
  assume "ensure_owned d sid = Inr x" "ok_log sid s \<and> (cd_creator d = sid \<longrightarrow> own_log sid i s)"
  then show "own_log sid i s" by (auto simp: ensure_owned_def result_simps)
next
  show "triple (own_log sid i) (delete_collection E i) (\<lambda>_. ok_log sid) (\<lambda>_. ok_log sid)"
    by (rule triple_conseq [OF own_delete]) auto
qed auto

lemma ok_with_account:
  "se_session E = Some (a, sid) \<Longrightarrow> keeps (ok_log sid) (f sid) \<Longrightarrow> keeps (ok_log sid) (with_account E f)"
  unfolding with_account_def
  by (rule ok_with_conn, rule triple_guarded [where P' = "ok_log sid"])
     (auto simp: account_steam_id_def split: if_splits bool.splits)

text \<open>The collection RPCs of the registry.\<close>

datatype coll_rpc = CResolve string "u64 list" | CList | CGet u64 | CPublish publish_request | CDelete u64

fun serve_coll :: "steam_env \<Rightarrow> coll_rpc \<Rightarrow> steam_conn \<Rightarrow> steam_conn" where
  "serve_coll E (CResolve html ids) s = snd (resolve_workshop_items E html ids s)"
| "serve_coll E CList s = snd (list_workshop_collections E s)"
| "serve_coll E (CGet i) s = snd (get_workshop_collection E i s)"
| "serve_coll E (CPublish q) s = snd (publish_workshop_collection E q s)"
| "serve_coll E (CDelete i) s = snd (delete_workshop_collection E i s)"

definition serve_colls :: "(steam_env \<times> coll_rpc) list \<Rightarrow> steam_conn \<Rightarrow> steam_conn" where
  "serve_colls qs s = fold (\<lambda>(E, q). serve_coll E q) qs s"

lemma ok_serve:
  assumes sess: "se_session E = Some (a, sid)" and ok: "ok_log sid s"
  shows "ok_log sid (serve_coll E q s)"
proof (cases q)
  case (CResolve html ids)
  have "keeps (ok_log sid) (resolve_workshop_items E html ids)"
    unfolding resolve_workshop_items_def resolve_workshop_items_rpc_def resolve_items_impl_def resolve_ids_def
    by (auto intro!: triple_intros ok_with_conn)
  then show ?thesis using keepsD ok CResolve by force
next
  case CList
  have "keeps (ok_log sid) (list_workshop_collections E)"
    unfolding list_workshop_collections_def list_owned_collections_rpc_def list_owned_collections_impl_def list_owned_collections_def
    by (auto intro!: triple_intros ok_with_account [OF sess] ok_list_pages)
  then show ?thesis using keepsD ok CList by force
next
  case (CGet i)
  have "keeps (ok_log sid) (get_collection_details E j)" for j
    by (rule triple_post [OF ok_details]) auto
  then have "keeps (ok_log sid) (get_workshop_collection E i)"
    unfolding get_workshop_collection_def get_collection_rpc_def get_collection_impl_def Let_def resolve_ids_def
    by (auto intro!: triple_intros ok_with_account [OF sess])
  then show ?thesis using keepsD ok CGet by force
next
  case (CPublish r)
  have "keeps (ok_log sid) (publish_collection_impl E ex t d v ids)" for ex t d v ids
    unfolding publish_collection_impl_def Let_def resolve_ids_def
    by (auto intro!: triple_intros ok_with_account [OF sess] ok_publish_new ok_replace split: option.split)
  then have "keeps (ok_log sid) (publish_workshop_collection E r)"
    unfolding publish_workshop_collection_def publish_collection_rpc_def Let_def
    by (auto intro!: triple_intros)
  then show ?thesis using keepsD ok CPublish by force
next
  case (CDelete i)
  have "keeps (ok_log sid) (delete_workshop_collection E i)"
    unfolding delete_workshop_collection_def delete_collection_rpc_def delete_collection_impl_def
    by (auto intro!: triple_intros ok_with_account [OF sess] ok_delete_own)
  then show ?thesis using keepsD ok CDelete by force
qed

text \<open>C22: whatever Steam answers, no sequence of collection requests makes the cluster's account change
  or delete a Workshop item unless Steam has said before that the item was just published here, or that
  it is a visible collection created by the account itself.\<close>

theorem only_own_collections_change:
  assumes "\<forall>(E, q) \<in> set qs. \<exists>a. se_session E = Some (a, sid)" "sc_log s = []"
  shows "log_ok sid (sc_log (serve_colls qs s))"
proof -
  have "ok_log sid (fold (\<lambda>(E, q). serve_coll E q) qs s)" if "ok_log sid s"
    using assms(1) that
  proof (induction qs arbitrary: s)
    case (Cons p qs)
    then show ?case by (cases p) (auto intro: ok_serve)
  qed simp
  then show ?thesis using assms(2) by (simp add: serve_colls_def)
qed

section \<open>One publish, undone when it fails\<close>

definition publishes :: "(steam_request \<times> (any_error + steam_answer)) list \<Rightarrow> nat" where
  "publishes log = length (filter (\<lambda>(q, _). \<exists>t d v. q = Publish t d v) log)"

definition published_ids :: "(steam_request \<times> (any_error + steam_answer)) list \<Rightarrow> u64 set" where
  "published_ids log = {i. i \<noteq> 0 \<and> (\<exists>t d v. (Publish t d v, Inr (Published (Some i))) \<in> set log)}"

definition undone :: "(steam_request \<times> (any_error + steam_answer)) list \<Rightarrow> bool" where
  "undone log = (\<forall>i \<in> published_ids log. \<exists>r. (DeleteFile i, r) \<in> set log)"

lemma publishes_append [simp]: "publishes (a @ b) = publishes a + publishes b"
  by (simp add: publishes_def)

lemma published_append [simp]: "published_ids (a @ b) = published_ids a \<union> published_ids b"
  by (auto simp: published_ids_def)

lemma not_a_publish [simp]:
  "\<nexists>t d v. q = Publish t d v \<Longrightarrow> publishes [(q, r)] = 0" "\<nexists>t d v. q = Publish t d v \<Longrightarrow> published_ids [(q, r)] = {}"
  by (auto simp: publishes_def published_ids_def)

text \<open>Requests other than \<open>Publish\<close> leave the count and the published ids alone.\<close>

abbreviation quiet :: "nat \<Rightarrow> u64 set \<Rightarrow> steam_conn \<Rightarrow> bool" where
  "quiet n A s \<equiv> publishes (sc_log s) = n \<and> published_ids (sc_log s) = A"

lemma quiet_call: "\<nexists>t d v. req = Publish t d v \<Longrightarrow> keeps (quiet n A) (call E retry req)"
  by (rule triple_post, rule triple_call) auto

lemma quiet_children: "keeps (quiet n A) (set_collection_children E i ms)"
  unfolding set_collection_children_def by (auto intro!: triple_intros quiet_call)

lemma quiet_update: "keeps (quiet n A) (update_collection E i t d v)"
  unfolding update_collection_def by (auto intro!: triple_intros quiet_call)

lemma quiet_details: "keeps (quiet n A) (get_collection_details E i)"
  unfolding get_collection_details_def
  by (auto intro!: triple_intros quiet_call split: steam_answer.split option.split)

lemma send_deletes:
  "triple (quiet n A) (send E (DeleteFile i)) (\<lambda>_ s. quiet n A s \<and> (\<exists>r. (DeleteFile i, r) \<in> set (sc_log s)))
     (\<lambda>_ s. quiet n A s \<and> (\<exists>r. (DeleteFile i, r) \<in> set (sc_log s)))"
  by (auto simp: triple_def send_def Let_def split: sum.splits)

lemma delete_sends:
  "triple (quiet n A) (delete_collection E i) (\<lambda>_ s. quiet n A s \<and> (\<exists>r. (DeleteFile i, r) \<in> set (sc_log s)))
     (\<lambda>_ s. quiet n A s \<and> (\<exists>r. (DeleteFile i, r) \<in> set (sc_log s)))"
proof -
  let ?P = "\<lambda>s. quiet n A s \<and> (\<exists>r. (DeleteFile i, r) \<in> set (sc_log s))"
  have "keeps ?P (with_retry k (send E (DeleteFile i)))" for k
  proof (rule triple_with_retry)
    show "keeps ?P (send E (DeleteFile i))" by (auto simp: triple_def send_def Let_def split: sum.splits)
  qed
  then have "triple (quiet n A) (with_retry (Suc 2) (send E (DeleteFile i))) (\<lambda>_. ?P) (\<lambda>_. ?P)"
    unfolding with_retry.simps
    by (intro triple_match [OF send_deletes]) (auto intro!: triple_intros)
  then have "triple (quiet n A) (call E True (DeleteFile i)) (\<lambda>_. ?P) (\<lambda>_. ?P)"
    by (simp add: call_def DEFAULT_RETRY_ATTEMPTS_def del: with_retry.simps)
  then show ?thesis
    unfolding delete_collection_def by (rule triple_bind [OF triple_map_err]) (auto intro!: triple_intros)
qed

lemma publish_once:
  "triple (quiet 0 {}) (publish_collection E title description vis)
     (\<lambda>i. quiet 1 {i}) (\<lambda>_ s. publishes (sc_log s) \<le> 1 \<and> published_ids (sc_log s) = {})"
  by (auto simp: triple_def publish_collection_def call_def act_simps send_def Let_def publishes_def published_ids_def
      split: sum.splits prod.splits steam_answer.splits option.splits if_splits)

lemma publish_new_undone:
  "triple (quiet 0 {}) (publish_new E title description vis ms)
     (\<lambda>i. quiet 1 {i}) (\<lambda>_ s. publishes (sc_log s) \<le> 1 \<and> undone (sc_log s))"
  unfolding publish_new_def
proof (rule triple_bind)
  show "triple (quiet 0 {}) (publish_collection E title description vis)
     (\<lambda>i. quiet 1 {i}) (\<lambda>_ s. publishes (sc_log s) \<le> 1 \<and> undone (sc_log s))"
    by (rule triple_conseq [OF publish_once]) (auto simp: undone_def)
next
  fix i
  show "triple (quiet 1 {i}) (act_match (set_collection_children E i ms) (\<lambda>r. case r of
        Inr _ \<Rightarrow> ret i | Inl e \<Rightarrow> act_match (delete_collection E i) (\<lambda>_. throw e)))
      (\<lambda>i. quiet 1 {i}) (\<lambda>_ s. publishes (sc_log s) \<le> 1 \<and> undone (sc_log s))"
    by (rule triple_match [OF quiet_children])
       (auto intro!: triple_intros triple_match [OF delete_sends] simp: undone_def)
qed

lemma quiet_with_conn:
  "triple P f Q (\<lambda>_ s. R (sc_log s)) \<Longrightarrow> (\<And>s. P s \<Longrightarrow> R (sc_log s)) \<Longrightarrow> triple P (with_conn E f) Q (\<lambda>_ s. R (sc_log s))"
  unfolding with_conn_def
  by (rule triple_guarded [where P' = P])
     (auto simp: triple_def act_simps require_pool_def split: sum.splits prod.splits)

lemma publish_impl_once:
  "triple (quiet 0 {}) (publish_collection_impl E existing title description vis ids)
     (\<lambda>out s. publishes (sc_log s) \<le> 1 \<and> (po_created out \<longrightarrow> published_ids (sc_log s) = {po_collection_id out}))
     (\<lambda>_ s. publishes (sc_log s) \<le> 1 \<and> undone (sc_log s))"
  (is "triple ?P _ ?Q ?E")
proof -
  have new: "triple ?P (publish_new E title description vis ms) (\<lambda>i. quiet 1 {i}) ?E" for ms
    by (rule publish_new_undone)
  have old: "triple ?P (replace_existing E sid i title description vis ms) (\<lambda>_. ?P) ?E" for sid i ms
    unfolding replace_existing_def
    by (rule triple_conseq [where P = ?P and Q = "\<lambda>_. ?P" and E = "\<lambda>_. ?P"])
       (auto intro!: triple_intros quiet_details quiet_children quiet_update simp: undone_def)
  have body: "triple ?P (act_bind (case existing of
          Some i \<Rightarrow> replace_existing E sid i title description vis ms
        | None \<Rightarrow> publish_new E title description vis ms) (\<lambda>i.
      ret \<lparr>po_collection_id = i, po_created = (existing = None), po_mods = rms, po_unresolved = un\<rparr>)) ?Q ?E" for sid ms rms un
  proof (cases existing)
    case None
    show ?thesis unfolding None option.case by (rule triple_bind [OF new], rule triple_ret) simp
  next
    case (Some i)
    show ?thesis unfolding Some option.case by (rule triple_bind [OF old], rule triple_ret) simp
  qed
  show ?thesis
    unfolding publish_collection_impl_def with_account_def resolve_ids_def Let_def
  proof (rule quiet_with_conn [where R = "\<lambda>log. publishes log \<le> 1 \<and> undone log"],
      rule triple_guarded [where P' = ?P], goal_cases)
    case (2 sid)
    show ?case
    proof (rule triple_guarded [where P' = ?P], goal_cases)
      case (2 resolved)
      show ?case
        by (rule triple_if, rule triple_throw, simp add: undone_def, rule body)
    qed (simp_all add: undone_def)
  qed (simp_all add: undone_def)
qed

text \<open>C23: publishing happens once. However often Steam fails, a request to publish sends at most one
  \<open>Publish\<close>, a success that created a collection names exactly the one Steam published, and after a
  failure every collection that was published has been asked to be deleted again.\<close>

theorem publish_happens_once:
  assumes "sc_log s = []" "publish_collection_impl E existing title description vis ids s = (r, s')"
  shows "publishes (sc_log s') \<le> 1
    \<and> (\<forall>out. r = Inr out \<and> po_created out \<longrightarrow> published_ids (sc_log s') = {po_collection_id out})
    \<and> (\<forall>e. r = Inl e \<longrightarrow> undone (sc_log s'))"
proof -
  have "quiet 0 {} s" using assms(1) by (simp add: publishes_def published_ids_def)
  from tripleD [OF publish_impl_once this assms(2)] show ?thesis by (cases r) auto
qed

section \<open>The account's collections are all listed\<close>

text \<open>What an account with the items \<open>fs\<close> answers to a page request.\<close>

definition honest_pages :: "steam_env \<Rightarrow> u64 \<Rightarrow> file_details list \<Rightarrow> bool" where
  "honest_pages E sid fs = (\<forall>log p. p \<ge> 1 \<longrightarrow> se_answer E log (GetUserFiles sid p) =
     Inr (Files (take USER_FILES_PAGE_SIZE (drop ((p - 1) * USER_FILES_PAGE_SIZE) fs)) (Some (of_nat (length fs)))))"

lemma call_answered:
  "se_answer E (sc_log s) req = Inr a \<Longrightarrow> call E retry req s = (Inr a, s\<lparr>sc_log := sc_log s @ [(req, Inr a)]\<rparr>)"
  by (cases retry)
     (simp_all add: call_def DEFAULT_RETRY_ATTEMPTS_def numeral_3_eq_3 act_simps send_def Let_def)

lemma map_filter_append: "List.map_filter f (xs @ ys) = List.map_filter f xs @ List.map_filter f ys"
  by (simp add: List.map_filter_def)

lemma list_pages_complete:
  assumes "honest_pages E sid fs" "length fs < 2 ^ 32" "p \<ge> 1" "(p - 1) * USER_FILES_PAGE_SIZE \<le> length fs"
  shows "fst (list_pages E sid p out s) = Inr (out @ List.map_filter collection_summary_from (drop ((p - 1) * USER_FILES_PAGE_SIZE) fs))"
  using assms
proof (induction E sid p out arbitrary: s rule: list_pages.induct)
  case (1 E sid p out)
  let ?page = "take USER_FILES_PAGE_SIZE (drop ((p - 1) * USER_FILES_PAGE_SIZE) fs)"
  let ?a = "Files ?page (Some (of_nat (length fs)))"
  let ?s = "s\<lparr>sc_log := sc_log s @ [(GetUserFiles sid p, Inr ?a)]\<rparr>"
  have call: "call E True (GetUserFiles sid p) s = (Inr ?a, ?s)"
    using "1.prems"(1,3) by (intro call_answered) (simp add: honest_pages_def)
  have tot: "unat (of_nat (length fs) :: u32) = length fs" using "1.prems"(2) by (simp add: unsigned_of_nat take_bit_nat_eq_self)
  have step: "Suc (p - 1) * USER_FILES_PAGE_SIZE = p * USER_FILES_PAGE_SIZE" using "1.prems"(3) by simp
  show ?case
  proof (cases "length ?page < USER_FILES_PAGE_SIZE \<or> p * USER_FILES_PAGE_SIZE \<ge> length fs")
    case True
    then have "?page = drop ((p - 1) * USER_FILES_PAGE_SIZE) fs" using step by (auto simp: min_def split: if_splits)
    with True call tot show ?thesis by (simp add: list_pages.simps [of E sid p] act_simps opt_default_def Let_def)
  next
    case False
    then have le: "p * USER_FILES_PAGE_SIZE \<le> length fs" by simp
    have split: "drop ((p - 1) * USER_FILES_PAGE_SIZE) fs = ?page @ drop (p * USER_FILES_PAGE_SIZE) fs"
      using step by (metis append_take_drop_id drop_drop add.commute mult_Suc)
    have "fst (list_pages E sid (p + 1) (out @ List.map_filter collection_summary_from ?page) ?s) =
        Inr ((out @ List.map_filter collection_summary_from ?page) @ List.map_filter collection_summary_from (drop (p * USER_FILES_PAGE_SIZE) fs))"
      using "1.IH" [OF refl _ "1.prems"(1,2), of ?page "Some (of_nat (length fs))" ?s] False tot le
      by (simp add: opt_default_def)
    moreover have "List.map_filter collection_summary_from (drop ((p - 1) * USER_FILES_PAGE_SIZE) fs) =
        List.map_filter collection_summary_from ?page @ List.map_filter collection_summary_from (drop (p * USER_FILES_PAGE_SIZE) fs)"
      using arg_cong [OF split, of "List.map_filter collection_summary_from"] by (simp only: map_filter_append)
    ultimately show ?thesis
      using call False tot by (simp add: list_pages.simps [of E sid p] act_simps opt_default_def Let_def)
  qed
qed

lemma summaries_of_live:
  "map (\<lambda>c. (cs_id c, cs_title c, cs_time_updated c, cs_item_count c)) (List.map_filter collection_summary_from fs) =
   map (\<lambda>d. (the (d_id d), case d_title d of None \<Rightarrow> [] | Some t \<Rightarrow> t, case fd_time_updated d of None \<Rightarrow> 0 | Some t \<Rightarrow> t,
        case fd_num_children d of None \<Rightarrow> of_nat (length (d_children d)) | Some n \<Rightarrow> n))
     (filter (\<lambda>d. d_result d = Some 1 \<and> d_file_type d = Some 2 \<and> d_id d \<noteq> None) fs)"
proof (induction fs)
  case (Cons d fs)
  have "opt_default 0 (d_result d) = 1 \<longleftrightarrow> d_result d = Some 1" "opt_default 0 (d_file_type d) = 2 \<longleftrightarrow> d_file_type d = Some 2"
    by (cases "d_result d"; cases "d_file_type d"; simp add: opt_default_def)+
  then show ?case
    using Cons by (cases "d_id d") (simp_all add: collection_summary_from_def WORKSHOP_FILE_TYPE_COLLECTION_def opt_default_def List.map_filter_def)
qed (simp add: List.map_filter_def)

text \<open>C24: An account's collections are all listed and nothing else. Against a Steam that pages through the
  account's items a hundred at a time and counts them right, \<open>list_owned_collections\<close> ends with exactly the
  items it can see (result 1) that are collections (file type 2) and have an id, each with its title, its
  time of update and its number of members, most recently updated first, however many pages they take.\<close>

theorem owned_collections_complete:
  assumes "honest_pages E sid fs" "length fs < 2 ^ 32"
  shows "\<exists>out s'. list_owned_collections E sid s = (Inr out, s')
    \<and> mset (map (\<lambda>c. (cs_id c, cs_title c, cs_time_updated c, cs_item_count c)) out) =
      mset (map (\<lambda>d. (the (d_id d), case d_title d of None \<Rightarrow> [] | Some t \<Rightarrow> t, case fd_time_updated d of None \<Rightarrow> 0 | Some t \<Rightarrow> t,
          case fd_num_children d of None \<Rightarrow> of_nat (length (d_children d)) | Some n \<Rightarrow> n))
        (filter (\<lambda>d. d_result d = Some 1 \<and> d_file_type d = Some 2 \<and> d_id d \<noteq> None) fs))
    \<and> sorted_wrt (\<lambda>a b. cs_time_updated a \<ge> cs_time_updated b) out"
proof -
  obtain s' where "list_pages E sid 1 [] s = (Inr (List.map_filter collection_summary_from fs), s')"
    using list_pages_complete [OF assms, of 1 "[]" s] by (cases "list_pages E sid 1 [] s") auto
  then have run: "list_owned_collections E sid s =
      (Inr (sort_key (\<lambda>c. - int (unat (cs_time_updated c))) (List.map_filter collection_summary_from fs)), s')"
    by (simp add: list_owned_collections_def act_simps)
  have sorted: "sorted_wrt (\<lambda>a b. cs_time_updated a \<ge> cs_time_updated b)
      (sort_key (\<lambda>c. - int (unat (cs_time_updated c))) cs)" for cs
    using sorted_sort_key [of "\<lambda>c. - int (unat (cs_time_updated c))" cs]
    by (simp add: sorted_map word_le_def)
  have kept: "mset (map (\<lambda>c. (cs_id c, cs_title c, cs_time_updated c, cs_item_count c))
      (sort_key (\<lambda>c. - int (unat (cs_time_updated c))) cs)) =
      mset (map (\<lambda>c. (cs_id c, cs_title c, cs_time_updated c, cs_item_count c)) cs)" for cs :: "collection_summary list"
    by simp
  show ?thesis by (intro exI conjI, rule run) (simp only: kept summaries_of_live, rule sorted)
qed

section \<open>Visibility\<close>

text \<open>A visibility is never guessed. What the registry accepts reaches Steam as the number of that
  visibility and reads back as the number the caller gave; an unset or unknown number is refused before
  anything is sent.\<close>

theorem visibility_roundtrip:
  "(\<forall>w. to_sync_visibility v = Inr w \<longrightarrow>
     (\<exists>x. from_proto (sync_visibility_num w) = Inr x
        \<and> to_registry_visibility (proto_visibility (from_steam (as_steam x))) = v \<and> (x = Public \<longleftrightarrow> v = 1)))
   \<and> (v \<notin> {1..4} \<longrightarrow> (\<exists>m. fst (publish_workshop_collection E (q\<lparr>pq_visibility := v\<rparr>) s) = Inl (InvalidArgument m)
        \<and> snd (publish_workshop_collection E (q\<lparr>pq_visibility := v\<rparr>) s) = s))"
proof (intro conjI allI impI)
  fix w
  assume "to_sync_visibility v = Inr w"
  then have "v \<in> {1, 2, 3, 4}" "w = (if v = 1 then SyncPublic else if v = 2 then SyncFriendsOnly else if v = 3 then SyncPrivate else SyncUnlisted)"
    by (auto simp: to_sync_visibility_def reg_visibility_of_def split: if_splits)
  then show "\<exists>x. from_proto (sync_visibility_num w) = Inr x
        \<and> to_registry_visibility (proto_visibility (from_steam (as_steam x))) = v \<and> (x = Public \<longleftrightarrow> v = 1)"
    by (auto simp: from_proto_def sync_visibility_num_def to_registry_visibility_def proto_visibility_def from_steam_def
        as_steam_def as_proto_def sync_visibility_of_def reg_visibility_num_def)
next
  assume v: "v \<notin> {1..4}"
  then have "to_sync_visibility v = Inl (InvalidArgument ''visibility must be set explicitly (public, friends-only, private, or unlisted)'')"
    by (auto simp: to_sync_visibility_def reg_visibility_of_def)
  then show "\<exists>m. fst (publish_workshop_collection E (q\<lparr>pq_visibility := v\<rparr>) s) = Inl (InvalidArgument m)
      \<and> snd (publish_workshop_collection E (q\<lparr>pq_visibility := v\<rparr>) s) = s"
    by (simp add: publish_workshop_collection_def Let_def act_simps)
qed

section \<open>A refused request costs the connection\<close>

text \<open>Asking to delete a collection of somebody else is refused with nothing sent to Steam but the
  lookup, yet the pooled connection is marked bad although Steam answered it: an error without a Steam
  error in its chain counts as transient.\<close>

theorem refused_delete_marks_connection_bad:
  assumes "se_pool E" "se_session E = Some (True, sid)"
    and "se_answer E (sc_log s) (GetDetails [i]) = Inr (Files [d] n)" "d_id d = Some i" "d_result d = Some 1"
    and "d_file_type d = Some WORKSHOP_FILE_TYPE_COLLECTION" "fd_creator d = Some other" "other \<noteq> sid"
  shows "\<exists>e s'. delete_collection_impl E i s = (Inl e, s') \<and> sc_bad s'
    \<and> map fst (sc_log s') = map fst (sc_log s) @ [GetDetails [i]]"
  using assms
  by (simp add: delete_collection_impl_def with_account_def with_conn_def require_pool_def account_steam_id_def
      get_collection_details_def call_answered collection_details_from_def ensure_owned_def opt_default_def
      act_simps is_transient_def bail_msg_def Let_def)

section \<open>Witnesses\<close>

definition demo_file :: "u64 \<Rightarrow> u64 \<Rightarrow> file_details" where
  "demo_file i creator = \<lparr>d_id = Some i, d_result = Some 1, d_title = Some ''Sahatra'', d_file_type = Some 2, d_file_size = None,
     d_children = [], fd_description = None, fd_visibility = Some 3, fd_creator = Some creator, fd_time_updated = Some 7,
     fd_num_children = Some 1\<rparr>"

fun demo_answer :: "steam_request \<Rightarrow> any_error + steam_answer" where
  "demo_answer (Publish _ _ _) = Inr (Published (Some 42))"
| "demo_answer (SetCollectionChildren _ _) = Inl (AnyErr (Some (EResultErr 8)) ''EResult 8'')"
| "demo_answer (GetDetails _) = Inr (Files [demo_file 9 5] None)"
| "demo_answer (GetUserFiles _ p) = Inr (Files (take 100 (drop ((p - 1) * 100) [demo_file 9 5])) (Some 1))"
| "demo_answer _ = Inr Done"

definition demo_steam_env :: steam_env where
  "demo_steam_env = \<lparr>se_pool = True, se_session = Some (True, 1), se_answer = (\<lambda>_. demo_answer),
     se_details = demo_details, se_cause = (\<lambda>_. None)\<rparr>"

abbreviation "fresh_conn \<equiv> \<lparr>sc_log = [], sc_bad = False\<rparr>"

theorem only_own_collections_change_witness:
  "log_ok 1 (sc_log (serve_colls [(demo_steam_env, CDelete 9),
     (demo_steam_env, CPublish \<lparr>pq_collection_id = 0, pq_title = ''t'', pq_description = [], pq_visibility = 4, pq_candidate_ids = [6]\<rparr>)] fresh_conn))"
  by (rule only_own_collections_change) (auto simp: demo_steam_env_def intro!: exI [of _ True])

theorem publish_happens_once_witness:
  "\<exists>e s'. publish_collection_impl demo_steam_env None ''t'' [] Unlisted [1, 5] fresh_conn = (Inl e, s')
     \<and> published_ids (sc_log s') = {42} \<and> undone (sc_log s')"
proof -
  obtain o_come where o: "resolve_source_ids demo_details [1, 5] = Inr o_come" "map rm_id (ro_mods o_come) = [6, 5]"
    using demo_run by (auto split: sum.splits)
  obtain r s' where run: "publish_collection_impl demo_steam_env None ''t'' [] Unlisted [1, 5] fresh_conn = (r, s')" by fastforce
  then have "(\<exists>e. r = Inl e) \<and> published_ids (sc_log s') = {42}"
    using o
    by (auto simp: publish_collection_impl_def with_account_def with_conn_def require_pool_def account_steam_id_def resolve_ids_def
        publish_new_def publish_collection_def set_collection_children_def delete_collection_def validate_title_def
        validate_children_def MAX_CHILDREN_def demo_steam_env_def call_def DEFAULT_RETRY_ATTEMPTS_def numeral_3_eq_3 trim_def
        is_ws_def act_simps send_def Let_def is_transient_def with_context_def bail_msg_def published_ids_def)
  with publish_happens_once [OF _ run] run show ?thesis by auto
qed

theorem owned_collections_complete_witness:
  "\<exists>out s'. list_owned_collections demo_steam_env 1 fresh_conn = (Inr out, s') \<and> map cs_id out = [9]"
proof -
  let ?f = "\<lambda>c. (cs_id c, cs_title c, cs_time_updated c, cs_item_count c)"
  have pages: "honest_pages demo_steam_env 1 [demo_file 9 5]"
    by (simp add: honest_pages_def demo_steam_env_def USER_FILES_PAGE_SIZE_def)
  have "length [demo_file 9 5] < 2 ^ 32" by simp
  from owned_collections_complete [OF pages this, of fresh_conn] obtain out s' where
    run: "list_owned_collections demo_steam_env 1 fresh_conn = (Inr out, s')" and "mset (map ?f out) = {#(9, ''Sahatra'', 7, 1)#}"
    by (auto simp: demo_file_def)
  then have "map ?f out = [(9, ''Sahatra'', 7, 1)]" by (simp only: mset_single_iff)
  then have "map cs_id out = [9]" by (cases out) auto
  with run show ?thesis by (intro exI conjI)
qed

theorem visibility_roundtrip_witness:
  "\<exists>m. fst (publish_workshop_collection demo_steam_env
     \<lparr>pq_collection_id = 0, pq_title = ''t'', pq_description = [], pq_visibility = 0, pq_candidate_ids = [6]\<rparr> fresh_conn) = Inl (InvalidArgument m)"
  using visibility_roundtrip [of 0 demo_steam_env
      "\<lparr>pq_collection_id = 0, pq_title = ''t'', pq_description = [], pq_visibility = 3, pq_candidate_ids = [6]\<rparr>" fresh_conn] by auto

theorem refused_delete_marks_connection_bad_witness:
  "\<exists>e s'. delete_collection_impl demo_steam_env 9 fresh_conn = (Inl e, s') \<and> sc_bad s'"
  using refused_delete_marks_connection_bad [of demo_steam_env 1 fresh_conn 9 "demo_file 9 5" None 5]
  by (auto simp: demo_steam_env_def demo_file_def WORKSHOP_FILE_TYPE_COLLECTION_def)

end
