(* ===== verification/Content.thy ===== *)
theory Content
  imports Collections SyncCache
begin

text \<open>
  Which content a pass downloads (\<open>crates/steam-sync/src/steam.rs\<close> from \<open>resolve_wanted_depots\<close> to
  \<open>resolve_workshop_items\<close>, and \<open>sync_mods\<close> of \<open>workshop.rs\<close>).

  The state is the key and manifest files next to the content, the requests made to Steam, the sync cache
  and the mod directories repaired on the way. A request's answer is the outcome of its retries
  (\<open>Collections\<close> models \<open>with_retry\<close>). Steam, the CDN and the branch's depot list are parameters.
  Capacity reservations, metrics and logs are not modelled.
\<close>

section \<open>Creator DLC\<close>

definition cdlc_depot_id :: "string \<Rightarrow> u32 option" where
  "cdlc_depot_id name =
    (if name = ''csla'' then Some 233793 else if name = ''gm'' then Some 233792
     else if name = ''vn'' then Some 233794 else if name = ''ws'' then Some 233795
     else if name = ''spe'' then Some 233788 else if name = ''rf'' then Some 233799
     else if name = ''ef'' then Some 233798 else None)"

definition cdlc_depot_ids :: "string list \<Rightarrow> u32 list" where
  "cdlc_depot_ids names = List.map_filter (\<lambda>name. cdlc_depot_id (to_lowercase name)) names"

section \<open>Plans\<close>

definition ARMA3_SERVER_APP_ID :: u32 where "ARMA3_SERVER_APP_ID = 233780"
definition TARGET_BRANCH :: string where "TARGET_BRANCH = ''creatordlc''"

record depot_info =
  di_depot_id :: u32
  di_manifest_id :: u64
  di_depot_from_app :: "u32 option"

text \<open>\<open>DepotInfo::containing_app\<close> of the depot library: the app a shared depot comes from.\<close>

definition containing_app :: "depot_info \<Rightarrow> u32 \<Rightarrow> u32" where
  "containing_app d app = (case di_depot_from_app d of Some from \<Rightarrow> from | None \<Rightarrow> app)"

text \<open>A manifest is its bytes.\<close>

type_synonym manifest = "u8 list"

record depot_plan =
  dp_depot :: depot_info
  dp_key :: "u8 list"
  dp_manifest :: "manifest option"

record workshop_entry =
  we_published_file_id :: u64
  we_consumer_appid :: u32
  we_manifest_id :: u64

datatype cm_request =
    ReqProductInfo
  | ReqFreeLicense "u32 list"
  | ReqKey u32 u32
  | ReqCdnServers
  | ReqManifestCode u32 u32 u64 string
  | ReqDetails "u64 list"

record content_env =
  ce_apps :: "any_error + (any_error + depot_info list) list"
  ce_authenticated :: bool
  ce_key :: "u32 \<Rightarrow> u32 \<Rightarrow> any_error + u8 list"
  ce_cdn :: "any_error + string list"
  ce_code :: "u32 \<Rightarrow> u32 \<Rightarrow> u64 \<Rightarrow> string \<Rightarrow> any_error + u64"
  ce_manifest :: "string \<Rightarrow> u32 \<Rightarrow> u64 \<Rightarrow> u64 \<Rightarrow> u8 list \<Rightarrow> any_error + manifest"
  ce_details :: "u64 list \<Rightarrow> any_error + workshop_entry list"
  ce_save :: "path \<Rightarrow> bool"
  ce_is_dir :: "path \<Rightarrow> bool"

record content =
  ct_cache :: sync_state
  ct_keys :: "path \<Rightarrow> (u32 \<times> u8 list) list"
  ct_manifests :: "path \<rightharpoonup> manifest"
  ct_requests :: "cm_request list"
  ct_repaired :: "path list"

type_synonym 'a content_act = "(content, any_error, 'a) act"

definition cm :: "cm_request \<Rightarrow> any_error + 'a \<Rightarrow> 'a content_act" where
  "cm req answer = (\<lambda>s. (answer, s\<lparr>ct_requests := ct_requests s @ [req]\<rparr>))"

definition load_manifest :: "path \<Rightarrow> u32 \<Rightarrow> u64 \<Rightarrow> content \<Rightarrow> manifest option" where
  "load_manifest install_dir depot_id manifest_id s = ct_manifests s (manifest_path install_dir depot_id manifest_id)"

definition save_manifest :: "content_env \<Rightarrow> path \<Rightarrow> u32 \<Rightarrow> u64 \<Rightarrow> manifest \<Rightarrow> (content, any_error, unit) act" where
  "save_manifest E install_dir depot_id manifest_id m =
    (let p = manifest_path install_dir depot_id manifest_id in
     if ce_save E p then modify_act (\<lambda>s. s\<lparr>ct_manifests := (ct_manifests s)(p \<mapsto> m)\<rparr>) else ret ())"

definition save_keys :: "content_env \<Rightarrow> path \<Rightarrow> (u32 \<times> u8 list) list \<Rightarrow> (content, any_error, unit) act" where
  "save_keys E install_dir ks =
    (if ce_save E (cache_dir install_dir) then modify_act (\<lambda>s. s\<lparr>ct_keys := (ct_keys s)(install_dir := ks)\<rparr>) else ret ())"

text \<open>A depot key from the loaded cache or from Steam; a new key is saved at once, a failed save only
  logged. Without a key the caller skips the depot.\<close>

definition depot_key :: "content_env \<Rightarrow> path \<Rightarrow> u32 \<Rightarrow> u32 \<Rightarrow> (u32 \<times> u8 list) list
    \<Rightarrow> (u8 list option \<times> (u32 \<times> u8 list) list) content_act" where
  "depot_key E install_dir depot_id key_app key_cache =
    (case map_of key_cache depot_id of
       Some key \<Rightarrow> ret (Some key, key_cache)
     | None \<Rightarrow>
         act_match (cm (ReqKey depot_id key_app) (ce_key E depot_id key_app)) (\<lambda>r.
         case r of
           Inl e \<Rightarrow> ret (None, key_cache)
         | Inr key \<Rightarrow>
             (let key_cache' = AList.update depot_id key key_cache in
              act_bind (save_keys E install_dir key_cache') (\<lambda>_. ret (Some key, key_cache')))))"

section \<open>Server depots\<close>

definition wanted_depot_ids :: "bool \<Rightarrow> u32 list \<Rightarrow> u32 list" where
  "wanted_depot_ids include_profiling cdlc_ids = [233781, 233783] @ (if include_profiling then [233785] else []) @ cdlc_ids"

definition trusted :: "content_env \<Rightarrow> path \<Rightarrow> (string \<times> u64) list \<Rightarrow> u32 \<Rightarrow> u64 \<Rightarrow> bool" where
  "trusted E dir snap depot_id manifest_id = (ce_is_dir E dir \<and> map_of snap (sync_key depot_id dir) = Some manifest_id)"

fun license_apps :: "u32 list \<Rightarrow> depot_info list \<Rightarrow> u32 list" where
  "license_apps apps [] = apps"
| "license_apps apps (d # ds) =
     (case di_depot_from_app d of
        Some from \<Rightarrow> license_apps (if from \<in> set apps then apps else apps @ [from]) ds
      | None \<Rightarrow> license_apps apps ds)"

fun plan_depots :: "content_env \<Rightarrow> path \<Rightarrow> depot_info list \<Rightarrow> (u32 \<times> u8 list) list \<Rightarrow> depot_plan list content_act" where
  "plan_depots E install_dir [] key_cache = ret []"
| "plan_depots E install_dir (d # ds) key_cache =
     act_bind (depot_key E install_dir (di_depot_id d) (containing_app d ARMA3_SERVER_APP_ID) key_cache) (\<lambda>(key, key_cache').
     act_bind (plan_depots E install_dir ds key_cache') (\<lambda>plans.
     ret (case key of Some k \<Rightarrow> \<lparr>dp_depot = d, dp_key = k, dp_manifest = None\<rparr> # plans | None \<Rightarrow> plans)))"

definition resolve_wanted_depots :: "content_env \<Rightarrow> path \<Rightarrow> bool \<Rightarrow> u32 list \<Rightarrow> depot_plan list content_act" where
  "resolve_wanted_depots E install_dir include_profiling cdlc_ids =
    act_bind (act_map_err (with_context ''failed to fetch product info'') (cm ReqProductInfo (ce_apps E))) (\<lambda>apps.
    case apps of
      [] \<Rightarrow> throw (bail_msg (''app '' @ show_word ARMA3_SERVER_APP_ID @ '' not found in product info''))
    | app # _ \<Rightarrow>
    act_bind (lift_res (map_err (with_context ''failed to resolve depot list'') app)) (\<lambda>all_depots.
    act_bind (gets_act (\<lambda>s. snapshot (ct_cache s))) (\<lambda>snap.
    let depots = filter (\<lambda>d. di_depot_id d \<in> set (wanted_depot_ids include_profiling cdlc_ids)) all_depots;
        depots = filter (\<lambda>d. \<not> trusted E install_dir snap (di_depot_id d) (di_manifest_id d)) depots
    in act_bind (if ce_authenticated E
         then act_match (cm (ReqFreeLicense (license_apps [ARMA3_SERVER_APP_ID] depots)) (Inr ())) (\<lambda>_. ret ())
         else ret ()) (\<lambda>_.
       act_bind (gets_act (\<lambda>s. ct_keys s install_dir)) (\<lambda>key_cache.
       plan_depots E install_dir depots key_cache)))))"

text \<open>The plans whose manifest is on disk, and the others, each in order.\<close>

definition manifest_hits :: "path \<Rightarrow> content \<Rightarrow> depot_plan list \<Rightarrow> depot_plan list" where
  "manifest_hits install_dir s = List.map_filter (\<lambda>dp.
     map_option (\<lambda>m. dp\<lparr>dp_manifest := Some m\<rparr>) (load_manifest install_dir (di_depot_id (dp_depot dp)) (di_manifest_id (dp_depot dp)) s))"

definition manifest_misses :: "path \<Rightarrow> content \<Rightarrow> depot_plan list \<Rightarrow> depot_plan list" where
  "manifest_misses install_dir s =
    filter (\<lambda>dp. load_manifest install_dir (di_depot_id (dp_depot dp)) (di_manifest_id (dp_depot dp)) s = None)"

fun request_codes :: "content_env \<Rightarrow> u32 \<Rightarrow> string \<Rightarrow> depot_plan list \<Rightarrow> (depot_plan \<times> u64) list content_act" where
  "request_codes E app branch [] = ret []"
| "request_codes E app branch (dp # dps) =
     (let d = dp_depot dp; a = containing_app d app in
      act_match (cm (ReqManifestCode a (di_depot_id d) (di_manifest_id d) branch) (ce_code E a (di_depot_id d) (di_manifest_id d) branch)) (\<lambda>r.
      act_bind (request_codes E app branch dps) (\<lambda>pending.
      ret (case r of Inr code \<Rightarrow> (dp, code) # pending | Inl _ \<Rightarrow> pending))))"

text \<open>The manifest downloads run concurrently; they are independent, so their order does not matter.\<close>

fun fetch_manifests :: "content_env \<Rightarrow> path \<Rightarrow> string \<Rightarrow> (depot_plan \<times> u64) list \<Rightarrow> depot_plan list content_act" where
  "fetch_manifests E install_dir server [] = ret []"
| "fetch_manifests E install_dir server ((dp, code) # rest) =
     (let d = dp_depot dp in
      case ce_manifest E server (di_depot_id d) (di_manifest_id d) code (dp_key dp) of
        Inl e \<Rightarrow> fetch_manifests E install_dir server rest
      | Inr m \<Rightarrow>
          act_bind (save_manifest E install_dir (di_depot_id d) (di_manifest_id d) m) (\<lambda>_.
          act_bind (fetch_manifests E install_dir server rest) (\<lambda>dps. ret (dp\<lparr>dp_manifest := Some m\<rparr> # dps))))"

definition cdn_servers :: "content_env \<Rightarrow> string list content_act" where
  "cdn_servers E =
    act_bind (act_map_err (with_context ''failed to fetch CDN server list'') (cm ReqCdnServers (ce_cdn E))) (\<lambda>servers.
    if servers = [] then throw (bail_msg ''no CDN servers available'') else ret servers)"

text \<open>What \<open>spawn_plan_downloads\<close> hands to the task pool.\<close>

definition spawn_plan_downloads :: "content_env \<Rightarrow> depot_plan list \<Rightarrow> string \<Rightarrow> path \<Rightarrow> depot_plan list content_act" where
  "spawn_plan_downloads E plans branch install_dir =
    act_bind (cdn_servers E) (\<lambda>servers.
    act_bind (gets_act (\<lambda>s. (manifest_hits install_dir s plans, manifest_misses install_dir s plans))) (\<lambda>(hits, misses).
    act_bind (request_codes E ARMA3_SERVER_APP_ID branch misses) (\<lambda>pending.
    act_bind (fetch_manifests E install_dir (hd servers) pending) (\<lambda>fetched.
    ret (hits @ fetched)))))"

definition resolve_and_spawn_server :: "content_env \<Rightarrow> path \<Rightarrow> bool \<Rightarrow> u32 list \<Rightarrow> depot_plan list content_act" where
  "resolve_and_spawn_server E install_dir include_profiling cdlc_ids =
    act_bind (resolve_wanted_depots E install_dir include_profiling cdlc_ids) (\<lambda>plans.
    if plans = [] then ret [] else spawn_plan_downloads E plans TARGET_BRANCH install_dir)"

section \<open>Workshop items\<close>

definition item_dir :: "path \<Rightarrow> u64 \<Rightarrow> path" where
  "item_dir workshop_root i = workshop_root @ [show_word i]"

definition item_plan :: "workshop_entry \<Rightarrow> u8 list \<Rightarrow> manifest option \<Rightarrow> u64 \<times> depot_plan" where
  "item_plan it key m =
    (we_published_file_id it,
     \<lparr>dp_depot = \<lparr>di_depot_id = we_consumer_appid it, di_manifest_id = we_manifest_id it, di_depot_from_app = None\<rparr>,
      dp_key = key, dp_manifest = m\<rparr>)"

text \<open>Phase 1 for the remaining items: the items with a cached manifest, and those whose manifest has to
  be fetched with the code Steam gave. A synced item is only repaired on disk.\<close>

fun phase1 :: "content_env \<Rightarrow> path \<Rightarrow> (string \<times> u64) list \<Rightarrow> workshop_entry list \<Rightarrow> (u32 \<times> u8 list) list
    \<Rightarrow> ((u64 \<times> depot_plan) list \<times> (workshop_entry \<times> u8 list \<times> u64) list) content_act" where
  "phase1 E root snap [] key_cache = ret ([], [])"
| "phase1 E root snap (it # its) key_cache =
     (let app = we_consumer_appid it; dir = item_dir root (we_published_file_id it) in
      if trusted E dir snap app (we_manifest_id it)
      then act_bind (modify_act (\<lambda>s. s\<lparr>ct_repaired := ct_repaired s @ [dir]\<rparr>)) (\<lambda>_. phase1 E root snap its key_cache)
      else act_bind (gets_act (load_manifest root app (we_manifest_id it))) (\<lambda>cached.
        act_bind (depot_key E root app app key_cache) (\<lambda>(key, key_cache').
        case key of
          None \<Rightarrow> phase1 E root snap its key_cache'
        | Some k \<Rightarrow>
            (case cached of
               Some m \<Rightarrow>
                 act_bind (phase1 E root snap its key_cache') (\<lambda>(hits, pending). ret (item_plan it k (Some m) # hits, pending))
             | None \<Rightarrow>
                 act_match (cm (ReqManifestCode app app (we_manifest_id it) ''public'') (ce_code E app app (we_manifest_id it) ''public'')) (\<lambda>r.
                 act_bind (phase1 E root snap its key_cache') (\<lambda>(hits, pending).
                 ret (hits, case r of Inr code \<Rightarrow> (it, k, code) # pending | Inl _ \<Rightarrow> pending)))))))"

fun phase2 :: "content_env \<Rightarrow> path \<Rightarrow> string \<Rightarrow> (workshop_entry \<times> u8 list \<times> u64) list \<Rightarrow> (u64 \<times> depot_plan) list content_act" where
  "phase2 E root server [] = ret []"
| "phase2 E root server ((it, key, code) # rest) =
     (case ce_manifest E server (we_consumer_appid it) (we_manifest_id it) code key of
        Inl e \<Rightarrow> phase2 E root server rest
      | Inr m \<Rightarrow>
          act_bind (save_manifest E root (we_consumer_appid it) (we_manifest_id it) m) (\<lambda>_.
          act_bind (phase2 E root server rest) (\<lambda>its. ret (item_plan it key (Some m) # its))))"

definition resolve_workshop_downloads :: "content_env \<Rightarrow> path \<Rightarrow> u64 list \<Rightarrow> (u64 \<times> depot_plan) list content_act" where
  "resolve_workshop_downloads E root ids =
    (if ids = [] then ret []
     else act_bind (act_map_err (with_context ''failed to resolve workshop items'') (cm (ReqDetails ids) (ce_details E ids))) (\<lambda>items.
       act_bind (gets_act (\<lambda>s. (ct_keys s root, snapshot (ct_cache s)))) (\<lambda>(key_cache, snap).
       act_bind (phase1 E root snap items key_cache) (\<lambda>(hits, pending).
       act_bind (cdn_servers E) (\<lambda>servers.
       act_bind (phase2 E root (hd servers) pending) (\<lambda>fetched. ret (hits @ fetched)))))))"

definition workshop_root :: "path \<Rightarrow> path" where
  "workshop_root server_root = server_root @ [''workshop'']"

text \<open>\<open>sync_mods\<close>: the downloads it spawns and the \<open>-mod=\<close> parameters and key directories it returns.\<close>

definition sync_mods :: "content_env \<Rightarrow> path \<Rightarrow> u64 list \<Rightarrow> ((u64 \<times> depot_plan) list \<times> string list \<times> path list) content_act" where
  "sync_mods E server_root mod_ids =
    act_bind (act_map_err (with_context ''failed to resolve workshop items for download'')
      (resolve_workshop_downloads E (workshop_root server_root) mod_ids)) (\<lambda>items.
    ret (items, map (\<lambda>i. ''workshop/'' @ show_word i) mod_ids, map (item_dir (workshop_root server_root)) mod_ids))"

section \<open>What a resolution plans\<close>

lemma cm_eval [act_simps]: "cm req answer s = (answer, s\<lparr>ct_requests := ct_requests s @ [req]\<rparr>)"
  by (simp add: cm_def)

definition key_for :: "content_env \<Rightarrow> (u32 \<times> u8 list) list \<Rightarrow> u32 \<Rightarrow> u32 \<Rightarrow> u8 list option" where
  "key_for E key_cache depot_id app =
    (case map_of key_cache depot_id of
       Some k \<Rightarrow> Some k
     | None \<Rightarrow> (case ce_key E depot_id app of Inr k \<Rightarrow> Some k | Inl _ \<Rightarrow> None))"

text \<open>The parts of the state a resolution only reads.\<close>

definition same_content :: "content \<Rightarrow> content \<Rightarrow> bool" where
  "same_content s s' = (ct_manifests s' = ct_manifests s \<and> ct_cache s' = ct_cache s)"

lemma same_content_refl [simp]: "same_content s s"
  by (simp add: same_content_def)

lemma same_content_trans: "same_content s s1 \<Longrightarrow> same_content s1 s2 \<Longrightarrow> same_content s s2"
  by (simp add: same_content_def)

lemma depot_key_run:
  "\<exists>s' kc'. depot_key E dir d app kc s = (Inr (key_for E kc d app, kc'), s') \<and> same_content s s'
    \<and> (\<forall>d'. map_of kc' d' = (if d' = d then key_for E kc d app else map_of kc d'))"
proof (cases "map_of kc d")
  case None
  then show ?thesis
    by (cases "ce_key E d app")
       (auto simp: depot_key_def key_for_def act_simps save_keys_def same_content_def update_conv' Let_def)
qed (auto simp: depot_key_def key_for_def act_simps)

lemma key_for_after:
  assumes "\<forall>d'. map_of kc' d' = (if d' = d then key_for E kc d d else map_of kc d')"
  shows "key_for E kc' d' d' = key_for E kc d' d'"
proof (cases "d' = d")
  case True
  then show ?thesis using assms [rule_format, of d]
    by (cases "map_of kc d"; cases "ce_key E d d") (simp_all add: key_for_def)
qed (use assms in \<open>simp add: key_for_def\<close>)

text \<open>An item with everything on disk but its content, and an item that needs a manifest.\<close>

definition cached_item :: "content_env \<Rightarrow> path \<Rightarrow> (string \<times> u64) list \<Rightarrow> (u32 \<times> u8 list) list \<Rightarrow> content \<Rightarrow> workshop_entry
    \<Rightarrow> (u64 \<times> depot_plan) option" where
  "cached_item E root snap kc s it =
    (if trusted E (item_dir root (we_published_file_id it)) snap (we_consumer_appid it) (we_manifest_id it) then None
     else case (key_for E kc (we_consumer_appid it) (we_consumer_appid it), load_manifest root (we_consumer_appid it) (we_manifest_id it) s) of
       (Some k, Some m) \<Rightarrow> Some (item_plan it k (Some m))
     | _ \<Rightarrow> None)"

definition pending_item :: "content_env \<Rightarrow> path \<Rightarrow> (string \<times> u64) list \<Rightarrow> (u32 \<times> u8 list) list \<Rightarrow> content \<Rightarrow> workshop_entry
    \<Rightarrow> (workshop_entry \<times> u8 list \<times> u64) option" where
  "pending_item E root snap kc s it =
    (if trusted E (item_dir root (we_published_file_id it)) snap (we_consumer_appid it) (we_manifest_id it) then None
     else case (key_for E kc (we_consumer_appid it) (we_consumer_appid it), load_manifest root (we_consumer_appid it) (we_manifest_id it) s,
         ce_code E (we_consumer_appid it) (we_consumer_appid it) (we_manifest_id it) ''public'') of
       (Some k, None, Inr code) \<Rightarrow> Some (it, k, code)
     | _ \<Rightarrow> None)"

lemma item_specs_cong:
  assumes "\<And>d. key_for E kc' d d = key_for E kc d d" "same_content s s'"
  shows "cached_item E root snap kc' s' it = cached_item E root snap kc s it"
    "pending_item E root snap kc' s' it = pending_item E root snap kc s it"
  using assms by (simp_all add: cached_item_def pending_item_def load_manifest_def same_content_def)

lemma phase1_run:
  "\<exists>s'. phase1 E root snap its kc s = (Inr (List.map_filter (cached_item E root snap kc s) its, List.map_filter (pending_item E root snap kc s) its), s')
    \<and> same_content s s'"
proof (induction its arbitrary: kc s)
  case (Cons it its)
  let ?app = "we_consumer_appid it" and ?dir = "item_dir root (we_published_file_id it)"
  show ?case
  proof (cases "trusted E ?dir snap ?app (we_manifest_id it)")
    case True
    let ?s = "s\<lparr>ct_repaired := ct_repaired s @ [?dir]\<rparr>"
    have "same_content s ?s" by (simp add: same_content_def)
    with Cons.IH [of kc ?s] item_specs_cong [OF refl this] same_content_trans [OF this] True show ?thesis
      by (force simp: act_simps Let_def cached_item_def [of _ _ _ _ _ it] pending_item_def [of _ _ _ _ _ it] List.map_filter_simps)
  next
    case False
    obtain s1 kc' where key: "depot_key E root ?app ?app kc s = (Inr (key_for E kc ?app ?app, kc'), s1)" "same_content s s1"
      "\<And>d. key_for E kc' d d = key_for E kc d d"
      using depot_key_run [of E root ?app ?app kc s] key_for_after by blast
    show ?thesis
    proof (cases "key_for E kc ?app ?app")
      case None
      with False key Cons.IH [of kc' s1] item_specs_cong [OF key(3,2)] same_content_trans [OF key(2)] show ?thesis
        by (force simp: act_simps Let_def cached_item_def [of _ _ _ _ _ it] pending_item_def [of _ _ _ _ _ it] List.map_filter_simps)
    next
      case (Some k)
      show ?thesis
      proof (cases "load_manifest root ?app (we_manifest_id it) s")
        case None
        let ?s = "s1\<lparr>ct_requests := ct_requests s1 @ [ReqManifestCode ?app ?app (we_manifest_id it) ''public'']\<rparr>"
        have same: "same_content s ?s" using key(2) by (simp add: same_content_def)
        with False key Some None Cons.IH [of kc' ?s] item_specs_cong [OF key(3) same] same_content_trans [OF same] show ?thesis
          by (cases "ce_code E ?app ?app (we_manifest_id it) ''public''")
             (force simp: act_simps Let_def cached_item_def [of _ _ _ _ _ it] pending_item_def [of _ _ _ _ _ it] List.map_filter_simps)+
      next
        case m: (Some m)
        with False key Some Cons.IH [of kc' s1] item_specs_cong [OF key(3,2)] same_content_trans [OF key(2)] show ?thesis
          by (force simp: act_simps Let_def cached_item_def [of _ _ _ _ _ it] pending_item_def [of _ _ _ _ _ it] List.map_filter_simps)
      qed
    qed
  qed
qed (simp add: act_simps List.map_filter_simps)

definition fetched_item :: "content_env \<Rightarrow> string \<Rightarrow> workshop_entry \<times> u8 list \<times> u64 \<Rightarrow> (u64 \<times> depot_plan) option" where
  "fetched_item E server p =
    (case p of (it, key, code) \<Rightarrow>
      case ce_manifest E server (we_consumer_appid it) (we_manifest_id it) code key of
        Inr m \<Rightarrow> Some (item_plan it key (Some m)) | Inl _ \<Rightarrow> None)"

lemma save_manifest_run: "\<exists>s'. save_manifest E dir d i m s = (Inr (), s') \<and> ct_cache s' = ct_cache s \<and> ct_requests s' = ct_requests s"
  by (simp add: save_manifest_def Let_def act_simps)

lemma phase2_run:
  "\<exists>s'. phase2 E root server pending s = (Inr (List.map_filter (fetched_item E server) pending), s')
    \<and> ct_cache s' = ct_cache s \<and> ct_requests s' = ct_requests s"
proof (induction pending arbitrary: s)
  case (Cons p pending)
  obtain it key code where p: "p = (it, key, code)" by (rule prod_cases3)
  show ?case
  proof (cases "ce_manifest E server (we_consumer_appid it) (we_manifest_id it) code key")
    case (Inl e)
    with Cons show ?thesis by (simp add: p fetched_item_def List.map_filter_simps)
  next
    case (Inr m)
    obtain s1 where "save_manifest E root (we_consumer_appid it) (we_manifest_id it) m s = (Inr (), s1)"
      "ct_cache s1 = ct_cache s" "ct_requests s1 = ct_requests s" using save_manifest_run by blast
    with Inr Cons.IH [of s1] show ?thesis
      by (auto simp: p act_simps fetched_item_def List.map_filter_simps split: prod.splits)
  qed
qed (simp add: act_simps List.map_filter_simps)

text \<open>The manifest a plan ends up with: the one on disk, or the one Steam and the CDN hand out.\<close>

definition manifest_for :: "content_env \<Rightarrow> path \<Rightarrow> content \<Rightarrow> string \<Rightarrow> u32 \<Rightarrow> depot_info \<Rightarrow> string \<Rightarrow> u8 list \<Rightarrow> manifest option" where
  "manifest_for E dir s server app d branch key =
    (case load_manifest dir (di_depot_id d) (di_manifest_id d) s of
       Some m \<Rightarrow> Some m
     | None \<Rightarrow>
         (case ce_code E (containing_app d app) (di_depot_id d) (di_manifest_id d) branch of
            Inl _ \<Rightarrow> None
          | Inr code \<Rightarrow>
              (case ce_manifest E server (di_depot_id d) (di_manifest_id d) code key of Inr m \<Rightarrow> Some m | Inl _ \<Rightarrow> None)))"

lemma cdn_run: "ce_cdn E = Inr (server # others) \<Longrightarrow> cdn_servers E s = (Inr (server # others), s\<lparr>ct_requests := ct_requests s @ [ReqCdnServers]\<rparr>)"
  by (simp add: cdn_servers_def act_simps)

abbreviation "item_depot it \<equiv> \<lparr>di_depot_id = we_consumer_appid it, di_manifest_id = we_manifest_id it, di_depot_from_app = None\<rparr>"

definition planned_item :: "content_env \<Rightarrow> path \<Rightarrow> content \<Rightarrow> string \<Rightarrow> workshop_entry \<Rightarrow> (u64 \<times> depot_plan) option" where
  "planned_item E root s server it =
    (if trusted E (item_dir root (we_published_file_id it)) (snapshot (ct_cache s)) (we_consumer_appid it) (we_manifest_id it) then None
     else Option.bind (key_for E (ct_keys s root) (we_consumer_appid it) (we_consumer_appid it)) (\<lambda>k.
       map_option (\<lambda>m. item_plan it k (Some m)) (manifest_for E root s server (we_consumer_appid it) (item_depot it) ''public'' k)))"

lemma planned_item_split:
  "(planned_item E root s server it = Some p) =
    (cached_item E root (snapshot (ct_cache s)) (ct_keys s root) s it = Some p
     \<or> (\<exists>q. pending_item E root (snapshot (ct_cache s)) (ct_keys s root) s it = Some q \<and> fetched_item E server q = Some p))"
  by (auto simp: planned_item_def cached_item_def pending_item_def fetched_item_def manifest_for_def containing_app_def
      split: option.splits sum.splits if_splits)

lemma map_filter_set: "set (List.map_filter f xs) = {y. \<exists>x \<in> set xs. f x = Some y}"
  by (induction xs) (auto simp: List.map_filter_simps split: option.splits)

lemma workshop_downloads_run:
  assumes "ids \<noteq> []" "ce_details E ids = Inr items" "ce_cdn E = Inr (server # others)"
  shows "\<exists>plans s'. resolve_workshop_downloads E root ids s = (Inr plans, s') \<and> ct_cache s' = ct_cache s
    \<and> set plans = {p. \<exists>it \<in> set items. planned_item E root s server it = Some p}"
proof -
  let ?s = "s\<lparr>ct_requests := ct_requests s @ [ReqDetails ids]\<rparr>"
  let ?hit = "cached_item E root (snapshot (ct_cache s)) (ct_keys s root) ?s"
  let ?pend = "pending_item E root (snapshot (ct_cache s)) (ct_keys s root) ?s"
  have same: "same_content s ?s" by (simp add: same_content_def)
  obtain s1 where p1: "phase1 E root (snapshot (ct_cache s)) items (ct_keys s root) ?s = (Inr (List.map_filter ?hit items, List.map_filter ?pend items), s1)"
    "same_content ?s s1" using phase1_run by blast
  let ?s1 = "s1\<lparr>ct_requests := ct_requests s1 @ [ReqCdnServers]\<rparr>"
  obtain s2 where p2: "phase2 E root server (List.map_filter ?pend items) ?s1 = (Inr (List.map_filter (fetched_item E server) (List.map_filter ?pend items)), s2)"
    "ct_cache s2 = ct_cache ?s1" using phase2_run by blast
  let ?plans = "List.map_filter ?hit items @ List.map_filter (fetched_item E server) (List.map_filter ?pend items)"
  have "resolve_workshop_downloads E root ids s = (Inr ?plans, s2)"
    using assms p1(1) p2(1) cdn_run [OF assms(3)] by (simp add: resolve_workshop_downloads_def act_simps)
  moreover have "set ?plans = {p. \<exists>it \<in> set items. planned_item E root s server it = Some p}"
    unfolding planned_item_split item_specs_cong [OF refl same] set_append map_filter_set by blast
  ultimately show ?thesis using p1(2) p2(2) by (auto simp: same_content_def)
qed

lemma item_trusted:
  "trusted E (item_dir dir i) (snapshot c) app m \<longleftrightarrow>
    ce_is_dir E (dir @ [show_word i]) \<and> ss_up c \<and> (\<exists>sz. map_of (synced c) (show_word app @ ''/'' @ show_word i) = Some (m, sz))"
proof -
  have "show_word i \<noteq> ''..''" using show_word_no_char [of "CHR ''.''" i] by (auto simp: is_digit_def)
  then have "sync_key app (item_dir dir i) = show_word app @ ''/'' @ show_word i"
    by (simp add: sync_key_def file_name_def item_dir_def)
  moreover have "map_of (map (\<lambda>(k, m, _). (k, m)) xs) k = map_option fst (map_of xs k)" for xs :: "(string \<times> u64 \<times> u64) list" and k
    by (induction xs) auto
  ultimately show ?thesis by (auto simp: trusted_def snapshot_def item_dir_def)
qed

text \<open>C8: One bad item does not hold up a batch. Whenever Steam lists the items and names a CDN server,
  a resolution succeeds and spawns a download for exactly those items whose key and manifest can be had and
  that are not already marked: there is no directory \<open>workshop/<id>\<close>, or the database does not name, under
  \<open><app>/<id>\<close>, the manifest Steam names now. Each is decided on its own; an item without a key, a request
  code or a manifest is left out. (The comments of \<open>sync_mods\<close> say that every mod is verified chunk by
  chunk whatever is cached; the code spawns nothing for a marked one.)\<close>

theorem mod_resolution_is_itemwise:
  assumes "ids \<noteq> []" "ce_details E ids = Inr items" "ce_cdn E = Inr (server # others)"
  shows "\<exists>plans s'. sync_mods E root ids s
      = (Inr (plans, map (\<lambda>i. ''workshop/'' @ show_word i) ids, map (item_dir (workshop_root root)) ids), s')
    \<and> ct_cache s' = ct_cache s
    \<and> (\<forall>i dp. (i, dp) \<in> set plans \<longleftrightarrow> (\<exists>it k m. it \<in> set items \<and> i = we_published_file_id it
        \<and> \<not> (ce_is_dir E (root @ [''workshop'', show_word i]) \<and> ss_up (ct_cache s)
            \<and> (\<exists>sz. map_of (synced (ct_cache s)) (show_word (we_consumer_appid it) @ ''/'' @ show_word i) = Some (we_manifest_id it, sz)))
        \<and> key_for E (ct_keys s (workshop_root root)) (we_consumer_appid it) (we_consumer_appid it) = Some k
        \<and> manifest_for E (workshop_root root) s server (we_consumer_appid it) (item_depot it) ''public'' k = Some m
        \<and> dp = \<lparr>dp_depot = item_depot it, dp_key = k, dp_manifest = Some m\<rparr>))"
proof -
  obtain plans s' where run: "resolve_workshop_downloads E (workshop_root root) ids s = (Inr plans, s')" "ct_cache s' = ct_cache s"
    "set plans = {p. \<exists>it \<in> set items. planned_item E (workshop_root root) s server it = Some p}"
    using workshop_downloads_run [OF assms] by blast
  have dir: "root @ [''workshop'', show_word i] = workshop_root root @ [show_word i]" for i by (simp add: workshop_root_def)
  from run show ?thesis
    unfolding dir item_trusted [symmetric]
    by (intro exI [of _ plans] exI [of _ s'])
       (fastforce simp: sync_mods_def act_simps planned_item_def item_plan_def bind_eq_Some_conv split: if_splits)
qed

text \<open>The same for the server's depots.\<close>

definition keyed_depot :: "content_env \<Rightarrow> (u32 \<times> u8 list) list \<Rightarrow> depot_info \<Rightarrow> depot_plan option" where
  "keyed_depot E kc d =
    map_option (\<lambda>k. \<lparr>dp_depot = d, dp_key = k, dp_manifest = None\<rparr>) (key_for E kc (di_depot_id d) (containing_app d ARMA3_SERVER_APP_ID))"

lemma plan_depots_run:
  "distinct (map di_depot_id ds) \<Longrightarrow>
    \<exists>s'. plan_depots E dir ds kc s = (Inr (List.map_filter (keyed_depot E kc) ds), s') \<and> same_content s s'"
proof (induction ds arbitrary: kc s)
  case (Cons d ds)
  let ?key = "key_for E kc (di_depot_id d) (containing_app d ARMA3_SERVER_APP_ID)"
  obtain s1 kc' where key: "depot_key E dir (di_depot_id d) (containing_app d ARMA3_SERVER_APP_ID) kc s = (Inr (?key, kc'), s1)" "same_content s s1"
    "\<forall>d'. map_of kc' d' = (if d' = di_depot_id d then ?key else map_of kc d')"
    using depot_key_run by blast
  have "keyed_depot E kc' e = keyed_depot E kc e" if "e \<in> set ds" for e
  proof -
    have "di_depot_id e \<noteq> di_depot_id d" using Cons.prems that by (metis distinct.simps(2) image_eqI image_set list.simps(9))
    then show ?thesis using key(3) by (simp add: keyed_depot_def key_for_def)
  qed
  then have "List.map_filter (keyed_depot E kc') ds = List.map_filter (keyed_depot E kc) ds"
    by (simp add: List.map_filter_def cong: filter_cong map_cong)
  moreover obtain s2 where "plan_depots E dir ds kc' s1 = (Inr (List.map_filter (keyed_depot E kc') ds), s2)" "same_content s1 s2"
    using Cons.IH [of kc' s1] Cons.prems by auto
  ultimately show ?case
    using key(1) same_content_trans [OF key(2)]
    by (auto simp: act_simps keyed_depot_def [of _ _ d] List.map_filter_simps split: option.splits)
qed (simp add: act_simps List.map_filter_simps)

definition code_of :: "content_env \<Rightarrow> u32 \<Rightarrow> string \<Rightarrow> depot_plan \<Rightarrow> (depot_plan \<times> u64) option" where
  "code_of E app branch dp =
    (case ce_code E (containing_app (dp_depot dp) app) (di_depot_id (dp_depot dp)) (di_manifest_id (dp_depot dp)) branch of
       Inr code \<Rightarrow> Some (dp, code) | Inl _ \<Rightarrow> None)"

lemma request_codes_run:
  "\<exists>s'. request_codes E app branch dps s = (Inr (List.map_filter (code_of E app branch) dps), s') \<and> same_content s s'"
proof (induction dps arbitrary: s)
  case (Cons dp dps)
  let ?d = "dp_depot dp"
  let ?s = "s\<lparr>ct_requests := ct_requests s @ [ReqManifestCode (containing_app ?d app) (di_depot_id ?d) (di_manifest_id ?d) branch]\<rparr>"
  obtain s' where "request_codes E app branch dps ?s = (Inr (List.map_filter (code_of E app branch) dps), s')" "same_content ?s s'"
    using Cons.IH by blast
  then show ?case
    by (auto simp: act_simps Let_def code_of_def [of _ _ _ dp] List.map_filter_simps same_content_def split: sum.splits)
qed (simp add: act_simps List.map_filter_simps)

definition fetched_plan :: "content_env \<Rightarrow> string \<Rightarrow> depot_plan \<times> u64 \<Rightarrow> depot_plan option" where
  "fetched_plan E server p = (case p of (dp, code) \<Rightarrow>
    case ce_manifest E server (di_depot_id (dp_depot dp)) (di_manifest_id (dp_depot dp)) code (dp_key dp) of
      Inr m \<Rightarrow> Some (dp\<lparr>dp_manifest := Some m\<rparr>) | Inl _ \<Rightarrow> None)"

lemma fetch_manifests_run:
  "\<exists>s'. fetch_manifests E dir server pending s = (Inr (List.map_filter (fetched_plan E server) pending), s')
    \<and> ct_cache s' = ct_cache s"
proof (induction pending arbitrary: s)
  case (Cons p pending)
  obtain dp code where p: "p = (dp, code)" by (cases p)
  let ?d = "dp_depot dp"
  show ?case
  proof (cases "ce_manifest E server (di_depot_id ?d) (di_manifest_id ?d) code (dp_key dp)")
    case (Inl e)
    with Cons show ?thesis by (simp add: p fetched_plan_def List.map_filter_simps Let_def)
  next
    case (Inr m)
    obtain s1 where "save_manifest E dir (di_depot_id ?d) (di_manifest_id ?d) m s = (Inr (), s1)" "ct_cache s1 = ct_cache s"
      using save_manifest_run by blast
    with Inr Cons.IH [of s1] show ?thesis
      by (auto simp: p act_simps fetched_plan_def List.map_filter_simps Let_def split: prod.splits)
  qed
qed (simp add: act_simps List.map_filter_simps)

definition planned_depot :: "content_env \<Rightarrow> path \<Rightarrow> content \<Rightarrow> string \<Rightarrow> depot_info \<Rightarrow> depot_plan option" where
  "planned_depot E dir s server d =
    (if trusted E dir (snapshot (ct_cache s)) (di_depot_id d) (di_manifest_id d) then None
     else Option.bind (key_for E (ct_keys s dir) (di_depot_id d) (containing_app d ARMA3_SERVER_APP_ID)) (\<lambda>k.
       map_option (\<lambda>m. \<lparr>dp_depot = d, dp_key = k, dp_manifest = Some m\<rparr>) (manifest_for E dir s server ARMA3_SERVER_APP_ID d TARGET_BRANCH k)))"

definition final_plan :: "content_env \<Rightarrow> path \<Rightarrow> content \<Rightarrow> string \<Rightarrow> string \<Rightarrow> depot_plan \<Rightarrow> depot_plan option" where
  "final_plan E dir s server branch dp =
    map_option (\<lambda>m. dp\<lparr>dp_manifest := Some m\<rparr>) (manifest_for E dir s server ARMA3_SERVER_APP_ID (dp_depot dp) branch (dp_key dp))"

lemma final_plan_split:
  assumes "same_content s s'"
  shows "set (manifest_hits dir s' plans) \<union> {q. \<exists>c \<in> {c. \<exists>dp \<in> set (manifest_misses dir s' plans). code_of E ARMA3_SERVER_APP_ID branch dp = Some c}.
      fetched_plan E server c = Some q} = {q. \<exists>dp \<in> set plans. final_plan E dir s server branch dp = Some q}"
proof -
  have "(final_plan E dir s server branch dp = Some q) =
      ((\<exists>m. load_manifest dir (di_depot_id (dp_depot dp)) (di_manifest_id (dp_depot dp)) s' = Some m \<and> q = dp\<lparr>dp_manifest := Some m\<rparr>)
       \<or> (load_manifest dir (di_depot_id (dp_depot dp)) (di_manifest_id (dp_depot dp)) s' = None
          \<and> (\<exists>c. code_of E ARMA3_SERVER_APP_ID branch dp = Some c \<and> fetched_plan E server c = Some q)))" for dp q
    using assms
    by (auto simp: final_plan_def manifest_for_def code_of_def fetched_plan_def load_manifest_def same_content_def split: option.splits sum.splits)
  note step = this
  show ?thesis
    unfolding manifest_hits_def manifest_misses_def map_filter_set set_filter map_option_eq_Some step by blast
qed

lemma spawn_run:
  assumes "ce_cdn E = Inr (server # others)"
  shows "\<exists>out s'. spawn_plan_downloads E plans branch dir s = (Inr out, s') \<and> ct_cache s' = ct_cache s
    \<and> set out = {q. \<exists>dp \<in> set plans. final_plan E dir s server branch dp = Some q}"
proof -
  let ?s = "s\<lparr>ct_requests := ct_requests s @ [ReqCdnServers]\<rparr>"
  let ?codes = "List.map_filter (code_of E ARMA3_SERVER_APP_ID branch) (manifest_misses dir ?s plans)"
  obtain s1 where r: "request_codes E ARMA3_SERVER_APP_ID branch (manifest_misses dir ?s plans) ?s = (Inr ?codes, s1)" "same_content ?s s1"
    using request_codes_run by blast
  obtain s2 where f: "fetch_manifests E dir server ?codes s1 = (Inr (List.map_filter (fetched_plan E server) ?codes), s2)" "ct_cache s2 = ct_cache s1"
    using fetch_manifests_run by blast
  let ?out = "manifest_hits dir ?s plans @ List.map_filter (fetched_plan E server) ?codes"
  have "spawn_plan_downloads E plans branch dir s = (Inr ?out, s2)"
    using r(1) f(1) cdn_run [OF assms] by (simp add: spawn_plan_downloads_def act_simps)
  moreover have "set ?out = {q. \<exists>dp \<in> set plans. final_plan E dir s server branch dp = Some q}"
    unfolding set_append map_filter_set by (rule final_plan_split) (simp add: same_content_def)
  ultimately show ?thesis using r(2) f(2) by (auto simp: same_content_def)
qed

lemma server_downloads_run:
  assumes "ce_apps E = Inr (Inr depots # others)" "ce_cdn E = Inr (server # others')"
    and "distinct (map di_depot_id depots)"
  shows "\<exists>plans s'. resolve_and_spawn_server E dir prof cdlc_ids s = (Inr plans, s') \<and> ct_cache s' = ct_cache s
    \<and> set plans = {dp. \<exists>d \<in> set depots. di_depot_id d \<in> set (wanted_depot_ids prof cdlc_ids) \<and> planned_depot E dir s server d = Some dp}"
proof -
  define ds where "ds = filter (\<lambda>d. \<not> trusted E dir (snapshot (ct_cache s)) (di_depot_id d) (di_manifest_id d))
      (filter (\<lambda>d. di_depot_id d \<in> set (wanted_depot_ids prof cdlc_ids)) depots)"
  let ?s = "s\<lparr>ct_requests := ct_requests s @ ReqProductInfo # (if ce_authenticated E then [ReqFreeLicense (license_apps [ARMA3_SERVER_APP_ID] ds)] else [])\<rparr>"
  have "distinct (map di_depot_id ds)" unfolding ds_def using assms(3) by (intro distinct_map_filter)
  then obtain s1 where p: "plan_depots E dir ds (ct_keys s dir) ?s = (Inr (List.map_filter (keyed_depot E (ct_keys s dir)) ds), s1)" "same_content ?s s1"
    using plan_depots_run by blast
  let ?plans = "List.map_filter (keyed_depot E (ct_keys s dir)) ds"
  have res: "resolve_wanted_depots E dir prof cdlc_ids s = (Inr ?plans, s1)"
    using assms(1) p(1) by (simp add: resolve_wanted_depots_def act_simps Let_def ds_def split: if_splits)
  obtain out s2 where sp: "spawn_plan_downloads E ?plans TARGET_BRANCH dir s1 = (Inr out, s2)" "ct_cache s2 = ct_cache s1"
    "set out = {q. \<exists>dp \<in> set ?plans. final_plan E dir s1 server TARGET_BRANCH dp = Some q}"
    using spawn_run [OF assms(2)] by blast
  have man: "final_plan E dir s1 = final_plan E dir s"
    using p(2) by (simp add: final_plan_def manifest_for_def load_manifest_def same_content_def fun_eq_iff)
  have "set (if ?plans = [] then [] else out) = {dp. \<exists>d \<in> set depots. di_depot_id d \<in> set (wanted_depot_ids prof cdlc_ids) \<and> planned_depot E dir s server d = Some dp}"
  proof -
    have "set (if ?plans = [] then [] else out) = {q. \<exists>dp \<in> set ?plans. final_plan E dir s server TARGET_BRANCH dp = Some q}"
      using sp(3) man by auto
    also have "\<dots> = {dp. \<exists>d \<in> set ds. planned_depot E dir s server d = Some dp}"
      by (force simp: map_filter_set keyed_depot_def planned_depot_def final_plan_def ds_def bind_eq_Some_conv)
    also have "\<dots> = {dp. \<exists>d \<in> set depots. di_depot_id d \<in> set (wanted_depot_ids prof cdlc_ids) \<and> planned_depot E dir s server d = Some dp}"
      by (auto simp: ds_def planned_depot_def)
    finally show ?thesis .
  qed
  moreover have "resolve_and_spawn_server E dir prof cdlc_ids s = (Inr (if ?plans = [] then [] else out), if ?plans = [] then s1 else s2)"
    using res sp(1) by (simp add: resolve_and_spawn_server_def act_simps)
  ultimately show ?thesis using sp(2) p(2) by (auto simp: same_content_def)
qed

section \<open>Content that is already there\<close>

lemma phase1_all_trusted:
  assumes "\<forall>it \<in> set its. trusted E (item_dir root (we_published_file_id it)) snap (we_consumer_appid it) (we_manifest_id it)"
  shows "\<exists>s'. phase1 E root snap its kc s = (Inr ([], []), s') \<and> ct_requests s' = ct_requests s"
  using assms
proof (induction its arbitrary: s)
  case (Cons it its)
  let ?s = "s\<lparr>ct_repaired := ct_repaired s @ [item_dir root (we_published_file_id it)]\<rparr>"
  obtain s' where "phase1 E root snap its kc ?s = (Inr ([], []), s')" "ct_requests s' = ct_requests ?s"
    using Cons.IH [of ?s] Cons.prems by auto
  then show ?case using Cons.prems by (simp add: act_simps Let_def)
qed (simp add: act_simps)

lemma trusted_mods_need_nothing:
  assumes "ids \<noteq> []" "ce_details E ids = Inr items" "ce_cdn E = Inr (server # others)"
    and "\<forall>it \<in> set items. trusted E (item_dir root (we_published_file_id it)) (snapshot (ct_cache s)) (we_consumer_appid it) (we_manifest_id it)"
  shows "\<exists>s'. resolve_workshop_downloads E root ids s = (Inr [], s') \<and> ct_requests s' = ct_requests s @ [ReqDetails ids, ReqCdnServers]"
proof -
  let ?s = "s\<lparr>ct_requests := ct_requests s @ [ReqDetails ids]\<rparr>"
  obtain s1 where "phase1 E root (snapshot (ct_cache s)) items (ct_keys s root) ?s = (Inr ([], []), s1)" "ct_requests s1 = ct_requests ?s"
    using phase1_all_trusted [OF assms(4)] by blast
  then show ?thesis using assms(1-3) cdn_run [OF assms(3)] by (simp add: resolve_workshop_downloads_def act_simps)
qed

lemma trusted_depots_need_nothing:
  assumes "ce_apps E = Inr (Inr depots # others)"
    and "\<forall>d \<in> set depots. di_depot_id d \<in> set (wanted_depot_ids prof cdlc_ids) \<longrightarrow> trusted E dir (snapshot (ct_cache s)) (di_depot_id d) (di_manifest_id d)"
  shows "\<exists>s'. resolve_and_spawn_server E dir prof cdlc_ids s = (Inr [], s')
    \<and> ct_requests s' = ct_requests s @ ReqProductInfo # (if ce_authenticated E then [ReqFreeLicense [ARMA3_SERVER_APP_ID]] else [])"
proof -
  have "filter (\<lambda>d. \<not> trusted E dir (snapshot (ct_cache s)) (di_depot_id d) (di_manifest_id d))
      (filter (\<lambda>d. di_depot_id d \<in> set (wanted_depot_ids prof cdlc_ids)) depots) = []"
    using assms(2) by (simp add: filter_empty_conv)
  then show ?thesis
    using assms(1) by (simp add: resolve_and_spawn_server_def resolve_wanted_depots_def act_simps Let_def del: filter_filter)
qed

text \<open>A mark of the current manifest is what makes a depot or an item trusted.\<close>

lemma snapshot_last: "map_of (snapshot c) k = last_manifest_id k c"
proof -
  have "map_of (map (\<lambda>(k, m, _). (k, m)) xs) k = map_option fst (map_of xs k)" for xs :: "(string \<times> u64 \<times> u64) list"
    by (induction xs) auto
  then show ?thesis by (simp add: snapshot_def last_manifest_id_def)
qed

section \<open>Witnesses\<close>

definition demo_item :: "u64 \<Rightarrow> workshop_entry" where
  "demo_item i = \<lparr>we_published_file_id = i, we_consumer_appid = 107410, we_manifest_id = i\<rparr>"

text \<open>Steam refuses the request code of item 11.\<close>

definition demo_content_env :: content_env where
  "demo_content_env = \<lparr>ce_apps = Inr [Inr []], ce_authenticated = True, ce_key = \<lambda>_ _. Inr [1], ce_cdn = Inr [''cdn''],
     ce_code = \<lambda>_ _ i _. if i = 11 then Inl (bail_msg ''AccessDenied'') else Inr 5,
     ce_manifest = \<lambda>_ _ _ _ _. Inr [9], ce_details = \<lambda>ids. Inr (map demo_item ids),
     ce_save = \<lambda>_. True, ce_is_dir = \<lambda>_. False\<rparr>"

definition demo_content :: content where
  "demo_content = \<lparr>ct_cache = empty_state, ct_keys = \<lambda>_. [], ct_manifests = Map.empty, ct_requests = [], ct_repaired = []\<rparr>"

theorem mod_resolution_is_itemwise_witness:
  "\<exists>plans s' ps ds. sync_mods demo_content_env [''content''] [10, 11] demo_content = (Inr (plans, ps, ds), s')
    \<and> (\<exists>dp. (10, dp) \<in> set plans) \<and> (\<forall>dp. (11, dp) \<notin> set plans)"
proof -
  have env: "[10, 11] \<noteq> ([] :: u64 list)" "ce_details demo_content_env [10, 11] = Inr [demo_item 10, demo_item 11]"
    "ce_cdn demo_content_env = Inr [''cdn'']" by (simp_all add: demo_content_env_def)
  have absent: "(ce_is_dir demo_content_env p \<and> Q) = False" "(\<not> False) = True" "(True \<and> Q) = Q" for p Q
    by (simp_all add: demo_content_env_def)
  have parts: "key_for demo_content_env (ct_keys demo_content dir) d a = Some [1]"
    "manifest_for demo_content_env dir demo_content ''cdn'' app di ''public'' k = (if di_manifest_id di = 11 then None else Some [9])"
    for dir app d a di k
    by (simp_all add: demo_content_env_def demo_content_def key_for_def manifest_for_def load_manifest_def)
  from mod_resolution_is_itemwise [OF env, of "[''content'']" demo_content, unfolded absent]
  obtain plans s' ps ds where run: "sync_mods demo_content_env [''content''] [10, 11] demo_content = (Inr (plans, ps, ds), s')"
    and plan: "\<forall>i dp. (i, dp) \<in> set plans \<longleftrightarrow> (\<exists>it k m. it \<in> set [demo_item 10, demo_item 11] \<and> i = we_published_file_id it
        \<and> key_for demo_content_env (ct_keys demo_content (workshop_root [''content''])) (we_consumer_appid it) (we_consumer_appid it) = Some k
        \<and> manifest_for demo_content_env (workshop_root [''content'']) demo_content ''cdn'' (we_consumer_appid it) (item_depot it) ''public'' k = Some m
        \<and> dp = \<lparr>dp_depot = item_depot it, dp_key = k, dp_manifest = Some m\<rparr>)"
    by (elim exE conjE) (rule that)
  have "(10, \<lparr>dp_depot = item_depot (demo_item 10), dp_key = [1], dp_manifest = Some [9]\<rparr>) \<in> set plans"
    unfolding plan [rule_format] by (intro exI [of _ "demo_item 10"] exI [of _ "[1]"] exI [of _ "[9]"]) (simp add: demo_item_def parts)
  moreover have "(11, dp) \<notin> set plans" for dp unfolding plan [rule_format] by (auto simp: demo_item_def parts)
  ultimately show ?thesis using run by blast
qed

end
