(* ===== verification/Download.thy ===== *)
theory Download
  imports Content Lowercase
begin

text \<open>
  One download (\<open>download_one_depot\<close>, \<open>finalize_synced_tree\<close> and their helpers in
  \<open>crates/steam-sync/src/steam.rs\<close>, \<open>patch_mod_metadata\<close> of \<open>workshop.rs\<close>): the lock, the check whether the
  content is there, the repair, the verification by \<open>sync_depot\<close> (a parameter), the pass that folds names,
  sets executable bits and adds up sizes, and the mark. The state is the directory the install directory
  stands in, with its files, and the sync cache.
\<close>

section \<open>The tree after a download\<close>

definition KNOWN_SERVER_BINARIES :: "string list" where
  "KNOWN_SERVER_BINARIES = [''arma3server'', ''arma3server_x64'']"

datatype fs_op = FsRename path | FsChmod path | FsWrite path

record final_stats =
  fin_bytes :: u64
  fin_executables :: "path list"

text \<open>\<open>follow i\<close> is what the symbolic link with inode \<open>i\<close> leads to, \<open>None\<close> when it dangles.\<close>

definition metadata :: "(nat \<Rightarrow> tree option) \<Rightarrow> tree option \<Rightarrow> tree option" where
  "metadata follow t = (case t of Some (Link i) \<Rightarrow> follow i | _ \<Rightarrow> t)"

definition count_entry :: "(fs_op \<Rightarrow> bool) \<Rightarrow> (nat \<Rightarrow> tree option) \<Rightarrow> bool \<Rightarrow> path \<Rightarrow> string \<Rightarrow> tree option \<Rightarrow> final_stats
    \<Rightarrow> string option \<times> final_stats" where
  "count_entry io follow check dir f t st =
    (case metadata follow t of
       Some (Leaf i data) \<Rightarrow>
         (let st' = st\<lparr>fin_bytes := fin_bytes st + of_nat (length data)\<rparr> in
          if \<not> (check \<and> f \<in> set KNOWN_SERVER_BINARIES) then (None, st')
          else if io (FsChmod (dir @ [f])) then (None, st'\<lparr>fin_executables := fin_executables st @ [dir @ [f]]\<rparr>)
          else (Some (''failed to chmod +x '' @ join ''/'' (dir @ [f])), st))
     | _ \<Rightarrow> (None, st))"

definition finalize_entry :: "(string \<Rightarrow> string) \<Rightarrow> (fs_op \<Rightarrow> bool) \<Rightarrow> (nat \<Rightarrow> tree option) \<Rightarrow> bool \<Rightarrow> path \<Rightarrow> string
    \<Rightarrow> (string \<times> tree) list \<Rightarrow> final_stats \<Rightarrow> string option \<times> (string \<times> tree) list \<times> final_stats" where
  "finalize_entry to_lower io follow check dir n cur st =
    (if \<not> valid_utf8 n then (None, cur, st)
     else let l = to_lower n in
       if l = n \<or> metadata follow (map_of cur l) \<noteq> None
       then (let (e, st') = count_entry io follow check dir n (map_of cur n) st in (e, cur, st'))
       else if io (FsRename (dir @ [n]))
       then (let cur' = rename_entry n l cur; (e, st') = count_entry io follow check dir l (map_of cur' l) st in (e, cur', st'))
       else (Some (''failed to rename '' @ join ''/'' (dir @ [n]) @ '' to '' @ l), cur, st))"

text \<open>The walk, contents first. A directory is listed when it is opened; siblings come in name order,
  which only matters for which of two names that fold alike is renamed.\<close>

fun finalize_walk :: "(string \<Rightarrow> string) \<Rightarrow> (fs_op \<Rightarrow> bool) \<Rightarrow> (nat \<Rightarrow> tree option) \<Rightarrow> bool \<Rightarrow> path \<Rightarrow> (string \<times> tree) list
    \<Rightarrow> (string \<times> tree) list \<Rightarrow> final_stats \<Rightarrow> string option \<times> (string \<times> tree) list \<times> final_stats" where
  "finalize_walk to_lower io follow check dir [] cur st = (None, cur, st)"
| "finalize_walk to_lower io follow check dir ((n, t) # rest) cur st =
     (let (e, t', st1) = (case t of
            Dir i cs \<Rightarrow> (let (e, cs', st') = finalize_walk to_lower io follow check (dir @ [n]) cs cs st in (e, Dir i cs', st'))
          | _ \<Rightarrow> (None, t, st));
          cur1 = set_entry n t' cur
      in case e of
           Some x \<Rightarrow> (Some x, cur1, st1)
         | None \<Rightarrow>
             (let (e2, cur2, st2) = finalize_entry to_lower io follow check dir n cur1 st1
              in case e2 of
                   Some x \<Rightarrow> (Some x, cur2, st2)
                 | None \<Rightarrow> finalize_walk to_lower io follow check dir rest cur2 st2))"

text \<open>The root of the walk is itself visited last, as the entry \<open>leaf\<close> of the directory it stands in.\<close>

definition finalize_synced_tree :: "(string \<Rightarrow> string) \<Rightarrow> (fs_op \<Rightarrow> bool) \<Rightarrow> (nat \<Rightarrow> tree option) \<Rightarrow> bool \<Rightarrow> path \<Rightarrow> string
    \<Rightarrow> (string \<times> tree) list \<Rightarrow> (string + final_stats) \<times> (string \<times> tree) list" where
  "finalize_synced_tree to_lower io follow check parent leaf cur =
    (let (e, cur', st) = finalize_walk to_lower io follow check parent
           (case map_of cur leaf of Some t \<Rightarrow> [(leaf, t)] | None \<Rightarrow> []) cur \<lparr>fin_bytes = 0, fin_executables = []\<rparr>
     in (case e of Some x \<Rightarrow> Inl x | None \<Rightarrow> Inr st, cur'))"

section \<open>One download\<close>

record download_env =
  dn_lower :: "string \<Rightarrow> string"
  dn_repair_io :: "string list \<Rightarrow> bool"
  dn_io :: "fs_op \<Rightarrow> bool"
  dn_follow :: "nat \<Rightarrow> tree option"
  dn_decrypt :: "manifest \<Rightarrow> u8 list \<Rightarrow> any_error + manifest"
  dn_sync :: "u32 \<Rightarrow> manifest \<Rightarrow> u8 list \<Rightarrow> bool \<Rightarrow> tree option \<Rightarrow> (any_error + unit) \<times> tree option"

text \<open>The directory the install directory \<open>leaf\<close> stands in, and the cache.\<close>

record disk =
  dk_parent :: path
  dk_entries :: "(string \<times> tree) list"
  dk_cache :: sync_state
  dk_executables :: "path list"

definition put_entry :: "string \<Rightarrow> tree option \<Rightarrow> (string \<times> tree) list \<Rightarrow> (string \<times> tree) list" where
  "put_entry n t cs = (case t of Some u \<Rightarrow> btree_insert n u (remove_entry n cs) | None \<Rightarrow> remove_entry n cs)"

definition repair_dir :: "download_env \<Rightarrow> string \<Rightarrow> disk \<Rightarrow> disk" where
  "repair_dir D leaf s =
    s\<lparr>dk_entries := put_entry leaf (map_option (repair_folded_tree (dn_lower D) (dn_repair_io D)) (map_of (dk_entries s) leaf)) (dk_entries s)\<rparr>"

text \<open>Everything after the lock is held. \<open>sync_depot\<close> folds names unless the depot is the server's.\<close>

definition sync_locked :: "download_env \<Rightarrow> depot_info \<Rightarrow> u8 list \<Rightarrow> manifest \<Rightarrow> string \<Rightarrow> bool \<Rightarrow> (disk, any_error, unit) act" where
  "sync_locked D d key m leaf is_server_depot = (\<lambda>s.
    let k = sync_key (di_depot_id d) (dk_parent s @ [leaf]);
        dir = (case map_of (dk_entries s) leaf of Some t \<Rightarrow> is_dir t | None \<Rightarrow> False);
        s1 = (if is_server_depot then s else repair_dir D leaf s)
    in if is_synced k (di_manifest_id d) dir (dk_cache s) then (Inr (), s1)
       else case dn_sync D (di_depot_id d) m key (\<not> is_server_depot) (map_of (dk_entries s1) leaf) of
         (Inl e, t) \<Rightarrow> (Inl (with_context (''failed to sync depot '' @ show_word (di_depot_id d)) e), s1\<lparr>dk_entries := put_entry leaf t (dk_entries s1)\<rparr>)
       | (Inr _, t) \<Rightarrow>
           (case finalize_synced_tree (dn_lower D) (dn_io D) (dn_follow D) is_server_depot (dk_parent s1) leaf (put_entry leaf t (dk_entries s1)) of
              (Inl e, cur) \<Rightarrow>
                (Inl (with_context (''failed to finalize synced tree under '' @ join ''/'' (dk_parent s1 @ [leaf])) (bail_msg e)), s1\<lparr>dk_entries := cur\<rparr>)
            | (Inr st, cur) \<Rightarrow>
                (Inr (), s1\<lparr>dk_entries := cur, dk_executables := dk_executables s1 @ fin_executables st,
                  dk_cache := mark_synced k (di_manifest_id d) (fin_bytes st) (dk_cache s1)\<rparr>)))"

text \<open>\<open>polls\<close> are the attempts at the lock, each with the clock and the cache it finds. The result is
  \<open>None\<close> while every attempt so far failed. The guard releases the lock however the download ends.\<close>

definition download_one_depot :: "download_env \<Rightarrow> string \<Rightarrow> (int \<times> sync_state) list \<Rightarrow> depot_plan \<Rightarrow> string \<Rightarrow> bool
    \<Rightarrow> (disk, any_error, unit option) act" where
  "download_one_depot D holder polls dp leaf is_server_depot =
    (let d = dp_depot dp in
     act_bind (lift_res (ok_or (dp_manifest dp) (bail_msg (''depot '' @ show_word (di_depot_id d) @ '' has no manifest after fetch_manifests'')))) (\<lambda>m.
     act_bind (lift_res (map_err (with_context (''failed to decrypt filenames for depot '' @ show_word (di_depot_id d))) (dn_decrypt D m (dp_key dp)))) (\<lambda>m'.
     act_bind (gets_act (\<lambda>s. sync_key (di_depot_id d) (dk_parent s @ [leaf]))) (\<lambda>k.
     case acquire_lock k holder polls of
       Inl e \<Rightarrow> throw (bail_msg ''sync state unavailable'')
     | Inr None \<Rightarrow> ret None
     | Inr (Some (_, c)) \<Rightarrow>
         act_bind (modify_act (\<lambda>s. s\<lparr>dk_cache := c\<rparr>)) (\<lambda>_.
         act_match (sync_locked D d (dp_key dp) m' leaf is_server_depot) (\<lambda>r.
         act_bind (modify_act (\<lambda>s. s\<lparr>dk_cache := release k (dk_cache s)\<rparr>)) (\<lambda>_.
         lift_res (map_sum id Some r))))))))"

section \<open>Mod metadata\<close>

text \<open>The two patterns of \<open>patch_mod_metadata\<close> as sequences of literals and repeated character classes.
  A class gives the length of the character at the front that belongs to it, \<open>0\<close> for none; no class
  contains the literal that follows it, so a repetition never has to give characters back.\<close>

datatype re_item = Lit string | Many "string \<Rightarrow> nat" | Some1 "string \<Rightarrow> nat"

function skip_class :: "(string \<Rightarrow> nat) \<Rightarrow> string \<Rightarrow> string" where
  "skip_class w s = (if w s = 0 \<or> s = [] then s else skip_class w (drop (w s) s))"
  by pat_completeness auto

termination by (relation "measure (\<lambda>(w, s). length s)") auto

declare skip_class.simps [simp del]

fun re_match :: "re_item list \<Rightarrow> string \<Rightarrow> string option" where
  "re_match [] s = Some s"
| "re_match (Lit l # ps) s = Option.bind (strip_prefix l s) (re_match ps)"
| "re_match (Many w # ps) s = re_match ps (skip_class w s)"
| "re_match (Some1 w # ps) s = (if s = [] \<or> w s = 0 then None else re_match ps (skip_class w s))"

fun re_replace :: "re_item list \<Rightarrow> string \<Rightarrow> string \<Rightarrow> string" where
  "re_replace ps new [] = (case re_match ps [] of Some rest \<Rightarrow> new @ rest | None \<Rightarrow> [])"
| "re_replace ps new (c # cs) =
     (case re_match ps (c # cs) of Some rest \<Rightarrow> new @ rest | None \<Rightarrow> c # re_replace ps new cs)"

definition re_publishedid :: "(string \<Rightarrow> nat) \<Rightarrow> re_item list" where
  "re_publishedid ws = [Lit ''publishedid'', Many ws, Lit ''='', Many ws, Lit ''0'', Many ws, Lit '';'']"

definition re_appid :: "(string \<Rightarrow> nat) \<Rightarrow> (string \<Rightarrow> nat) \<Rightarrow> re_item list" where
  "re_appid ws dg = [Lit ''appId'', Many ws, Lit ''='', Many ws, Some1 dg, Many ws, Lit '';'']"

definition publishedid_line :: "u64 \<Rightarrow> string" where
  "publishedid_line i = ''publishedid = '' @ show_word i @ '';''"

definition meta_patched :: "(string \<Rightarrow> nat) \<Rightarrow> u64 \<Rightarrow> string \<Rightarrow> string" where
  "meta_patched ws mod_id data = replace_all ''protocole'' ''protocol'' (re_replace (re_publishedid ws) (publishedid_line mod_id) data)"

definition write_file :: "(fs_op \<Rightarrow> bool) \<Rightarrow> path \<Rightarrow> nat \<Rightarrow> string \<Rightarrow> string \<Rightarrow> (string \<times> tree) list
    \<Rightarrow> (string + unit) \<times> (string \<times> tree) list" where
  "write_file io dir i n data cs =
    (if io (FsWrite (dir @ [n])) then (Inr (), put_entry n (Some (Leaf i data)) cs) else (Inl (''failed to write '' @ n), cs))"

text \<open>On the entries of the mod's directory; \<open>fresh\<close> is the inode of a newly created file. The metadata
  files are regular files: reading anything else fails.\<close>

definition patch_meta :: "(fs_op \<Rightarrow> bool) \<Rightarrow> (string \<Rightarrow> nat) \<Rightarrow> nat \<Rightarrow> path \<Rightarrow> u64 \<Rightarrow> (string \<times> tree) list \<Rightarrow> (string + unit) \<times> (string \<times> tree) list" where
  "patch_meta io ws fresh dir mod_id cs =
    (case map_of cs ''meta.cpp'' of
       Some (Leaf i data) \<Rightarrow>
         if \<not> valid_utf8 data then (Inl ''stream did not contain valid UTF-8'', cs)
         else if meta_patched ws mod_id data \<noteq> data then write_file io dir i ''meta.cpp'' (meta_patched ws mod_id data) cs
         else (Inr (), cs)
     | Some _ \<Rightarrow> (Inl ''Is a directory'', cs)
     | None \<Rightarrow> write_file io dir fresh ''meta.cpp'' (''protocol = 1;'' @ [CHR 0x0A] @ publishedid_line mod_id @ [CHR 0x0A]) cs)"

definition patch_app_id :: "(fs_op \<Rightarrow> bool) \<Rightarrow> (string \<Rightarrow> nat) \<Rightarrow> (string \<Rightarrow> nat) \<Rightarrow> path \<Rightarrow> bool \<Rightarrow> (string \<times> tree) list \<Rightarrow> (string + unit) \<times> (string \<times> tree) list" where
  "patch_app_id io ws dg dir replace_app_id cs =
    (case map_of cs ''mod.cpp'' of
       Some (Leaf i data) \<Rightarrow>
         if replace_app_id \<and> valid_utf8 data \<and> re_replace (re_appid ws dg) ''appId = 0;'' data \<noteq> data
         then write_file io dir i ''mod.cpp'' (re_replace (re_appid ws dg) ''appId = 0;'' data) cs
         else (Inr (), cs)
     | _ \<Rightarrow> (Inr (), cs))"

definition patch_mod_metadata :: "(fs_op \<Rightarrow> bool) \<Rightarrow> (string \<Rightarrow> nat) \<Rightarrow> (string \<Rightarrow> nat) \<Rightarrow> nat \<Rightarrow> path \<Rightarrow> u64 \<Rightarrow> bool
    \<Rightarrow> (string \<times> tree) list \<Rightarrow> (string + unit) \<times> (string \<times> tree) list" where
  "patch_mod_metadata io ws dg fresh dir mod_id replace_app_id cs =
    (case patch_meta io ws fresh dir mod_id cs of
       (Inl e, cs') \<Rightarrow> (Inl e, cs')
     | (Inr _, cs') \<Rightarrow> patch_app_id io ws dg dir replace_app_id cs')"

section \<open>What finalizing does to a tree\<close>

definition no_dangling :: "(nat \<Rightarrow> tree option) \<Rightarrow> bool" where
  "no_dangling follow = (\<forall>i. follow i \<noteq> None)"

fun own_bytes :: "(nat \<Rightarrow> tree option) \<Rightarrow> tree \<Rightarrow> nat" where
  "own_bytes follow (Leaf i data) = length data"
| "own_bytes follow (Link i) = (case follow i of Some (Leaf _ data) \<Rightarrow> length data | _ \<Rightarrow> 0)"
| "own_bytes follow (Dir i cs) = 0"

fun tree_bytes :: "(nat \<Rightarrow> tree option) \<Rightarrow> tree \<Rightarrow> nat" where
  "tree_bytes follow (Dir i cs) = sum_list (map (\<lambda>p. tree_bytes follow (snd p)) cs)"
| "tree_bytes follow t = own_bytes follow t"

fun names_utf8 :: "tree \<Rightarrow> bool" where
  "names_utf8 (Dir i cs) = (\<forall>p \<in> set cs. valid_utf8 (fst p) \<and> names_utf8 (snd p))"
| "names_utf8 _ = True"

abbreviation listing_bytes :: "(nat \<Rightarrow> tree option) \<Rightarrow> (string \<times> tree) list \<Rightarrow> nat" where
  "listing_bytes follow snap \<equiv> sum_list (map (\<lambda>p. tree_bytes follow (snd p)) snap)"

lemma metadata_None: "no_dangling follow \<Longrightarrow> metadata follow t = None \<longleftrightarrow> t = None"
  by (auto simp: metadata_def no_dangling_def split: option.splits tree.splits)

lemma finalize_entry_cases:
  assumes "no_dangling follow" "finalize_entry L io follow check dir n cur st = (e, cur', st')"
  shows "cur' = cur \<or> (valid_utf8 n \<and> L n \<noteq> n \<and> map_of cur (L n) = None \<and> cur' = rename_entry n (L n) cur)"
  using assms(2) metadata_None [OF assms(1)]
  by (auto simp: finalize_entry_def Let_def split: if_splits prod.splits)

lemma count_entry_bytes:
  "count_entry io follow check dir f (Some t) st = (None, st') \<Longrightarrow> fin_bytes st' = fin_bytes st + of_nat (own_bytes follow t)"
  by (cases t) (auto simp: count_entry_def metadata_def Let_def split: if_splits option.splits tree.splits)

lemma finalize_entry_keeps:
  assumes "lower_ok L" "no_dangling follow" "listing_of ((n, t) # rest) cur" "finalize_entry L io follow check dir n cur st = (e, cur', st')"
  shows "dir_holdings g L cur' = dir_holdings g L cur \<and> listing_of rest cur'"
  using finalize_entry_cases [OF assms(2,4)]
proof (elim disjE conjE)
  assume "valid_utf8 n" "map_of cur (L n) = None" "cur' = rename_entry n (L n) cur"
  then show ?thesis using holdings_rename [OF assms(1) _ assms(3)] listing_of_rename [OF assms(3)] by simp
qed (use listing_of_skip [OF assms(3)] in simp)

lemma finalize_entry_bytes:
  assumes "no_dangling follow" "listing_of ((n, t) # rest) cur" "valid_utf8 n"
    and "finalize_entry L io follow check dir n cur st = (None, cur', st')"
  shows "fin_bytes st' = fin_bytes st + of_nat (own_bytes follow t)"
proof -
  have n: "map_of cur n = Some t" using listing_ofD(1,3) [OF assms(2)] by simp
  show ?thesis
  proof (cases "L n = n \<or> map_of cur (L n) \<noteq> None")
    case True
    then have "count_entry io follow check dir n (Some t) st = (None, st')"
      using assms(3,4) n metadata_None [OF assms(1)] by (auto simp: finalize_entry_def Let_def split: prod.splits)
    then show ?thesis by (rule count_entry_bytes)
  next
    case False
    have "distinct (map fst (rename_entry n (L n) cur))" "(L n, t) \<in> set (rename_entry n (L n) cur)"
      using False set_rename_fresh [OF assms(2)] btree_distinct by auto
    then have "map_of (rename_entry n (L n) cur) (L n) = Some t" by (rule map_of_is_SomeI)
    then have "count_entry io follow check dir (L n) (Some t) st = (None, st')"
      using False assms(3,4) metadata_None [OF assms(1)] by (auto simp: finalize_entry_def Let_def split: prod.splits if_splits)
    then show ?thesis by (rule count_entry_bytes)
  qed
qed

abbreviation finalize_child :: "(string \<Rightarrow> string) \<Rightarrow> (fs_op \<Rightarrow> bool) \<Rightarrow> (nat \<Rightarrow> tree option) \<Rightarrow> bool \<Rightarrow> path \<Rightarrow> tree \<Rightarrow> final_stats
    \<Rightarrow> string option \<times> tree \<times> final_stats" where
  "finalize_child L io follow check dir t st \<equiv> (case t of
      Dir i cs \<Rightarrow> (let (e, cs', st') = finalize_walk L io follow check dir cs cs st in (e, Dir i cs', st'))
    | _ \<Rightarrow> (None, t, st))"

lemma finalize_step:
  assumes "finalize_child L io follow check (dir @ [n]) t st = (e1, t', st1)"
    and "finalize_walk L io follow check dir ((n, t) # rest) cur st = (e, cur', st')"
  obtains (child_fails) "e1 \<noteq> None" "e = e1" "cur' = set_entry n t' cur"
  | (entry_fails) e2 st2 where "e1 = None" "e2 \<noteq> None" "e = e2" "finalize_entry L io follow check dir n (set_entry n t' cur) st1 = (e2, cur', st2)"
  | (rest) cur2 st2 where "e1 = None" "finalize_entry L io follow check dir n (set_entry n t' cur) st1 = (None, cur2, st2)"
      "finalize_walk L io follow check dir rest cur2 st2 = (e, cur', st')"
  using assms by (auto simp del: finalize_walk.simps(1) simp: Let_def split: prod.splits option.splits)

text \<open>The walk renames only to names that are free, so every file stays, and the size it returns is the
  size of everything below the root.\<close>

lemma finalize_walk_keeps:
  "lower_ok L \<Longrightarrow> no_dangling follow \<Longrightarrow> listing_of snap cur \<Longrightarrow> finalize_walk L io follow check dir snap cur st = (e, cur', st') \<Longrightarrow>
    dir_holdings g L cur' = dir_holdings g L cur \<and> dir_wf cur'
    \<and> (e = None \<longrightarrow> (\<forall>p \<in> set snap. valid_utf8 (fst p) \<and> names_utf8 (snd p)) \<longrightarrow> fin_bytes st' = fin_bytes st + of_nat (listing_bytes follow snap))"
proof (induction L io follow check dir snap cur st arbitrary: e cur' st' rule: finalize_walk.induct)
  case (1 L io follow check dir cur st)
  then show ?case by (simp add: listing_of_def)
next
  case (2 L io follow check dir n t rest cur st)
  obtain e1 t' st1 where child: "finalize_child L io follow check (dir @ [n]) t st = (e1, t', st1)" by (rule prod_cases3)
  have t': "holdings g L t' = holdings g L t \<and> tree_wf t' \<and> own_bytes follow t' = own_bytes follow t
      \<and> (e1 = None \<longrightarrow> names_utf8 t \<longrightarrow> fin_bytes st1 + of_nat (own_bytes follow t) = fin_bytes st + of_nat (tree_bytes follow t))"
  proof (cases t)
    case (Dir i cs)
    then obtain cs' where cs': "t' = Dir i cs'" "finalize_walk L io follow check (dir @ [n]) cs cs st = (e1, cs', st1)"
      using child by (auto split: prod.splits)
    have l: "listing_of cs cs" using listing_ofD(4) [OF 2(5)] unfolding Dir by (simp add: listing_of_refl)
    from 2(1) [OF Dir 2(3,4) l cs'(2)] show ?thesis unfolding Dir cs'(1) by simp
  qed (use child listing_ofD(4) [OF 2(5)] in auto)
  have set: "dir_holdings g L (set_entry n t' cur) = dir_holdings g L cur" using dir_holdings_set_same [OF 2(5)] t' by blast
  have list: "listing_of ((n, t') # rest) (set_entry n t' cur)" using listing_of_set_head [OF 2(5)] t' by blast
  from child 2(6) show ?case
  proof (cases rule: finalize_step)
    case child_fails
    then show ?thesis using set list by (auto simp: listing_of_def)
  next
    case (entry_fails e2 st2)
    with finalize_entry_keeps [OF 2(3,4) list entry_fails(4), of g] set show ?thesis by (auto simp: listing_of_def)
  next
    case (rest cur2 st2)
    note keep = finalize_entry_keeps [OF 2(3,4) list rest(2), of g]
    have ih: "dir_holdings g L cur' = dir_holdings g L cur2 \<and> dir_wf cur'
      \<and> (e = None \<longrightarrow> (\<forall>p \<in> set rest. valid_utf8 (fst p) \<and> names_utf8 (snd p)) \<longrightarrow> fin_bytes st' = fin_bytes st2 + of_nat (listing_bytes follow rest))"
      by (rule 2(2) [OF child [symmetric] refl refl refl rest(1) rest(2) [symmetric] refl refl refl 2(3,4) keep [THEN conjunct2] rest(3)])
    show ?thesis using ih keep set t' rest(1) finalize_entry_bytes [OF 2(4) list _ rest(2)] by (auto simp: algebra_simps)
  qed
qed

lemma finalize_runs:
  assumes "map_of cur leaf = Some t" "finalize_synced_tree L io follow check parent leaf cur = (r, cur')"
  shows "\<exists>e st. finalize_walk L io follow check parent [(leaf, t)] cur \<lparr>fin_bytes = 0, fin_executables = []\<rparr> = (e, cur', st)
    \<and> r = (case e of Some x \<Rightarrow> Inl x | None \<Rightarrow> Inr st)"
  using assms by (auto simp: finalize_synced_tree_def split: prod.splits)

lemma listing_of_single: "dir_wf cur \<Longrightarrow> map_of cur leaf = Some t \<Longrightarrow> listing_of [(leaf, t)] cur"
  by (simp add: listing_of_def map_of_SomeD)

text \<open>C25: finalizing a synced tree loses no file. Whether or not the pass succeeds, every file is still
  held at its path up to case, with its contents, and a successful pass returns the total size of the files
  below the directory.\<close>

theorem finalize_keeps_every_file:
  assumes "lower_ok L" "no_dangling follow" "dir_wf cur" "map_of cur leaf = Some t"
    and "finalize_synced_tree L io follow check parent leaf cur = (r, cur')"
  shows "dir_holdings (\<lambda>u. u) L cur' = dir_holdings (\<lambda>u. u) L cur
    \<and> (\<forall>st. r = Inr st \<longrightarrow> valid_utf8 leaf \<and> names_utf8 t \<longrightarrow> fin_bytes st = of_nat (tree_bytes follow t))"
proof -
  obtain e st where run: "finalize_walk L io follow check parent [(leaf, t)] cur \<lparr>fin_bytes = 0, fin_executables = []\<rparr> = (e, cur', st)"
    "r = (case e of Some x \<Rightarrow> Inl x | None \<Rightarrow> Inr st)" using finalize_runs [OF assms(4,5)] by blast
  show ?thesis
    using finalize_walk_keeps [OF assms(1,2) listing_of_single [OF assms(3,4)] run(1), of "\<lambda>u. u"] run(2) by (auto split: option.splits)
qed

section \<open>The server's directory\<close>

lemma put_entry_wf: "dir_wf cs \<Longrightarrow> tree_wf t \<Longrightarrow> dir_wf (put_entry n (Some t) cs) \<and> map_of (put_entry n (Some t) cs) n = Some t"
proof -
  assume w: "dir_wf cs" "tree_wf t"
  then have b: "btree (remove_entry n cs)" and "\<forall>p \<in> set (remove_entry n cs). tree_wf (snd p)"
    using dir_wf_remove_entry by (auto simp: dir_wf_def)
  moreover have m: "map_of (remove_entry n cs) n = None" by (simp add: map_of_eq_None_iff image_iff)
  ultimately have "dir_wf (btree_insert n t (remove_entry n cs))"
    using w(2) set_btree_insert [OF b m, of t] btree_btree_insert [OF b] by (simp add: dir_wf_def)
  moreover from this have "map_of (btree_insert n t (remove_entry n cs)) n = Some t"
    using set_btree_insert [OF b m, of t] by (intro map_of_is_SomeI) (simp_all add: dir_wf_def btree_distinct)
  ultimately show ?thesis by (simp add: put_entry_def)
qed

lemma server_sync_marks:
  assumes "sync_locked D d key m leaf True s = (Inr (), s')"
    and "\<not> is_synced (sync_key (di_depot_id d) (dk_parent s @ [leaf])) (di_manifest_id d) (case map_of (dk_entries s) leaf of Some t \<Rightarrow> is_dir t | None \<Rightarrow> False) (dk_cache s)"
    and "dn_sync D (di_depot_id d) m key False (map_of (dk_entries s) leaf) = (Inr (), Some t)"
    and "lower_ok (dn_lower D)" "no_dangling (dn_follow D)" "dir_wf (dk_entries s)" "tree_wf t" "valid_utf8 leaf" "names_utf8 t"
  shows "dk_cache s' = mark_synced (sync_key (di_depot_id d) (dk_parent s @ [leaf])) (di_manifest_id d) (of_nat (tree_bytes (dn_follow D) t)) (dk_cache s)
    \<and> dk_parent s' = dk_parent s"
proof -
  obtain r cur where fin: "finalize_synced_tree (dn_lower D) (dn_io D) (dn_follow D) True (dk_parent s) leaf (put_entry leaf (Some t) (dk_entries s)) = (r, cur)"
    by fastforce
  with assms(1-3) obtain st where "r = Inr st"
    "s' = s\<lparr>dk_entries := cur, dk_executables := dk_executables s @ fin_executables st,
       dk_cache := mark_synced (sync_key (di_depot_id d) (dk_parent s @ [leaf])) (di_manifest_id d) (fin_bytes st) (dk_cache s)\<rparr>"
    by (cases r) (auto simp: sync_locked_def Let_def split: option.splits)
  moreover obtain e st' where "finalize_walk (dn_lower D) (dn_io D) (dn_follow D) True (dk_parent s) [(leaf, t)] (put_entry leaf (Some t) (dk_entries s)) \<lparr>fin_bytes = 0, fin_executables = []\<rparr> = (e, cur, st')"
    "r = (case e of Some x \<Rightarrow> Inl x | None \<Rightarrow> Inr st')" using finalize_runs [OF _ fin] put_entry_wf [OF assms(6,7)] by blast
  moreover from this have "e = None \<longrightarrow> fin_bytes st' = of_nat (tree_bytes (dn_follow D) t)"
    using finalize_walk_keeps [OF assms(4,5) listing_of_single] put_entry_wf [OF assms(6,7)] assms(8,9) by fastforce
  ultimately show ?thesis by (auto split: option.splits)
qed

text \<open>A download of a server depot that really verified its files and left the root \<open>t\<close> behind before the
  tree was finalized.\<close>

definition real_server_sync :: "download_env \<Rightarrow> depot_info \<Rightarrow> u8 list \<Rightarrow> manifest \<Rightarrow> string \<Rightarrow> disk \<Rightarrow> tree \<Rightarrow> disk \<Rightarrow> bool" where
  "real_server_sync D d key m leaf s t s' =
    (sync_locked D d key m leaf True s = (Inr (), s')
     \<and> \<not> is_synced (sync_key (di_depot_id d) (dk_parent s @ [leaf])) (di_manifest_id d)
         (case map_of (dk_entries s) leaf of Some t \<Rightarrow> is_dir t | None \<Rightarrow> False) (dk_cache s)
     \<and> dn_sync D (di_depot_id d) m key False (map_of (dk_entries s) leaf) = (Inr (), Some t)
     \<and> dir_wf (dk_entries s) \<and> tree_wf t \<and> names_utf8 t)"

lemma subtree_bytes: "map_of cs n = Some w \<Longrightarrow> tree_bytes F w \<le> tree_bytes F (Dir i cs)"
  by (auto dest!: map_of_SomeD intro!: member_le_sum_list [THEN order_trans [rotated]] simp: image_iff)

lemma show_game_depots: "show_word (233781 :: u32) = ''233781''" "show_word (233783 :: u32) = ''233783''"
  by (simp_all add: show_word_def show_nat.simps digit_char_def char_of_def bit_Suc_0_iff)

lemma game_key: "file_name (p @ [leaf]) = Some leaf \<Longrightarrow>
    sync_key 233781 (p @ [leaf]) = ''233781/'' @ leaf \<and> sync_key 233783 (p @ [leaf]) = ''233783/'' @ leaf"
  by (simp add: sync_key_def show_game_depots)

text \<open>The size of the game files counts the mods, once per depot. After the two depots of the server
  have been synced into the content root, the total reported for the game is the sum of the sizes of the
  whole root at either time, in which the workshop directory with all mods is included both times.\<close>

theorem game_files_size_counts_mods:
  assumes "lower_ok (dn_lower D)" "no_dangling (dn_follow D)" "valid_utf8 leaf" "leaf \<noteq> ''..''"
    and start: "ss_up (dk_cache s)" "synced (dk_cache s) = []"
    and depots: "di_depot_id d1 = 233781" "di_depot_id d2 = 233783"
    and runs: "real_server_sync D d1 k1 m1 leaf s (Dir i1 cs1) s1" "real_server_sync D d2 k2 m2 leaf s1 (Dir i2 cs2) s2"
    and mods: "map_of cs1 ''workshop'' = Some w1" "map_of cs2 ''workshop'' = Some w2"
  shows "total_game_files_size (dk_cache s2) = of_nat (tree_bytes (dn_follow D) (Dir i1 cs1) + tree_bytes (dn_follow D) (Dir i2 cs2))
    \<and> tree_bytes (dn_follow D) w1 + tree_bytes (dn_follow D) w2
        \<le> tree_bytes (dn_follow D) (Dir i1 cs1) + tree_bytes (dn_follow D) (Dir i2 cs2)"
proof -
  let ?b = "\<lambda>t. of_nat (tree_bytes (dn_follow D) t) :: u64"
  note game = game_key [of "dk_parent s" leaf]
  have leaf: "file_name (dk_parent s @ [leaf]) = Some leaf" using assms(4) by (simp add: file_name_def)
  from runs(1) have "dk_cache s1 = mark_synced (sync_key (di_depot_id d1) (dk_parent s @ [leaf])) (di_manifest_id d1) (?b (Dir i1 cs1)) (dk_cache s)
      \<and> dk_parent s1 = dk_parent s"
    unfolding real_server_sync_def using assms(1-3) by (intro server_sync_marks) (auto simp del: tree_bytes.simps)
  moreover from runs(2) have "dk_cache s2 = mark_synced (sync_key (di_depot_id d2) (dk_parent s1 @ [leaf])) (di_manifest_id d2) (?b (Dir i2 cs2)) (dk_cache s1)
      \<and> dk_parent s2 = dk_parent s1"
    unfolding real_server_sync_def using assms(1-3) by (intro server_sync_marks) (auto simp del: tree_bytes.simps)
  ultimately have "synced (dk_cache s2) = [(''233781/'' @ leaf, di_manifest_id d1, ?b (Dir i1 cs1)), (''233783/'' @ leaf, di_manifest_id d2, ?b (Dir i2 cs2))]"
    "ss_up (dk_cache s2)"
    using start depots game [OF leaf] by (auto simp: mark_synced_def swallow_def simp del: tree_bytes.simps)
  then have "total_game_files_size (dk_cache s2) = ?b (Dir i1 cs1) + ?b (Dir i2 cs2)"
    by (simp add: total_game_files_size_def snapshot_with_size_def starts_with_def del: tree_bytes.simps)
  then show ?thesis using subtree_bytes [OF mods(1)] subtree_bytes [OF mods(2)] by (simp add: add_mono del: tree_bytes.simps)
qed

lemma map_of_set_entry: "map_of cur n = Some u \<Longrightarrow> map_of (set_entry n t cur) n = Some t"
  by (induction cur) (auto simp: set_entry_def)

lemma finalize_root:
  assumes "map_of cur leaf = Some (Dir i cs)" "L leaf = leaf"
    and "finalize_walk L io follow check (parent @ [leaf]) cs cs \<lparr>fin_bytes = 0, fin_executables = []\<rparr> = (None, cs', st)"
  shows "finalize_synced_tree L io follow check parent leaf cur = (Inr st, set_entry leaf (Dir i cs') cur)"
proof -
  let ?cur = "set_entry leaf (Dir i cs') cur"
  have "finalize_entry L io follow check parent leaf ?cur st = (None, ?cur, st)"
    using assms(1,2) by (simp add: finalize_entry_def count_entry_def metadata_def Let_def)
  then show ?thesis using assms(1,3) by (simp add: finalize_synced_tree_def Let_def)
qed

lemma server_sync_run:
  assumes "last_manifest_id (sync_key (di_depot_id d) (dk_parent s @ [leaf])) (dk_cache s) \<noteq> Some (di_manifest_id d)"
    and "dn_sync D (di_depot_id d) m key False (map_of (dk_entries s) leaf) = (Inr (), Some (Dir i cs))"
    and "dir_wf (dk_entries s)" "tree_wf (Dir i cs)" "dn_lower D leaf = leaf"
    and "finalize_walk (dn_lower D) (dn_io D) (dn_follow D) True (dk_parent s @ [leaf]) cs cs \<lparr>fin_bytes = 0, fin_executables = []\<rparr> = (None, cs', st)"
  shows "\<exists>ents. sync_locked D d key m leaf True s = (Inr (), s\<lparr>dk_entries := ents, dk_executables := dk_executables s @ fin_executables st,
      dk_cache := mark_synced (sync_key (di_depot_id d) (dk_parent s @ [leaf])) (di_manifest_id d) (fin_bytes st) (dk_cache s)\<rparr>)
    \<and> map_of ents leaf = Some (Dir i cs') \<and> (tree_wf (Dir i cs') \<longrightarrow> dir_wf ents)"
proof -
  let ?cur = "put_entry leaf (Some (Dir i cs)) (dk_entries s)"
  note put = put_entry_wf [OF assms(3,4), of leaf]
  have "finalize_synced_tree (dn_lower D) (dn_io D) (dn_follow D) True (dk_parent s) leaf ?cur = (Inr st, set_entry leaf (Dir i cs') ?cur)"
    using finalize_root [OF conjunct2 [OF put] assms(5,6)] .
  moreover have "map_of (set_entry leaf (Dir i cs') ?cur) leaf = Some (Dir i cs')"
    using map_of_set_entry [OF conjunct2 [OF put]] .
  moreover have "tree_wf (Dir i cs') \<longrightarrow> dir_wf (set_entry leaf (Dir i cs') ?cur)" using dir_wf_set_entry [OF conjunct1 [OF put]] by blast
  moreover have "\<not> is_synced (sync_key (di_depot_id d) (dk_parent s @ [leaf])) (di_manifest_id d) b (dk_cache s)" for b
    using assms(1) by (simp add: is_synced_def)
  ultimately show ?thesis
    using assms(2) by (intro exI [of _ "set_entry leaf (Dir i cs') ?cur"]) (simp add: sync_locked_def Let_def del: tree_wf_dir)
qed

text \<open>A directory whose only file has a name that folds to another one, and a directory that holds both.\<close>

lemma count_ok: "\<forall>op. io op \<Longrightarrow> \<exists>st'. count_entry io follow check dir f t st = (None, st')"
  by (simp add: count_entry_def Let_def split: option.split tree.split)

lemma walk_single:
  assumes "valid_utf8 N" "L N = n" "n \<noteq> N" "\<forall>op. io op"
  shows "\<exists>st. finalize_walk L io follow check dir [(N, Leaf i b)] [(N, Leaf i b)] st0 = (None, [(n, Leaf i b)], st)"
proof -
  have cur: "rename_entry N n [(N, Leaf i b)] = [(n, Leaf i b)]" using assms(3)
    by (simp add: rename_entry_def remove_entry_def btree_insert_def)
  obtain st where "count_entry io follow check dir n (Some (Leaf i b)) st0 = (None, st)"
    using count_ok [OF assms(4)] by blast
  then have "finalize_entry L io follow check dir N [(N, Leaf i b)] st0 = (None, [(n, Leaf i b)], st)"
    using assms cur by (simp add: finalize_entry_def metadata_def Let_def)
  then show ?thesis by (simp add: set_entry_def Let_def)
qed

lemma entry_stays:
  assumes "\<forall>op. io op" "map_of cur f = Some (Leaf i b)" "L f = f \<or> map_of cur (L f) = Some (Leaf j c)"
  shows "\<exists>st. finalize_entry L io follow check dir f cur st0 = (None, cur, st)"
proof -
  obtain st where "count_entry io follow check dir f (Some (Leaf i b)) st0 = (None, st)"
    using count_ok [OF assms(1)] by blast
  then show ?thesis using assms(2,3) by (auto simp: finalize_entry_def metadata_def Let_def)
qed

lemma set_entry_same: "distinct (map fst cs) \<Longrightarrow> map_of cs n = Some t \<Longrightarrow> set_entry n t cs = cs"
  unfolding set_entry_def by (rule map_idI) (auto dest: eq_key_imp_eq_value)

lemma walk_stays:
  assumes "\<forall>op. io op" "distinct (map fst cur)" "set snap \<subseteq> set cur"
    and "\<forall>p \<in> set cur. \<exists>i b. snd p = Leaf i b" "\<forall>p \<in> set cur. L (fst p) \<in> fst ` set cur"
  shows "\<exists>st. finalize_walk L io follow check dir snap cur st0 = (None, cur, st)"
  using assms(3)
proof (induction snap arbitrary: st0)
  case (Cons p snap)
  obtain f t where p: "p = (f, t)" by (cases p)
  have in_cur: "(f, t) \<in> set cur" using Cons.prems p by simp
  obtain i b where t: "t = Leaf i b" using assms(4) in_cur by fastforce
  have f: "map_of cur f = Some (Leaf i b)" using in_cur t assms(2) by simp
  obtain u where "(L f, u) \<in> set cur" using assms(5) in_cur by fastforce
  with assms(2,4) obtain j c where "map_of cur (L f) = Some (Leaf j c)" by fastforce
  then obtain st1 where "finalize_entry L io follow check dir f cur st0 = (None, cur, st1)" using entry_stays [OF assms(1) f] by blast
  moreover obtain st where "finalize_walk L io follow check dir snap cur st1 = (None, cur, st)" using Cons by auto
  ultimately show ?case using set_entry_same [OF assms(2) f] by (simp add: p t Let_def)
qed simp

text \<open>A depot of one file \<open>N\<close>: \<open>sync_depot\<close> writes the manifest's bytes to it and leaves every other entry
  alone.\<close>

definition writes_only :: "download_env \<Rightarrow> u32 \<Rightarrow> string \<Rightarrow> (manifest \<Rightarrow> nat) \<Rightarrow> (manifest \<Rightarrow> string) \<Rightarrow> bool" where
  "writes_only D depot_id N node body = (\<forall>m key i cs. dn_sync D depot_id m key False (Some (Dir i cs))
     = (Inr (), Some (Dir i (put_entry N (Some (Leaf (node m) (body m))) cs))))"

lemma put_second:
  assumes "n \<noteq> N" "cs = put_entry N (Some u) [(n, t)]"
  shows "set cs = {(n, t), (N, u)}" "distinct (map fst cs)" "btree cs"
  using assms by (auto simp: put_entry_def remove_entry_def btree_insert_def)

text \<open>An update of the server leaves the old file in its place. The server's files are written under
  the names of the manifest and then renamed to lower case; the next version is written under the name of
  the manifest again, beside the renamed old file, and is not renamed because that name is taken. After a
  successful update, recorded as synced, the lower-case name that the first version was given still holds the old contents.\<close>

theorem server_update_leaves_stale_file:
  assumes names: "dn_lower D N = n" "dn_lower D n = n" "n \<noteq> N" "valid_utf8 N" "dn_lower D leaf = leaf"
    and io: "\<forall>op. dn_io D op" and sync: "writes_only D depot_id N node body"
    and start: "ss_up (dk_cache s)" "dir_wf (dk_entries s)" "map_of (dk_entries s) leaf = Some (Dir i [])"
    and k: "k = sync_key depot_id (dk_parent s @ [leaf])"
    and ids: "last_manifest_id k (dk_cache s) \<noteq> Some v1" "v1 \<noteq> v2"
  shows "\<exists>s1 s2 cs. sync_locked D \<lparr>di_depot_id = depot_id, di_manifest_id = v1, di_depot_from_app = None\<rparr> key m1 leaf True s = (Inr (), s1)
    \<and> map_of (dk_entries s1) leaf = Some (Dir i [(n, Leaf (node m1) (body m1))])
    \<and> sync_locked D \<lparr>di_depot_id = depot_id, di_manifest_id = v2, di_depot_from_app = None\<rparr> key m2 leaf True s1 = (Inr (), s2)
    \<and> map_of (dk_entries s2) leaf = Some (Dir i cs) \<and> last_manifest_id k (dk_cache s2) = Some v2
    \<and> map_of cs n = Some (Leaf (node m1) (body m1)) \<and> map_of cs N = Some (Leaf (node m2) (body m2))"
proof -
  let ?d = "\<lambda>v. \<lparr>di_depot_id = depot_id, di_manifest_id = v, di_depot_from_app = None\<rparr>"
  let ?cs = "put_entry N (Some (Leaf (node m2) (body m2))) [(n, Leaf (node m1) (body m1))]"
  note both = put_second [OF names(3) refl, of "Leaf (node m2) (body m2)" "Leaf (node m1) (body m1)"]
  have one: "dn_sync D depot_id m1 key False (map_of (dk_entries s) leaf) = (Inr (), Some (Dir i [(N, Leaf (node m1) (body m1))]))"
    using sync start(3) by (simp add: writes_only_def put_entry_def remove_entry_def btree_insert_def)
  obtain st1 where "finalize_walk (dn_lower D) (dn_io D) (dn_follow D) True (dk_parent s @ [leaf]) [(N, Leaf (node m1) (body m1))] [(N, Leaf (node m1) (body m1))]
      \<lparr>fin_bytes = 0, fin_executables = []\<rparr> = (None, [(n, Leaf (node m1) (body m1))], st1)"
    using walk_single [of N "dn_lower D" n "dn_io D"] names(1,3,4) io by blast
  from server_sync_run [OF _ _ start(2) _ names(5) this, of "?d v1" m1 key] one ids(1) k
  obtain s1 where s1: "sync_locked D (?d v1) key m1 leaf True s = (Inr (), s1)" "map_of (dk_entries s1) leaf = Some (Dir i [(n, Leaf (node m1) (body m1))])"
    "dir_wf (dk_entries s1)" "dk_parent s1 = dk_parent s" "dk_cache s1 = mark_synced k v1 (fin_bytes st1) (dk_cache s)"
    by (auto simp: dir_wf_def)
  have up: "ss_up (dk_cache s1)" "last_manifest_id k (dk_cache s1) = Some v1"
    using s1(5) start(1) by (simp_all add: mark_synced_last)
  have two: "dn_sync D depot_id m2 key False (map_of (dk_entries s1) leaf) = (Inr (), Some (Dir i ?cs))"
    using sync s1(2) by (simp add: writes_only_def)
  obtain st2 where "finalize_walk (dn_lower D) (dn_io D) (dn_follow D) True (dk_parent s1 @ [leaf]) ?cs ?cs \<lparr>fin_bytes = 0, fin_executables = []\<rparr> = (None, ?cs, st2)"
  proof -
    have "\<forall>p \<in> set ?cs. \<exists>i b. snd p = Leaf i b" "\<forall>p \<in> set ?cs. dn_lower D (fst p) \<in> fst ` set ?cs"
      unfolding both(1) using names(1,2) by simp_all
    with walk_stays [OF io both(2) subset_refl] that show thesis by blast
  qed
  from server_sync_run [OF _ _ s1(3) _ names(5) this, of "?d v2" m2 key] two up(2) ids(2) k s1(4)
  obtain s2 where s2: "sync_locked D (?d v2) key m2 leaf True s1 = (Inr (), s2)" "map_of (dk_entries s2) leaf = Some (Dir i ?cs)"
    "dk_cache s2 = mark_synced k v2 (fin_bytes st2) (dk_cache s1)"
    using both by (auto simp: dir_wf_def)
  moreover have "map_of ?cs n = Some (Leaf (node m1) (body m1))" "map_of ?cs N = Some (Leaf (node m2) (body m2))"
    using both(1) by (auto intro!: map_of_is_SomeI [OF both(2)])
  moreover have "last_manifest_id k (dk_cache s2) = Some v2"
    using s2(3) up(1) by (simp_all add: mark_synced_last)
  ultimately show ?thesis using s1(1,2) by blast
qed

section \<open>Metadata patches touch nothing else\<close>

lemma map_of_put_entry: "dir_wf cs \<Longrightarrow> map_of (put_entry n (Some (Leaf i b)) cs) k = (if k = n then Some (Leaf i b) else map_of cs k)"
proof -
  assume w: "dir_wf cs"
  note put = put_entry_wf [OF w, of "Leaf i b" n]
  have "map_of (btree_insert n (Leaf i b) (remove_entry n cs)) k = map_of cs k" if "k \<noteq> n"
  proof -
    have "map_of (remove_entry n cs) k = map_of cs k" using that by (induction cs) (auto simp: remove_entry_def)
    then show ?thesis using that w dir_wf_remove_entry by (simp add: map_of_btree_insert dir_wf_def)
  qed
  then show ?thesis using put by (simp add: put_entry_def)
qed

lemma write_file_effect:
  "dir_wf cs \<Longrightarrow> write_file io dir i n data cs = (r, cs') \<Longrightarrow>
    dir_wf cs' \<and> (\<forall>k. k \<noteq> n \<longrightarrow> map_of cs' k = map_of cs k) \<and> (r = Inr () \<longrightarrow> map_of cs' n = Some (Leaf i data))"
  using put_entry_wf [of cs "Leaf i data" n] by (auto simp: write_file_def map_of_put_entry split: if_splits)

lemma patch_meta_effect:
  assumes "dir_wf cs" "patch_meta io ws fresh dir mod_id cs = (r, cs')"
  shows "dir_wf cs' \<and> (\<forall>k. k \<noteq> ''meta.cpp'' \<longrightarrow> map_of cs' k = map_of cs k)"
proof (cases "cs' = cs")
  case False
  then obtain i data where "write_file io dir i ''meta.cpp'' data cs = (r, cs')"
    using assms(2) unfolding patch_meta_def by (auto split: option.splits tree.splits if_splits)
  from write_file_effect [OF assms(1) this] show ?thesis by (intro conjI; elim conjE)
qed (use assms in simp)

lemma patch_app_id_effect:
  assumes "dir_wf cs" "patch_app_id io ws dg dir rep cs = (r, cs')"
  shows "\<forall>k. k \<noteq> ''mod.cpp'' \<longrightarrow> map_of cs' k = map_of cs k"
proof (cases "cs' = cs")
  case False
  then obtain i data where "write_file io dir i ''mod.cpp'' data cs = (r, cs')"
    using assms(2) unfolding patch_app_id_def by (auto split: option.splits tree.splits if_splits)
  from write_file_effect [OF assms(1) this] show ?thesis by (elim conjE)
qed simp

text \<open>Whatever happens, only \<open>meta.cpp\<close> and \<open>mod.cpp\<close> can change, and after a success a mod that came without
  \<open>meta.cpp\<close> has one that names it.\<close>

theorem patch_touches_only_metadata:
  assumes "dir_wf cs" "patch_mod_metadata io ws dg fresh dir mod_id replace_app_id cs = (r, cs')"
  shows "\<forall>n. n \<noteq> ''meta.cpp'' \<longrightarrow> n \<noteq> ''mod.cpp'' \<longrightarrow> map_of cs' n = map_of cs n"
    and "map_of cs ''meta.cpp'' = None \<Longrightarrow> r = Inr () \<Longrightarrow>
      map_of cs' ''meta.cpp'' = Some (Leaf fresh (''protocol = 1;'' @ [CHR 0x0A] @ publishedid_line mod_id @ [CHR 0x0A]))"
proof -
  obtain r1 cs1 where p1: "patch_meta io ws fresh dir mod_id cs = (r1, cs1)" by fastforce
  note one = patch_meta_effect [OF assms(1) p1]
  have run: "(\<exists>e. r1 = Inl e \<and> r = Inl e \<and> cs' = cs1) \<or> (r1 = Inr () \<and> patch_app_id io ws dg dir replace_app_id cs1 = (r, cs'))"
    using assms(2) p1 by (auto simp: patch_mod_metadata_def split: sum.splits)
  have two: "\<forall>n. n \<noteq> ''mod.cpp'' \<longrightarrow> map_of cs' n = map_of cs1 n"
    using run
  proof (elim disjE exE conjE)
    assume "patch_app_id io ws dg dir replace_app_id cs1 = (r, cs')"
    then show ?thesis by (rule patch_app_id_effect [OF conjunct1 [OF one]])
  qed simp
  from one two show "\<forall>n. n \<noteq> ''meta.cpp'' \<longrightarrow> n \<noteq> ''mod.cpp'' \<longrightarrow> map_of cs' n = map_of cs n" by simp
  assume "map_of cs ''meta.cpp'' = None" "r = Inr ()"
  then have "write_file io dir fresh ''meta.cpp'' (''protocol = 1;'' @ [CHR 0x0A] @ publishedid_line mod_id @ [CHR 0x0A]) cs = (Inr (), cs1)"
    using run p1 by (auto simp: patch_meta_def)
  from write_file_effect [OF assms(1) this] two
  show "map_of cs' ''meta.cpp'' = Some (Leaf fresh (''protocol = 1;'' @ [CHR 0x0A] @ publishedid_line mod_id @ [CHR 0x0A]))" by simp
qed

section \<open>Witnesses\<close>

definition demo_root :: "string \<Rightarrow> tree" where
  "demo_root game = Dir 1 [(''Main.pbo'', Leaf 2 game), (''workshop'', Dir 3 [(''main.pbo'', Leaf 4 ''mod'')])]"

text \<open>\<open>sync_depot\<close> that writes the one file of the server.\<close>

definition demo_download_env :: download_env where
  "demo_download_env = \<lparr>dn_lower = demo_lower, dn_repair_io = \<lambda>_. True, dn_io = \<lambda>_. True, dn_follow = \<lambda>_. Some (Leaf 0 []),
     dn_decrypt = \<lambda>m _. Inr m,
     dn_sync = \<lambda>_ m _ _ t. (Inr (), map_option (\<lambda>t. case t of
       Dir i cs \<Rightarrow> Dir i (put_entry ''Main.pbo'' (Some (Leaf (length m) (map (\<lambda>_. CHR ''x'') m))) cs) | _ \<Rightarrow> t) t)\<rparr>"

definition demo_disk :: "(string \<times> tree) list \<Rightarrow> disk" where
  "demo_disk cs = \<lparr>dk_parent = [], dk_entries = [(''addons'', Dir 1 cs)], dk_cache = empty_state, dk_executables = []\<rparr>"

lemma demo_download_simps [simp]:
  "dn_lower demo_download_env = demo_lower" "dn_io demo_download_env op" "dn_follow demo_download_env i = Some (Leaf 0 [])"
  "lower_ok demo_lower" "no_dangling (dn_follow demo_download_env)"
  by (simp_all add: demo_download_env_def no_dangling_def demo_lower_ok)

theorem finalize_keeps_every_file_witness:
  "\<exists>st cur'. finalize_synced_tree demo_lower (\<lambda>_. True) (\<lambda>_. Some (Leaf 0 [])) True [] ''addons'' [(''addons'', Dir 1 [(''Main.pbo'', Leaf 2 ''xy'')])] = (Inr st, cur')
    \<and> fin_bytes st = 2 \<and> dir_holdings (\<lambda>u. u) demo_lower cur' = {([''addons'', ''main.pbo''], Leaf 2 ''xy'')}"
proof -
  let ?t = "Dir 1 [(''Main.pbo'', Leaf 2 ''xy'')]"
  have wf: "no_dangling (\<lambda>_. Some (Leaf 0 []))" "dir_wf [(''addons'', ?t)]" "map_of [(''addons'', ?t)] ''addons'' = Some ?t"
    by (simp_all add: no_dangling_def dir_wf_def)
  have run: "\<exists>st cur'. finalize_synced_tree demo_lower (\<lambda>_. True) (\<lambda>_. Some (Leaf 0 [])) True [] ''addons'' [(''addons'', ?t)] = (Inr st, cur')"
    by (simp add: finalize_synced_tree_def finalize_entry_def count_entry_def metadata_def KNOWN_SERVER_BINARIES_def demo_eval Let_def del: valid_utf8.simps)
  then obtain st cur' where run: "finalize_synced_tree demo_lower (\<lambda>_. True) (\<lambda>_. Some (Leaf 0 [])) True [] ''addons'' [(''addons'', ?t)] = (Inr st, cur')" by blast
  from finalize_keeps_every_file [OF demo_lower_ok wf run] run show ?thesis
    by (auto simp: dir_holdings_def folded_def demo_lower_def demo_utf8 simp del: valid_utf8.simps)
qed

theorem server_update_leaves_stale_file_witness:
  "\<exists>s1 s2 cs. sync_locked demo_download_env \<lparr>di_depot_id = 233781, di_manifest_id = 1, di_depot_from_app = None\<rparr> [] [1] ''addons'' True (demo_disk []) = (Inr (), s1)
    \<and> sync_locked demo_download_env \<lparr>di_depot_id = 233781, di_manifest_id = 2, di_depot_from_app = None\<rparr> [] [2, 2] ''addons'' True s1 = (Inr (), s2)
    \<and> map_of (dk_entries s2) ''addons'' = Some (Dir 1 cs) \<and> last_manifest_id ''233781/addons'' (dk_cache s2) = Some 2
    \<and> map_of cs ''main.pbo'' = Some (Leaf 1 ''x'') \<and> map_of cs ''Main.pbo'' = Some (Leaf 2 ''xx'')"
proof -
  let ?body = "map (\<lambda>_. CHR ''x'') :: manifest \<Rightarrow> string"
  have w: "writes_only demo_download_env 233781 ''Main.pbo'' length ?body" by (simp add: writes_only_def demo_download_env_def)
  have names: "dn_lower demo_download_env ''Main.pbo'' = ''main.pbo''" "dn_lower demo_download_env ''main.pbo'' = ''main.pbo''"
    "dn_lower demo_download_env ''addons'' = ''addons''" by (simp_all add: demo_lower_def)
  have s: "ss_up (dk_cache (demo_disk []))" "dir_wf (dk_entries (demo_disk []))" "map_of (dk_entries (demo_disk [])) ''addons'' = Some (Dir 1 [])"
    "''233781/addons'' = sync_key 233781 (dk_parent (demo_disk []) @ [''addons''])" "last_manifest_id ''233781/addons'' (dk_cache (demo_disk [])) \<noteq> Some 1"
    by (simp_all add: demo_disk_def empty_state_def dir_wf_def sync_key_def show_game_depots file_name_def last_manifest_id_def)
  have io: "\<forall>op. dn_io demo_download_env op" and ne: "(1 :: u64) \<noteq> 2" "''main.pbo'' \<noteq> ''Main.pbo''" by simp_all
  obtain s1 s2 cs where "sync_locked demo_download_env \<lparr>di_depot_id = 233781, di_manifest_id = 1, di_depot_from_app = None\<rparr> [] [1] ''addons'' True (demo_disk []) = (Inr (), s1)"
    "sync_locked demo_download_env \<lparr>di_depot_id = 233781, di_manifest_id = 2, di_depot_from_app = None\<rparr> [] [2, 2] ''addons'' True s1 = (Inr (), s2)"
    "map_of (dk_entries s2) ''addons'' = Some (Dir 1 cs)" "last_manifest_id ''233781/addons'' (dk_cache s2) = Some 2"
    "map_of cs ''main.pbo'' = Some (Leaf (length [1 :: u8]) (?body [1]))" "map_of cs ''Main.pbo'' = Some (Leaf (length [2 :: u8, 2]) (?body [2, 2]))"
    using server_update_leaves_stale_file [OF names(1,2) ne(2) demo_utf8(5) names(3) io w s ne(1), of "[]" "[1]" "[2, 2]"] by blast
  then show ?thesis by (intro exI [of _ s1] exI [of _ s2] exI [of _ cs]) (simp add: numeral_2_eq_2)
qed

lemma demo_walk:
  "\<exists>st. finalize_walk demo_lower (dn_io demo_download_env) (dn_follow demo_download_env) True dir
     [(''Main.pbo'', Leaf i b), (''workshop'', Dir 3 [(''main.pbo'', Leaf 4 ''mod'')])] [(''Main.pbo'', Leaf i b), (''workshop'', Dir 3 [(''main.pbo'', Leaf 4 ''mod'')])] st0
     = (None, [(''main.pbo'', Leaf i b), (''workshop'', Dir 3 [(''main.pbo'', Leaf 4 ''mod'')])], st)"
  "\<exists>st. finalize_walk demo_lower (dn_io demo_download_env) (dn_follow demo_download_env) True dir
     [(''Main.pbo'', Leaf i b), (''main.pbo'', Leaf j c), (''workshop'', Dir 3 [(''main.pbo'', Leaf 4 ''mod'')])]
     [(''Main.pbo'', Leaf i b), (''main.pbo'', Leaf j c), (''workshop'', Dir 3 [(''main.pbo'', Leaf 4 ''mod'')])] st0
     = (None, [(''Main.pbo'', Leaf i b), (''main.pbo'', Leaf j c), (''workshop'', Dir 3 [(''main.pbo'', Leaf 4 ''mod'')])], st)"
  by (simp_all add: finalize_entry_def count_entry_def metadata_def KNOWN_SERVER_BINARIES_def demo_eval less_char_def Let_def del: valid_utf8.simps)

abbreviation "demo_mods \<equiv> (''workshop'', Dir 3 [(''main.pbo'', Leaf 4 ''mod'')])"

lemma demo_put:
  "put_entry ''Main.pbo'' (Some t) [demo_mods] = [(''Main.pbo'', t), demo_mods]"
  "put_entry ''Main.pbo'' (Some t) [(''main.pbo'', u), demo_mods] = [(''Main.pbo'', t), (''main.pbo'', u), demo_mods]"
  by (simp_all add: put_entry_def remove_entry_def btree_insert_def less_char_def)

lemma demo_server_run:
  assumes wf: "dir_wf (dk_entries s)" "tree_wf (Dir 1 cs1)" "names_utf8 (Dir 1 cs1)" "tree_wf (Dir 1 cs2)"
    and s: "map_of (dk_entries s) ''addons'' = Some (Dir 1 cs)" "dk_parent s = []"
    and put: "put_entry ''Main.pbo'' (Some (Leaf (length m) (map (\<lambda>_. CHR ''x'') m))) cs = cs1"
    and fin: "finalize_walk demo_lower (dn_io demo_download_env) (dn_follow demo_download_env) True [''addons''] cs1 cs1
      \<lparr>fin_bytes = 0, fin_executables = []\<rparr> = (None, cs2, st)"
    and last: "last_manifest_id (sync_key (di_depot_id d) [''addons'']) (dk_cache s) \<noteq> Some (di_manifest_id d)"
  shows "\<exists>s'. real_server_sync demo_download_env d [] m ''addons'' s (Dir 1 cs1) s'
    \<and> dir_wf (dk_entries s') \<and> map_of (dk_entries s') ''addons'' = Some (Dir 1 cs2) \<and> dk_parent s' = []
    \<and> dk_cache s' = mark_synced (sync_key (di_depot_id d) [''addons'']) (di_manifest_id d) (fin_bytes st) (dk_cache s)"
proof -
  have sync: "dn_sync demo_download_env (di_depot_id d) m [] False (map_of (dk_entries s) ''addons'') = (Inr (), Some (Dir 1 cs1))"
    using s(1) put by (simp add: demo_download_env_def)
  have low: "dn_lower demo_download_env ''addons'' = ''addons''" by (simp add: demo_lower_def)
  have fin': "finalize_walk (dn_lower demo_download_env) (dn_io demo_download_env) (dn_follow demo_download_env) True (dk_parent s @ [''addons'']) cs1 cs1
      \<lparr>fin_bytes = 0, fin_executables = []\<rparr> = (None, cs2, st)" using fin s(2) by simp
  have last': "last_manifest_id (sync_key (di_depot_id d) (dk_parent s @ [''addons''])) (dk_cache s) \<noteq> Some (di_manifest_id d)" using last s(2) by simp
  obtain ents s' where run: "sync_locked demo_download_env d [] m ''addons'' True s = (Inr (), s')"
    and s': "s' = s\<lparr>dk_entries := ents, dk_executables := dk_executables s @ fin_executables st,
      dk_cache := mark_synced (sync_key (di_depot_id d) (dk_parent s @ [''addons''])) (di_manifest_id d) (fin_bytes st) (dk_cache s)\<rparr>"
    and ents: "map_of ents ''addons'' = Some (Dir 1 cs2)" "dir_wf ents"
    using server_sync_run [OF last' sync wf(1,2) low fin'] wf(4) by blast
  have "\<not> is_synced (sync_key (di_depot_id d) (dk_parent s @ [''addons''])) (di_manifest_id d) b (dk_cache s)" for b
    using last' by (simp add: is_synced_def)
  then have "real_server_sync demo_download_env d [] m ''addons'' s (Dir 1 cs1) s'"
    unfolding real_server_sync_def using run sync wf(1-3) by blast
  then show ?thesis using s' ents s(2) by auto
qed

theorem game_files_size_counts_mods_witness:
  "\<exists>s1 s2 t1 t2. real_server_sync demo_download_env \<lparr>di_depot_id = 233781, di_manifest_id = 1, di_depot_from_app = None\<rparr> [] [1] ''addons'' (demo_disk [demo_mods]) t1 s1
    \<and> real_server_sync demo_download_env \<lparr>di_depot_id = 233783, di_manifest_id = 2, di_depot_from_app = None\<rparr> [] [1, 2] ''addons'' s1 t2 s2
    \<and> total_game_files_size (dk_cache s2) = 10"
proof -
  let ?d1 = "\<lparr>di_depot_id = 233781, di_manifest_id = 1, di_depot_from_app = None\<rparr> :: depot_info" and ?d2 = "\<lparr>di_depot_id = 233783, di_manifest_id = 2, di_depot_from_app = None\<rparr> :: depot_info"
  let ?t1 = "Dir 1 [(''Main.pbo'', Leaf 1 ''x''), demo_mods]" and ?t2 = "Dir 1 [(''Main.pbo'', Leaf 2 ''xx''), (''main.pbo'', Leaf 1 ''x''), demo_mods]"
  have utf: "valid_utf8 ''workshop''" by (rule ascii_valid_utf8, simp add: in_range_def)
  have wf: "tree_wf ?t1" "tree_wf ?t2" "names_utf8 ?t1" "names_utf8 ?t2" "tree_wf (Dir 1 [(''main.pbo'', Leaf 1 ''x''), demo_mods])"
    by (simp_all add: dir_wf_def less_char_def demo_utf8 utf del: valid_utf8.simps)
  have keys: "sync_key 233781 [''addons''] = ''233781/addons''" "sync_key 233783 [''addons''] = ''233783/addons''"
    by (simp_all add: sync_key_def show_game_depots file_name_def)
  let ?s = "demo_disk [demo_mods]"
  have start: "dir_wf (dk_entries ?s)" "map_of (dk_entries ?s) ''addons'' = Some (Dir 1 [demo_mods])" "dk_parent ?s = []" "dk_cache ?s = empty_state"
    by (simp_all add: demo_disk_def dir_wf_def)
  have put: "put_entry ''Main.pbo'' (Some (Leaf (length [1 :: u8]) (map (\<lambda>_. CHR ''x'') [1 :: u8]))) [demo_mods] = [(''Main.pbo'', Leaf 1 ''x''), demo_mods]"
    "put_entry ''Main.pbo'' (Some (Leaf (length [1 :: u8, 2]) (map (\<lambda>_. CHR ''x'') [1 :: u8, 2]))) [(''main.pbo'', Leaf 1 ''x''), demo_mods]
      = [(''Main.pbo'', Leaf 2 ''xx''), (''main.pbo'', Leaf 1 ''x''), demo_mods]"
    by (simp_all only: demo_put) (simp_all add: numeral_2_eq_2)
  obtain st1 where w1: "finalize_walk demo_lower (dn_io demo_download_env) (dn_follow demo_download_env) True [''addons'']
      [(''Main.pbo'', Leaf 1 ''x''), demo_mods] [(''Main.pbo'', Leaf 1 ''x''), demo_mods] \<lparr>fin_bytes = 0, fin_executables = []\<rparr>
      = (None, [(''main.pbo'', Leaf 1 ''x''), demo_mods], st1)" using demo_walk(1) by blast
  have last1: "last_manifest_id (sync_key (di_depot_id ?d1) [''addons'']) (dk_cache ?s) \<noteq> Some (di_manifest_id ?d1)"
    by (simp add: start empty_state_def last_manifest_id_def)
  obtain s1 where s1: "real_server_sync demo_download_env ?d1 [] [1] ''addons'' ?s ?t1 s1" "dir_wf (dk_entries s1)"
    "map_of (dk_entries s1) ''addons'' = Some (Dir 1 [(''main.pbo'', Leaf 1 ''x''), demo_mods])" "dk_parent s1 = []"
    "dk_cache s1 = mark_synced (sync_key (di_depot_id ?d1) [''addons'']) (di_manifest_id ?d1) (fin_bytes st1) (dk_cache ?s)"
    using demo_server_run [OF start(1) wf(1,3,5) start(2,3) put(1) w1 last1] by blast
  obtain st2 where w2: "finalize_walk demo_lower (dn_io demo_download_env) (dn_follow demo_download_env) True [''addons'']
      [(''Main.pbo'', Leaf 2 ''xx''), (''main.pbo'', Leaf 1 ''x''), demo_mods] [(''Main.pbo'', Leaf 2 ''xx''), (''main.pbo'', Leaf 1 ''x''), demo_mods]
      \<lparr>fin_bytes = 0, fin_executables = []\<rparr> = (None, [(''Main.pbo'', Leaf 2 ''xx''), (''main.pbo'', Leaf 1 ''x''), demo_mods], st2)"
    using demo_walk(2) by blast
  have last2: "last_manifest_id (sync_key (di_depot_id ?d2) [''addons'']) (dk_cache s1) \<noteq> Some (di_manifest_id ?d2)"
    using s1(5) by (simp add: keys start empty_state_def last_manifest_id_def mark_synced_def swallow_def)
  obtain s2 where s2: "real_server_sync demo_download_env ?d2 [] [1, 2] ''addons'' s1 ?t2 s2"
    using demo_server_run [OF s1(2) wf(2,4,2) s1(3,4) put(2) w2 last2] by blast
  have ok: "lower_ok (dn_lower demo_download_env)" "no_dangling (dn_follow demo_download_env)" "valid_utf8 ''addons''" "''addons'' \<noteq> ''..''"
    "ss_up (dk_cache (demo_disk [demo_mods]))" "synced (dk_cache (demo_disk [demo_mods])) = []"
    by (simp_all add: demo_utf8 demo_disk_def empty_state_def del: valid_utf8.simps)
  from game_files_size_counts_mods [OF ok _ _ s1(1) s2] have "total_game_files_size (dk_cache s2) = 10" by simp
  then show ?thesis using s1(1) s2 by blast
qed

end
