(* ===== verification/SyncDaemon.thy ===== *)
theory SyncDaemon
  imports Collections SyncCache Controller
begin

text \<open>
  The sync daemon (\<open>services/sync-daemon\<close>) apart from collections: registering sources, the content
  pass, the RPCs, the reconciler of \<open>ModSource\<close> objects, the Steam session Secret and the QR login.
  The state is the stored objects, the sync cache, the number of content passes in flight, the spawned
  tasks, the QR logins, and the session Secret. Steam's answers,
  page fetches and the downloads of a pass are arguments; a download that ends well marks its cache key.
  A task is spawned by recording it; it runs when the environment runs it. Capacity reservations and
  metrics are not modelled.
\<close>

section \<open>State\<close>

datatype qr_login_state = QrPending | QrConfirmed string | QrFailed string

record steam_session =
  ses_user :: string
  ses_refresh_token :: string

datatype daemon_task = SyncTask string | QrTask string | ExitTask

record daemon = kube +
  dm_cache :: sync_state
  dm_bad :: bool
  dm_syncing :: nat
  dm_tasks :: "daemon_task list"
  dm_qr :: "(string \<times> qr_login_state) list"
  dm_secret :: "(string \<times> string) list option"

type_synonym 'a daemon_act = "(daemon, any_error, 'a) act"

text \<open>A download of a pass: the cache key it marks, its manifest and size, and how it ends.\<close>

record download =
  dl_key :: string
  dl_manifest :: u64
  dl_size :: u64
  dl_result :: "any_error + unit"

record daemon_env =
  de_steam :: steam_env
  de_authenticated :: bool
  de_server :: "sync_state \<Rightarrow> any_error + download list"
  de_mods :: "sync_state \<Rightarrow> u64 list \<Rightarrow> any_error + download list"
  de_done :: nat
  de_http_get :: "string \<Rightarrow> string + string"
  de_read_file :: "string \<Rightarrow> string + string"
  de_drift_requeue :: nat

section \<open>The session Secret\<close>

definition read_session :: "(string \<times> string) list option \<Rightarrow> steam_session option" where
  "read_session secret =
    (case secret of
       None \<Rightarrow> None
     | Some data \<Rightarrow>
         (case (map_of data ''steam_user'', map_of data ''refresh_token'') of
            (Some user, Some token) \<Rightarrow>
              if \<not> valid_utf8 user \<or> \<not> valid_utf8 token \<or> user = [] \<or> token = [] then None
              else Some \<lparr>ses_user = user, ses_refresh_token = token\<rparr>
          | _ \<Rightarrow> None))"

text \<open>A merge patch of the one Secret, which the chart creates.\<close>

definition write_session :: "steam_session \<Rightarrow> (daemon, string, unit) act" where
  "write_session ses = act_map_err kube_text (api_call (\<lambda>s.
    case dm_secret s of
      None \<Rightarrow> (Inl KubeNotFound, s)
    | Some data \<Rightarrow> (Inr (), s\<lparr>dm_secret := Some (AList.update ''refresh_token'' (ses_refresh_token ses)
        (AList.update ''steam_user'' (ses_user ses) data))\<rparr>)))"

datatype steam_auth = AnonymousAuth | CredentialsAuth string string | SessionAuth string string

definition startup_auth :: "steam_session option \<Rightarrow> bool \<Rightarrow> steam_auth option" where
  "startup_auth stored anonymous_login =
    (case stored of
       Some ses \<Rightarrow> Some (SessionAuth (ses_user ses) (ses_refresh_token ses))
     | None \<Rightarrow> if anonymous_login then Some AnonymousAuth else None)"

text \<open>\<open>usize\<close> is 64 bits wide.\<close>

definition DEFAULT_DOWNLOAD_WORKERS :: u64 where "DEFAULT_DOWNLOAD_WORKERS = 8"

record daemon_config =
  dc_anonymous :: bool
  dc_content_root :: string
  dc_csi_capacity_url :: "string option"
  dc_listen_addr :: string
  dc_pool_size :: u64
  dc_download_workers :: u64
  dc_poll_interval_secs :: u64
  dc_content_sync_interval_secs :: u64
  dc_namespace :: string
  dc_steam_session_secret_name :: string

definition env_u64 :: "(string \<rightharpoonup> string) \<Rightarrow> string \<Rightarrow> u64 \<Rightarrow> u64" where
  "env_u64 env k dflt = (case Option.bind (env k) parse_uint of Some w \<Rightarrow> w | None \<Rightarrow> dflt)"

definition bool_env :: "(string \<rightharpoonup> string) \<Rightarrow> string \<Rightarrow> bool \<Rightarrow> bool" where
  "bool_env env k dflt = (case env k of Some v \<Rightarrow> to_lowercase v = ''true'' | None \<Rightarrow> dflt)"

definition daemon_config_from_env :: "(string \<rightharpoonup> string) \<Rightarrow> daemon_config" where
  "daemon_config_from_env env =
    \<lparr>dc_anonymous = bool_env env ''ANONYMOUS_LOGIN'' False,
     dc_content_root = env_or env ''CONTENT_ROOT'' ''/content'',
     dc_csi_capacity_url = (case env ''CSI_CAPACITY_URL'' of Some v \<Rightarrow> if v \<noteq> [] then Some v else None | None \<Rightarrow> None),
     dc_listen_addr = env_or env ''LISTEN_ADDR'' ''0.0.0.0:8080'',
     dc_pool_size = env_u64 env ''POOL_SIZE'' 4,
     dc_download_workers = env_u64 env ''DOWNLOAD_WORKERS'' DEFAULT_DOWNLOAD_WORKERS,
     dc_poll_interval_secs = env_u64 env ''POLL_INTERVAL_SECS'' 1800,
     dc_content_sync_interval_secs = env_u64 env ''CONTENT_SYNC_INTERVAL_SECS'' 21600,
     dc_namespace = env_or env ''NAMESPACE'' ''default'',
     dc_steam_session_secret_name = env_or env ''STEAM_SESSION_SECRET_NAME'' ''arma-steam-session''\<rparr>"

section \<open>Sources\<close>

definition cache_err :: "cache_error \<Rightarrow> any_error" where
  "cache_err e = bail_msg ''sync state unavailable''"

definition cache_write :: "(sync_state \<Rightarrow> cache_error + sync_state) \<Rightarrow> unit daemon_act" where
  "cache_write f = (\<lambda>s. case f (dm_cache s) of Inl e \<Rightarrow> (Inl (cache_err e), s) | Inr c \<Rightarrow> (Inr (), s\<lparr>dm_cache := c\<rparr>))"

definition cache_read :: "(sync_state \<Rightarrow> cache_error + 'a) \<Rightarrow> 'a daemon_act" where
  "cache_read f = (\<lambda>s. (map_err cache_err (f (dm_cache s)), s))"

definition cache_modify :: "(sync_state \<Rightarrow> sync_state) \<Rightarrow> unit daemon_act" where
  "cache_modify f = modify_act (\<lambda>s. s\<lparr>dm_cache := f (dm_cache s)\<rparr>)"

text \<open>A Steam request on a pooled connection: a transient failure marks the connection.\<close>

definition on_pool :: "daemon_env \<Rightarrow> any_error + 'a \<Rightarrow> 'a daemon_act" where
  "on_pool E r =
    (case r of
       Inr v \<Rightarrow> ret v
     | Inl e \<Rightarrow> act_bind (act_when (is_transient e) (modify_act (\<lambda>s. s\<lparr>dm_bad := True\<rparr>))) (\<lambda>_. throw e))"

record register_outcome =
  rs_mods :: "resolved_mod list"
  rs_root_title :: string
  rs_root_is_collection :: "bool option"

definition steam_resolve :: "daemon_env \<Rightarrow> u64 list \<Rightarrow> any_error + resolve_outcome" where
  "steam_resolve E ids =
    map_err (\<lambda>m. AnyErr (se_cause (de_steam E) m) m) (resolve_source_ids (se_details (de_steam E)) ids)"

definition register_source_impl :: "daemon_env \<Rightarrow> u64 list \<Rightarrow> string \<Rightarrow> register_outcome daemon_act" where
  "register_source_impl E ids source_id =
    act_bind (lift_res (require_pool (de_steam E))) (\<lambda>_.
    act_bind (on_pool E (steam_resolve E ids)) (\<lambda>outcome.
    act_bind (cache_write (upsert_source source_id ids)) (\<lambda>_.
    act_bind (cache_write (set_source_mods source_id (map rm_id (ro_mods outcome)))) (\<lambda>_.
    act_bind (for_each (\<lambda>m. cache_modify (record_mod_title (rm_id m) (rm_title m))) (ro_mods outcome)) (\<lambda>_.
    ret \<lparr>rs_mods = ro_mods outcome,
         rs_root_title = (case ids of [i] \<Rightarrow> (case map_of (ro_candidate_titles outcome) i of Some t \<Rightarrow> t | None \<Rightarrow> []) | _ \<Rightarrow> []),
         rs_root_is_collection = (case ids of [i] \<Rightarrow> map_of (ro_candidate_is_collection outcome) i | _ \<Rightarrow> None)\<rparr>)))))"

definition refresh_source_impl :: "daemon_env \<Rightarrow> string \<Rightarrow> register_outcome daemon_act" where
  "refresh_source_impl E source_id =
    act_bind (cache_read (candidate_ids_for_source source_id)) (\<lambda>known.
    case known of
      None \<Rightarrow> throw (bail_msg (''unknown source: '' @ source_id))
    | Some ids \<Rightarrow> register_source_impl E ids source_id)"

section \<open>A content pass\<close>

text \<open>Joining the spawned downloads in the order they end: the first failure aborts the rest.\<close>

fun join_downloads :: "download list \<Rightarrow> unit daemon_act" where
  "join_downloads [] = ret ()"
| "join_downloads (d # ds) =
     (case dl_result d of
        Inl e \<Rightarrow> throw e
      | Inr _ \<Rightarrow> act_bind (cache_modify (mark_synced (dl_key d) (dl_manifest d) (dl_size d))) (\<lambda>_. join_downloads ds))"

text \<open>When the mod phase fails before the join, the downloads that had ended by then have marked the
  cache and the others are aborted.\<close>

definition ended :: "download list \<Rightarrow> sync_state \<Rightarrow> sync_state" where
  "ended ds = fold (\<lambda>d. mark_synced (dl_key d) (dl_manifest d) (dl_size d)) (filter (\<lambda>d. dl_result d = Inr ()) ds)"

definition pass_body :: "daemon_env \<Rightarrow> unit daemon_act" where
  "pass_body E =
    act_bind (lift_res (require_pool (de_steam E))) (\<lambda>_.
    act_bind (if de_authenticated E
       then act_bind (gets_act dm_cache) (\<lambda>c. act_match (on_pool E (de_server E c)) (\<lambda>r. ret (case r of Inr ds \<Rightarrow> ds | Inl _ \<Rightarrow> [])))
       else ret []) (\<lambda>server.
    act_bind (cache_read desired_mod_ids) (\<lambda>desired.
    if desired = [] then join_downloads server
    else act_bind (gets_act dm_cache) (\<lambda>c. act_match (on_pool E (de_mods E c desired)) (\<lambda>r.
      case r of
        Inl e \<Rightarrow> act_bind (cache_modify (ended (take (de_done E) server))) (\<lambda>_. throw e)
      | Inr ms \<Rightarrow> join_downloads (server @ ms))))))"

text \<open>\<open>SyncingGuard\<close>: the counter is raised for the duration of the pass, however it ends.\<close>

definition sync_content :: "daemon_env \<Rightarrow> unit daemon_act" where
  "sync_content E =
    act_bind (modify_act (\<lambda>s. s\<lparr>dm_syncing := dm_syncing s + 1\<rparr>)) (\<lambda>_.
    act_match (pass_body E) (\<lambda>r.
    act_bind (modify_act (\<lambda>s. s\<lparr>dm_syncing := dm_syncing s - 1\<rparr>)) (\<lambda>_. lift_res r)))"

definition spawn_task :: "daemon_task \<Rightarrow> (daemon, 'e, unit) act" where
  "spawn_task t = modify_act (\<lambda>s. s\<lparr>dm_tasks := dm_tasks s @ [t]\<rparr>)"

section \<open>RPCs\<close>

type_synonym 'a daemon_rpc = "(daemon, connect_error, 'a) act"

definition register_source_rpc :: "daemon_env \<Rightarrow> u64 list \<Rightarrow> string \<Rightarrow> ((u64 \<times> string) list \<times> string) daemon_rpc" where
  "register_source_rpc E ids source_id =
    act_bind (act_map_err internal_any (register_source_impl E ids source_id)) (\<lambda>out.
    ret (map (\<lambda>m. (rm_id m, rm_title m)) (rs_mods out), rs_root_title out))"

definition deregister_source_rpc :: "string \<Rightarrow> unit daemon_rpc" where
  "deregister_source_rpc source_id = act_map_err internal_any (cache_write (delete_source source_id))"

definition sync_content_rpc :: "unit daemon_rpc" where
  "sync_content_rpc = spawn_task (SyncTask ''SyncContent RPC'')"

definition get_source_mods_rpc :: "string \<Rightarrow> u64 list daemon_rpc" where
  "get_source_mods_rpc source_id = act_map_err internal_any (cache_read (mod_ids_for_source source_id))"

definition refresh_source_rpc :: "daemon_env \<Rightarrow> string \<Rightarrow> (u64 \<times> string) list daemon_rpc" where
  "refresh_source_rpc E source_id =
    act_bind (act_map_err internal_any (refresh_source_impl E source_id)) (\<lambda>out.
    ret (map (\<lambda>m. (rm_id m, rm_title m)) (rs_mods out)))"

definition list_synced_mods_rpc :: "synced_mod_row list daemon_rpc" where
  "list_synced_mods_rpc = gets_act (\<lambda>s. list_synced_mods (dm_cache s))"

definition daemon_synced_mod_rpc :: "u64 \<Rightarrow> (synced_mod_row option \<times> string list) daemon_rpc" where
  "daemon_synced_mod_rpc i = gets_act (\<lambda>s. (get_synced_mod i (dm_cache s), sources_for_mod i (dm_cache s)))"

definition get_sync_stats_rpc :: "(u64 \<times> u64) daemon_rpc" where
  "get_sync_stats_rpc = gets_act (\<lambda>s. (total_mods_size (dm_cache s), total_game_files_size (dm_cache s)))"


definition daemon_invalidate_rpc :: "u64 \<Rightarrow> unit daemon_rpc" where
  "daemon_invalidate_rpc i = modify_act (\<lambda>s. s\<lparr>dm_cache := invalidate (''107410/'' @ show_word i) (dm_cache s)\<rparr>)"

definition begin_qr_login_rpc :: "string + string \<Rightarrow> string \<Rightarrow> (string \<times> string) daemon_rpc" where
  "begin_qr_login_rpc begun session_id =
    act_bind (lift_res (map_err (\<lambda>e. Internal (''failed to begin QR login: '' @ e)) begun)) (\<lambda>challenge_url.
    act_bind (modify_act (\<lambda>s. s\<lparr>dm_qr := AList.update session_id QrPending (dm_qr s)\<rparr>)) (\<lambda>_.
    act_bind (spawn_task (QrTask session_id)) (\<lambda>_.
    ret (session_id, challenge_url))))"

text \<open>The spawned wait of a QR login: Steam's outcome is an argument.\<close>

definition qr_task :: "string \<Rightarrow> string + string \<times> string \<Rightarrow> unit daemon_rpc" where
  "qr_task session_id outcome =
    (let record_state = (\<lambda>st. modify_act (\<lambda>s. s\<lparr>dm_qr := AList.update session_id st (dm_qr s)\<rparr>)) in
     case outcome of
       Inl e \<Rightarrow> record_state (QrFailed e)
     | Inr (username, refresh_token) \<Rightarrow>
         act_match (write_session \<lparr>ses_user = username, ses_refresh_token = refresh_token\<rparr>) (\<lambda>r.
         case r of
           Inl e \<Rightarrow> record_state (QrFailed (''failed to persist new Steam session: '' @ e))
         | Inr _ \<Rightarrow> act_bind (record_state (QrConfirmed username)) (\<lambda>_. spawn_task ExitTask)))"

definition poll_qr_login_rpc :: "string \<Rightarrow> (bool \<times> string) daemon_rpc" where
  "poll_qr_login_rpc session_id = (\<lambda>s.
    (case map_of (dm_qr s) session_id of
       Some QrPending \<Rightarrow> Inr (False, [])
     | Some (QrConfirmed username) \<Rightarrow> Inr (True, username)
     | Some (QrFailed e) \<Rightarrow> Inl (Internal e)
     | None \<Rightarrow> Inl (NotFound ''unknown QR login session -- it may have completed and restarted this service, or expired''), s))"

definition refresh_steam_auth_rpc :: "string \<Rightarrow> string \<Rightarrow> unit daemon_rpc" where
  "refresh_steam_auth_rpc username refresh_token =
    act_bind (act_map_err (\<lambda>e. Internal (''failed to persist new Steam session: '' @ e))
      (write_session \<lparr>ses_user = username, ses_refresh_token = refresh_token\<rparr>)) (\<lambda>_. spawn_task ExitTask)"

section \<open>The ModSource reconciler\<close>

definition SOURCE_FAST_REQUEUE :: nat where "SOURCE_FAST_REQUEUE = 5"

text \<open>The comparison with the object's status keeps a status that does not change from being written.\<close>

definition set_source_status :: "mod_source \<Rightarrow> mod_source_status \<Rightarrow> unit daemon_act" where
  "set_source_status obj st =
    (if src_status obj = Some st then ret ()
     else act_bind (act_map_err (\<lambda>e. bail_msg (kube_text e))
       (api_patch k_sources k_sources_update src_name (src_name obj) (\<lambda>x. x\<lparr>src_status := Some st\<rparr>))) (\<lambda>_. ret ()))"

definition source_candidates :: "daemon_env \<Rightarrow> mod_source_input \<Rightarrow> any_error + (u64 list \<times> string option)" where
  "source_candidates E inp =
    (case inp of
       SteamUrl url \<Rightarrow>
         rbind (ok_or (extract_single_id url) (bail_msg (''not a recognizable Workshop filedetails URL: '' @ url))) (\<lambda>i. Inr ([i], None))
     | HtmlUrl url \<Rightarrow>
         rbind (map_err bail_msg (extract_candidate_ids (de_http_get E) (de_read_file E) url)) (\<lambda>ids. Inr (ids, Some ''preset''))
     | HtmlContent html \<Rightarrow>
         (let ids = parse_preset_html html in
          if ids = [] then Inl (bail_msg ''no filedetails links found in html_content'') else Inr (ids, Some ''preset''))
     | Local _ \<Rightarrow> Inl (bail_msg ''handled by apply() before calling resolve()''))"

definition sizes_of :: "synced_mod_row list \<Rightarrow> u64 list \<Rightarrow> u64" where
  "sizes_of sizes ids =
    sum_list (List.map_filter (\<lambda>i. map_option sm_size_bytes (find (\<lambda>m. sm_mod_id m = i) sizes)) ids)"

definition resolved_status :: "string option \<Rightarrow> register_outcome \<Rightarrow> synced_mod_row list \<Rightarrow> mod_source_status" where
  "resolved_status kind_hint out sizes =
    (let ids = sort (map rm_id (rs_mods out)) in
     \<lparr>ms_phase = MsSynced,
      ms_kind = (case kind_hint of Some k \<Rightarrow> k | None \<Rightarrow> if rs_root_is_collection out = Some True then ''collection'' else ''mod''),
      ms_display_name = rs_root_title out, ms_resolved_mod_ids = ids, ms_size_bytes = sizes_of sizes ids, ms_message = []\<rparr>)"

definition was_already_synced :: "mod_source \<Rightarrow> bool" where
  "was_already_synced obj = (case src_status obj of Some st \<Rightarrow> ms_phase st = MsSynced | None \<Rightarrow> False)"

definition resolve_source :: "daemon_env \<Rightarrow> mod_source \<Rightarrow> action daemon_act" where
  "resolve_source E obj =
    act_bind (lift_res (source_candidates E (src_input obj))) (\<lambda>(ids, kind_hint).
    act_match (register_source_impl E ids (src_name obj)) (\<lambda>r.
    case r of
      Inr out \<Rightarrow>
        act_bind (gets_act (\<lambda>s. list_synced_mods (dm_cache s))) (\<lambda>sizes.
        act_bind (set_source_status obj (resolved_status kind_hint out sizes)) (\<lambda>_.
        act_bind (act_when (\<not> was_already_synced obj) (spawn_task (SyncTask (src_name obj)))) (\<lambda>_.
        ret (Requeue (de_drift_requeue E)))))
    | Inl e \<Rightarrow>
        act_bind (set_source_status obj (mod_source_status_default\<lparr>ms_phase := MsFailed, ms_message := err_text e\<rparr>)) (\<lambda>_.
        ret (Requeue SOURCE_FAST_REQUEUE))))"

definition apply_source :: "daemon_env \<Rightarrow> mod_source \<Rightarrow> action daemon_act" where
  "apply_source E obj = (case src_input obj of Local _ \<Rightarrow> ret AwaitChange | _ \<Rightarrow> resolve_source E obj)"

definition cleanup_source :: "mod_source \<Rightarrow> action daemon_act" where
  "cleanup_source obj =
    act_bind (case src_input obj of Local _ \<Rightarrow> ret () | _ \<Rightarrow> cache_write (delete_source (src_name obj))) (\<lambda>_. ret AwaitChange)"

definition reconcile_source :: "daemon_env \<Rightarrow> mod_source finalizer_event \<Rightarrow> action daemon_act" where
  "reconcile_source E ev = (case ev of FinalizerApply obj \<Rightarrow> apply_source E obj | FinalizerCleanup obj \<Rightarrow> cleanup_source obj)"

definition source_error_policy :: "daemon_env \<Rightarrow> action" where
  "source_error_policy E = Requeue (de_drift_requeue E)"

section \<open>Lemmas\<close>

lemma cache_write_eval [act_simps]:
  "cache_write f s = (case f (dm_cache s) of Inl e \<Rightarrow> (Inl (cache_err e), s) | Inr c \<Rightarrow> (Inr (), s\<lparr>dm_cache := c\<rparr>))"
  by (simp add: cache_write_def)

lemma cache_read_eval [act_simps]: "cache_read f s = (map_err cache_err (f (dm_cache s)), s)"
  by (simp add: cache_read_def)

lemma cache_modify_eval [act_simps]: "cache_modify f s = (Inr (), s\<lparr>dm_cache := f (dm_cache s)\<rparr>)"
  by (simp add: cache_modify_def act_simps)

lemma on_pool_Inr [act_simps]: "on_pool E (Inr v) s = (Inr v, s)"
  by (simp add: on_pool_def act_simps)

lemma on_pool_Inl: "\<exists>b. on_pool E (Inl e) s = (Inl e, s\<lparr>dm_bad := b\<rparr>)"
proof (cases "is_transient e")
  case False
  then show ?thesis by (intro exI [of _ "dm_bad s"]) (simp add: on_pool_def act_simps)
qed (auto simp: on_pool_def act_simps)

text \<open>Titles touch nothing else of the cache.\<close>

lemma record_mod_title_keeps [simp]:
  "source_mods (record_mod_title i t c) = source_mods c" "sources (record_mod_title i t c) = sources c"
  "synced (record_mod_title i t c) = synced c" "ss_up (record_mod_title i t c) = ss_up c"
  by (simp_all add: record_mod_title_def swallow_def)

definition record_titles :: "resolved_mod list \<Rightarrow> sync_state \<Rightarrow> sync_state" where
  "record_titles ms c = fold (\<lambda>m. record_mod_title (rm_id m) (rm_title m)) ms c"

lemma record_titles_keeps [simp]:
  "source_mods (record_titles ms c) = source_mods c" "sources (record_titles ms c) = sources c"
  "synced (record_titles ms c) = synced c" "ss_up (record_titles ms c) = ss_up c"
  unfolding record_titles_def by (induction ms arbitrary: c) simp_all

lemma record_titles_act:
  "for_each (\<lambda>m. cache_modify (record_mod_title (rm_id m) (rm_title m))) ms s = (Inr (), s\<lparr>dm_cache := record_titles ms (dm_cache s)\<rparr>)"
  unfolding record_titles_def by (induction ms arbitrary: s) (simp_all add: act_simps)

definition register_result :: "u64 list \<Rightarrow> resolve_outcome \<Rightarrow> register_outcome" where
  "register_result ids outcome =
    \<lparr>rs_mods = ro_mods outcome,
     rs_root_title = (case ids of [i] \<Rightarrow> (case map_of (ro_candidate_titles outcome) i of Some t \<Rightarrow> t | None \<Rightarrow> []) | _ \<Rightarrow> []),
     rs_root_is_collection = (case ids of [i] \<Rightarrow> map_of (ro_candidate_is_collection outcome) i | _ \<Rightarrow> None)\<rparr>"

definition registered :: "u64 list \<Rightarrow> string \<Rightarrow> resolve_outcome \<Rightarrow> sync_state \<Rightarrow> sync_state" where
  "registered ids n outcome c =
    record_titles (ro_mods outcome)
      (case rbind (upsert_source n ids c) (set_source_mods n (map rm_id (ro_mods outcome))) of Inr c' \<Rightarrow> c' | Inl _ \<Rightarrow> c)"

lemma upsert_up: "upsert_source n ids c = Inr c' \<Longrightarrow> ss_up c \<and> ss_up c' \<and> source_mods c' = source_mods c \<and> synced c' = synced c
    \<and> map_of (sources c') n = Some ids"
  by (auto simp: upsert_source_def result_simps update_conv')

lemma set_mods_up: "set_source_mods n ids c = Inr c' \<Longrightarrow> synced c' = synced c"
  by (auto simp: set_source_mods_def result_simps Let_def)

lemma up_writes: "ss_up c \<Longrightarrow> \<exists>c' c''. upsert_source n ids c = Inr c' \<and> set_source_mods n ms c' = Inr c''"
  by (simp add: upsert_source_def set_source_mods_def exec_def Let_def)

lemma registered_keeps:
  assumes "ss_up c"
  shows "ss_up (registered ids n outcome c)" "synced (registered ids n outcome c) = synced c"
    "membership (registered ids n outcome c) = (membership c)(n := set (map rm_id (ro_mods outcome)))"
    "map_of (sources (registered ids n outcome c)) n = Some ids"
proof -
  obtain c' c'' where w: "upsert_source n ids c = Inr c'" "set_source_mods n (map rm_id (ro_mods outcome)) c' = Inr c''"
    using up_writes [OF assms] by blast
  have reg: "registered ids n outcome c = record_titles (ro_mods outcome) c''" by (simp add: registered_def w)
  note u = upsert_up [OF w(1)] and m = set_source_mods_rows [OF w(2)] and k = set_mods_up [OF w(2)]
  show "ss_up (registered ids n outcome c)" "synced (registered ids n outcome c) = synced c"
    "map_of (sources (registered ids n outcome c)) n = Some ids"
    using u m(3,4) k by (simp_all add: reg)
  have "membership c' = membership c" using u by (simp add: membership_def fun_eq_iff)
  then show "membership (registered ids n outcome c) = (membership c)(n := set (map rm_id (ro_mods outcome)))"
    using m(1) by (simp add: reg membership_def fun_eq_iff)
qed

lemma register_runs:
  assumes "se_pool (de_steam E)" "ss_up (dm_cache s)" "steam_resolve E ids = Inr outcome"
  shows "register_source_impl E ids n s = (Inr (register_result ids outcome), s\<lparr>dm_cache := registered ids n outcome (dm_cache s)\<rparr>)"
proof -
  obtain c' c'' where "upsert_source n ids (dm_cache s) = Inr c'" "set_source_mods n (map rm_id (ro_mods outcome)) c' = Inr c''"
    using up_writes [OF assms(2)] by blast
  then show ?thesis
    using assms(1,3)
    by (simp add: register_source_impl_def require_pool_def act_simps record_titles_act registered_def register_result_def)
qed

lemma register_unresolved:
  assumes "steam_resolve E ids = Inl e"
  shows "\<exists>e' b. register_source_impl E ids n s = (Inl e', s\<lparr>dm_bad := b\<rparr>)"
proof (cases "se_pool (de_steam E)")
  case True
  obtain b where "on_pool E (Inl e :: any_error + resolve_outcome) s = (Inl e, s\<lparr>dm_bad := b\<rparr>)" using on_pool_Inl by blast
  with True assms have "register_source_impl E ids n s = (Inl e, s\<lparr>dm_bad := b\<rparr>)"
    by (simp add: register_source_impl_def require_pool_def act_simps)
  then show ?thesis by blast
next
  case False
  then show ?thesis
    by (intro exI [of _ "bail_msg ''no Steam session established -- call RefreshSteamAuth first''"] exI [of _ "dm_bad s"])
       (simp add: register_source_impl_def require_pool_def act_simps)
qed

lemma register_success:
  assumes "register_source_impl E ids n s = (Inr out, s')"
  shows "\<exists>outcome. steam_resolve E ids = Inr outcome \<and> se_pool (de_steam E) \<and> ss_up (dm_cache s)
    \<and> out = register_result ids outcome \<and> s' = s\<lparr>dm_cache := registered ids n outcome (dm_cache s)\<rparr>"
proof -
  have pool: "se_pool (de_steam E)"
    using assms by (auto simp: register_source_impl_def require_pool_def ensure_def act_simps split: if_splits)
  obtain outcome where res: "steam_resolve E ids = Inr outcome"
  proof (cases "steam_resolve E ids")
    case (Inl e)
    then show ?thesis using assms register_unresolved [OF Inl, of n s] by auto
  qed
  have "ss_up (dm_cache s)"
    using assms pool res
    by (auto simp: register_source_impl_def require_pool_def act_simps upsert_source_def exec_def split: if_splits)
  with register_runs [OF pool this res, of n] assms res pool show ?thesis by auto
qed

text \<open>Registering a source. A success stores the candidates, makes the source's membership exactly
  the mods Steam resolved them to, and leaves every other membership and all sync marks alone; when
  Steam cannot be asked, the cache stays as it was.\<close>

theorem register_source_replaces_membership:
  assumes "register_source_impl E ids n s = (r, s')"
  shows "(\<forall>out. r = Inr out \<longrightarrow>
      membership (dm_cache s') = (membership (dm_cache s))(n := set (map rm_id (rs_mods out)))
      \<and> map_of (sources (dm_cache s')) n = Some ids \<and> synced (dm_cache s') = synced (dm_cache s))
    \<and> (\<forall>e. steam_resolve E ids = Inl e \<longrightarrow> dm_cache s' = dm_cache s)"
proof (rule conjI; intro allI impI)
  fix out
  assume "r = Inr out"
  with assms obtain outcome where "ss_up (dm_cache s)" "out = register_result ids outcome"
    "s' = s\<lparr>dm_cache := registered ids n outcome (dm_cache s)\<rparr>" by (auto dest: register_success)
  then show "membership (dm_cache s') = (membership (dm_cache s))(n := set (map rm_id (rs_mods out)))
      \<and> map_of (sources (dm_cache s')) n = Some ids \<and> synced (dm_cache s') = synced (dm_cache s)"
    using registered_keeps by (simp add: register_result_def)
next
  fix e
  assume "steam_resolve E ids = Inl e"
  from register_unresolved [OF this, of n s] assms show "dm_cache s' = dm_cache s" by auto
qed

section \<open>A recheck that finds nothing new is quiet\<close>

lemma find_size: "map_option sm_size_bytes (find (\<lambda>m. sm_mod_id m = i) xs) = map_of (map (\<lambda>m. (sm_mod_id m, sm_size_bytes m)) xs) i"
  by (induction xs) auto

lemma synced_mod_pair:
  "map_option (\<lambda>m. (sm_mod_id m, sm_size_bytes m)) (synced_mod_of c row) =
   map_option (\<lambda>m. (sm_mod_id m, sm_size_bytes m)) (synced_mod_of c' row)"
  by (auto simp: synced_mod_of_def option.map_comp o_def split: prod.splits option.splits)

lemma sizes_cong:
  assumes "synced c' = synced c" "ss_up c' = ss_up c"
  shows "sizes_of (list_synced_mods c') ids = sizes_of (list_synced_mods c) ids"
proof -
  have "map (\<lambda>m. (sm_mod_id m, sm_size_bytes m)) (List.map_filter (synced_mod_of c') rows) =
      map (\<lambda>m. (sm_mod_id m, sm_size_bytes m)) (List.map_filter (synced_mod_of c) rows)" for rows
  proof (induction rows)
    case (Cons row rows)
    show ?case
      using synced_mod_pair [of c' row c] Cons
      by (cases "synced_mod_of c' row"; cases "synced_mod_of c row") (auto simp: map_filter_simps)
  qed (simp add: map_filter_simps)
  then have "map (\<lambda>m. (sm_mod_id m, sm_size_bytes m)) (list_synced_mods c') = map (\<lambda>m. (sm_mod_id m, sm_size_bytes m)) (list_synced_mods c)"
    using assms by (simp add: list_synced_mods_def)
  then show ?thesis by (simp add: sizes_of_def find_size)
qed

text \<open>What the order of Steam's answer cannot change.\<close>

definition same_resolution :: "u64 list \<Rightarrow> resolve_outcome \<Rightarrow> resolve_outcome \<Rightarrow> bool" where
  "same_resolution ids a b =
    (mset (map rm_id (ro_mods a)) = mset (map rm_id (ro_mods b))
     \<and> rs_root_title (register_result ids a) = rs_root_title (register_result ids b)
     \<and> rs_root_is_collection (register_result ids a) = rs_root_is_collection (register_result ids b))"

lemma resolved_status_cong:
  assumes "same_resolution ids a b" "synced c' = synced c" "ss_up c' = ss_up c"
  shows "resolved_status hint (register_result ids a) (list_synced_mods c') = resolved_status hint (register_result ids b) (list_synced_mods c)"
proof -
  have "sort (map rm_id (ro_mods a)) = sort (map rm_id (ro_mods b))"
    using assms(1) by (intro properties_for_sort) (simp_all add: same_resolution_def)
  then show ?thesis
    using assms(1) sizes_cong [OF assms(2,3)]
    by (simp add: resolved_status_def same_resolution_def register_result_def Let_def)
qed

lemma resolve_source_success:
  assumes cand: "source_candidates E (src_input obj) = Inr (ids, hint)" and res: "steam_resolve E ids = Inr out"
    and run: "resolve_source E obj s = (Inr a, s1)" and pool: "se_pool (de_steam E)" and up: "ss_up (dm_cache s)"
    and stored: "obj_get src_name (k_sources s) (src_name obj) = Some obj"
  defines "c \<equiv> registered ids (src_name obj) out (dm_cache s)"
  defines "st \<equiv> resolved_status hint (register_result ids out) (list_synced_mods c)"
  shows "dm_cache s1 = c" "obj_get src_name (k_sources s1) (src_name obj) = Some (obj\<lparr>src_status := Some st\<rparr>)"
    "dm_tasks s1 = dm_tasks s @ (if was_already_synced obj then [] else [SyncTask (src_name obj)])"
    "dm_syncing s1 = dm_syncing s"
proof -
  let ?s = "s\<lparr>dm_cache := c\<rparr>"
  have reg: "register_source_impl E ids (src_name obj) s = (Inr (register_result ids out), ?s)"
    using register_runs [OF pool up res] by (simp add: c_def)
  obtain t where set: "set_source_status obj st ?s = (Inr (), t)"
    and s1: "s1 = t\<lparr>dm_tasks := dm_tasks t @ (if was_already_synced obj then [] else [SyncTask (src_name obj)])\<rparr>"
    using run cand reg
    by (auto simp: resolve_source_def act_simps st_def spawn_task_def split: prod.splits sum.splits if_splits)
  have t: "dm_cache t = c \<and> dm_tasks t = dm_tasks s \<and> dm_syncing t = dm_syncing s
      \<and> obj_get src_name (k_sources t) (src_name obj) = Some (obj\<lparr>src_status := Some st\<rparr>)"
  proof (cases "src_status obj = Some st")
    case True
    then have "obj\<lparr>src_status := Some st\<rparr> = obj" by simp
    with True set stored show ?thesis by (auto simp: set_source_status_def act_simps)
  next
    case False
    with set obtain x where "api_patch k_sources k_sources_update src_name (src_name obj) (\<lambda>x. x\<lparr>src_status := Some st\<rparr>) ?s = (Inr x, t)"
      by (auto simp: set_source_status_def act_simps result_simps split: prod.splits sum.splits)
    from api_call_success [OF this [unfolded api_patch_def]] stored show ?thesis by (auto simp: sources.get_update)
  qed
  show "dm_cache s1 = c" "obj_get src_name (k_sources s1) (src_name obj) = Some (obj\<lparr>src_status := Some st\<rparr>)"
    "dm_tasks s1 = dm_tasks s @ (if was_already_synced obj then [] else [SyncTask (src_name obj)])"
    "dm_syncing s1 = dm_syncing s"
    using t by (simp_all add: s1)
qed

text \<open>While the API answers, a pass that resolves succeeds.\<close>

lemma resolve_source_runs:
  assumes cand: "source_candidates E (src_input obj) = Inr (ids, hint)" and pool: "se_pool (de_steam E)" and up: "ss_up (dm_cache s)"
    and res: "steam_resolve E ids = Inr out" and stored: "obj_get src_name (k_sources s) (src_name obj) = Some obj"
    and calm: "k_replies s = []"
  shows "\<exists>s1. resolve_source E obj s = (Inr (Requeue (de_drift_requeue E)), s1)"
proof -
  let ?s = "s\<lparr>dm_cache := registered ids (src_name obj) out (dm_cache s)\<rparr>"
  have "\<exists>t. set_source_status obj st ?s = (Inr (), t)" for st
    using stored calm by (simp add: set_source_status_def api_patch_def act_simps)
  then obtain t where "set_source_status obj (resolved_status hint (register_result ids out)
      (list_synced_mods (registered ids (src_name obj) out (dm_cache s)))) ?s = (Inr (), t)" by blast
  then show ?thesis
    using cand register_runs [OF pool up res, of "src_name obj"] by (simp add: resolve_source_def act_simps spawn_task_def)
qed

text \<open>A recheck that finds nothing new is quiet. After a pass that resolved a source, a further
  pass in which Steam names the same mods, in whatever order, writes no status, makes no API call at all
  and starts no download, so the reconciler does not wake itself up.\<close>

theorem drift_recheck_is_quiet:
  assumes cand: "source_candidates E (src_input obj) = Inr (ids, hint)" "source_candidates E' (src_input obj) = Inr (ids, hint)"
    and pool: "se_pool (de_steam E)" "se_pool (de_steam E')" and up: "ss_up (dm_cache s)"
    and res: "steam_resolve E ids = Inr a" "steam_resolve E' ids = Inr b" "same_resolution ids b a"
    and stored: "obj_get src_name (k_sources s) (src_name obj) = Some obj"
    and run: "resolve_source E obj s = (Inr act, s1)"
  shows "\<exists>obj1 s2. obj_get src_name (k_sources s1) (src_name obj) = Some obj1
    \<and> resolve_source E' obj1 s1 = (Inr (Requeue (de_drift_requeue E')), s2)
    \<and> k_sources s2 = k_sources s1 \<and> k_replies s2 = k_replies s1 \<and> dm_tasks s2 = dm_tasks s1"
proof -
  let ?n = "src_name obj"
  let ?c = "registered ids ?n a (dm_cache s)"
  let ?st = "resolved_status hint (register_result ids a) (list_synced_mods ?c)"
  let ?obj = "obj\<lparr>src_status := Some ?st\<rparr>"
  note first = resolve_source_success [OF cand(1) res(1) run pool(1) up stored]
  have up1: "ss_up (dm_cache s1)" using first(1) registered_keeps(1) [OF up] by simp
  let ?c2 = "registered ids ?n b (dm_cache s1)"
  have "resolved_status hint (register_result ids b) (list_synced_mods ?c2) = ?st"
    using registered_keeps [OF up1] first(1) registered_keeps(1) [OF up]
    by (intro resolved_status_cong [OF res(3)]) simp_all
  moreover have "was_already_synced ?obj" by (simp add: was_already_synced_def resolved_status_def Let_def)
  ultimately have "resolve_source E' ?obj s1 = (Inr (Requeue (de_drift_requeue E')), s1\<lparr>dm_cache := ?c2\<rparr>)"
    using cand(2) register_runs [OF pool(2) up1 res(2), of ?n]
    by (simp add: resolve_source_def act_simps set_source_status_def)
  with first(2) show ?thesis by auto
qed

section \<open>Content passes\<close>

lemma keeps_on_pool: "keeps (\<lambda>s. dm_syncing s = n) (on_pool E r)"
  by (auto simp: on_pool_def intro!: triple_intros split: sum.split)

lemma keeps_cache:
  "keeps (\<lambda>s. dm_syncing s = n) (cache_modify f)" "keeps (\<lambda>s. dm_syncing s = n) (cache_read g)"
  by (auto simp: triple_def act_simps split: sum.splits)

lemma keeps_join: "keeps (\<lambda>s. dm_syncing s = n) (join_downloads ds)"
  by (induction ds) (auto intro!: triple_intros keeps_cache split: sum.split)

lemma pass_keeps_count: "keeps (\<lambda>s. dm_syncing s = n) (pass_body E)"
  unfolding pass_body_def
  by (auto intro!: triple_intros keeps_on_pool keeps_cache keeps_join triple_if split: sum.split)

lemma sync_content_run:
  assumes "pass_body E (s\<lparr>dm_syncing := dm_syncing s + 1\<rparr>) = (r, t)"
  shows "sync_content E s = (r, t\<lparr>dm_syncing := dm_syncing s\<rparr>)"
proof -
  have "dm_syncing t = dm_syncing s + 1"
    using keepsD [OF pass_keeps_count, of "s\<lparr>dm_syncing := dm_syncing s + 1\<rparr>" "dm_syncing s + 1" E] assms by simp
  then show ?thesis using assms by (simp add: sync_content_def act_simps split: sum.split)
qed

definition mark_all :: "download list \<Rightarrow> sync_state \<Rightarrow> sync_state" where
  "mark_all ds c = fold (\<lambda>d. mark_synced (dl_key d) (dl_manifest d) (dl_size d)) ds c"

lemma join_success:
  "join_downloads ds s = (Inr (), s') \<Longrightarrow> dm_cache s' = mark_all ds (dm_cache s) \<and> list_all (\<lambda>d. dl_result d = Inr ()) ds"
  unfolding mark_all_def by (induction ds arbitrary: s) (auto simp: act_simps split: sum.splits)

text \<open>The mark of a key after a batch, when the downloads with that key agree on the manifest.\<close>

lemma mark_all_last:
  "ss_up c \<Longrightarrow> (\<forall>d \<in> set ds. dl_key d = k \<longrightarrow> dl_manifest d = m) \<Longrightarrow> (\<exists>d \<in> set ds. dl_key d = k) \<or> last_manifest_id k c = Some m
    \<Longrightarrow> last_manifest_id k (mark_all ds c) = Some m"
proof (induction ds arbitrary: c)
  case (Cons d ds)
  let ?c = "mark_synced (dl_key d) (dl_manifest d) (dl_size d) c"
  have "(\<exists>e \<in> set ds. dl_key e = k) \<or> last_manifest_id k ?c = Some m" using Cons.prems by (auto simp: mark_synced_last)
  with Cons.IH [of ?c] Cons.prems show ?case by (simp add: mark_all_def mark_synced_last)
qed (simp add: mark_all_def)

lemma pass_marks:
  assumes "sync_content E s = (Inr (), s')" "de_authenticated E" "de_server E (dm_cache s) = Inr ds"
    and "desired_mod_ids (dm_cache s) = Inr ids" "ids \<noteq> []" "de_mods E (dm_cache s) ids = Inr ms"
  shows "dm_cache s' = mark_all (ds @ ms) (dm_cache s) \<and> ss_up (dm_cache s)"
proof -
  let ?s = "s\<lparr>dm_syncing := dm_syncing s + 1\<rparr>"
  obtain q t where body: "pass_body E ?s = (q, t)" by fastforce
  from sync_content_run [OF this] assms(1) have r: "q = Inr ()" "s' = t\<lparr>dm_syncing := dm_syncing s\<rparr>" by simp_all
  have "join_downloads (ds @ ms) ?s = (Inr (), t)"
    using body r(1) assms by (auto simp: pass_body_def require_pool_def ensure_def act_simps split: if_splits)
  from join_success [OF this] r(2) assms(4) show ?thesis by (simp add: desired_mod_ids_def result_simps)
qed

text \<open>In any case the mark is that of the last download with the key.\<close>

lemma mark_all_some:
  assumes "ss_up c"
  shows "ss_up (mark_all ds c)"
    and "d \<in> set ds \<Longrightarrow> \<exists>e \<in> set ds. dl_key e = dl_key d \<and> last_manifest_id (dl_key d) (mark_all ds c) = Some (dl_manifest e)"
proof (induction ds arbitrary: d rule: rev_induct)
  case (snoc x ds)
  {
    case 1
    show ?case using snoc(1) by (simp add: mark_all_def mark_synced_last)
  next
    case 2
    have last: "last_manifest_id k (mark_all (ds @ [x]) c) =
        (if k = dl_key x then Some (dl_manifest x) else last_manifest_id k (mark_all ds c))" for k
      using snoc(1) by (simp add: mark_all_def mark_synced_last)
    show ?case using 2 snoc(2) [of d] unfolding last by (cases "dl_key d = dl_key x") auto
  }
qed (simp_all add: mark_all_def assms)

definition spawned_server :: "daemon_env \<Rightarrow> sync_state \<Rightarrow> download list" where
  "spawned_server E c = (if de_authenticated E then (case de_server E c of Inr ds \<Rightarrow> ds | Inl _ \<Rightarrow> []) else [])"

lemma pass_success:
  assumes "sync_content E s = (Inr (), s')"
  shows "\<exists>ids ms t0. desired_mod_ids (dm_cache s) = Inr ids \<and> (if ids = [] then ms = [] else de_mods E (dm_cache s) ids = Inr ms)
    \<and> dm_cache t0 = dm_cache s \<and> join_downloads (spawned_server E (dm_cache s) @ ms) t0 = (Inr (), s'\<lparr>dm_syncing := dm_syncing t0\<rparr>)"
proof -
  let ?s = "s\<lparr>dm_syncing := dm_syncing s + 1\<rparr>"
  obtain q t where body: "pass_body E ?s = (q, t)" by fastforce
  from sync_content_run [OF this] assms have r: "q = Inr ()" "s' = t\<lparr>dm_syncing := dm_syncing s\<rparr>" by simp_all
  have count: "dm_syncing t = dm_syncing ?s" using keepsD [OF pass_keeps_count, of ?s "dm_syncing ?s" E] body by simp
  obtain b where server: "(act_bind (gets_act dm_cache) (\<lambda>c. act_match (on_pool E (de_server E c)) (\<lambda>r. ret (case r of Inr ds \<Rightarrow> ds | Inl _ \<Rightarrow> [])))
        :: download list daemon_act) ?s =
      (Inr (case de_server E (dm_cache s) of Inr ds \<Rightarrow> ds | Inl _ \<Rightarrow> []), ?s\<lparr>dm_bad := b\<rparr>)"
  proof (cases "de_server E (dm_cache s)")
    case (Inl e)
    obtain b where "on_pool E (Inl e :: any_error + download list) ?s = (Inl e, ?s\<lparr>dm_bad := b\<rparr>)" using on_pool_Inl by blast
    then show ?thesis using that [of b] Inl by (simp add: act_simps)
  next
    case (Inr ds)
    then show ?thesis using that [of "dm_bad s"] by (simp add: act_simps)
  qed
  obtain t0 where t0: "dm_cache t0 = dm_cache s" "dm_syncing t0 = dm_syncing ?s"
    "(if de_authenticated E then act_bind (gets_act dm_cache) (\<lambda>c. act_match (on_pool E (de_server E c)) (\<lambda>r. ret (case r of Inr ds \<Rightarrow> ds | Inl _ \<Rightarrow> [])))
       else ret [] :: download list daemon_act) ?s = (Inr (spawned_server E (dm_cache s)), t0)"
  proof (cases "de_authenticated E")
    case True
    show ?thesis by (rule that [of "?s\<lparr>dm_bad := b\<rparr>"]) (simp, simp, simp only: True if_True server spawned_server_def)
  next
    case False
    show ?thesis by (rule that [of ?s]) (simp_all add: False spawned_server_def act_simps)
  qed
  have pool: "(lift_res (require_pool (de_steam E)) :: unit daemon_act) ?s = (Inr (), ?s)"
    using body r(1) by (cases "se_pool (de_steam E)") (auto simp: pass_body_def require_pool_def ensure_def act_simps)
  have rest: "act_bind (cache_read desired_mod_ids) (\<lambda>desired.
      if desired = [] then join_downloads (spawned_server E (dm_cache s))
      else act_bind (gets_act dm_cache) (\<lambda>c. act_match (on_pool E (de_mods E c desired)) (\<lambda>r.
        case r of
          Inl e \<Rightarrow> act_bind (cache_modify (ended (take (de_done E) (spawned_server E (dm_cache s))))) (\<lambda>_. throw e)
        | Inr ms \<Rightarrow> join_downloads (spawned_server E (dm_cache s) @ ms)))) t0 = (Inr (), t)"
    using body r(1) unfolding pass_body_def act_bind_def [of "lift_res _"] pool prod.case sum.case
    by (simp only: act_bind_def [of "if _ then _ else _"] t0(3) prod.case sum.case)
  then obtain ids where ids: "desired_mod_ids (dm_cache s) = Inr ids"
    using t0(1) by (cases "desired_mod_ids (dm_cache s)") (auto simp: act_simps)
  have "\<exists>ms. (if ids = [] then ms = [] else de_mods E (dm_cache s) ids = Inr ms)
      \<and> join_downloads (spawned_server E (dm_cache s) @ ms) t0 = (Inr (), t)"
  proof (cases "ids = []")
    case False
    show ?thesis
    proof (cases "de_mods E (dm_cache s) ids")
      case (Inl e)
      obtain b where "on_pool E (Inl e :: any_error + download list) t0 = (Inl e, t0\<lparr>dm_bad := b\<rparr>)" using on_pool_Inl by blast
      then show ?thesis using rest ids False Inl t0(1) by (simp add: act_simps)
    qed (use rest ids False t0(1) in \<open>simp add: act_simps\<close>)
  qed (use rest ids t0(1) in \<open>simp add: act_simps\<close>)
  moreover have "s'\<lparr>dm_syncing := dm_syncing t0\<rparr> = t" using r(2) t0(2) count by simp
  ultimately show ?thesis using ids t0(1) by metis
qed

text \<open>C39: What a content pass leaves, whatever of it fails. The count of passes in flight is restored however
  the pass ends. A pass that succeeds has asked for the mods of every source; every download it set out to do
  has ended well, those of the server depots (none when no session is authenticated or Steam does not say
  which) and those of the mods; and each of their keys is marked with a manifest just downloaded under it.\<close>

theorem successful_pass_syncs_everything:
  assumes "sync_content E s = (r, s')"
  shows "dm_syncing s' = dm_syncing s
    \<and> (r = Inr () \<longrightarrow> (\<exists>ids ms. set ids = snd ` set (source_mods (dm_cache s))
        \<and> (if ids = [] then ms = [] else de_mods E (dm_cache s) ids = Inr ms)
        \<and> (\<forall>d \<in> set ((if de_authenticated E then (case de_server E (dm_cache s) of Inr ds \<Rightarrow> ds | Inl _ \<Rightarrow> []) else []) @ ms).
            dl_result d = Inr ()
            \<and> (\<exists>e \<in> set ((if de_authenticated E then (case de_server E (dm_cache s) of Inr ds \<Rightarrow> ds | Inl _ \<Rightarrow> []) else []) @ ms).
                dl_key e = dl_key d \<and> last_manifest_id (dl_key d) (dm_cache s') = Some (dl_manifest e)))))"
  unfolding spawned_server_def [symmetric]
proof (intro conjI impI)
  obtain q t where "pass_body E (s\<lparr>dm_syncing := dm_syncing s + 1\<rparr>) = (q, t)" by fastforce
  from sync_content_run [OF this] assms show "dm_syncing s' = dm_syncing s" by auto
next
  assume "r = Inr ()"
  with pass_success [of E s s'] assms obtain ids ms t0 where run: "desired_mod_ids (dm_cache s) = Inr ids"
      "if ids = [] then ms = [] else de_mods E (dm_cache s) ids = Inr ms" "dm_cache t0 = dm_cache s"
      "join_downloads (spawned_server E (dm_cache s) @ ms) t0 = (Inr (), s'\<lparr>dm_syncing := dm_syncing t0\<rparr>)" by blast
  have up: "ss_up (dm_cache s)" and ids: "set ids = snd ` set (source_mods (dm_cache s))"
    using run(1) by (auto simp: desired_mod_ids_def result_simps)
  let ?ds = "spawned_server E (dm_cache s) @ ms"
  have marks: "dm_cache s' = mark_all ?ds (dm_cache s)" and ended: "list_all (\<lambda>d. dl_result d = Inr ()) ?ds"
    using join_success [OF run(4)] run(3) by simp_all
  have "\<forall>d \<in> set ?ds. dl_result d = Inr ()
      \<and> (\<exists>e \<in> set ?ds. dl_key e = dl_key d \<and> last_manifest_id (dl_key d) (dm_cache s') = Some (dl_manifest e))"
    unfolding marks using ended mark_all_some(2) [OF up] by (simp only: list_all_iff) blast
  with ids run(2) show "\<exists>ids ms. set ids = snd ` set (source_mods (dm_cache s))
      \<and> (if ids = [] then ms = [] else de_mods E (dm_cache s) ids = Inr ms)
      \<and> (\<forall>d \<in> set (spawned_server E (dm_cache s) @ ms). dl_result d = Inr ()
        \<and> (\<exists>e \<in> set (spawned_server E (dm_cache s) @ ms). dl_key e = dl_key d
            \<and> last_manifest_id (dl_key d) (dm_cache s') = Some (dl_manifest e)))" by blast
qed



section \<open>The session Secret\<close>

text \<open>A session written is the session read at the next start, which it then logs in with.\<close>

theorem session_roundtrip:
  assumes "write_session ses s = (Inr u, s')" "ses_user ses \<noteq> []" "ses_refresh_token ses \<noteq> []"
    "valid_utf8 (ses_user ses)" "valid_utf8 (ses_refresh_token ses)"
  shows "read_session (dm_secret s') = Some ses
    \<and> startup_auth (read_session (dm_secret s')) anonymous = Some (SessionAuth (ses_user ses) (ses_refresh_token ses))"
proof -
  obtain x where "api_call (\<lambda>s. case dm_secret s of
      None \<Rightarrow> (Inl KubeNotFound, s)
    | Some data \<Rightarrow> (Inr (), s\<lparr>dm_secret := Some (AList.update ''refresh_token'' (ses_refresh_token ses)
        (AList.update ''steam_user'' (ses_user ses) data))\<rparr>)) s = (Inr x, s')"
    using assms(1) by (auto simp: write_session_def act_simps result_simps split: prod.splits)
  from api_call_success [OF this] have "read_session (dm_secret s') = Some ses"
    using assms(2-5) by (auto simp: read_session_def update_conv' split: option.splits)
  then show ?thesis by (simp add: startup_auth_def)
qed

section \<open>Witnesses\<close>

definition demo_source_obj :: "mod_source_status option \<Rightarrow> mod_source" where
  "demo_source_obj st = \<lparr>src_name = ''ace'', src_annotations = [], src_input = SteamUrl (workshop_url 5), src_status = st,
     src_finalizers = [], src_deleting = False\<rparr>"

definition demo_daemon :: daemon where
  "demo_daemon = \<lparr>k_servers = [], k_sources = [demo_source_obj None], k_replies = [], k_sync_log = [], dm_cache = empty_state,
     dm_bad = False, dm_syncing = 0, dm_tasks = [], dm_qr = [], dm_secret = Some []\<rparr>"

definition demo_daemon_env :: daemon_env where
  "demo_daemon_env = \<lparr>de_steam = demo_steam_env, de_authenticated = True, de_server = (\<lambda>_. Inr []),
     de_mods = (\<lambda>_ _. Inl (AnyErr (Some (EResultErr 50)) ''rate limited'')), de_done = 0,
     de_http_get = (\<lambda>_. Inl []), de_read_file = (\<lambda>_. Inl []), de_drift_requeue = 1800\<rparr>"

lemma demo_candidates: "source_candidates demo_daemon_env (src_input (demo_source_obj st)) = Inr ([5], None)"
  using extract_single_id_workshop_url [of 5] by (simp add: source_candidates_def demo_source_obj_def)

lemma demo_resolves:
  "\<exists>a. steam_resolve demo_daemon_env [5] = Inr a \<and> ro_mods a \<noteq> [] \<and> set (map rm_id (ro_mods a)) = {5}"
proof -
  have "case resolve_source_ids demo_details [5] of Inl _ \<Rightarrow> False | Inr r \<Rightarrow> ro_mods r \<noteq> [] \<and> set (map rm_id (ro_mods r)) = {5}"
    by code_simp
  then show ?thesis
    by (auto simp: steam_resolve_def demo_daemon_env_def demo_steam_env_def split: sum.splits)
qed

lemma demo_env_simps [simp]:
  "se_pool (de_steam demo_daemon_env)" "ss_up (dm_cache demo_daemon)" "dm_syncing demo_daemon = 0"
  "obj_get src_name (k_sources demo_daemon) (src_name (demo_source_obj None)) = Some (demo_source_obj None)"
  by (simp_all add: demo_daemon_env_def demo_steam_env_def demo_daemon_def empty_state_def obj_get_def)


lemma demo_first_pass: "\<exists>a s1. resolve_source demo_daemon_env (demo_source_obj None) demo_daemon = (Inr a, s1)"
proof -
  obtain a where a: "steam_resolve demo_daemon_env [5] = Inr a" using demo_resolves by blast
  have "\<exists>s1. resolve_source demo_daemon_env (demo_source_obj None) demo_daemon = (Inr (Requeue (de_drift_requeue demo_daemon_env)), s1)"
    by (rule resolve_source_runs [OF demo_candidates demo_env_simps(1,2) a demo_env_simps(4)]) (simp add: demo_daemon_def)
  then show ?thesis by blast
qed

theorem register_source_replaces_membership_witness:
  "\<exists>out s'. register_source_impl demo_daemon_env [5] ''ace'' demo_daemon = (Inr out, s')
     \<and> membership (dm_cache s') ''ace'' = {5}"
proof -
  obtain a where a: "steam_resolve demo_daemon_env [5] = Inr a" "set (map rm_id (ro_mods a)) = {5}" using demo_resolves by blast
  note run = register_runs [OF demo_env_simps(1,2) a(1), of "''ace''"]
  have "set (map rm_id (rs_mods (register_result [5] a))) = {5}" using a(2) by (simp only: register_result_def register_outcome.simps)
  then have "membership (dm_cache (demo_daemon\<lparr>dm_cache := registered [5] ''ace'' a (dm_cache demo_daemon)\<rparr>)) ''ace'' = {5}"
    using register_source_replaces_membership [OF run] by (metis fun_upd_same)
  with run show ?thesis by blast
qed

theorem drift_recheck_is_quiet_witness:
  "\<exists>a s1 obj1 s2. resolve_source demo_daemon_env (demo_source_obj None) demo_daemon = (Inr a, s1)
     \<and> resolve_source demo_daemon_env obj1 s1 = (Inr (Requeue 1800), s2) \<and> k_sources s2 = k_sources s1 \<and> dm_tasks s2 = dm_tasks s1"
proof -
  obtain a where a: "steam_resolve demo_daemon_env [5] = Inr a" using demo_resolves by blast
  obtain r s1 where run: "resolve_source demo_daemon_env (demo_source_obj None) demo_daemon = (Inr r, s1)"
    using demo_first_pass by blast
  have "same_resolution [5] a a" by (simp add: same_resolution_def)
  from drift_recheck_is_quiet [OF demo_candidates demo_candidates demo_env_simps(1,1,2) a a this demo_env_simps(4) run] run
  show ?thesis by (auto simp: demo_daemon_env_def)
qed

definition demo_pass_env :: daemon_env where
  "demo_pass_env = demo_daemon_env\<lparr>
     de_server := (\<lambda>_. Inr [\<lparr>dl_key = ''233781/content'', dl_manifest = 7, dl_size = 100, dl_result = Inr ()\<rparr>]),
     de_mods := (\<lambda>_ ids. Inr (map (\<lambda>i. \<lparr>dl_key = ''107410/5'', dl_manifest = 8, dl_size = 20, dl_result = Inr ()\<rparr>) ids))\<rparr>"

theorem successful_pass_syncs_everything_witness:
  "\<exists>s'. sync_content demo_pass_env (demo_daemon\<lparr>dm_cache := empty_state\<lparr>source_mods := [(''ace'', 5)]\<rparr>\<rparr>) = (Inr (), s')
     \<and> last_manifest_id ''107410/5'' (dm_cache s') = Some 8"
proof -
  let ?s = "demo_daemon\<lparr>dm_cache := empty_state\<lparr>source_mods := [(''ace'', 5)]\<rparr>\<rparr>"
  let ?d = "\<lparr>dl_key = ''233781/content'', dl_manifest = 7, dl_size = 100, dl_result = Inr ()\<rparr>"
  let ?m = "\<lparr>dl_key = ''107410/5'', dl_manifest = 8, dl_size = 20, dl_result = Inr ()\<rparr>"
  have want: "desired_mod_ids (dm_cache ?s) = Inr [5]" by (simp add: desired_mod_ids_def exec_def empty_state_def)
  obtain r s' where run: "sync_content demo_pass_env ?s = (r, s')" by fastforce
  have "r = Inr ()"
    using run want
    by (simp add: sync_content_def pass_body_def act_simps require_pool_def demo_pass_env_def demo_daemon_env_def demo_steam_env_def)
  let ?server = "if de_authenticated demo_pass_env then (case de_server demo_pass_env (dm_cache ?s) of Inr ds \<Rightarrow> ds | Inl _ \<Rightarrow> []) else []"
  obtain ids ms where pass: "set ids = snd ` set (source_mods (dm_cache ?s))"
      "if ids = [] then ms = [] else de_mods demo_pass_env (dm_cache ?s) ids = Inr ms"
      "\<forall>d \<in> set (?server @ ms). dl_result d = Inr ()
        \<and> (\<exists>e \<in> set (?server @ ms). dl_key e = dl_key d \<and> last_manifest_id (dl_key d) (dm_cache s') = Some (dl_manifest e))"
    using successful_pass_syncs_everything [OF run] \<open>r = Inr ()\<close> by blast
  have server: "?server = [?d]" by (simp add: demo_pass_env_def demo_daemon_env_def)
  have "ids \<noteq> []" using pass(1) by (auto simp: empty_state_def)
  then have ms: "ms = map (\<lambda>i. ?m) ids" using pass(2) by (simp add: demo_pass_env_def)
  then have "?m \<in> set ms" using \<open>ids \<noteq> []\<close> by (cases ids) auto
  then have "?m \<in> set (?server @ ms)" unfolding set_append by (rule UnI2)
  then obtain e where "e \<in> set (?server @ ms)" "dl_key e = dl_key ?m" "last_manifest_id (dl_key ?m) (dm_cache s') = Some (dl_manifest e)"
    using pass(3) by blast
  then have "last_manifest_id ''107410/5'' (dm_cache s') = Some 8" unfolding server ms by auto
  with run \<open>r = Inr ()\<close> show ?thesis by blast
qed


end
