(* ===== verification/ContentPass.thy ===== *)
theory ContentPass
  imports Content SyncDaemon
begin

text \<open>
  The content pass of the sync daemon over the resolution it calls: \<open>sync_content\<close>
  (\<open>services/sync-daemon/src/service.rs\<close>) with \<open>resolve_and_spawn_server\<close> and \<open>sync_mods\<close>
  (\<open>crates/steam-sync\<close>) in place of the parameters it has in \<open>SyncDaemon\<close>.
\<close>

section \<open>The pass with its resolution\<close>

text \<open>How a spawned download ends, and the size it records, is given by \<open>run\<close>.\<close>

definition download_of :: "(depot_plan \<Rightarrow> any_error + u64) \<Rightarrow> path \<Rightarrow> depot_plan \<Rightarrow> download" where
  "download_of run dir dp =
    \<lparr>dl_key = sync_key (di_depot_id (dp_depot dp)) dir, dl_manifest = di_manifest_id (dp_depot dp),
     dl_size = (case run dp of Inr n \<Rightarrow> n | Inl _ \<Rightarrow> 0), dl_result = map_sum id (\<lambda>_. ()) (run dp)\<rparr>"

definition server_downloads :: "content_env \<Rightarrow> (depot_plan \<Rightarrow> any_error + u64) \<Rightarrow> path \<Rightarrow> content \<Rightarrow> sync_state \<Rightarrow> any_error + download list" where
  "server_downloads E run root files c =
    map_sum id (map (download_of run root)) (fst (resolve_and_spawn_server E root False [] (files\<lparr>ct_cache := c\<rparr>)))"

definition mod_downloads :: "content_env \<Rightarrow> (depot_plan \<Rightarrow> any_error + u64) \<Rightarrow> path \<Rightarrow> content \<Rightarrow> sync_state \<Rightarrow> u64 list \<Rightarrow> any_error + download list" where
  "mod_downloads E run root files c ids =
    map_sum id (\<lambda>(plans, _, _). map (\<lambda>(i, dp). download_of run (item_dir (workshop_root root) i) dp) plans)
      (fst (sync_mods E root ids (files\<lparr>ct_cache := c\<rparr>)))"

definition with_content :: "content_env \<Rightarrow> (depot_plan \<Rightarrow> any_error + u64) \<Rightarrow> path \<Rightarrow> content \<Rightarrow> daemon_env \<Rightarrow> daemon_env" where
  "with_content E run root files D =
    D\<lparr>de_authenticated := ce_authenticated E, de_server := server_downloads E run root files, de_mods := mod_downloads E run root files\<rparr>"

section \<open>What a pass set out to sync\<close>

text \<open>Everything the pass wants can be had: each wanted depot of the branch and each listed item has a key
  and a manifest.\<close>

definition obtainable :: "content_env \<Rightarrow> path \<Rightarrow> content \<Rightarrow> string \<Rightarrow> depot_info list \<Rightarrow> workshop_entry list \<Rightarrow> bool" where
  "obtainable E root files server depots items =
    ((\<forall>d \<in> set depots. di_depot_id d \<in> set (wanted_depot_ids False []) \<longrightarrow>
        (\<exists>k m. key_for E (ct_keys files root) (di_depot_id d) (containing_app d ARMA3_SERVER_APP_ID) = Some k
           \<and> manifest_for E root files server ARMA3_SERVER_APP_ID d TARGET_BRANCH k = Some m))
     \<and> (\<forall>it \<in> set items. \<exists>k m. key_for E (ct_keys files (workshop_root root)) (we_consumer_appid it) (we_consumer_appid it) = Some k
           \<and> manifest_for E (workshop_root root) files server (we_consumer_appid it) (item_depot it) ''public'' k = Some m))"

lemma manifest_for_cache [simp]: "manifest_for E dir (files\<lparr>ct_cache := c\<rparr>) = manifest_for E dir files"
  by (simp add: manifest_for_def load_manifest_def fun_eq_iff)

lemma trusted_marked: "trusted E dir (snapshot c) d v \<longleftrightarrow> ce_is_dir E dir \<and> last_manifest_id (sync_key d dir) c = Some v"
  by (simp add: trusted_def snapshot_last)

text \<open>The key of a wanted depot's download, and of an item's.\<close>

abbreviation "depot_key_of root d \<equiv> sync_key (di_depot_id d) root"
abbreviation "item_key_of root it \<equiv> sync_key (we_consumer_appid it) (item_dir (workshop_root root) (we_published_file_id it))"

lemma server_downloads_set:
  assumes "ce_apps E = Inr (Inr depots # others)" "ce_cdn E = Inr (server # others')" "distinct (map di_depot_id depots)"
  shows "\<exists>ds. server_downloads E run root files c = Inr ds
    \<and> set ds = download_of run root ` {dp. \<exists>d \<in> set depots. di_depot_id d \<in> set (wanted_depot_ids False []) \<and> planned_depot E root (files\<lparr>ct_cache := c\<rparr>) server d = Some dp}"
  using server_downloads_run [OF assms, of root False "[]" "files\<lparr>ct_cache := c\<rparr>"]
  by (auto simp: server_downloads_def)

lemma mod_downloads_set:
  assumes "ids \<noteq> []" "ce_details E ids = Inr items" "ce_cdn E = Inr (server # others)"
  shows "\<exists>ms. mod_downloads E run root files c ids = Inr ms
    \<and> set ms = (\<lambda>(i, dp). download_of run (item_dir (workshop_root root) i) dp) `
        {p. \<exists>it \<in> set items. planned_item E (workshop_root root) (files\<lparr>ct_cache := c\<rparr>) server it = Some p}"
proof -
  obtain plans s' where "resolve_workshop_downloads E (workshop_root root) ids (files\<lparr>ct_cache := c\<rparr>) = (Inr plans, s')"
    "set plans = {p. \<exists>it \<in> set items. planned_item E (workshop_root root) (files\<lparr>ct_cache := c\<rparr>) server it = Some p}"
    using workshop_downloads_run [OF assms] by blast
  then show ?thesis by (auto simp: mod_downloads_def sync_mods_def act_simps)
qed

text \<open>A download of the server's has the key and the manifest of its depot, one of the mods' those of its item.\<close>

lemma server_download_parts:
  assumes "planned_depot E root s server d = Some dp"
  shows "dl_key (download_of run root dp) = depot_key_of root d" "dl_manifest (download_of run root dp) = di_manifest_id d"
  using assms by (auto simp: planned_depot_def download_of_def bind_eq_Some_conv split: if_splits)

lemma mod_download_parts:
  assumes "planned_item E (workshop_root root) s server it = Some (i, dp)"
  shows "dl_key (download_of run (item_dir (workshop_root root) i) dp) = item_key_of root it"
    "dl_manifest (download_of run (item_dir (workshop_root root) i) dp) = we_manifest_id it"
  using assms by (auto simp: planned_item_def item_plan_def download_of_def bind_eq_Some_conv split: if_splits)

lemma obtainable_planned:
  assumes "obtainable E root files server depots items"
  shows "d \<in> set depots \<Longrightarrow> di_depot_id d \<in> set (wanted_depot_ids False []) \<Longrightarrow>
      planned_depot E root (files\<lparr>ct_cache := c\<rparr>) server d = None \<Longrightarrow> last_manifest_id (depot_key_of root d) c = Some (di_manifest_id d)"
    and "it \<in> set items \<Longrightarrow> planned_item E (workshop_root root) (files\<lparr>ct_cache := c\<rparr>) server it = None \<Longrightarrow>
      last_manifest_id (item_key_of root it) c = Some (we_manifest_id it)"
  using assms by (fastforce simp: obtainable_def planned_depot_def planned_item_def trusted_marked split: if_splits)+

lemma item_leaf [simp]: "file_name (item_dir (workshop_root root) i) = Some (show_word i)"
proof -
  have "show_word i \<noteq> ''..''" using show_word_no_char [of "CHR ''.''" i] by (auto simp: is_digit_def)
  then show ?thesis by (simp add: item_dir_def file_name_def)
qed

lemma key_separation:
  "depot_key_of root d = depot_key_of root d' \<longleftrightarrow> di_depot_id d = di_depot_id d'"
  "item_key_of root it = item_key_of root it' \<longleftrightarrow> we_consumer_appid it = we_consumer_appid it' \<and> we_published_file_id it = we_published_file_id it'"
  "depot_key_of root d = item_key_of root it \<Longrightarrow> di_depot_id d = we_consumer_appid it"
  by (auto simp: cache_keys_injective [THEN conjunct1] show_word_inj)

text \<open>What Steam says of the content: the depots of the branch and the listed items, each once, and no item
  in a depot of the server.\<close>

definition steam_content :: "content_env \<Rightarrow> u64 list \<Rightarrow> string \<Rightarrow> depot_info list \<Rightarrow> workshop_entry list \<Rightarrow> bool" where
  "steam_content E ids server depots items =
    ((\<exists>others. ce_apps E = Inr (Inr depots # others)) \<and> (\<exists>others. ce_cdn E = Inr (server # others))
     \<and> ce_details E ids = Inr items \<and> distinct (map di_depot_id depots)
     \<and> distinct (map (\<lambda>it. (we_consumer_appid it, we_published_file_id it)) items)
     \<and> (\<forall>it \<in> set items. we_consumer_appid it \<notin> set (wanted_depot_ids False [])))"

text \<open>What the downloads of a pass stand for.\<close>

definition stands_for :: "path \<Rightarrow> depot_info list \<Rightarrow> workshop_entry list \<Rightarrow> download \<Rightarrow> bool" where
  "stands_for root depots items e =
    ((\<exists>d \<in> set depots. di_depot_id d \<in> set (wanted_depot_ids False []) \<and> dl_key e = depot_key_of root d \<and> dl_manifest e = di_manifest_id d)
     \<or> (\<exists>it \<in> set items. dl_key e = item_key_of root it \<and> dl_manifest e = we_manifest_id it))"

lemma stands_for_agree:
  assumes "steam_content E ids server depots items" "stands_for root depots items e"
  shows "d \<in> set depots \<Longrightarrow> di_depot_id d \<in> set (wanted_depot_ids False []) \<Longrightarrow> dl_key e = depot_key_of root d \<Longrightarrow> dl_manifest e = di_manifest_id d"
    and "it \<in> set items \<Longrightarrow> dl_key e = item_key_of root it \<Longrightarrow> dl_manifest e = we_manifest_id it"
proof -
  note apart = assms(1) [unfolded steam_content_def]
  show "dl_manifest e = di_manifest_id d" if d: "d \<in> set depots" "di_depot_id d \<in> set (wanted_depot_ids False [])" "dl_key e = depot_key_of root d"
    using assms(2) unfolding stands_for_def
  proof (elim disjE bexE conjE)
    fix d'
    assume "d' \<in> set depots" "dl_key e = depot_key_of root d'" "dl_manifest e = di_manifest_id d'"
    moreover from this have "d' = d" using d key_separation(1) [of d' root d] apart by (auto simp: distinct_map dest: inj_onD)
    ultimately show ?thesis by simp
  next
    fix it
    assume "it \<in> set items" "dl_key e = item_key_of root it"
    then show ?thesis using d key_separation(3) [of d root it] apart by auto
  qed
  show "dl_manifest e = we_manifest_id it" if it: "it \<in> set items" "dl_key e = item_key_of root it"
    using assms(2) unfolding stands_for_def
  proof (elim disjE bexE conjE)
    fix d'
    assume "di_depot_id d' \<in> set (wanted_depot_ids False [])" "dl_key e = depot_key_of root d'"
    then show ?thesis using it key_separation(3) [of d' root it] apart by auto
  next
    fix it'
    assume i': "it' \<in> set items" "dl_key e = item_key_of root it'" "dl_manifest e = we_manifest_id it'"
    then have "it' = it" using it key_separation(2) [of it' root it] apart by (auto simp: distinct_map dest: inj_onD)
    then show ?thesis using i'(3) by simp
  qed
qed

text \<open>The pass downloads only what it set out to sync, and everything of it that is not marked yet.\<close>

lemma pass_downloads:
  assumes "steam_content E ids server depots items" "ids \<noteq> []" "obtainable E root files server depots items"
  shows "\<exists>ds ms. server_downloads E run root files c = Inr ds \<and> mod_downloads E run root files c ids = Inr ms
    \<and> (\<forall>e \<in> set (ds @ ms). stands_for root depots items e)
    \<and> (\<forall>d \<in> set depots. di_depot_id d \<in> set (wanted_depot_ids False []) \<longrightarrow>
         (\<exists>e \<in> set (ds @ ms). dl_key e = depot_key_of root d) \<or> last_manifest_id (depot_key_of root d) c = Some (di_manifest_id d))
    \<and> (\<forall>it \<in> set items. (\<exists>e \<in> set (ds @ ms). dl_key e = item_key_of root it) \<or> last_manifest_id (item_key_of root it) c = Some (we_manifest_id it))"
proof -
  obtain others others' where st: "ce_apps E = Inr (Inr depots # others)" "ce_cdn E = Inr (server # others')" "distinct (map di_depot_id depots)" "ce_details E ids = Inr items"
    using assms(1) by (auto simp: steam_content_def)
  obtain ds where ds: "server_downloads E run root files c = Inr ds"
    "set ds = download_of run root ` {dp. \<exists>d \<in> set depots. di_depot_id d \<in> set (wanted_depot_ids False []) \<and> planned_depot E root (files\<lparr>ct_cache := c\<rparr>) server d = Some dp}"
    using server_downloads_set [OF st(1-3)] by blast
  obtain ms where ms: "mod_downloads E run root files c ids = Inr ms"
    "set ms = (\<lambda>(i, dp). download_of run (item_dir (workshop_root root) i) dp) `
        {p. \<exists>it \<in> set items. planned_item E (workshop_root root) (files\<lparr>ct_cache := c\<rparr>) server it = Some p}"
    using mod_downloads_set [OF assms(2) st(4,2)] by blast
  have "stands_for root depots items e" if "e \<in> set (ds @ ms)" for e
    using that ds(2) ms(2) server_download_parts mod_download_parts unfolding stands_for_def set_append by fastforce
  moreover have "(\<exists>e \<in> set (ds @ ms). dl_key e = depot_key_of root d) \<or> last_manifest_id (depot_key_of root d) c = Some (di_manifest_id d)"
    if d: "d \<in> set depots" "di_depot_id d \<in> set (wanted_depot_ids False [])" for d
  proof (cases "planned_depot E root (files\<lparr>ct_cache := c\<rparr>) server d")
    case (Some dp)
    then have "download_of run root dp \<in> set ds" using ds(2) d by blast
    then show ?thesis using server_download_parts(1) [OF Some, of run] by auto
  qed (use obtainable_planned(1) [OF assms(3) d] in blast)
  moreover have "(\<exists>e \<in> set (ds @ ms). dl_key e = item_key_of root it) \<or> last_manifest_id (item_key_of root it) c = Some (we_manifest_id it)"
    if it: "it \<in> set items" for it
  proof (cases "planned_item E (workshop_root root) (files\<lparr>ct_cache := c\<rparr>) server it")
    case (Some p)
    obtain i dp where p: "p = (i, dp)" by (cases p)
    then have "download_of run (item_dir (workshop_root root) i) dp \<in> set ms" using ms(2) it Some by force
    then show ?thesis using mod_download_parts(1) [of E root _ server it i dp run] Some p by auto
  qed (use obtainable_planned(2) [OF assms(3) it] in blast)
  ultimately show ?thesis using ds(1) ms(1) by blast
qed

lemma pass_marks_everything:
  assumes run: "sync_content (with_content E run root files D) s = (Inr (), s')"
    and steam: "steam_content E ids server depots items" and auth: "ce_authenticated E"
    and ids: "desired_mod_ids (dm_cache s) = Inr ids" "ids \<noteq> []" and ok: "obtainable E root files server depots items"
  shows "\<forall>d \<in> set depots. di_depot_id d \<in> set (wanted_depot_ids False []) \<longrightarrow> last_manifest_id (depot_key_of root d) (dm_cache s') = Some (di_manifest_id d)"
    and "\<forall>it \<in> set items. last_manifest_id (item_key_of root it) (dm_cache s') = Some (we_manifest_id it)"
proof -
  obtain ds ms where d: "server_downloads E run root files (dm_cache s) = Inr ds" "mod_downloads E run root files (dm_cache s) ids = Inr ms"
    and std: "\<forall>e \<in> set (ds @ ms). stands_for root depots items e"
    and to: "\<forall>d \<in> set depots. di_depot_id d \<in> set (wanted_depot_ids False []) \<longrightarrow>
         (\<exists>e \<in> set (ds @ ms). dl_key e = depot_key_of root d) \<or> last_manifest_id (depot_key_of root d) (dm_cache s) = Some (di_manifest_id d)"
      "\<forall>it \<in> set items. (\<exists>e \<in> set (ds @ ms). dl_key e = item_key_of root it) \<or> last_manifest_id (item_key_of root it) (dm_cache s) = Some (we_manifest_id it)"
    using pass_downloads [OF steam ids(2) ok, of run "dm_cache s"] by (elim exE conjE) (rule that)
  have marks: "dm_cache s' = mark_all (ds @ ms) (dm_cache s)" "ss_up (dm_cache s)"
    using pass_marks [OF run _ _ ids, of ds ms] auth d by (simp_all add: with_content_def)
  show "\<forall>d \<in> set depots. di_depot_id d \<in> set (wanted_depot_ids False []) \<longrightarrow> last_manifest_id (depot_key_of root d) (dm_cache s') = Some (di_manifest_id d)"
    unfolding marks(1) using std to(1) stands_for_agree(1) [OF steam] by (intro ballI impI mark_all_last [OF marks(2)]) blast+
  show "\<forall>it \<in> set items. last_manifest_id (item_key_of root it) (dm_cache s') = Some (we_manifest_id it)"
    unfolding marks(1) using std to(2) stands_for_agree(2) [OF steam] by (intro ballI mark_all_last [OF marks(2)]) blast+
qed

lemma join_runs: "\<forall>d \<in> set ds. dl_result d = Inr () \<Longrightarrow> \<exists>s'. join_downloads ds s = (Inr (), s')"
  by (induction ds arbitrary: s) (simp_all add: act_simps)

lemma pass_succeeds:
  assumes "se_pool (de_steam E)" "de_authenticated E" "de_server E (dm_cache s) = Inr ds"
    and "desired_mod_ids (dm_cache s) = Inr ids" "ids \<noteq> []" "de_mods E (dm_cache s) ids = Inr ms"
    and "\<forall>d \<in> set (ds @ ms). dl_result d = Inr ()"
  shows "\<exists>s'. sync_content E s = (Inr (), s')"
proof -
  let ?s = "s\<lparr>dm_syncing := dm_syncing s + 1\<rparr>"
  obtain t where "join_downloads (ds @ ms) ?s = (Inr (), t)" using join_runs [OF assms(7)] by blast
  then have "pass_body E ?s = (Inr (), t)" using assms(1-6) by (simp add: pass_body_def require_pool_def act_simps)
  from sync_content_run [OF this] show ?thesis by blast
qed

lemma downloads_succeed:
  assumes "\<And>dp. is_ok (run dp)"
  shows "server_downloads E run root files c = Inr ds \<Longrightarrow> \<forall>d \<in> set ds. dl_result d = Inr ()"
    and "mod_downloads E run root files c ids = Inr ms \<Longrightarrow> \<forall>d \<in> set ms. dl_result d = Inr ()"
proof -
  have "dl_result (download_of run dir dp) = Inr ()" for dir dp
    using assms [of dp] by (cases "run dp") (simp_all add: download_of_def is_ok_def)
  then show "server_downloads E run root files c = Inr ds \<Longrightarrow> \<forall>d \<in> set ds. dl_result d = Inr ()"
    "mod_downloads E run root files c ids = Inr ms \<Longrightarrow> \<forall>d \<in> set ms. dl_result d = Inr ()"
    by (auto simp: server_downloads_def mod_downloads_def map_sum_def split: sum.splits)
qed

text \<open>C7: a finished pass leaves nothing to do. When a content pass of the daemon ends well and Steam could
  hand out everything it wanted, a further resolution for the same sources, with the content on disk and
  nothing new on Steam, asks Steam for the lists only and spawns no download, for the server as for the mods.
  (The comments of \<open>sync_mods\<close> promise that every mod is verified chunk by chunk whatever is cached; a mod
  whose manifest is marked and whose directory exists is not looked at again.)\<close>

theorem second_pass_downloads_nothing:
  assumes run: "sync_content (with_content E run root files D) s = (Inr (), s')"
    and steam: "steam_content E ids server depots items" and auth: "ce_authenticated E"
    and ids: "desired_mod_ids (dm_cache s) = Inr ids" "ids \<noteq> []" and ok: "obtainable E root files server depots items"
    and later: "steam_content E' ids server depots items" "\<And>p. ce_is_dir E' p" "ct_cache t = dm_cache s'"
  shows "(\<exists>t1. resolve_and_spawn_server E' root False [] t = (Inr [], t1)
      \<and> ct_requests t1 = ct_requests t @ ReqProductInfo # (if ce_authenticated E' then [ReqFreeLicense [ARMA3_SERVER_APP_ID]] else []))
    \<and> (\<exists>t2 ps dirs. sync_mods E' root ids t = (Inr ([], ps, dirs), t2) \<and> ct_requests t2 = ct_requests t @ [ReqDetails ids, ReqCdnServers])"
proof (rule conjI)
  note marks = pass_marks_everything [OF run steam auth ids ok]
  obtain others others' where st: "ce_apps E' = Inr (Inr depots # others)" "ce_cdn E' = Inr (server # others')" "ce_details E' ids = Inr items"
    using later(1) by (auto simp: steam_content_def)
  show "\<exists>t1. resolve_and_spawn_server E' root False [] t = (Inr [], t1)
      \<and> ct_requests t1 = ct_requests t @ ReqProductInfo # (if ce_authenticated E' then [ReqFreeLicense [ARMA3_SERVER_APP_ID]] else [])"
    using marks(1) later(2,3) by (intro trusted_depots_need_nothing [OF st(1)]) (simp add: trusted_marked)
  have "\<forall>it \<in> set items. trusted E' (item_dir (workshop_root root) (we_published_file_id it)) (snapshot (ct_cache t)) (we_consumer_appid it) (we_manifest_id it)"
    using marks(2) later(2,3) by (simp add: trusted_marked)
  from trusted_mods_need_nothing [OF ids(2) st(3,2) this]
  show "\<exists>t2 ps dirs. sync_mods E' root ids t = (Inr ([], ps, dirs), t2) \<and> ct_requests t2 = ct_requests t @ [ReqDetails ids, ReqCdnServers]"
    by (auto simp: sync_mods_def act_simps)
qed

section \<open>Witness\<close>

definition demo_branch_env :: content_env where
  "demo_branch_env = demo_content_env\<lparr>ce_apps := Inr [Inr [\<lparr>di_depot_id = 233781, di_manifest_id = 7, di_depot_from_app = None\<rparr>]]\<rparr>"

definition demo_pass :: daemon_env where
  "demo_pass = with_content demo_branch_env (\<lambda>_. Inr 100) [''content''] demo_content demo_daemon_env"

definition demo_pass_start :: daemon where
  "demo_pass_start = demo_daemon\<lparr>dm_cache := empty_state\<lparr>source_mods := [(''ace'', 5)]\<rparr>\<rparr>"

theorem second_pass_downloads_nothing_witness:
  "\<exists>s' t1. sync_content demo_pass demo_pass_start = (Inr (), s')
    \<and> resolve_and_spawn_server (demo_branch_env\<lparr>ce_is_dir := \<lambda>_. True\<rparr>) [''content''] False [] (demo_content\<lparr>ct_cache := dm_cache s'\<rparr>) = (Inr [], t1)"
proof -
  let ?d = "\<lparr>di_depot_id = 233781, di_manifest_id = 7, di_depot_from_app = None\<rparr> :: depot_info" and ?c = "dm_cache demo_pass_start"
  have steam: "steam_content demo_branch_env [5] ''cdn'' [?d] [demo_item 5]"
    "steam_content (demo_branch_env\<lparr>ce_is_dir := \<lambda>_. True\<rparr>) [5] ''cdn'' [?d] [demo_item 5]"
    by (simp_all add: steam_content_def demo_branch_env_def demo_content_env_def demo_item_def wanted_depot_ids_def)
  have ok: "obtainable demo_branch_env [''content''] demo_content ''cdn'' [?d] [demo_item 5]"
    by (simp add: obtainable_def demo_branch_env_def demo_content_env_def demo_content_def demo_item_def key_for_def manifest_for_def load_manifest_def)
  have ids: "desired_mod_ids ?c = Inr [5]" "[5 :: u64] \<noteq> []" and auth: "ce_authenticated demo_branch_env" and pool: "se_pool (de_steam demo_pass)"
    by (simp_all add: demo_pass_start_def desired_mod_ids_def exec_def empty_state_def demo_branch_env_def demo_content_env_def
        demo_pass_def with_content_def demo_daemon_env_def demo_steam_env_def)
  obtain ds ms where d: "server_downloads demo_branch_env (\<lambda>_. Inr 100) [''content''] demo_content ?c = Inr ds"
    "mod_downloads demo_branch_env (\<lambda>_. Inr 100) [''content''] demo_content ?c [5] = Inr ms"
    using pass_downloads [OF steam(1) ids(2) ok, of "\<lambda>_. Inr 100" ?c] by blast
  have "\<forall>e \<in> set (ds @ ms). dl_result e = Inr ()" using downloads_succeed [of "\<lambda>_. Inr 100"] d by (auto simp: is_ok_def)
  then obtain s' where run: "sync_content demo_pass demo_pass_start = (Inr (), s')"
    using pass_succeeds [OF pool _ _ ids, of ds ms] auth d by (auto simp: demo_pass_def with_content_def)
  from second_pass_downloads_nothing [OF run [unfolded demo_pass_def] steam(1) auth ids ok steam(2), of "demo_content\<lparr>ct_cache := dm_cache s'\<rparr>"]
  show ?thesis using run by auto
qed

end
