(* ===== verification/SteamPool.thy ===== *)
theory SteamPool
  imports SyncDaemon "HOL-Library.Multiset"
begin

text \<open>
  Logging in to Steam and the pool of connections (\<open>crates/steam-sync/src/steam.rs\<close>, \<open>CmPool\<close>), and how
  the sync daemon starts with it (\<open>services/sync-daemon/src/main.rs\<close>). Steam's network and the
  authentication calls of \<open>steamdepot\<close> are parameters: every login attempt of every slot has its own
  network. A connection is a handle of any type; a call made on it does not change how it was logged on.
  The back-off pauses carry no duration. The pool is first a pure function of its state per operation,
  then a step relation in which the callers of \<open>acquire\<close>, the dropped guards and the background
  re-logins interleave at each access to the semaphore and to the list of idle connections.
\<close>

section \<open>One login\<close>

datatype cm_server_type = Websockets | OtherServerType string

record 'c cm_net =
  cn_cm_list :: "any_error + (string \<times> cm_server_type) list"
  cn_connect :: "string \<Rightarrow> any_error + 'c"
  cn_token_logon :: "'c \<Rightarrow> string \<Rightarrow> string \<Rightarrow> any_error + 'c"
  cn_anonymous_logon :: "'c \<Rightarrow> any_error + 'c"

definition connect_ws :: "'c cm_net \<Rightarrow> any_error + 'c" where
  "connect_ws net =
    rbind (map_err (with_context ''failed to fetch CM server list'') (cn_cm_list net)) (\<lambda>serverlist.
    rbind (ok_or (find (\<lambda>s. snd s = Websockets) serverlist)
             (AnyErr (Some OtherSteamErr) ''no websocket CM server found'')) (\<lambda>ws_server.
    map_err (with_context ''failed to connect to CM server'') (cn_connect net (fst ws_server))))"

definition login_with_refresh_token :: "'c cm_net \<Rightarrow> string \<Rightarrow> string \<Rightarrow> any_error + 'c" where
  "login_with_refresh_token net username refresh_token =
    rbind (map_err (with_context ''failed to open a fresh CM connection'') (connect_ws net)) (\<lambda>conn.
    map_err (with_context ''failed to log on with refresh token'') (cn_token_logon net conn username refresh_token))"

definition login_anonymous :: "'c cm_net \<Rightarrow> any_error + 'c" where
  "login_anonymous net =
    rbind (map_err (with_context ''failed to open a fresh CM connection'') (connect_ws net)) (\<lambda>conn.
    map_err (with_context ''anonymous login failed'') (cn_anonymous_logon net conn))"

section \<open>Retries\<close>

definition LOGIN_ATTEMPTS :: nat where "LOGIN_ATTEMPTS = 3"

text \<open>\<open>left\<close> is the number of attempts after this one.\<close>

fun login_loop :: "nat \<Rightarrow> nat \<Rightarrow> (nat \<Rightarrow> any_error + 'c) \<Rightarrow> any_error + 'c" where
  "login_loop left attempt attempt_login =
    (case attempt_login attempt of
       Inr conn \<Rightarrow> Inr conn
     | Inl e \<Rightarrow> (case left of 0 \<Rightarrow> Inl e | Suc l \<Rightarrow> login_loop l (attempt + 1) attempt_login))"

declare login_loop.simps [simp del]

definition login_with_retry :: "(nat \<Rightarrow> any_error + 'c) \<Rightarrow> any_error + 'c" where
  "login_with_retry attempt_login = login_loop (LOGIN_ATTEMPTS - 1) 1 attempt_login"

text \<open>The anonymous attempts come after those with the token.\<close>

definition login_or_degrade_to_anonymous :: "(nat \<Rightarrow> 'c cm_net) \<Rightarrow> (nat \<Rightarrow> any_error + 'c) \<Rightarrow> any_error + 'c" where
  "login_or_degrade_to_anonymous nets authed_login =
    (case login_with_retry authed_login of
       Inr conn \<Rightarrow> Inr conn
     | Inl e \<Rightarrow> login_with_retry (\<lambda>attempt. login_anonymous (nets (LOGIN_ATTEMPTS + attempt))))"

section \<open>Negotiating a refresh token\<close>

datatype guard_type = EmailCode | DeviceCode | OtherGuard nat

record auth_tokens =
  tk_refresh_token :: string
  tk_account_name :: "string option"

record ('c, 's) auth_lib =
  al_begin :: "string \<Rightarrow> string \<Rightarrow> any_error + ('c \<times> 's)"
  al_needs_guard :: "'s \<Rightarrow> guard_type \<Rightarrow> bool"
  al_submit_guard :: "'c \<Rightarrow> 's \<Rightarrow> string \<Rightarrow> guard_type \<Rightarrow> any_error + 'c"
  al_poll :: "'c \<Rightarrow> 's \<Rightarrow> any_error + auth_tokens"
  al_begin_qr :: "any_error + ('c \<times> 's \<times> string)"

definition negotiate_refresh_token :: "('c, 's) auth_lib \<Rightarrow> string \<Rightarrow> string \<Rightarrow> any_error + string" where
  "negotiate_refresh_token lib username password =
    rbind (map_err (with_context ''failed to begin Steam auth session'') (al_begin lib username password)) (\<lambda>(auth_conn, session).
    rbind (ensure (\<not> (al_needs_guard lib session EmailCode \<or> al_needs_guard lib session DeviceCode))
             (bail_msg ''Steam Guard confirmation required for this login (email/device code). This account is expected to have Steam Guard disabled'')) (\<lambda>_.
    rbind (map_err (with_context ''failed while polling auth session status'') (al_poll lib auth_conn session)) (\<lambda>tokens.
    Inr (tk_refresh_token tokens))))"

datatype interactive_auth_result = NeedsGuard guard_type | AuthSuccess string

definition negotiate_interactive :: "('c, 's) auth_lib \<Rightarrow> string \<Rightarrow> string \<Rightarrow> string option
    \<Rightarrow> any_error + interactive_auth_result" where
  "negotiate_interactive lib username password guard_code =
    rbind (map_err (with_context ''failed to begin Steam auth session'') (al_begin lib username password)) (\<lambda>(conn, session).
    let needed_guard_type = (if al_needs_guard lib session EmailCode then Some EmailCode
                             else if al_needs_guard lib session DeviceCode then Some DeviceCode else None);
        finish = (\<lambda>conn. rbind (map_err (with_context ''failed while polling auth session status'') (al_poll lib conn session)) (\<lambda>tokens.
                   Inr (AuthSuccess (tk_refresh_token tokens))))
    in (case needed_guard_type of
          None \<Rightarrow> finish conn
        | Some guard_type \<Rightarrow>
            (case guard_code of
               None \<Rightarrow> Inr (NeedsGuard guard_type)
             | Some code \<Rightarrow>
                 rbind (map_err (with_context ''failed to submit Steam Guard code'')
                   (al_submit_guard lib conn session code guard_type)) finish)))"

definition begin_qr_login :: "('c, 's) auth_lib \<Rightarrow> any_error + (('c \<times> 's) \<times> string)" where
  "begin_qr_login lib =
    rbind (map_err (with_context ''failed to begin Steam QR auth session'') (al_begin_qr lib)) (\<lambda>(conn, session, challenge_url).
    Inr ((conn, session), challenge_url))"

definition poll_qr_login :: "('c, 's) auth_lib \<Rightarrow> 'c \<times> 's \<Rightarrow> any_error + (string \<times> string)" where
  "poll_qr_login lib qr =
    rbind (map_err (with_context ''failed while polling QR auth session status'') (al_poll lib (fst qr) (snd qr))) (\<lambda>tokens.
    rbind (ok_or (tk_account_name tokens) (bail_msg ''Steam did not return an account name after QR login'')) (\<lambda>username.
    Inr (username, tk_refresh_token tokens)))"

text \<open>The probe of the cached token: the first attempt, then one per element of the list.\<close>

fun probe_loop :: "nat list \<Rightarrow> any_error + 'c \<Rightarrow> (nat \<Rightarrow> any_error + 'c) \<Rightarrow> any_error + 'c" where
  "probe_loop [] result f = result"
| "probe_loop (attempt # rest) result f =
    (case result of
       Inr conn \<Rightarrow> result
     | Inl e \<Rightarrow> if is_transient e then probe_loop rest (f attempt) f else result)"

definition probe_cached_token :: "(nat \<Rightarrow> 'c cm_net) \<Rightarrow> string \<Rightarrow> string \<Rightarrow> any_error + 'c" where
  "probe_cached_token nets username cached =
    (let f = (\<lambda>attempt. login_with_refresh_token (nets attempt) username cached)
     in probe_loop [1..<DEFAULT_RETRY_ATTEMPTS] (f 0) f)"

definition negotiate_or_reuse_refresh_token :: "('c, 's) auth_lib \<Rightarrow> (nat \<Rightarrow> 'c cm_net) \<Rightarrow> string \<Rightarrow> string
    \<Rightarrow> path \<Rightarrow> (path \<rightharpoonup> string) \<Rightarrow> (any_error + string) \<times> (path \<rightharpoonup> string)" where
  "negotiate_or_reuse_refresh_token lib nets username password install_dir files =
    (let negotiate =
       (case negotiate_refresh_token lib username password of
          Inl e \<Rightarrow> (Inl e, files)
        | Inr token \<Rightarrow> (Inr token, save_refresh_token install_dir token files))
     in (case load_refresh_token files install_dir of
           None \<Rightarrow> negotiate
         | Some cached \<Rightarrow>
             (case probe_cached_token nets username cached of
                Inr conn \<Rightarrow> (Inr cached, files)
              | Inl e \<Rightarrow> negotiate)))"

section \<open>The pool\<close>

record 'c cm_pool =
  sem_permits :: nat
  idle_conns :: "(nat \<times> 'c) list"
  relogin_with :: "(string \<times> string) option"
  authed_flags :: "bool list"

text \<open>What the pool is started against: how a connection is logged on, the network of each attempt of
  each slot and of each probe of the cached token, and the authentication calls.\<close>

record ('c, 's) steam_site =
  st_session :: "'c \<Rightarrow> bool option"
  st_net :: "nat \<Rightarrow> nat \<Rightarrow> 'c cm_net"
  st_probe_net :: "nat \<Rightarrow> 'c cm_net"
  st_auth :: "('c, 's) auth_lib"

definition is_auth :: "('c, 's) steam_site \<Rightarrow> 'c \<Rightarrow> bool" where
  "is_auth site conn = (case st_session site conn of Some b \<Rightarrow> b | None \<Rightarrow> False)"

definition slot_login :: "(string \<times> string) option \<Rightarrow> (nat \<Rightarrow> 'c cm_net) \<Rightarrow> any_error + 'c" where
  "slot_login relogin nets =
    (case relogin of
       Some (user, token) \<Rightarrow>
         login_or_degrade_to_anonymous nets (\<lambda>attempt. login_with_refresh_token (nets attempt) user token)
     | None \<Rightarrow> login_with_retry (\<lambda>attempt. login_anonymous (nets attempt)))"

text \<open>\<open>try_join_all\<close> fails with the error of the slot that fails first; the slots are tried in order here.\<close>

definition login_slots :: "('c, 's) steam_site \<Rightarrow> nat \<Rightarrow> (string \<times> string) option \<Rightarrow> any_error + (nat \<times> 'c) list" where
  "login_slots site n relogin =
    map_err (with_context ''failed to start connection pool'')
      (rmap (\<lambda>slot. rbind (slot_login relogin (st_net site slot)) (\<lambda>conn. Inr (slot, conn))) [0..<n])"

definition start_flags :: "('c, 's) steam_site \<Rightarrow> nat \<Rightarrow> (nat \<times> 'c) list \<Rightarrow> bool list" where
  "start_flags site n conns =
    foldl (\<lambda>flags (slot, conn). flags[slot := is_auth site conn]) (replicate n False) conns"

definition pool_start :: "('c, 's) steam_site \<Rightarrow> nat \<Rightarrow> steam_auth \<Rightarrow> path \<Rightarrow> (path \<rightharpoonup> string)
    \<Rightarrow> (any_error + 'c cm_pool) \<times> (path \<rightharpoonup> string)" where
  "pool_start site n auth install_dir files =
    (let (relogin, files') =
       (case auth of
          AnonymousAuth \<Rightarrow> (Inr None, files)
        | CredentialsAuth user password \<Rightarrow>
            (case negotiate_or_reuse_refresh_token (st_auth site) (st_probe_net site) user password install_dir files of
               (Inl e, fs) \<Rightarrow> (Inl e, fs)
             | (Inr refresh_token, fs) \<Rightarrow> (Inr (Some (user, refresh_token)), fs))
        | SessionAuth user refresh_token \<Rightarrow> (Inr (Some (user, refresh_token)), files))
     in (rbind relogin (\<lambda>relogin.
         rbind (login_slots site n relogin) (\<lambda>conns.
         Inr \<lparr>sem_permits = n, idle_conns = conns, relogin_with = relogin,
              authed_flags = start_flags site n conns\<rparr>)), files'))"

definition any_authenticated :: "'c cm_pool \<Rightarrow> bool" where
  "any_authenticated p = list_ex (\<lambda>a. a) (authed_flags p)"

definition pool_session :: "'c cm_pool \<Rightarrow> (string \<times> string) option" where
  "pool_session p = relogin_with p"

text \<open>The atomic accesses: one permit of the semaphore taken or returned, the list of idle connections
  popped or pushed at its end.\<close>

definition take_permit :: "'c cm_pool \<Rightarrow> 'c cm_pool option" where
  "take_permit p = (if sem_permits p = 0 then None else Some (p\<lparr>sem_permits := sem_permits p - 1\<rparr>))"

definition return_permit :: "'c cm_pool \<Rightarrow> 'c cm_pool" where
  "return_permit p = p\<lparr>sem_permits := sem_permits p + 1\<rparr>"

definition pop_idle :: "'c cm_pool \<Rightarrow> ((nat \<times> 'c) \<times> 'c cm_pool) option" where
  "pop_idle p = (if idle_conns p = [] then None
     else Some (last (idle_conns p), p\<lparr>idle_conns := butlast (idle_conns p)\<rparr>))"

definition push_idle :: "nat \<Rightarrow> 'c \<Rightarrow> 'c cm_pool \<Rightarrow> 'c cm_pool" where
  "push_idle slot conn p = p\<lparr>idle_conns := idle_conns p @ [(slot, conn)]\<rparr>"

definition set_flag :: "nat \<Rightarrow> bool \<Rightarrow> 'c cm_pool \<Rightarrow> 'c cm_pool" where
  "set_flag slot b p = p\<lparr>authed_flags := (authed_flags p)[slot := b]\<rparr>"

text \<open>\<open>acquire\<close> with nothing in between: \<open>None\<close> waits, \<open>Some None\<close> is the failed \<open>expect\<close>.\<close>

definition acquire :: "'c cm_pool \<Rightarrow> ((nat \<times> 'c) \<times> 'c cm_pool) option option" where
  "acquire p = map_option pop_idle (take_permit p)"

definition shutdown_pool :: "'c cm_pool \<Rightarrow> 'c cm_pool" where
  "shutdown_pool p = p\<lparr>idle_conns := []\<rparr>"

text \<open>The end of a re-login, up to the permit: the slot is pushed, or lost with its permit.\<close>

definition relogin_slot :: "('c, 's) steam_site \<Rightarrow> nat \<Rightarrow> any_error + 'c \<Rightarrow> 'c cm_pool \<Rightarrow> 'c cm_pool" where
  "relogin_slot site slot result p =
    (case result of
       Inr conn \<Rightarrow> push_idle slot conn (set_flag slot (is_auth site conn) p)
     | Inl e \<Rightarrow> set_flag slot False p)"

section \<open>Starting the daemon\<close>

definition start_steam :: "('c, 's) steam_site \<Rightarrow> nat \<Rightarrow> bool \<Rightarrow> path \<Rightarrow> (path \<rightharpoonup> string) \<Rightarrow> daemon
    \<Rightarrow> 'c cm_pool option \<times> daemon" where
  "start_steam site pool_size anonymous content_root files s =
    (case startup_auth (read_session (dm_secret s)) anonymous of
       None \<Rightarrow> (None, s)
     | Some auth \<Rightarrow>
         (case fst (pool_start site pool_size auth content_root files) of
            Inl e \<Rightarrow> (None, s)
          | Inr pool \<Rightarrow>
              (Some pool,
               case pool_session pool of
                 None \<Rightarrow> s
               | Some (user, refresh_token) \<Rightarrow>
                   snd (write_session \<lparr>ses_user = user, ses_refresh_token = refresh_token\<rparr> s))))"

section \<open>Callers, guards and re-logins\<close>

text \<open>Callers that hold a permit and have not popped yet, the guards handed out (with their \<open>bad\<close>
  mark), guards whose connection is pushed and whose permit is not returned yet, the slots being logged
  in again, the slots given up, and whether the \<open>expect\<close> of \<open>acquire\<close> failed.\<close>

record 'c pool_world =
  pw_pool :: "'c cm_pool"
  pw_waking :: nat
  pw_guards :: "(nat \<times> 'c \<times> bool) list"
  pw_releasing :: nat
  pw_reconnecting :: "nat list"
  pw_lost :: "nat list"
  pw_panicked :: bool

definition new_world :: "'c cm_pool \<Rightarrow> 'c pool_world" where
  "new_world p = \<lparr>pw_pool = p, pw_waking = 0, pw_guards = [], pw_releasing = 0, pw_reconnecting = [],
     pw_lost = [], pw_panicked = False\<rparr>"

inductive pool_step :: "('c, 's) steam_site \<Rightarrow> 'c pool_world \<Rightarrow> 'c pool_world \<Rightarrow> bool" for site where
  acquire_permit: "take_permit (pw_pool w) = Some p \<Longrightarrow>
    pool_step site w (w\<lparr>pw_pool := p, pw_waking := pw_waking w + 1\<rparr>)"
| acquire_pop: "pw_waking w = Suc k \<Longrightarrow> pop_idle (pw_pool w) = Some ((slot, conn), p) \<Longrightarrow>
    pool_step site w (w\<lparr>pw_pool := p, pw_waking := k, pw_guards := (slot, conn, False) # pw_guards w\<rparr>)"
| acquire_panic: "pw_waking w = Suc k \<Longrightarrow> pop_idle (pw_pool w) = None \<Longrightarrow>
    pool_step site w (w\<lparr>pw_waking := k, pw_panicked := True\<rparr>)"
| mark_bad: "(slot, conn, bad) \<in> set (pw_guards w) \<Longrightarrow>
    pool_step site w (w\<lparr>pw_guards := (slot, conn, True) # remove1 (slot, conn, bad) (pw_guards w)\<rparr>)"
| drop_push: "(slot, conn, False) \<in> set (pw_guards w) \<Longrightarrow>
    pool_step site w (w\<lparr>pw_pool := push_idle slot conn (pw_pool w),
      pw_guards := remove1 (slot, conn, False) (pw_guards w), pw_releasing := pw_releasing w + 1\<rparr>)"
| drop_permit: "pw_releasing w = Suc k \<Longrightarrow>
    pool_step site w (w\<lparr>pw_pool := return_permit (pw_pool w), pw_releasing := k\<rparr>)"
| drop_bad: "(slot, conn, True) \<in> set (pw_guards w) \<Longrightarrow>
    pool_step site w (w\<lparr>pw_guards := remove1 (slot, conn, True) (pw_guards w),
      pw_reconnecting := slot # pw_reconnecting w\<rparr>)"
| reconnected: "slot \<in> set (pw_reconnecting w) \<Longrightarrow> slot_login (relogin_with (pw_pool w)) nets = Inr conn \<Longrightarrow>
    pool_step site w (w\<lparr>pw_pool := relogin_slot site slot (slot_login (relogin_with (pw_pool w)) nets) (pw_pool w),
      pw_reconnecting := remove1 slot (pw_reconnecting w), pw_releasing := pw_releasing w + 1\<rparr>)"
| reconnect_failed: "slot \<in> set (pw_reconnecting w) \<Longrightarrow> slot_login (relogin_with (pw_pool w)) nets = Inl e \<Longrightarrow>
    pool_step site w (w\<lparr>pw_pool := relogin_slot site slot (slot_login (relogin_with (pw_pool w)) nets) (pw_pool w),
      pw_reconnecting := remove1 slot (pw_reconnecting w), pw_lost := slot # pw_lost w\<rparr>)"

inductive_cases pool_stepE: "pool_step site w w'"

inductive pool_steps :: "('c, 's) steam_site \<Rightarrow> 'c pool_world \<Rightarrow> 'c pool_world \<Rightarrow> bool" for site where
  steps_refl: "pool_steps site w w"
| steps_next: "pool_steps site w w' \<Longrightarrow> pool_step site w' w'' \<Longrightarrow> pool_steps site w w''"

definition all_slots :: "'c pool_world \<Rightarrow> nat list" where
  "all_slots w = map fst (idle_conns (pw_pool w)) @ map fst (pw_guards w) @ pw_reconnecting w @ pw_lost w"

definition slots_inv :: "nat \<Rightarrow> 'c pool_world \<Rightarrow> bool" where
  "slots_inv n w = (mset (all_slots w) = mset [0..<n])"

definition permits_inv :: "'c pool_world \<Rightarrow> bool" where
  "permits_inv w = (length (idle_conns (pw_pool w)) = sem_permits (pw_pool w) + pw_waking w + pw_releasing w
     \<and> \<not> pw_panicked w)"

text \<open>Every connection at hand, with its slot.\<close>

fun guard_conn :: "nat \<times> 'c \<times> bool \<Rightarrow> nat \<times> 'c" where
  "guard_conn (slot, conn, bad) = (slot, conn)"

definition live_conns :: "'c pool_world \<Rightarrow> (nat \<times> 'c) list" where
  "live_conns w = idle_conns (pw_pool w) @ map guard_conn (pw_guards w)"

definition flags_inv :: "('c, 's) steam_site \<Rightarrow> nat \<Rightarrow> 'c pool_world \<Rightarrow> bool" where
  "flags_inv site n w =
    (length (authed_flags (pw_pool w)) = n
     \<and> (\<forall>(slot, conn) \<in> set (live_conns w). authed_flags (pw_pool w) ! slot = is_auth site conn)
     \<and> (\<forall>slot \<in> set (pw_lost w). \<not> authed_flags (pw_pool w) ! slot))"

section \<open>The invariants\<close>

named_theorems pool_defs

lemmas [pool_defs] = take_permit_def return_permit_def pop_idle_def push_idle_def set_flag_def relogin_slot_def

lemma fst_guard_conn [simp]: "fst (guard_conn x) = fst x"
  by (cases x) simp

lemma live_slots: "map fst (live_conns w) = map fst (idle_conns (pw_pool w)) @ map fst (pw_guards w)"
  by (auto simp: live_conns_def)

lemma set_last_butlast: "xs \<noteq> [] \<Longrightarrow> last xs = x \<Longrightarrow> set xs = insert x (set (butlast xs))"
  by (cases xs rule: rev_cases) auto

lemma mset_last_butlast: "xs \<noteq> [] \<Longrightarrow> last xs = x \<Longrightarrow> mset (map f xs) = add_mset (f x) (mset (map f (butlast xs)))"
  by (cases xs rule: rev_cases) auto

lemma mset_map_remove1: "x \<in> set xs \<Longrightarrow> mset (map f xs) = add_mset (f x) (mset (map f (remove1 x xs)))"
  by (metis image_mset_add_mset insert_DiffM mset_map mset_remove1 set_mset_mset)

lemma permits_step: "pool_step site w w' \<Longrightarrow> permits_inv w \<Longrightarrow> permits_inv w'"
  by (cases rule: pool_step.cases) (auto simp: permits_inv_def pool_defs split: if_splits)

lemma slots_step:
  assumes "pool_step site w w'" "slots_inv n w"
  shows "slots_inv n w'"
proof -
  have "mset (all_slots w') = mset (all_slots w)"
    using assms(1)
    by (cases rule: pool_step.cases)
       (auto simp: all_slots_def pool_defs mset_last_butlast [where f = fst] mset_map_remove1 [where f = fst]
          simp flip: mset_map split: if_splits)
  then show ?thesis using assms(2) by (simp add: slots_inv_def)
qed

lemma flags_step_keep:
  assumes "flags_inv site n w" "set (live_conns w') \<subseteq> set (live_conns w)" "set (pw_lost w') \<subseteq> set (pw_lost w)"
    "authed_flags (pw_pool w') = authed_flags (pw_pool w)"
  shows "flags_inv site n w'"
  using assms unfolding flags_inv_def by (simp only: assms(4)) blast

lemma set_map_remove1: "x \<in> set xs \<Longrightarrow> set (map f xs) = insert (f x) (set (map f (remove1 x xs)))"
  using mset_map_remove1 [of x xs f] by (metis set_mset_add_mset_insert set_mset_mset)

lemma slots_bounds:
  assumes "slots_inv n w"
  shows "distinct (all_slots w)" "set (all_slots w) = {0..<n}"
  using assms mset_eq_setD [of "all_slots w" "[0..<n]"] mset_eq_imp_distinct_iff [of "all_slots w" "[0..<n]"]
  by (auto simp: slots_inv_def)

lemma reconnecting_apart:
  assumes "slots_inv n w" "slot \<in> set (pw_reconnecting w)"
  shows "slot < n" "slot \<notin> fst ` set (live_conns w)" "slot \<notin> set (pw_lost w)"
proof -
  have m: "slot \<in> set (all_slots w)" using assms(2) by (simp add: all_slots_def)
  then show "slot < n" using slots_bounds(2) [OF assms(1)] by simp
  have "distinct (map fst (live_conns w) @ pw_reconnecting w @ pw_lost w)"
    using slots_bounds(1) [OF assms(1)] by (simp only: all_slots_def live_slots append_assoc)
  then show "slot \<notin> fst ` set (live_conns w)" "slot \<notin> set (pw_lost w)"
    using assms(2) by auto
qed

lemma map_remove1_subset: "set (map f (remove1 x xs)) \<subseteq> set (map f xs)"
  using set_remove1_subset [of x xs] by auto

lemma guard_live: "(slot, conn, bad) \<in> set (pw_guards w) \<Longrightarrow> (slot, conn) \<in> set (live_conns w)"
  using image_eqI [of "(slot, conn)" guard_conn "(slot, conn, bad)"] by (auto simp: live_conns_def)

lemma flags_set_flag:
  assumes "flags_inv site n w" "slots_inv n w" "slot \<in> set (pw_reconnecting w)"
    and live: "set (live_conns w') \<subseteq> set (live_conns w) \<union> {(slot, c) | c. b = is_auth site c}"
    and lost: "set (pw_lost w') \<subseteq> set (pw_lost w) \<union> (if b then {} else {slot})"
    and flags: "authed_flags (pw_pool w') = (authed_flags (pw_pool w))[slot := b]"
  shows "flags_inv site n w'"
proof -
  note apart = reconnecting_apart [OF assms(2,3)]
  have len: "length (authed_flags (pw_pool w)) = n" using assms(1) by (simp add: flags_inv_def)
  have "authed_flags (pw_pool w') ! s = is_auth site c" if "(s, c) \<in> set (live_conns w')" for s c
  proof (cases "s = slot")
    case True
    then have "(s, c) \<notin> set (live_conns w)" using apart(2) by force
    then have "b = is_auth site c" using that live True by auto
    then show ?thesis using True len apart(1) by (simp add: flags)
  next
    case False
    then have "(s, c) \<in> set (live_conns w)" using that live by auto
    then show ?thesis using assms(1) False by (auto simp: flags_inv_def flags)
  qed
  moreover have "\<not> authed_flags (pw_pool w') ! s" if "s \<in> set (pw_lost w')" for s
  proof (cases "s = slot")
    case True
    then have "\<not> b" using that lost apart(3) by (auto split: if_splits)
    then show ?thesis using True len apart(1) by (simp add: flags)
  next
    case False
    then have "s \<in> set (pw_lost w)" using that lost by (auto split: if_splits)
    then show ?thesis using assms(1) False by (auto simp: flags_inv_def flags)
  qed
  ultimately show ?thesis unfolding flags_inv_def using len flags by auto
qed

lemma flags_step:
  assumes "pool_step site w w'" "slots_inv n w" "flags_inv site n w"
  shows "flags_inv site n w'"
  using assms(1)
proof (cases rule: pool_step.cases)
  case (acquire_pop k slot conn p)
  then show ?thesis
    by (intro flags_step_keep [OF assms(3)])
       (auto simp: live_conns_def pool_defs in_set_butlastD split: if_splits dest: last_in_set)
next
  case (mark_bad slot conn bad)
  note sub = map_remove1_subset [of guard_conn "(slot, conn, bad)" "pw_guards w"]
  from mark_bad show ?thesis
    by (intro flags_step_keep [OF assms(3)])
       (use sub guard_live [OF mark_bad(2)] in \<open>auto simp: live_conns_def
\<close>)
next
  case (drop_push slot conn)
  note sub = map_remove1_subset [of guard_conn "(slot, conn, False)" "pw_guards w"]
  from drop_push show ?thesis
    by (intro flags_step_keep [OF assms(3)])
       (use sub guard_live [OF drop_push(2)] in \<open>auto simp: live_conns_def pool_defs\<close>)
next
  case (drop_bad slot conn)
  note sub = map_remove1_subset [of guard_conn "(slot, conn, True)" "pw_guards w"]
  from drop_bad show ?thesis
    by (intro flags_step_keep [OF assms(3)]) (use sub in \<open>auto simp: live_conns_def\<close>)
next
  case (reconnected slot nets conn)
  show ?thesis
    by (rule flags_set_flag [OF assms(3,2) reconnected(2), where b = "is_auth site conn"])
       (auto simp: reconnected live_conns_def pool_defs)
next
  case (reconnect_failed slot nets e)
  show ?thesis
    by (rule flags_set_flag [OF assms(3,2) reconnect_failed(2), where b = False])
       (auto simp: reconnect_failed live_conns_def pool_defs)
qed (auto intro!: flags_step_keep [OF assms(3)] simp: live_conns_def pool_defs split: if_splits)

definition pool_inv :: "('c, 's) steam_site \<Rightarrow> nat \<Rightarrow> 'c pool_world \<Rightarrow> bool" where
  "pool_inv site n w = (permits_inv w \<and> slots_inv n w \<and> flags_inv site n w)"

lemma pool_inv_step: "pool_step site w w' \<Longrightarrow> pool_inv site n w \<Longrightarrow> pool_inv site n w'"
  unfolding pool_inv_def using permits_step slots_step flags_step by blast

lemma pool_inv_steps: "pool_steps site w w' \<Longrightarrow> pool_inv site n w \<Longrightarrow> pool_inv site n w'"
  by (induction rule: pool_steps.induct) (auto intro: pool_inv_step)

section \<open>Starting\<close>

lemma rmap_slots:
  "rmap (\<lambda>slot. rbind (f slot) (\<lambda>conn. Inr (slot, conn))) slots = Inr conns \<longleftrightarrow>
     map fst conns = slots \<and> (\<forall>(slot, conn) \<in> set conns. f slot = Inr conn)"
  unfolding rmap_eq_Inr
proof (induction slots arbitrary: conns)
  case (Cons s ss)
  show ?case using Cons [of "tl conns"] by (cases conns) (auto simp: result_simps)
qed auto

lemma login_slots_ok:
  "login_slots site n relogin = Inr conns \<longleftrightarrow>
     map fst conns = [0..<n] \<and> (\<forall>(slot, conn) \<in> set conns. slot_login relogin (st_net site slot) = Inr conn)"
  unfolding login_slots_def rmap_slots [symmetric] by (auto simp: map_err_def split: sum.splits)

lemma foldl_flags:
  "distinct (map fst conns) \<Longrightarrow> \<forall>(slot, conn) \<in> set conns. slot < length flags \<Longrightarrow>
     length (foldl (\<lambda>flags (slot, conn). flags[slot := g conn]) flags conns) = length flags
     \<and> (\<forall>(slot, conn) \<in> set conns. foldl (\<lambda>flags (slot, conn). flags[slot := g conn]) flags conns ! slot = g conn)
     \<and> (\<forall>slot. slot \<notin> fst ` set conns \<longrightarrow> foldl (\<lambda>flags (slot, conn). flags[slot := g conn]) flags conns ! slot = flags ! slot)"
proof (induction conns arbitrary: flags)
  case (Cons x conns)
  obtain s c where x: "x = (s, c)" by force
  have "\<forall>(slot, conn) \<in> set conns. slot < length (flags[s := g c])" using Cons.prems(2) by auto
  note IH = Cons.IH [OF _ this]
  show ?case using IH Cons.prems by (auto simp: x)
qed simp

lemma start_flags_ok:
  assumes "map fst conns = [0..<n]"
  shows "length (start_flags site n conns) = n"
    and "(slot, conn) \<in> set conns \<Longrightarrow> start_flags site n conns ! slot = is_auth site conn"
proof -
  have "\<forall>(slot, conn) \<in> set conns. slot < n"
    using arg_cong [where f = set, OF assms] by force
  then show "length (start_flags site n conns) = n"
    "(slot, conn) \<in> set conns \<Longrightarrow> start_flags site n conns ! slot = is_auth site conn"
    using foldl_flags [of conns "replicate n False" "is_auth site"] assms by (auto simp: start_flags_def)
qed

lemma pool_start_ok:
  assumes "pool_start site n auth dir files = (Inr p, files')"
  shows "sem_permits p = n" "map fst (idle_conns p) = [0..<n]"
    "(slot, conn) \<in> set (idle_conns p) \<Longrightarrow> slot_login (relogin_with p) (st_net site slot) = Inr conn"
    "length (authed_flags p) = n"
    "(slot, conn) \<in> set (idle_conns p) \<Longrightarrow> authed_flags p ! slot = is_auth site conn"
proof -
  obtain relogin conns where c: "login_slots site n relogin = Inr conns"
    and p: "p = \<lparr>sem_permits = n, idle_conns = conns, relogin_with = relogin, authed_flags = start_flags site n conns\<rparr>"
    using assms by (auto simp: pool_start_def Let_def rbind_def split: sum.splits steam_auth.splits prod.splits)
  have m: "map fst conns = [0..<n]" using c by (simp add: login_slots_ok)
  show "sem_permits p = n" "map fst (idle_conns p) = [0..<n]"
    "(slot, conn) \<in> set (idle_conns p) \<Longrightarrow> slot_login (relogin_with p) (st_net site slot) = Inr conn"
    "length (authed_flags p) = n"
    using c m start_flags_ok(1) [OF m] by (auto simp: p login_slots_ok)
  show "(slot, conn) \<in> set (idle_conns p) \<Longrightarrow> authed_flags p ! slot = is_auth site conn"
    using start_flags_ok(2) [OF m] by (simp add: p)
qed

lemma pool_inv_start:
  assumes "pool_start site n auth dir files = (Inr p, files')"
  shows "pool_inv site n (new_world p)"
proof -
  note ok = pool_start_ok [OF assms]
  have "length (idle_conns p) = n" using arg_cong [OF ok(2), of length] by simp
  then show ?thesis
    using ok by (auto simp: pool_inv_def permits_inv_def slots_inv_def flags_inv_def all_slots_def
        live_conns_def new_world_def)
qed

section \<open>The shared retry gate\<close>

text \<open>Where the login of a slot is: its \<open>k\<close>th attempt running, waiting for the one permit of
  \<open>retry_gate\<close> after it, pausing with that permit, or over. A credentialed slot has two rounds of
  attempts, the second one anonymous; an anonymous slot has one.\<close>

datatype login_phase = Trying nat | WaitingForGate nat | Pausing nat | LoggedIn | GaveUp

fun is_pausing :: "login_phase \<Rightarrow> bool" where
  "is_pausing (Pausing k) = True"
| "is_pausing _ = False"

fun is_over :: "login_phase \<Rightarrow> bool" where
  "is_over LoggedIn = True"
| "is_over GaveUp = True"
| "is_over _ = False"

definition gate_free :: "login_phase list \<Rightarrow> bool" where
  "gate_free ps = (\<not> list_ex is_pausing ps)"

inductive login_step :: "nat \<Rightarrow> login_phase list \<Rightarrow> login_phase list \<Rightarrow> bool" for rounds where
  attempt_ok: "i < length ps \<Longrightarrow> ps ! i = Trying k \<Longrightarrow> login_step rounds ps (ps[i := LoggedIn])"
| attempt_failed: "i < length ps \<Longrightarrow> ps ! i = Trying k \<Longrightarrow> k mod LOGIN_ATTEMPTS \<noteq> 0 \<Longrightarrow>
    login_step rounds ps (ps[i := WaitingForGate k])"
| round_failed: "i < length ps \<Longrightarrow> ps ! i = Trying k \<Longrightarrow> k mod LOGIN_ATTEMPTS = 0 \<Longrightarrow>
    login_step rounds ps (ps[i := if k < rounds * LOGIN_ATTEMPTS then Trying (k + 1) else GaveUp])"
| enter_gate: "i < length ps \<Longrightarrow> ps ! i = WaitingForGate k \<Longrightarrow> gate_free ps \<Longrightarrow>
    login_step rounds ps (ps[i := Pausing k])"
| pause_over: "i < length ps \<Longrightarrow> ps ! i = Pausing k \<Longrightarrow> login_step rounds ps (ps[i := Trying (k + 1)])"

inductive_cases login_stepE: "login_step rounds ps ps'"

fun phase_ok :: "nat \<Rightarrow> login_phase \<Rightarrow> bool" where
  "phase_ok rounds (Trying k) = (k \<le> rounds * LOGIN_ATTEMPTS)"
| "phase_ok rounds (WaitingForGate k) = (k < rounds * LOGIN_ATTEMPTS)"
| "phase_ok rounds (Pausing k) = (k < rounds * LOGIN_ATTEMPTS)"
| "phase_ok rounds _ = True"

fun phase_weight :: "nat \<Rightarrow> login_phase \<Rightarrow> nat" where
  "phase_weight rounds (Trying k) = 3 * (rounds * LOGIN_ATTEMPTS - k) + 3"
| "phase_weight rounds (WaitingForGate k) = 3 * (rounds * LOGIN_ATTEMPTS - k) + 2"
| "phase_weight rounds (Pausing k) = 3 * (rounds * LOGIN_ATTEMPTS - k) + 1"
| "phase_weight rounds _ = 0"

definition gate_inv :: "nat \<Rightarrow> login_phase list \<Rightarrow> bool" where
  "gate_inv rounds ps = (list_all (phase_ok rounds) ps \<and> length (filter is_pausing ps) \<le> 1)"

definition login_weight :: "nat \<Rightarrow> login_phase list \<Rightarrow> nat" where
  "login_weight rounds ps = sum_list (map (phase_weight rounds) ps)"

lemma list_update_split:
  "i < length xs \<Longrightarrow> xs = take i xs @ (xs ! i) # drop (Suc i) xs \<and> xs[i := y] = take i xs @ y # drop (Suc i) xs"
  by (simp add: id_take_nth_drop upd_conv_take_nth_drop)

text \<open>A step changes one phase.\<close>

lemma login_step_phase:
  assumes "login_step rounds ps ps'" "gate_inv rounds ps"
  obtains before p p' after where "ps = before @ p # after" "ps' = before @ p' # after"
    "phase_weight rounds p' < phase_weight rounds p" "phase_ok rounds p'"
    "is_pausing p' \<longrightarrow> gate_free ps"
proof -
  from assms(1) obtain i p' where i: "i < length ps" "ps' = ps[i := p']"
    and less: "phase_ok rounds (ps ! i) \<longrightarrow> phase_weight rounds p' < phase_weight rounds (ps ! i) \<and> phase_ok rounds p'"
    and gate: "is_pausing p' \<longrightarrow> gate_free ps"
  proof (cases rule: login_step.cases)
    case (attempt_failed i k)
    have "k \<noteq> rounds * LOGIN_ATTEMPTS" using attempt_failed(4) by auto
    then show ?thesis using attempt_failed that [of i "WaitingForGate k"] by auto
  next
    case (round_failed i k)
    show ?thesis
      by (rule that [of i "if k < rounds * LOGIN_ATTEMPTS then Trying (k + 1) else GaveUp"])
        (use round_failed in \<open>auto split: if_splits\<close>)
  next
    case (pause_over i k)
    have less: "3 * (rounds * LOGIN_ATTEMPTS - (k + 1)) + 3 < 3 * (rounds * LOGIN_ATTEMPTS - k) + 1"
      if "k < rounds * LOGIN_ATTEMPTS"
      using that by linarith
    show ?thesis by (rule that [of i "Trying (k + 1)"]) (use pause_over less in simp_all)
  qed (use that in \<open>auto split: if_splits\<close>)
  have "phase_ok rounds (ps ! i)" using assms(2) i(1) by (simp add: gate_inv_def list_all_length)
  then show thesis
    using that [of "take i ps" "ps ! i" "drop (Suc i) ps" p'] less gate list_update_split [OF i(1), of p'] i(2) by blast
qed

lemma gate_inv_step:
  assumes "login_step rounds ps ps'" "gate_inv rounds ps"
  shows "gate_inv rounds ps'" "login_weight rounds ps' < login_weight rounds ps"
proof -
  from login_step_phase [OF assms] obtain before p p' after where
    parts: "ps = before @ p # after" "ps' = before @ p' # after"
    and less: "phase_weight rounds p' < phase_weight rounds p" and ok: "phase_ok rounds p'"
    and gate: "is_pausing p' \<longrightarrow> gate_free ps" .
  show "login_weight rounds ps' < login_weight rounds ps"
    using less by (simp add: login_weight_def parts)
  show "gate_inv rounds ps'"
  proof (cases "is_pausing p'")
    case True
    then have "filter is_pausing before = [] \<and> filter is_pausing after = []"
      using gate by (auto simp: gate_free_def parts list_ex_iff filter_empty_conv)
    then show ?thesis using assms(2) ok by (simp add: gate_inv_def parts)
  next
    case False
    then show ?thesis using assms(2) ok by (auto simp: gate_inv_def parts split: if_splits)
  qed
qed

lemma gate_progress:
  assumes "\<not> list_all is_over ps"
  shows "\<exists>ps'. login_step rounds ps ps'"
proof (cases "gate_free ps")
  case True
  from assms obtain i where i: "i < length ps" "\<not> is_over (ps ! i)" by (auto simp: list_all_length)
  show ?thesis
    using attempt_ok [OF i(1)] enter_gate [OF i(1) _ True] pause_over [OF i(1)] i(2)
    by (cases "ps ! i") fastforce+
next
  case False
  then obtain i where i: "i < length ps" "is_pausing (ps ! i)" by (auto simp: gate_free_def list_ex_length)
  then obtain k where "ps ! i = Pausing k" by (cases "ps ! i") auto
  then show ?thesis using pause_over [OF i(1)] by blast
qed

lemma gate_run:
  assumes "(login_step rounds ^^ m) ps ps'" "gate_inv rounds ps"
  shows "gate_inv rounds ps' \<and> m + login_weight rounds ps' \<le> login_weight rounds ps"
  using assms
proof (induction m arbitrary: ps')
  case (Suc m)
  from Suc.prems(1) obtain q where q: "(login_step rounds ^^ m) ps q" "login_step rounds q ps'" by auto
  from Suc.IH [OF q(1) Suc.prems(2)] gate_inv_step [OF q(2)] show ?case by force
qed simp

text \<open>Two slots can be in their second attempt at the same time: the permit of the gate is held for the
  pause only, not for the attempt after it.\<close>

lemma overlapping_retries: "(login_step 1 ^^ 6) (replicate 2 (Trying 1)) [Trying 2, Trying 2]"
proof -
  have s: "login_step 1 ps (ps[i := p])"
    if "i < length ps" "(ps ! i = Trying 1 \<and> p = WaitingForGate 1) \<or> (ps ! i = WaitingForGate 1 \<and> p = Pausing 1 \<and> gate_free ps)
      \<or> (ps ! i = Pausing 1 \<and> p = Trying 2)" for ps i p
    using that attempt_failed [of i ps 1 1] enter_gate [of i ps 1 1] pause_over [of i ps 1 1]
    by (auto simp: LOGIN_ATTEMPTS_def numeral_2_eq_2)
  note steps = s [of 0 "[Trying 1, Trying 1]" "WaitingForGate 1"] s [of 1 "[WaitingForGate 1, Trying 1]" "WaitingForGate 1"]
    s [of 0 "[WaitingForGate 1, WaitingForGate 1]" "Pausing 1"] s [of 0 "[Pausing 1, WaitingForGate 1]" "Trying 2"]
    s [of 1 "[Trying 2, WaitingForGate 1]" "Pausing 1"] s [of 1 "[Trying 2, Pausing 1]" "Trying 2"]
  have "login_step 1 [Trying 1, Trying 1] [WaitingForGate 1, Trying 1]"
    "login_step 1 [WaitingForGate 1, Trying 1] [WaitingForGate 1, WaitingForGate 1]"
    "login_step 1 [WaitingForGate 1, WaitingForGate 1] [Pausing 1, WaitingForGate 1]"
    "login_step 1 [Pausing 1, WaitingForGate 1] [Trying 2, WaitingForGate 1]"
    "login_step 1 [Trying 2, WaitingForGate 1] [Trying 2, Pausing 1]"
    "login_step 1 [Trying 2, Pausing 1] [Trying 2, Trying 2]"
    using steps by (simp_all add: gate_free_def)
  then show ?thesis
    by (simp add: numeral_eq_Suc) blast
qed

text \<open>C35: The concurrent logins of the pool always come to an end: whatever Steam answers, a run has at
  most nine steps for each slot and round, a run that cannot go on has every slot logged in or given
  up (the shared gate never blocks the last one), and never more than one slot pauses at a time.\<close>

theorem pool_logins_finish:
  assumes "0 < rounds" "(login_step rounds ^^ m) (replicate n (Trying 1)) ps"
  shows "m \<le> n * (9 * rounds) \<and> length (filter is_pausing ps) \<le> 1
    \<and> ((\<forall>ps'. \<not> login_step rounds ps ps') \<longrightarrow> list_all is_over ps)"
proof -
  let ?start = "replicate n (Trying 1)"
  have inv: "gate_inv rounds ?start"
    using assms(1) by (auto simp: gate_inv_def list_all_iff LOGIN_ATTEMPTS_def)
  have "3 * (rounds * LOGIN_ATTEMPTS - 1) + 3 = 9 * rounds"
    using assms(1) by (cases rounds) (auto simp: LOGIN_ATTEMPTS_def)
  then have "login_weight rounds ?start = n * (9 * rounds)"
    by (simp add: login_weight_def sum_list_replicate)
  then show ?thesis
    using gate_run [OF assms(2) inv] gate_progress [of ps rounds] by (auto simp: gate_inv_def)
qed

theorem pool_logins_finish_witness:
  "(6::nat) \<le> 2 * (9 * 1) \<and> length (filter is_pausing [Trying 2, Trying 2]) \<le> 1"
  using pool_logins_finish [OF _ overlapping_retries] by simp

section \<open>What a login gives\<close>

text \<open>The reference: the attempts of a slot in order, of which the first success counts, or the last
  failure.\<close>

definition slot_attempt :: "(string \<times> string) option \<Rightarrow> (nat \<Rightarrow> 'c cm_net) \<Rightarrow> nat \<Rightarrow> any_error + 'c" where
  "slot_attempt relogin nets k =
    (case relogin of
       None \<Rightarrow> login_anonymous (nets k)
     | Some (user, token) \<Rightarrow> if k \<le> LOGIN_ATTEMPTS then login_with_refresh_token (nets k) user token else login_anonymous (nets k))"

definition first_ok :: "('e + 'a) list \<Rightarrow> 'e + 'a" where
  "first_ok rs = (case find is_ok rs of Some r \<Rightarrow> r | None \<Rightarrow> last rs)"

definition slot_attempts :: "(string \<times> string) option \<Rightarrow> nat list" where
  "slot_attempts relogin = [1..<(if relogin = None then LOGIN_ATTEMPTS else 2 * LOGIN_ATTEMPTS) + 1]"

lemma first_ok_Cons: "first_ok (r # rs) = (if is_ok r \<or> rs = [] then r else first_ok rs)"
  by (auto simp: first_ok_def split: option.splits)

lemma first_ok_append: "first_ok (rs @ ss) = (if list_ex is_ok rs \<or> ss = [] then first_ok rs else first_ok ss)"
  by (induction rs) (auto simp: first_ok_Cons)

lemma first_ok_is_ok: "rs \<noteq> [] \<Longrightarrow> is_ok (first_ok rs) = list_ex is_ok rs"
  by (induction rs) (auto simp: first_ok_Cons)

lemma slot_attempts_simps [simp]: "slot_attempts None = [1, 2, 3]" "slot_attempts (Some ut) = [1, 2, 3, 4, 5, 6]"
  by (simp_all add: slot_attempts_def LOGIN_ATTEMPTS_def upt_rec)

lemma login_with_retry_first: "login_with_retry f = first_ok [f 1, f 2, f 3]"
  by (simp add: login_with_retry_def LOGIN_ATTEMPTS_def numeral_eq_Suc login_loop.simps first_ok_Cons split: sum.splits)

lemma slot_login_first: "slot_login relogin nets = first_ok (map (slot_attempt relogin nets) (slot_attempts relogin))"
proof (cases relogin)
  case None
  then show ?thesis by (simp add: slot_login_def login_with_retry_first slot_attempt_def)
next
  case (Some ut)
  obtain u t where ut: "ut = (u, t)" by force
  show ?thesis
    by (simp add: slot_login_def login_or_degrade_to_anonymous_def login_with_retry_first
        slot_attempt_def Some ut LOGIN_ATTEMPTS_def first_ok_Cons split: sum.splits)
qed

lemma login_slots_fail:
  "(\<exists>e. login_slots site n relogin = Inl e) \<longleftrightarrow> (\<exists>slot < n. \<not> is_ok (slot_login relogin (st_net site slot)))"
proof -
  have "(\<exists>e. rmap (\<lambda>slot. rbind (g slot) (\<lambda>conn. Inr (slot, conn))) slots = Inl e) \<longleftrightarrow> (\<exists>slot \<in> set slots. \<not> is_ok (g slot))"
    for g :: "nat \<Rightarrow> any_error + 'a" and slots
  proof (induction slots)
    case (Cons s ss)
    then show ?case by (cases "g s") (auto simp: result_simps)
  qed simp
  from this [of "\<lambda>slot. slot_login relogin (st_net site slot)" "[0..<n]"] show ?thesis
    by (auto simp: login_slots_def result_simps)
qed

section \<open>Properties\<close>

text \<open>C36: Starting a pool with a stored session needs nothing but its slots: each takes the connection of
  its first successful attempt, of three with the token and then three anonymous ones, and the start
  fails exactly when some slot has none in six. Its flags tell which slots are logged on as the
  account, and every slot is idle.\<close>

theorem session_start_is_slotwise:
  "case fst (pool_start site n (SessionAuth user token) dir files) of
     Inr p \<Rightarrow> sem_permits p = n \<and> map fst (idle_conns p) = [0..<n]
       \<and> (\<forall>(slot, conn) \<in> set (idle_conns p).
            first_ok (map (slot_attempt (Some (user, token)) (st_net site slot)) [1..<7]) = Inr conn
            \<and> authed_flags p ! slot = is_auth site conn)
   | Inl e \<Rightarrow> \<exists>slot < n. \<not> list_ex is_ok (map (slot_attempt (Some (user, token)) (st_net site slot)) [1..<7])"
proof -
  let ?r = "Some (user, token)"
  have att: "[Suc 0..<7] = [1, 2, 3, 4, 5, 6]" by (simp add: upt_rec)
  have start: "pool_start site n (SessionAuth user token) dir files =
      (rbind (login_slots site n ?r) (\<lambda>conns. Inr \<lparr>sem_permits = n, idle_conns = conns, relogin_with = ?r,
         authed_flags = start_flags site n conns\<rparr>), files)"
    by (simp add: pool_start_def)
  show ?thesis
  proof (cases "login_slots site n ?r")
    case (Inl e)
    then obtain slot where "slot < n" "\<not> is_ok (slot_login ?r (st_net site slot))"
      using login_slots_fail [of site n ?r] by auto
    then have "slot < n \<and> \<not> list_ex is_ok (map (slot_attempt ?r (st_net site slot)) [1..<7])"
      by (simp add: slot_login_first att first_ok_is_ok)
    then show ?thesis by (auto simp: start Inl)
  next
    case (Inr conns)
    let ?p = "\<lparr>sem_permits = n, idle_conns = conns, relogin_with = ?r, authed_flags = start_flags site n conns\<rparr>"
    have p: "pool_start site n (SessionAuth user token) dir files = (Inr ?p, files)" by (simp add: start Inr)
    show ?thesis using pool_start_ok [OF p] by (auto simp: p slot_login_first att)
  qed
qed

text \<open>C9: However callers, dropped guards and re-logins interleave, a permit always finds an idle
  connection (the \<open>expect\<close> of \<open>acquire\<close> never fails), every slot of the pool is in exactly one place
  (idle, handed out, being logged in again, or given up), and the flag of a slot at hand tells how its
  connection is logged on.\<close>

theorem pool_accounts_for_every_slot:
  assumes "pool_start site n auth dir files = (Inr p, files')" "pool_steps site (new_world p) w"
  shows "\<not> pw_panicked w \<and> mset (all_slots w) = mset [0..<n]
    \<and> (0 < sem_permits (pw_pool w) + pw_waking w \<longrightarrow> pop_idle (pw_pool w) \<noteq> None)
    \<and> (\<forall>(slot, conn) \<in> set (live_conns w). authed_flags (pw_pool w) ! slot = is_auth site conn)"
proof -
  have inv: "pool_inv site n w" using pool_inv_steps [OF assms(2) pool_inv_start [OF assms(1)]] .
  then have "permits_inv w" "slots_inv n w" "flags_inv site n w" by (simp_all add: pool_inv_def)
  then show ?thesis by (auto simp: permits_inv_def slots_inv_def flags_inv_def pop_idle_def)
qed

lemma pool_length:
  assumes "pool_inv site n w"
  shows "length (idle_conns (pw_pool w)) + length (pw_guards w) + length (pw_reconnecting w) + length (pw_lost w) = n"
proof -
  have "size (mset (all_slots w)) = n" using assms by (simp add: pool_inv_def slots_inv_def)
  then show ?thesis by (simp add: all_slots_def)
qed

lemma exhausted_is_stuck:
  assumes "pool_inv site n w" "length (pw_lost w) = n"
  shows "\<not> pool_step site w w'"
proof
  assume step: "pool_step site w w'"
  have none: "idle_conns (pw_pool w) = []" "pw_guards w = []" "pw_reconnecting w = []"
    using pool_length [OF assms(1)] assms(2) by auto
  then have "sem_permits (pw_pool w) = 0" "pw_waking w = 0" "pw_releasing w = 0"
    using assms(1) by (auto simp: pool_inv_def permits_inv_def)
  note none = none this
  show False using step by (cases rule: pool_step.cases) (auto simp: none take_permit_def)
qed

lemma exhausted_steps:
  "pool_steps site w w' \<Longrightarrow> pool_inv site n w \<Longrightarrow> length (pw_lost w) = n \<Longrightarrow> w' = w"
  by (induction rule: pool_steps.induct) (auto dest: exhausted_is_stuck)

text \<open>C10: A pool at rest refuses a caller only when every slot is handed out, being logged in again or
  given up. Once the re-logins have given up every slot, nothing happens any more: a caller waits for
  ever (the start of the process is the only way back).\<close>


theorem acquire_waits_only_for_slots_in_use:
  assumes "pool_start site n auth dir files = (Inr p, files')" "pool_steps site (new_world p) w"
    "pw_waking w = 0" "pw_releasing w = 0"
  shows "(acquire (pw_pool w) = None \<longleftrightarrow> length (pw_guards w) + length (pw_reconnecting w) + length (pw_lost w) = n)
    \<and> acquire (pw_pool w) \<noteq> Some None
    \<and> (length (pw_lost w) = n \<longrightarrow> pool_steps site w w' \<longrightarrow> acquire (pw_pool w') = None)"
proof -
  have inv: "pool_inv site n w" using pool_inv_steps [OF assms(2) pool_inv_start [OF assms(1)]] .
  then have "length (idle_conns (pw_pool w)) = sem_permits (pw_pool w)"
    using assms(3,4) by (simp add: pool_inv_def permits_inv_def)
  with pool_length [OF inv] have
    "acquire (pw_pool w) = None \<longleftrightarrow> length (pw_guards w) + length (pw_reconnecting w) + length (pw_lost w) = n"
    "acquire (pw_pool w) \<noteq> Some None"
    by (auto simp: acquire_def take_permit_def pop_idle_def)
  moreover have "length (pw_lost w) = n \<longrightarrow> pool_steps site w w' \<longrightarrow> acquire (pw_pool w') = None"
    using exhausted_steps [OF _ inv, of w'] calculation(1) pool_length [OF inv] by auto
  ultimately show ?thesis by simp
qed

text \<open>\<open>any_authenticated\<close> does not say that the connection handed out next is authenticated: a fresh
  pool hands out its last slot first, logged on as that slot happens to be, while the flags of the
  others make \<open>any_authenticated\<close> true all the same.\<close>

theorem first_caller_gets_last_slot:
  assumes "pool_start site n auth dir files = (Inr p, files')" "0 < n"
  shows "\<exists>conn p'. acquire p = Some (Some ((n - 1, conn), p')) \<and> is_auth site conn = authed_flags p ! (n - 1)
    \<and> (any_authenticated p \<longleftrightarrow> (\<exists>slot < n. authed_flags p ! slot))"
proof -
  note ok = pool_start_ok [OF assms(1)]
  have ne: "idle_conns p \<noteq> []" using arg_cong [OF ok(2), of length] assms(2) by auto
  obtain slot conn where l: "last (idle_conns p) = (slot, conn)" by force
  have "slot = last (map fst (idle_conns p))" using ne l by (simp add: last_map)
  then have slot: "slot = n - 1" using ok(2) assms(2) by (simp add: last_upt)
  have mem: "(slot, conn) \<in> set (idle_conns p)" using ne l last_in_set by metis
  have "any_authenticated p \<longleftrightarrow> (\<exists>slot < n. authed_flags p ! slot)"
    using ok(4) by (auto simp: any_authenticated_def list_ex_length)
  then show ?thesis
    using ok(1) ok(5) [OF mem] assms(2) ne l slot
    by (simp add: acquire_def take_permit_def pop_idle_def)
qed

section \<open>Concrete runs\<close>

text \<open>A Steam that accepts the token on slot 0 only; slot 1 degrades to anonymous. A connection is whether
  it is logged on as the account.\<close>

definition demo_net :: "bool \<Rightarrow> bool cm_net" where
  "demo_net accepts =
    \<lparr>cn_cm_list = Inr [(''tcp.example:27017'', OtherServerType ''netfilter''), (''ws.example:443'', Websockets)],
     cn_connect = (\<lambda>_. Inr False),
     cn_token_logon = (\<lambda>_ _ _. if accepts then Inr True else Inl (AnyErr (Some (EResultErr 5)) ''InvalidPassword'')),
     cn_anonymous_logon = (\<lambda>_. Inr False)\<rparr>"

definition demo_site :: "(bool, unit) steam_site" where
  "demo_site =
    \<lparr>st_session = Some, st_net = (\<lambda>slot _. demo_net (slot = 0)), st_probe_net = (\<lambda>_. demo_net True),
     st_auth = \<lparr>al_begin = (\<lambda>_ _. Inl (bail_msg ''down'')), al_needs_guard = (\<lambda>_ _. False),
       al_submit_guard = (\<lambda>c _ _ _. Inr c), al_poll = (\<lambda>_ _. Inl (bail_msg ''down'')),
       al_begin_qr = Inl (bail_msg ''down'')\<rparr>\<rparr>"

definition demo_pool :: "bool cm_pool" where
  "demo_pool = \<lparr>sem_permits = 2, idle_conns = [(0, True), (1, False)], relogin_with = Some (''op'', ''tok''),
     authed_flags = [True, False]\<rparr>"

lemma demo_login [simp]:
  "login_with_refresh_token (demo_net accepts) u t =
     (if accepts then Inr True else Inl (AnyErr (Some (EResultErr 5)) ''failed to log on with refresh token: InvalidPassword''))"
  "login_anonymous (demo_net accepts) = Inr False"
  by (simp_all add: login_with_refresh_token_def login_anonymous_def connect_ws_def demo_net_def with_context_def)

lemma demo_slots:
  "slot_login (Some ut) (st_net demo_site slot) = Inr (slot = 0)"
  "login_slots demo_site 2 (Some ut) = Inr [(0, True), (1, False)]"
proof -
  show s: "slot_login (Some ut) (st_net demo_site slot) = Inr (slot = 0)" for slot
    by (cases ut) (simp add: slot_login_first slot_attempt_def first_ok_Cons demo_site_def LOGIN_ATTEMPTS_def)
  show "login_slots demo_site 2 (Some ut) = Inr [(0, True), (1, False)]"
    by (simp add: login_slots_def s upt_rec)
qed

lemma demo_start: "pool_start demo_site 2 (SessionAuth ''op'' ''tok'') [] (\<lambda>_. None) = (Inr demo_pool, \<lambda>_. None)"
proof -
  have "start_flags demo_site 2 [(0, True), (1, False)] = [True, False]"
    by (simp add: start_flags_def is_auth_def demo_site_def numeral_2_eq_2)
  then show ?thesis by (simp add: pool_start_def demo_slots demo_pool_def)
qed

theorem session_start_is_slotwise_witness:
  "sem_permits demo_pool = 2 \<and> map fst (idle_conns demo_pool) = [0..<2]
    \<and> first_ok (map (slot_attempt (Some (''op'', ''tok'')) (st_net demo_site 1)) [1..<7]) = Inr False
    \<and> authed_flags demo_pool ! 1 = is_auth demo_site False"
proof -
  note facts = session_start_is_slotwise [where site = demo_site and n = 2 and user = "''op''" and token = "''tok''"
      and dir = "[]" and files = "\<lambda>_. None", unfolded demo_start fst_conv sum.case]
  have "(1, False) \<in> set (idle_conns demo_pool)" by (simp add: demo_pool_def)
  from bspec [OF conjunct2 [OF conjunct2 [OF facts]] this] facts show ?thesis by (simp only: prod.case)
qed

text \<open>One caller takes slot 1, finds it bad and drops it; the re-login goes wrong altogether.\<close>

definition dead_net :: "bool cm_net" where
  "dead_net = (demo_net False)\<lparr>cn_cm_list := Inl (bail_msg ''unreachable'')\<rparr>"

lemma dead_slot: "\<exists>e. slot_login (Some ut) (\<lambda>_. dead_net) = Inl e"
  by (cases ut) (simp add: slot_login_first slot_attempt_def first_ok_Cons login_with_refresh_token_def
    login_anonymous_def connect_ws_def dead_net_def LOGIN_ATTEMPTS_def)

definition demo_lost :: "bool pool_world" where
  "demo_lost = \<lparr>pw_pool = demo_pool\<lparr>sem_permits := 1, idle_conns := [(0, True)]\<rparr>, pw_waking = 0, pw_guards = [],
     pw_releasing = 0, pw_reconnecting = [], pw_lost = [1], pw_panicked = False\<rparr>"

lemma demo_steps: "pool_steps demo_site (new_world demo_pool) demo_lost"
proof -
  let ?w1 = "(new_world demo_pool)\<lparr>pw_pool := demo_pool\<lparr>sem_permits := 1\<rparr>, pw_waking := 1\<rparr>"
  let ?p2 = "demo_pool\<lparr>sem_permits := 1, idle_conns := [(0, True)]\<rparr>"
  let ?w2 = "(new_world demo_pool)\<lparr>pw_pool := ?p2, pw_guards := [(1, False, False)]\<rparr>"
  let ?w3 = "(new_world demo_pool)\<lparr>pw_pool := ?p2, pw_guards := [(1, False, True)]\<rparr>"
  let ?w4 = "(new_world demo_pool)\<lparr>pw_pool := ?p2, pw_reconnecting := [1]\<rparr>"
  have "pool_step demo_site (new_world demo_pool) ?w1"
    using acquire_permit [of "new_world demo_pool" "demo_pool\<lparr>sem_permits := 1\<rparr>" demo_site]
    by (simp add: new_world_def take_permit_def demo_pool_def)
  moreover have "pool_step demo_site ?w1 ?w2"
    using acquire_pop [of ?w1 0 1 False ?p2 demo_site] by (simp add: new_world_def pop_idle_def demo_pool_def)
  moreover have "pool_step demo_site ?w2 ?w3"
    using mark_bad [of 1 False False ?w2 demo_site] by (simp add: new_world_def)
  moreover have "pool_step demo_site ?w3 ?w4"
    using drop_bad [of 1 False ?w3 demo_site] by (simp add: new_world_def)
  moreover obtain e where e: "slot_login (Some (''op'', ''tok'')) (\<lambda>_. dead_net) = Inl e" using dead_slot by blast
  have "pool_step demo_site ?w4 demo_lost"
    using reconnect_failed [of 1 ?w4 "\<lambda>_. dead_net" e demo_site] e
    by (simp add: new_world_def demo_pool_def demo_lost_def relogin_slot_def set_flag_def)
  ultimately show ?thesis by (meson steps_refl steps_next)
qed

theorem pool_accounts_for_every_slot_witness:
  "\<not> pw_panicked demo_lost \<and> mset (all_slots demo_lost) = mset [0..<2]
    \<and> pop_idle (pw_pool demo_lost) \<noteq> None \<and> authed_flags (pw_pool demo_lost) ! 0 = is_auth demo_site True"
  using pool_accounts_for_every_slot [OF demo_start demo_steps] by (simp add: demo_lost_def live_conns_def)

theorem acquire_waits_only_for_slots_in_use_witness:
  "acquire (pw_pool demo_lost) \<noteq> None \<and> acquire (pw_pool demo_lost) \<noteq> Some None"
  using acquire_waits_only_for_slots_in_use [OF demo_start demo_steps] by (simp add: demo_lost_def)

text \<open>The daemon sees an authenticated session and is handed the anonymous connection.\<close>

theorem first_caller_gets_last_slot_witness:
  "any_authenticated demo_pool \<and> (\<exists>p'. acquire demo_pool = Some (Some ((1, False), p'))) \<and> \<not> is_auth demo_site False"
  using first_caller_gets_last_slot [OF demo_start]
  by (auto simp: demo_pool_def acquire_def take_permit_def pop_idle_def is_auth_def demo_site_def any_authenticated_def)

section \<open>The token on disk and the session Secret\<close>

text \<open>A negotiated token is tried first at the next start, and is enough when Steam still accepts it.\<close>

theorem negotiated_token_is_reused:
  assumes "negotiate_or_reuse_refresh_token lib nets user password dir files = (Inr token, files')"
    "trim token = token" "token \<noteq> []" "is_ok (probe_cached_token nets' user token)"
  shows "negotiate_or_reuse_refresh_token lib' nets' user password' dir files' = (Inr token, files')"
proof -
  have "load_refresh_token files' dir = Some token"
  proof (cases "load_refresh_token files dir = Some token \<and> files' = files")
    case False
    then have "files' = save_refresh_token dir token files"
      using assms(1) by (auto simp: negotiate_or_reuse_refresh_token_def Let_def split: option.splits sum.splits)
    then show ?thesis using assms(2,3) by (simp add: load_refresh_token_def save_refresh_token_def)
  qed simp
  then show ?thesis using assms(4) by (auto simp: negotiate_or_reuse_refresh_token_def result_simps)
qed

text \<open>A start with a stored session leaves that session stored, whatever becomes of the logins and of the
  write.\<close>

lemma write_same_session:
  assumes "ses_user ses \<noteq> []" "ses_refresh_token ses \<noteq> []" "valid_utf8 (ses_user ses)" "valid_utf8 (ses_refresh_token ses)"
  shows "keeps (\<lambda>s. read_session (dm_secret s) = Some ses) (write_session ses)"
  unfolding write_session_def
  by (intro triple_intros keeps_api_call)
     (use assms in \<open>auto simp: stable_def triple_def read_session_def update_conv' split: option.splits if_splits\<close>)

theorem start_keeps_stored_session:
  assumes "read_session (dm_secret s) = Some ses" "start_steam site n anonymous root files s = (pool, s')"
  shows "read_session (dm_secret s') = Some ses
    \<and> (\<forall>p. pool = Some p \<longrightarrow> pool_session p = Some (ses_user ses, ses_refresh_token ses))"
proof -
  have ses: "ses_user ses \<noteq> []" "ses_refresh_token ses \<noteq> []" "valid_utf8 (ses_user ses)" "valid_utf8 (ses_refresh_token ses)"
    using assms(1) by (auto simp: read_session_def split: option.splits if_splits)
  let ?ses = "\<lparr>ses_user = ses_user ses, ses_refresh_token = ses_refresh_token ses\<rparr>"
  have eta: "?ses = ses" by (cases ses) simp
  obtain r s2 where w: "write_session ?ses s = (r, s2)" by force
  then have "read_session (dm_secret s2) = Some ses"
    using tripleD [OF write_same_session [OF ses] assms(1), of r s2] by (simp only: eta) (auto split: sum.splits)
  then show ?thesis
    using assms w by (auto simp: start_steam_def startup_auth_def pool_start_def pool_session_def result_simps
        split: sum.splits option.splits)
qed
end
