(* ===== verification/Missions.thy ===== *)
theory Missions
  imports ModSources SyncCache Authz
begin

text \<open>
  \<open>MissionService\<close> of the registry (\<open>services/registry/src/service/mission.rs\<close>) and the missions half
  of \<open>storage.rs\<close>. The state is the database and the directory \<open>missions\<close> of the local-content
  volume: one directory per mission, named by its id, with the one file of the mission in it. Parsing a
  UUID, the text of a database error, \<open>serde_json\<close>'s rendering of a value and the milliseconds of a time
  stamp are parameters. So is what the volume answers to each of the calls that change it: any of them may
  fail, a removal half way through the files of the directory and a write half way through the bytes.
\<close>

section \<open>Storage\<close>

text \<open>One output character for each character of the name: a character of several bytes counts once, for
  its first byte.\<close>

definition sanitize_mission_name :: "string \<Rightarrow> string" where
  "sanitize_mission_name name =
    map (\<lambda>c. if is_alnum c \<or> c \<in> set ''._-'' then c else CHR ''_'') (filter (\<lambda>c. \<not> is_continuation c) name)"

text \<open>A name the file system takes for a new file: not the directory itself or its parent, and at most
  255 bytes.\<close>

definition writable_name :: "string \<Rightarrow> bool" where
  "writable_name leaf = (leaf \<noteq> [] \<and> leaf \<noteq> ''.'' \<and> leaf \<noteq> ''..'' \<and> length leaf \<le> 255)"

text \<open>What the volume does: \<open>vi_remove\<close> is \<open>None\<close> when \<open>remove_dir_all\<close> gets through, and otherwise says
  which files of the directory it left; \<open>vi_create\<close> is the success of \<open>create_dir_all\<close>; \<open>fs::write\<close>
  succeeds, fails to create the file, or fails after the first bytes of it.\<close>

datatype write_outcome = Write_done | Not_created | Cut_short nat

record volume_io =
  vi_remove :: "(string \<Rightarrow> bool) option"
  vi_create :: bool
  vi_write :: write_outcome

definition what_is_left :: "(string \<Rightarrow> bool) \<Rightarrow> node \<Rightarrow> node" where
  "what_is_left keep t = (case t of DirNode cs \<Rightarrow> DirNode (filter (\<lambda>c. keep (fst c)) cs) | FileNode b \<Rightarrow> FileNode b)"

definition delete_mission_file ::
  "volume_io \<Rightarrow> uuid \<Rightarrow> (string \<times> node) list \<Rightarrow> (string + unit) \<times> (string \<times> node) list" where
  "delete_mission_file io mid dirs =
    (case vi_remove io of
       Some keep \<Rightarrow> (Inl ''failed to delete mission directory'',
         case map_of dirs mid of None \<Rightarrow> dirs | Some t \<Rightarrow> AList.update mid (what_is_left keep t) dirs)
     | None \<Rightarrow>
         (case map_of dirs mid of
            None \<Rightarrow> (Inr (), dirs)
          | Some (DirNode _) \<Rightarrow> (Inr (), AList.delete mid dirs)
          | Some (FileNode _) \<Rightarrow> (Inl ''failed to delete mission directory'', dirs)))"

definition write_mission ::
  "volume_io \<Rightarrow> uuid \<Rightarrow> string \<Rightarrow> string \<Rightarrow> (string \<times> node) list \<Rightarrow> (string + unit) \<times> (string \<times> node) list" where
  "write_mission io mid name pbo_bytes dirs =
    (case delete_mission_file io mid dirs of
       (Inl e, dirs') \<Rightarrow> (Inl e, dirs')
     | (Inr _, dirs') \<Rightarrow>
         (if \<not> vi_create io then (Inl ''failed to create mission directory'', dirs')
          else
            (let leaf = sanitize_mission_name name;
                 failed = Inl ''failed to write mission file'' in
             if \<not> writable_name leaf then (failed, AList.update mid (DirNode []) dirs')
             else (case vi_write io of
                 Write_done \<Rightarrow> (Inr (), AList.update mid (DirNode [(leaf, FileNode pbo_bytes)]) dirs')
               | Not_created \<Rightarrow> (failed, AList.update mid (DirNode []) dirs')
               | Cut_short n \<Rightarrow> (failed, AList.update mid (DirNode [(leaf, FileNode (take n pbo_bytes))]) dirs')))))"

section \<open>The service\<close>

record mission_lib =
  ml_parse_uuid :: "string \<Rightarrow> uuid option"
  ml_db_text :: "db_error \<Rightarrow> string"
  ml_render :: "json \<Rightarrow> string"
  ml_millis :: "int \<Rightarrow> int"

record mission_world =
  mw_db :: db
  mw_dirs :: "(string \<times> node) list"

type_synonym 'a mission_act = "(mission_world, connect_error, 'a) act"

record mission_info =
  mn_id :: string
  mn_name :: string
  mn_filesize :: u64
  mn_created_at_unix_ms :: int
  mn_created_by :: string
  mn_metadata :: "(string, string) hashmap"

definition mission_to_info :: "mission_lib \<Rightarrow> mission_row \<Rightarrow> mission_info" where
  "mission_to_info L row =
    \<lparr>mn_id = mi_id row, mn_name = mi_name row, mn_filesize = word_of_int (mi_filesize row),
     mn_created_at_unix_ms = ml_millis L (mi_created_at row), mn_created_by = mi_created_by row,
     mn_metadata = metadata_map (ml_render L) (mi_metadata row)\<rparr>"

definition metadata_json :: "(string, string) hashmap \<Rightarrow> json" where
  "metadata_json entries = JObject (map (\<lambda>(k, v). (k, JString v)) (filter (\<lambda>(k, v). k \<noteq> []) entries))"

definition mission_read :: "mission_lib \<Rightarrow> string \<Rightarrow> (db \<Rightarrow> db_error + 'a) \<Rightarrow> 'a mission_act" where
  "mission_read L ctx f = (\<lambda>s. (map_err (\<lambda>e. Internal (ctx @ ml_db_text L e)) (f (mw_db s)), s))"

definition mission_write :: "mission_lib \<Rightarrow> string \<Rightarrow> (db \<Rightarrow> db_error + ('a \<times> db)) \<Rightarrow> 'a mission_act" where
  "mission_write L ctx f = (\<lambda>s. case f (mw_db s) of
      Inl e \<Rightarrow> (Inl (Internal (ctx @ ml_db_text L e)), s)
    | Inr (x, d) \<Rightarrow> (Inr x, s\<lparr>mw_db := d\<rparr>))"

definition mission_volume :: "((string \<times> node) list \<Rightarrow> (string + 'a) \<times> (string \<times> node) list) \<Rightarrow> 'a mission_act" where
  "mission_volume f = (\<lambda>s. case f (mw_dirs s) of (r, dirs) \<Rightarrow> (map_err Internal r, s\<lparr>mw_dirs := dirs\<rparr>))"

definition mission_id :: "mission_lib \<Rightarrow> string \<Rightarrow> uuid mission_act" where
  "mission_id L i = lift_res (ok_or (ml_parse_uuid L i) (InvalidArgument ''id is not a valid UUID''))"

definition set_mission_metadata_rpc :: "mission_lib \<Rightarrow> string \<Rightarrow> (string, string) hashmap \<Rightarrow> mission_info mission_act" where
  "set_mission_metadata_rpc L i md =
    act_bind (mission_id L i) (\<lambda>mid.
    act_bind (mission_write L ''failed to update metadata: '' (set_mission_metadata mid (metadata_json md))) (\<lambda>updated.
    act_bind (lift_res (ensure updated (NotFound (''no such mission: '' @ mid)))) (\<lambda>_.
    act_bind (mission_read L ''failed to re-read mission: '' (get_mission mid)) (\<lambda>row.
    act_bind (lift_res (ok_or row (NotFound (''no such mission: '' @ mid)))) (\<lambda>row.
    ret (mission_to_info L row))))))"

record upload_request =
  ur_id :: "string option"
  ur_name :: string
  ur_pbo_content :: string
  ur_metadata :: "(string, string) hashmap"

text \<open>\<open>identity\<close> is what the middleware put into the request, \<open>fresh\<close> and \<open>now\<close> a new UUID and the clock.\<close>

definition upload_target :: "mission_lib \<Rightarrow> auth_identity option \<Rightarrow> uuid \<Rightarrow> upload_request \<Rightarrow> connect_error + (uuid \<times> string)" where
  "upload_target L identity fresh req =
    rbind (ok_or (map_option id_subject identity) (Internal ''missing authenticated identity'')) (\<lambda>subject.
    rbind (case ur_id req of
        Some existing \<Rightarrow> ok_or (ml_parse_uuid L existing) (InvalidArgument ''id is not a valid UUID'')
      | None \<Rightarrow> Inr fresh) (\<lambda>mid.
    rbind (ensure (ur_name req \<noteq> []) (InvalidArgument ''name is required'')) (\<lambda>_.
    Inr (mid, subject))))"

definition store_mission :: "volume_io \<Rightarrow> mission_lib \<Rightarrow> int \<Rightarrow> uuid \<Rightarrow> string \<Rightarrow> upload_request \<Rightarrow> mission_info mission_act" where
  "store_mission io L now mid subject req =
    act_bind (mission_volume (write_mission io mid (ur_name req) (ur_pbo_content req))) (\<lambda>_.
    act_bind (mission_write L ''failed to persist mission: '' (\<lambda>d. rbind
      (upsert_mission now mid (ur_name req) (int (length (ur_pbo_content req))) subject (metadata_json (ur_metadata req)) d)
      (\<lambda>d'. Inr ((), d')))) (\<lambda>_.
    act_bind (mission_read L [] (get_mission mid)) (\<lambda>row.
    act_bind (lift_res (ok_or row (Internal ''mission vanished immediately after being written''))) (\<lambda>row.
    ret (mission_to_info L row)))))"

definition upload_mission :: "volume_io \<Rightarrow> mission_lib \<Rightarrow> auth_identity option \<Rightarrow> uuid \<Rightarrow> int \<Rightarrow> upload_request \<Rightarrow> mission_info mission_act" where
  "upload_mission io L identity fresh now req =
    act_bind (lift_res (upload_target L identity fresh req)) (\<lambda>(mid, subject). store_mission io L now mid subject req)"

definition get_mission_rpc :: "mission_lib \<Rightarrow> string \<Rightarrow> mission_info mission_act" where
  "get_mission_rpc L i =
    act_bind (mission_id L i) (\<lambda>mid.
    act_bind (mission_read L [] (get_mission mid)) (\<lambda>row.
    act_bind (lift_res (ok_or row (NotFound (''no such mission: '' @ i)))) (\<lambda>row.
    ret (mission_to_info L row))))"

definition list_missions_rpc :: "mission_lib \<Rightarrow> mission_info list mission_act" where
  "list_missions_rpc L = act_bind (mission_read L [] list_missions) (\<lambda>rows. ret (map (mission_to_info L) rows))"


section \<open>Lemmas\<close>

lemma sanitized: "c \<in> set (sanitize_mission_name name) \<Longrightarrow> is_alnum c \<or> c \<in> set ''._-''"
  by (auto simp: sanitize_mission_name_def is_alnum_def is_alpha_def split: if_splits)

lemma metadata_roundtrip:
  "metadata_map render (metadata_json md) = filter (\<lambda>(k, v). k \<noteq> []) md"
  by (induction md) (auto simp: metadata_map_def metadata_json_def)

definition row_of :: "uuid \<Rightarrow> db \<Rightarrow> mission_row option" where
  "row_of mid d = find (\<lambda>r. mi_id r = mid) (missions d)"

lemma find_map_update:
  assumes "\<And>r. k (f r) = k r"
  shows "find (\<lambda>r. k r = m) (map (\<lambda>r. if k r = i then f r else r) rs) =
    (if m = i then map_option f (find (\<lambda>r. k r = m) rs) else find (\<lambda>r. k r = m) rs)"
  using assms by (induction rs) auto

lemma find_none_iff: "find (\<lambda>r. k r = m) rs = None \<longleftrightarrow> m \<notin> k ` set rs"
  by (auto simp: find_None_iff)

lemma upsert_row:
  assumes "upsert_mission now mid nm sz by md d = Inr d'"
  shows "row_of m d' = (if m = mid then Some (case row_of mid d of
        None \<Rightarrow> \<lparr>mi_id = mid, mi_name = nm, mi_filesize = sz, mi_created_at = now, mi_created_by = by, mi_metadata = md\<rparr>
      | Some r \<Rightarrow> r\<lparr>mi_name := nm, mi_filesize := sz, mi_metadata := md\<rparr>) else row_of m d)"
proof (cases "\<exists>r \<in> set (missions d). mi_id r = mid")
  case True
  then obtain r where r: "row_of mid d = Some r"
    by (cases "row_of mid d") (auto simp: row_of_def find_None_iff)
  from True assms have "missions d' = map (\<lambda>r. if mi_id r = mid
      then r\<lparr>mi_name := nm, mi_filesize := sz, mi_metadata := md\<rparr> else r) (missions d)"
    by (auto simp: upsert_mission_def result_simps)
  then show ?thesis
    using find_map_update [of mi_id "\<lambda>r. r\<lparr>mi_name := nm, mi_filesize := sz, mi_metadata := md\<rparr>" m mid "missions d"] r
    by (simp add: row_of_def)
next
  case False
  then have none: "row_of mid d = None" by (auto simp: row_of_def find_None_iff)
  from False assms have "missions d' = missions d @ [\<lparr>mi_id = mid, mi_name = nm, mi_filesize = sz, mi_created_at = now,
      mi_created_by = by, mi_metadata = md\<rparr>]"
    by (auto simp: upsert_mission_def result_simps)
  moreover have "find P (xs @ ys) = (case find P xs of None \<Rightarrow> find P ys | Some x \<Rightarrow> Some x)"
    for P and xs ys :: "mission_row list"
    by (induction xs) auto
  ultimately show ?thesis using none by (auto simp: row_of_def split: option.splits)
qed

lemma write_mission_dirs:
  assumes "write_mission io mid name bytes dirs = (r, dirs')"
  shows "m \<noteq> mid \<Longrightarrow> map_of dirs' m = map_of dirs m"
    and "r = Inr () \<Longrightarrow> map_of dirs' mid = Some (DirNode [(sanitize_mission_name name, FileNode bytes)])"
    and "r = Inr () \<Longrightarrow> writable_name (sanitize_mission_name name)"
  using assms
  by (auto simp: write_mission_def delete_mission_file_def Let_def delete_conv' update_conv'
      split: option.splits node.splits if_splits write_outcome.splits)


lemma store_mission_cases:
  assumes "store_mission io L now mid subject req s = (r, s')"
  obtains (refused) e dirs where "write_mission io mid (ur_name req) (ur_pbo_content req) (mw_dirs s) = (Inl e, dirs)"
      "r = Inl (Internal e)" "s' = s\<lparr>mw_dirs := dirs\<rparr>"
  | (db_down) e' dirs where "write_mission io mid (ur_name req) (ur_pbo_content req) (mw_dirs s) = (Inr (), dirs)"
      "\<not> db_up (mw_db s)" "r = Inl e'" "s' = s\<lparr>mw_dirs := dirs\<rparr>"
  | (stored) dirs d row where "write_mission io mid (ur_name req) (ur_pbo_content req) (mw_dirs s) = (Inr (), dirs)"
      "upsert_mission now mid (ur_name req) (int (length (ur_pbo_content req))) subject (metadata_json (ur_metadata req))
         (mw_db s) = Inr d" "row_of mid d = Some row" "r = Inr (mission_to_info L row)"
      "s' = s\<lparr>mw_dirs := dirs, mw_db := d\<rparr>"
proof -
  obtain w dirs where w: "write_mission io mid (ur_name req) (ur_pbo_content req) (mw_dirs s) = (w, dirs)" by force
  let ?up = "upsert_mission now mid (ur_name req) (int (length (ur_pbo_content req))) subject (metadata_json (ur_metadata req))
         (mw_db s)"
  show thesis
  proof (cases w)
    case (Inl e)
    then show thesis using assms w refused by (auto simp: store_mission_def act_simps mission_volume_def)
  next
    case (Inr u)
    show thesis
    proof (cases ?up)
      case (Inl e)
      then have "\<not> db_up (mw_db s)" by (auto simp: upsert_mission_def query_def split: if_splits)
      then show thesis using assms w Inl Inr db_down
        by (auto simp: store_mission_def act_simps mission_volume_def mission_write_def)
    next
      case up: (Inr d)
      then have "db_up d" by (auto simp: upsert_mission_def result_simps)
      moreover obtain row where "row_of mid d = Some row" using upsert_row [OF up, of mid] by auto
      ultimately show thesis using assms w Inr up stored
        by (auto simp: store_mission_def act_simps mission_volume_def mission_write_def mission_read_def get_mission_def
            row_of_def query_def)
    qed
  qed
qed

lemma upload_eval:
  "upload_mission io L identity fresh now req s =
    (case upload_target L identity fresh req of
       Inl e \<Rightarrow> (Inl e, s) | Inr (mid, subject) \<Rightarrow> store_mission io L now mid subject req s)"
  by (auto simp: upload_mission_def act_simps split: sum.splits)

section \<open>Properties\<close>

text \<open>C31: A successful upload leaves exactly one file, named after the mission, in the directory of its id
  and describes it in the answer; a re-upload keeps the creator of the mission. Every other mission
  keeps its file and its row.\<close>

theorem upload_replaces_mission:
  assumes "upload_mission io L identity fresh now req s = (Inr info, s')"
    "upload_target L identity fresh req = Inr (mid, subject)"
  shows "map_of (mw_dirs s') mid = Some (DirNode [(sanitize_mission_name (ur_name req), FileNode (ur_pbo_content req))])
    \<and> mn_id info = mid \<and> mn_name info = ur_name req \<and> mn_filesize info = of_nat (length (ur_pbo_content req))
    \<and> mn_metadata info = filter (\<lambda>(k, v). k \<noteq> []) (ur_metadata req)
    \<and> mn_created_by info = (case row_of mid (mw_db s) of None \<Rightarrow> subject | Some row \<Rightarrow> mi_created_by row)
    \<and> (\<forall>m. m \<noteq> mid \<longrightarrow> map_of (mw_dirs s') m = map_of (mw_dirs s) m \<and> row_of m (mw_db s') = row_of m (mw_db s))"
proof -
  have "store_mission io L now mid subject req s = (Inr info, s')" using assms by (simp add: upload_eval)
  then show ?thesis
  proof (cases rule: store_mission_cases)
    case (stored dirs d row)
    have row: "row_of m d = (if m = mid then Some row else row_of m (mw_db s))" for m
      using upsert_row [OF stored(2), of m] upsert_row [OF stored(2), of mid] stored(3) by simp
    have id: "mi_id r = mid" if "row_of mid d = Some r" for r d
      using that by (auto simp: row_of_def dest: find_SomeD)
    have "mi_id row = mid \<and> mi_name row = ur_name req \<and> mi_filesize row = int (length (ur_pbo_content req))
        \<and> mi_metadata row = metadata_json (ur_metadata req)
        \<and> mi_created_by row = (case row_of mid (mw_db s) of None \<Rightarrow> subject | Some r \<Rightarrow> mi_created_by r)"
      using upsert_row [OF stored(2), of mid] stored(3) id [of "mw_db s"] by (auto split: option.splits)
    then show ?thesis
      using stored write_mission_dirs(1,2) [OF stored(1)] row
      by (simp add: mission_to_info_def metadata_roundtrip)
  qed auto
qed

section \<open>The directory and the table\<close>

text \<open>The files of the missions as their rows describe them, and a directory the service can have left
  behind: nothing, or one file with a harmless name.\<close>

definition described_by :: "mission_row \<Rightarrow> node option \<Rightarrow> bool" where
  "described_by row t = (case t of
      Some (DirNode [(leaf, FileNode b)]) \<Rightarrow> leaf = sanitize_mission_name (mi_name row) \<and> int (length b) = mi_filesize row
    | _ \<Rightarrow> False)"

definition mission_dir_ok :: "node \<Rightarrow> bool" where
  "mission_dir_ok t = (case t of
      FileNode _ \<Rightarrow> False
    | DirNode [] \<Rightarrow> True
    | DirNode [(leaf, FileNode _)] \<Rightarrow> writable_name leaf \<and> (\<forall>c \<in> set leaf. is_alnum c \<or> c \<in> set ''._-'')
    | _ \<Rightarrow> False)"

text \<open>\<open>broken\<close> holds the ids of the missions whose last upload was answered with an error.\<close>

definition in_step :: "uuid set \<Rightarrow> mission_world \<Rightarrow> bool" where
  "in_step broken s =
    ((\<forall>row \<in> set (missions (mw_db s)). mi_id row \<notin> broken \<longrightarrow> described_by row (map_of (mw_dirs s) (mi_id row)))
     \<and> (\<forall>t \<in> snd ` set (mw_dirs s). mission_dir_ok t)
     \<and> distinct (map fst (mw_dirs s)))"





lemma in_stepD:
  assumes "in_step F s"
  shows "map_of (mw_dirs s) m = Some t \<Longrightarrow> mission_dir_ok t" "distinct (map fst (mw_dirs s))"
    "row \<in> set (missions (mw_db s)) \<Longrightarrow> mi_id row \<notin> F \<Longrightarrow> described_by row (map_of (mw_dirs s) (mi_id row))"
  using assms by (auto simp: in_step_def dest!: map_of_SomeD)

lemma written_dir_ok: "writable_name (sanitize_mission_name n) \<Longrightarrow> mission_dir_ok (DirNode [(sanitize_mission_name n, FileNode b)])"
  using sanitized by (auto simp: mission_dir_ok_def)










lemma metadata_eval:
  "set_mission_metadata_rpc L i md s =
    (case ml_parse_uuid L i of
       None \<Rightarrow> (Inl (InvalidArgument ''id is not a valid UUID''), s)
     | Some mid \<Rightarrow>
         (case set_mission_metadata mid (metadata_json md) (mw_db s) of
            Inl e \<Rightarrow> (Inl (Internal (''failed to update metadata: '' @ ml_db_text L e)), s)
          | Inr (b, d) \<Rightarrow>
              if b then (case get_mission mid d of
                  Inl e \<Rightarrow> (Inl (Internal (''failed to re-read mission: '' @ ml_db_text L e)), s\<lparr>mw_db := d\<rparr>)
                | Inr None \<Rightarrow> (Inl (NotFound (''no such mission: '' @ mid)), s\<lparr>mw_db := d\<rparr>)
                | Inr (Some row) \<Rightarrow> (Inr (mission_to_info L row), s\<lparr>mw_db := d\<rparr>))
              else (Inl (NotFound (''no such mission: '' @ mid)), s\<lparr>mw_db := d\<rparr>)))"
  by (simp add: set_mission_metadata_rpc_def act_simps mission_id_def mission_write_def mission_read_def ensure_def
      split: option.split sum.split prod.split)





text \<open>A re-upload that gets as far as the removal and fails after it, under a name the volume refuses (\<open>..\<close>,
  or more than 255 characters) or for any other reason, loses the mission: the row still names the old file
  and its size, and the file is gone.\<close>

theorem refused_upload_loses_the_mission:
  assumes "in_step {} s" "row_of mid (mw_db s) = Some row" "upload_target L identity fresh req = Inr (mid, subject)"
    "vi_remove io = None" "\<not> vi_create io \<or> \<not> writable_name (sanitize_mission_name (ur_name req)) \<or> vi_write io = Not_created"
  shows "\<exists>e s'. upload_mission io L identity fresh now req s = (Inl e, s') \<and> row_of mid (mw_db s') = Some row
    \<and> (map_of (mw_dirs s') mid = None \<or> map_of (mw_dirs s') mid = Some (DirNode []))"
proof -
  have "map_of (mw_dirs s) mid \<noteq> Some (FileNode b)" for b
    using in_stepD(1) [OF assms(1), of mid "FileNode b"] by (auto simp: mission_dir_ok_def)
  then have "\<exists>dirs. delete_mission_file io mid (mw_dirs s) = (Inr (), dirs) \<and> map_of dirs mid = None"
    using assms(4) by (auto simp: delete_mission_file_def delete_conv' split: option.splits node.splits)
  then obtain dirs where d: "delete_mission_file io mid (mw_dirs s) = (Inr (), dirs)" "map_of dirs mid = None" by blast
  have "\<exists>e dirs'. write_mission io mid (ur_name req) (ur_pbo_content req) (mw_dirs s) = (Inl e, dirs')
      \<and> (map_of dirs' mid = None \<or> map_of dirs' mid = Some (DirNode []))"
    using d assms(5) by (auto simp: write_mission_def Let_def update_conv' split: if_splits)
  then show ?thesis
    using assms(2) by (auto simp: upload_eval assms(3) store_mission_def act_simps mission_volume_def)
qed

text \<open>The metadata of a mission is what was set, less empty keys, and nothing else is checked: any
  other key is accepted, among them those the other services refuse.\<close>

theorem mission_metadata_roundtrip:
  assumes "set_mission_metadata_rpc L i md s = (Inr info, s')"
  shows "mn_metadata info = filter (\<lambda>(k, v). k \<noteq> []) md \<and> get_mission_rpc L i s' = (Inr info, s')
    \<and> mw_dirs s' = mw_dirs s"
proof -
  obtain mid where mid: "ml_parse_uuid L i = Some mid" using assms by (cases "ml_parse_uuid L i") (auto simp: metadata_eval)
  obtain b d where bd: "set_mission_metadata mid (metadata_json md) (mw_db s) = Inr (b, d)"
    using assms mid by (cases "set_mission_metadata mid (metadata_json md) (mw_db s)") (auto simp: metadata_eval)
  have b: "b" using assms mid bd by (cases b) (simp_all add: metadata_eval)
  have "\<exists>row. get_mission mid d = Inr (Some row) \<and> info = mission_to_info L row \<and> s' = s\<lparr>mw_db := d\<rparr>"
    using assms mid bd b by (auto simp: metadata_eval split: sum.splits option.splits)
  then obtain row where row: "get_mission mid d = Inr (Some row)" and res: "info = mission_to_info L row" "s' = s\<lparr>mw_db := d\<rparr>"
    by (elim exE conjE) (rule that)
  note d = bd
  have mem: "row \<in> set (missions d)" and id: "mi_id row = mid"
    using row by (auto simp: get_mission_def result_simps dest!: find_SomeD [OF sym])
  have "missions d = map (\<lambda>r. if mi_id r = mid then r\<lparr>mi_metadata := metadata_json md\<rparr> else r) (missions (mw_db s))"
    using d by (auto simp: set_mission_metadata_def result_simps)
  with mem have "row \<in> (\<lambda>r. if mi_id r = mid then r\<lparr>mi_metadata := metadata_json md\<rparr> else r) ` set (missions (mw_db s))"
    by (simp only: set_map)
  then obtain r where "row = (if mi_id r = mid then r\<lparr>mi_metadata := metadata_json md\<rparr> else r)" by (rule imageE)
  then have "mi_metadata row = metadata_json md" using id by (cases "mi_id r = mid") simp_all
  then show ?thesis
    using mid row res by (simp add: mission_to_info_def metadata_roundtrip get_mission_rpc_def act_simps mission_id_def mission_read_def)
qed

section \<open>Concrete runs\<close>

definition demo_io :: volume_io where
  "demo_io = \<lparr>vi_remove = None, vi_create = True, vi_write = Write_done\<rparr>"

definition demo_lib :: mission_lib where
  "demo_lib = \<lparr>ml_parse_uuid = (\<lambda>i. if i = ''0'' then None else Some i), ml_db_text = (\<lambda>_. ''down''),
     ml_render = (\<lambda>_. ''json''), ml_millis = (\<lambda>t. t)\<rparr>"

definition demo_operator :: auth_identity where
  "demo_operator = \<lparr>id_subject = ''u1'', id_scopes = [''missions:write'']\<rparr>"

definition demo_upload :: "string option \<Rightarrow> string \<Rightarrow> upload_request" where
  "demo_upload i name = \<lparr>ur_id = i, ur_name = name, ur_pbo_content = ''pbo'', ur_metadata = [(''map key'', ''Altis''), ([], ''x'')]\<rparr>"

definition demo_missions :: mission_world where
  "demo_missions = \<lparr>mw_db = empty_db\<lparr>missions := [\<lparr>mi_id = ''m1'', mi_name = ''op.Altis.pbo'', mi_filesize = 3,
       mi_created_at = 7, mi_created_by = ''u1'', mi_metadata = JObject [(''map key'', JString ''Altis'')]\<rparr>]\<rparr>,
     mw_dirs = [(''m1'', DirNode [(''op.Altis.pbo'', FileNode ''pbo'')])]\<rparr>"

definition demo_empty :: mission_world where
  "demo_empty = \<lparr>mw_db = empty_db, mw_dirs = []\<rparr>"

lemmas demo_defs = demo_io_def demo_lib_def demo_operator_def demo_upload_def demo_missions_def demo_empty_def empty_db_def

lemma demo_leaf: "sanitize_mission_name ''op.Altis.pbo'' = ''op.Altis.pbo''" "writable_name ''op.Altis.pbo''"
  "sanitize_mission_name ''..'' = ''..''" "\<not> writable_name ''..''"
  by code_simp+

lemma demo_first_upload:
  "upload_mission demo_io demo_lib (Some demo_operator) ''m1'' 7 (demo_upload None ''op.Altis.pbo'') demo_empty =
    (Inr (mission_to_info demo_lib \<lparr>mi_id = ''m1'', mi_name = ''op.Altis.pbo'', mi_filesize = 3,
       mi_created_at = 7, mi_created_by = ''u1'', mi_metadata = JObject [(''map key'', JString ''Altis'')]\<rparr>), demo_missions)"
  by (simp add: upload_eval upload_target_def store_mission_def act_simps mission_volume_def mission_write_def mission_read_def
      write_mission_def delete_mission_file_def demo_leaf upsert_mission_def get_mission_def metadata_json_def demo_defs)

theorem upload_replaces_mission_witness:
  "map_of (mw_dirs demo_missions) ''m1'' = Some (DirNode [(''op.Altis.pbo'', FileNode ''pbo'')])"
  using upload_replaces_mission [OF demo_first_upload, of "''m1''" "''u1''"]
  by (simp add: upload_target_def demo_leaf demo_defs)

lemma demo_missions_in_step: "in_step {} demo_missions" "in_step {} demo_empty"
  using written_dir_ok [of "''op.Altis.pbo''" "''pbo''"] by (simp_all add: in_step_def described_by_def demo_leaf demo_defs)





theorem refused_upload_loses_the_mission_witness:
  "\<exists>e s'. upload_mission demo_io demo_lib (Some demo_operator) ''m9'' 8 (demo_upload (Some ''m1'') ''..'') demo_missions = (Inl e, s')
    \<and> row_of ''m1'' (mw_db s') \<noteq> None \<and> map_of (mw_dirs s') ''m1'' \<noteq> map_of (mw_dirs demo_missions) ''m1''"
proof -
  let ?req = "demo_upload (Some ''m1'') ''..''"
  have "row_of ''m1'' (mw_db demo_missions) \<noteq> None" by (simp add: row_of_def demo_defs)
  then obtain row where row: "row_of ''m1'' (mw_db demo_missions) = Some row" by blast
  have target: "upload_target demo_lib (Some demo_operator) ''m9'' ?req = Inr (''m1'', ''u1'')"
    by (simp add: upload_target_def demo_defs)
  have io: "vi_remove demo_io = None" and name: "ur_name ?req = ''..''" by (simp_all add: demo_defs)
  have "\<not> writable_name (sanitize_mission_name (ur_name ?req))" unfolding name demo_leaf(3) by (rule demo_leaf(4))
  then obtain e s' where "upload_mission demo_io demo_lib (Some demo_operator) ''m9'' 8 ?req demo_missions = (Inl e, s')"
      "row_of ''m1'' (mw_db s') = Some row"
      "map_of (mw_dirs s') ''m1'' = None \<or> map_of (mw_dirs s') ''m1'' = Some (DirNode [])"
    using refused_upload_loses_the_mission [OF demo_missions_in_step(1) row target io] by blast
  moreover have "map_of (mw_dirs demo_missions) ''m1'' = Some (DirNode [(''op.Altis.pbo'', FileNode ''pbo'')])"
    by (simp add: demo_defs)
  ultimately show ?thesis by (intro exI conjI) auto
qed

lemma demo_set_metadata:
  "set_mission_metadata_rpc demo_lib ''m1'' [(''not a label!'', ''v'')] demo_missions =
    (Inr \<lparr>mn_id = ''m1'', mn_name = ''op.Altis.pbo'', mn_filesize = 3, mn_created_at_unix_ms = 7, mn_created_by = ''u1'',
       mn_metadata = [(''not a label!'', ''v'')]\<rparr>,
     demo_missions\<lparr>mw_db := (mw_db demo_missions)\<lparr>missions := [\<lparr>mi_id = ''m1'', mi_name = ''op.Altis.pbo'', mi_filesize = 3,
       mi_created_at = 7, mi_created_by = ''u1'', mi_metadata = JObject [(''not a label!'', JString ''v'')]\<rparr>]\<rparr>\<rparr>)"
  by (simp add: metadata_eval set_mission_metadata_def get_mission_def mission_to_info_def metadata_json_def metadata_map_def demo_defs)

theorem mission_metadata_roundtrip_witness:
  "\<exists>info s'. set_mission_metadata_rpc demo_lib ''m1'' [(''not a label!'', ''v'')] demo_missions = (Inr info, s')
    \<and> mn_metadata info = [(''not a label!'', ''v'')]
    \<and> (\<exists>e. source_metadata_to_annotations [(''not a label!'', ''v'')] = Inl e)"
proof -
  have "\<exists>e. source_metadata_to_annotations [(''not a label!'', ''v'')] = Inl e"
    by (simp add: source_metadata_to_annotations_def) (simp add: valid_metadata_key_def is_alnum_def is_alpha_def is_lower_def
        is_upper_def is_digit_def)
  then show ?thesis using mission_metadata_roundtrip [OF demo_set_metadata] demo_set_metadata by auto
qed
end
