(* ===== verification/Admin.thy ===== *)
theory Admin
  imports Kube RegistryDb Authz
begin

text \<open>
  The rest of \<open>AdminService\<close> (\<open>services/registry/src/service/admin.rs\<close>): disk usage, the access list, the
  user secrets and the calls it passes on to the sync daemon. The state is the database and the Secrets
  of the one namespace for user secrets. The sync daemon's answers, the text of a database error and what
  the API server stores for an applied Secret are parameters; the text of \<open>{:?}\<close> is the name itself.
\<close>

section \<open>State\<close>

record secret =
  sec_name :: string
  sec_type :: "string option"
  sec_data :: "(string, string) hashmap"
  sec_string_data :: "(string, string) hashmap"

record admin = kube +
  ad_db :: db
  ad_secrets :: "secret list"

definition ad_secrets_over :: "(secret list \<Rightarrow> secret list) \<Rightarrow> admin \<Rightarrow> admin" where
  "ad_secrets_over f s = s\<lparr>ad_secrets := f (ad_secrets s)\<rparr>"

type_synonym 'a admin_act = "(admin, connect_error, 'a) act"

definition admin_db :: "(db_error \<Rightarrow> string) \<Rightarrow> string \<Rightarrow> (db \<Rightarrow> db_error + ('a \<times> db)) \<Rightarrow> 'a admin_act" where
  "admin_db text ctx f = (\<lambda>s. case f (ad_db s) of
      Inl e \<Rightarrow> (Inl (Internal (ctx @ text e)), s)
    | Inr (x, d) \<Rightarrow> (Inr x, s\<lparr>ad_db := d\<rparr>))"

definition reading :: "(db \<Rightarrow> db_error + 'a) \<Rightarrow> db \<Rightarrow> db_error + ('a \<times> db)" where
  "reading f d = rbind (f d) (\<lambda>x. Inr (x, d))"

section \<open>Disk usage\<close>

record disk_usage =
  du_mods_bytes :: u64
  du_missions_bytes :: u64
  du_game_files_bytes :: u64
  du_total_bytes :: u64

text \<open>Sums of \<open>u64\<close> wrap, as in a release build. \<open>stats\<close> is the sync daemon's answer: the bytes of the
  mods and of the game files.\<close>

definition get_disk_usage :: "(db_error \<Rightarrow> string) \<Rightarrow> string + u64 \<times> u64 \<Rightarrow> disk_usage admin_act" where
  "get_disk_usage text stats =
    act_bind (act_map_err Internal (sync_call ''sync_stats'' stats)) (\<lambda>(mods_bytes, game_files_bytes).
    act_bind (admin_db text [] (reading list_missions)) (\<lambda>rows.
    let missions_bytes = sum_list (map (\<lambda>m. word_of_int (mi_filesize m)) rows)
    in ret \<lparr>du_mods_bytes = mods_bytes, du_missions_bytes = missions_bytes, du_game_files_bytes = game_files_bytes,
            du_total_bytes = mods_bytes + missions_bytes + game_files_bytes\<rparr>))"

section \<open>The access list\<close>

record linked_account_info =
  lai_provider :: string
  lai_provider_user_id :: string
  lai_display_name :: string

record acl_subject =
  acs_subject :: string
  acs_accounts :: "linked_account_info list"
  acs_scopes :: "string list"

definition to_acl_subject :: "acl_subject_row \<Rightarrow> acl_subject" where
  "to_acl_subject row =
    \<lparr>acs_subject = as_subject row,
     acs_accounts = map (\<lambda>((p, pid), nm). \<lparr>lai_provider = p, lai_provider_user_id = pid, lai_display_name = nm\<rparr>)
       (zip (zip (as_providers row) (as_provider_user_ids row)) (as_display_names row)),
     acs_scopes = as_scopes row\<rparr>"

definition list_acl :: "(db_error \<Rightarrow> string) \<Rightarrow> (acl_subject list \<times> string list) admin_act" where
  "list_acl text =
    act_bind (admin_db text ''failed to list ACL subjects: '' (reading list_acl_subjects)) (\<lambda>rows.
    ret (map to_acl_subject rows, KNOWN_SCOPES))"

definition scope_allowed :: "string \<Rightarrow> bool" where
  "scope_allowed scope = (scope = ''*'' \<or> scope \<in> set KNOWN_SCOPES)"

definition set_acl_scopes :: "(db_error \<Rightarrow> string) \<Rightarrow> string \<Rightarrow> string list \<Rightarrow> acl_subject option admin_act" where
  "set_acl_scopes text subject scopes =
    act_bind (lift_res (ensure (trim subject \<noteq> []) (InvalidArgument ''subject is required''))) (\<lambda>_.
    act_bind (lift_res (case find (\<lambda>sc. \<not> scope_allowed sc) scopes of
        Some scope \<Rightarrow> Inl (InvalidArgument (''unknown scope '' @ scope @ '' -- see ListAcl known_scopes''))
      | None \<Rightarrow> Inr ())) (\<lambda>_.
    act_bind (admin_db text ''failed to set scopes: '' (\<lambda>d. rbind (set_scopes subject scopes d) (\<lambda>d'. Inr ((), d')))) (\<lambda>_.
    act_bind (admin_db text ''failed to re-read ACL: '' (reading list_acl_subjects)) (\<lambda>rows.
    ret (map_option to_acl_subject (find (\<lambda>r. as_subject r = subject) rows))))))"

section \<open>User secrets\<close>

definition validate_secret_name :: "string \<Rightarrow> connect_error + unit" where
  "validate_secret_name name =
    (if name = [] \<or> 253 < length name then Inl (InvalidArgument ''secret name must be 1-253 characters'')
     else if list_all (\<lambda>c. is_lower c \<or> is_digit c \<or> c \<in> set ''-.'') name
             \<and> (is_lower (hd name) \<or> is_digit (hd name)) \<and> (is_lower (last name) \<or> is_digit (last name))
     then Inr ()
     else Inl (InvalidArgument (''invalid secret name '' @ name)))"

definition valid_secret_key :: "string \<Rightarrow> bool" where
  "valid_secret_key key = (key \<noteq> [] \<and> list_all (\<lambda>c. is_alnum c \<or> c \<in> set ''-_.'') key)"

record secret_info =
  sin_name :: string
  sin_keys :: "string list"

definition secret_info_of :: "secret \<Rightarrow> secret_info" where
  "secret_info_of x =
    \<lparr>sin_name = sec_name x,
     sin_keys = remdups_adj (sort (map fst (sec_data x) @ map fst (sec_string_data x)))\<rparr>"

definition list_secrets :: "secret_info list admin_act" where
  "list_secrets =
    act_bind (act_map_err (\<lambda>e. Internal (''failed to list secrets: '' @ kube_text e)) (api_list ad_secrets)) (\<lambda>items.
    ret (sort_key sin_name
      (map secret_info_of (filter (\<lambda>x. sec_type x \<noteq> Some ''kubernetes.io/service-account-token'') items))))"

text \<open>\<open>stored\<close> is what the API server keeps of an applied Secret, given the one it holds.\<close>

definition apply_secret :: "(secret option \<Rightarrow> secret \<Rightarrow> secret) \<Rightarrow> secret \<Rightarrow> (admin, kube_error, secret) act" where
  "apply_secret stored x = api_call (\<lambda>s.
    let old = obj_get sec_name (ad_secrets s) (sec_name x) in
    (Inr (stored old x),
     ad_secrets_over (\<lambda>xs. case old of
        None \<Rightarrow> xs @ [stored None x]
      | Some y \<Rightarrow> obj_update sec_name (sec_name x) (\<lambda>_. stored old x) xs) s))"

interpretation user_secrets: object_kind sec_name "\<lambda>_. []" "\<lambda>x. x"
  by unfold_locales simp

definition put_secret :: "(secret option \<Rightarrow> secret \<Rightarrow> secret) \<Rightarrow> string \<Rightarrow> (string, string) hashmap \<Rightarrow> secret_info admin_act" where
  "put_secret stored req_name req_data =
    (let name = trim req_name; string_data = btree_extend [] req_data in
     act_bind (lift_res (validate_secret_name name)) (\<lambda>_.
     act_bind (lift_res (case find (\<lambda>k. \<not> valid_secret_key k) (map fst string_data) of
        Some key \<Rightarrow> Inl (InvalidArgument (''invalid secret key '' @ key))
      | None \<Rightarrow> Inr ())) (\<lambda>_.
     act_bind (act_map_err (\<lambda>e. Internal (''failed to write secret '' @ name @ '': '' @ kube_text e))
       (apply_secret stored \<lparr>sec_name = name, sec_type = None, sec_data = [], sec_string_data = string_data\<rparr>)) (\<lambda>applied.
     ret (secret_info_of applied)))))"

definition delete_secret :: "string \<Rightarrow> unit admin_act" where
  "delete_secret req_name =
    (let name = trim req_name in
     act_bind (lift_res (validate_secret_name name)) (\<lambda>_.
     act_map_err (\<lambda>e. Internal (''failed to delete secret '' @ name @ '': '' @ kube_text e))
       (api_delete ad_secrets ad_secrets_over sec_name (\<lambda>_. []) (\<lambda>x. x) name)))"

section \<open>Calls passed on\<close>

definition refresh_steam_auth :: "string + unit \<Rightarrow> unit admin_act" where
  "refresh_steam_auth answer = act_map_err Internal (sync_call ''refresh_steam_auth'' answer)"

definition begin_steam_qr_login :: "string + string \<times> string \<Rightarrow> (string \<times> string) admin_act" where
  "begin_steam_qr_login answer = act_map_err Internal (sync_call ''begin_qr_login'' answer)"

definition poll_steam_qr_login :: "string + bool \<times> string \<Rightarrow> (bool \<times> string) admin_act" where
  "poll_steam_qr_login answer = act_map_err Internal (sync_call ''poll_qr_login'' answer)"

section \<open>Lemmas\<close>

lemma zip_map3: "zip (zip (map f xs) (map g xs)) (map h xs) = map (\<lambda>x. ((f x, g x), h x)) xs"
  by (induction xs) auto

lemma granted_set_scopes:
  "set_scopes subject scopes d = Inr d' \<Longrightarrow> granted other d' = (if other = subject then scopes else granted other d)"
  by (auto simp: set_scopes_def grant_scopes_def upsert_grant_def granted_def result_simps delete_conv' update_conv'
      split: if_splits)

lemma set_scopes_frame:
  "set_scopes subject scopes d = Inr d' \<Longrightarrow> users d' = users d \<and> linked_accounts d' = linked_accounts d \<and> db_up d' = db_up d"
  by (auto simp: set_scopes_def grant_scopes_def result_simps split: if_splits)

lemma find_subject:
  "find (\<lambda>r. as_subject r = u) (map (\<lambda>(v, _). acl_subject_of d v) us) = (if u \<in> fst ` set us then Some (acl_subject_of d u) else None)"
  by (induction us) (auto simp: acl_subject_of_def Let_def)

lemma admin_db_eval [act_simps]:
  "admin_db text ctx f s = (case f (ad_db s) of
      Inl e \<Rightarrow> (Inl (Internal (ctx @ text e)), s) | Inr (x, d) \<Rightarrow> (Inr x, s\<lparr>ad_db := d\<rparr>))"
  by (simp add: admin_db_def)

lemma find_allowed: "find (\<lambda>sc. \<not> P sc) xs = None \<longleftrightarrow> list_all P xs"
  by (induction xs) auto

lemma acl_eval:
  "set_acl_scopes text subject scopes s =
    (if trim subject = [] then (Inl (InvalidArgument ''subject is required''), s)
     else case find (\<lambda>sc. \<not> scope_allowed sc) scopes of
       Some scope \<Rightarrow> (Inl (InvalidArgument (''unknown scope '' @ scope @ '' -- see ListAcl known_scopes'')), s)
     | None \<Rightarrow>
         (case set_scopes subject scopes (ad_db s) of
            Inl e \<Rightarrow> (Inl (Internal (''failed to set scopes: '' @ text e)), s)
          | Inr d \<Rightarrow> (Inr (if has_user subject d then Some (to_acl_subject (acl_subject_of d subject)) else None), s\<lparr>ad_db := d\<rparr>)))"
proof (cases "trim subject = [] \<or> find (\<lambda>sc. \<not> scope_allowed sc) scopes \<noteq> None")
  case True
  then show ?thesis by (auto simp: set_acl_scopes_def act_simps ensure_def)
next
  case False
  show ?thesis
  proof (cases "set_scopes subject scopes (ad_db s)")
    case (Inr d)
    then have "db_up d" by (auto simp: set_scopes_def grant_scopes_def result_simps split: if_splits)
    then show ?thesis
      using False Inr find_subject [of subject d "sort_key snd (users d)"]
      by (simp add: set_acl_scopes_def act_simps ensure_def reading_def list_acl_subjects_def has_user_def)
  qed (use False in \<open>simp add: set_acl_scopes_def act_simps ensure_def\<close>)
qed

section \<open>Properties\<close>

text \<open>C33: A successful \<open>SetAclScopes\<close> grants the subject exactly the scopes of the request, all of them
  known or \<open>*\<close>, changes nobody else's and answers with what is stored, or with nothing when the subject
  has never logged in (the grant is stored all the same). A refused one leaves the database alone.\<close>

theorem set_acl_scopes_exact:
  "case set_acl_scopes text subject scopes s of
     (Inr answer, s') \<Rightarrow>
       set scopes \<subseteq> insert ''*'' (set KNOWN_SCOPES)
       \<and> (\<forall>other. granted other (ad_db s') = (if other = subject then scopes else granted other (ad_db s)))
       \<and> users (ad_db s') = users (ad_db s) \<and> linked_accounts (ad_db s') = linked_accounts (ad_db s)
       \<and> map_option acs_scopes answer = (if has_user subject (ad_db s) then Some scopes else None)
   | (Inl e, s') \<Rightarrow> s' = s"
proof (cases "trim subject = [] \<or> find (\<lambda>sc. \<not> scope_allowed sc) scopes \<noteq> None")
  case True
  then show ?thesis by (auto simp: acl_eval)
next
  case False
  show ?thesis
  proof (cases "set_scopes subject scopes (ad_db s)")
    case (Inr d)
    note frame = set_scopes_frame [OF Inr]
    have "granted other d = (if other = subject then scopes else granted other (ad_db s))" for other
      by (rule granted_set_scopes [OF Inr])
    moreover have "set scopes \<subseteq> insert ''*'' (set KNOWN_SCOPES)"
      using False by (auto simp: find_None_iff scope_allowed_def)
    ultimately show ?thesis
      using False Inr frame by (simp add: acl_eval to_acl_subject_def acl_subject_of_def Let_def has_user_def)
  qed (use False in \<open>simp add: acl_eval\<close>)
qed

text \<open>The access list shows each user's linked accounts, one entry per account, in the order of their
  providers: zipping the three arrays of the row puts every account together again.\<close>

theorem acl_shows_linked_accounts:
  "acs_accounts (to_acl_subject (acl_subject_of d u)) =
     map (\<lambda>la. \<lparr>lai_provider = la_provider la, lai_provider_user_id = la_provider_user_id la, lai_display_name = la_display_name la\<rparr>)
       (sort_key la_provider (filter (\<lambda>la. la_user_id la = u) (linked_accounts d)))"
  by (simp add: to_acl_subject_def acl_subject_of_def Let_def zip_map3)

text \<open>Two Secrets that differ in the values of their keys only.\<close>

definition same_shape :: "secret \<Rightarrow> secret \<Rightarrow> bool" where
  "same_shape x y = (sec_name x = sec_name y \<and> sec_type x = sec_type y
     \<and> map fst (sec_data x) = map fst (sec_data y) \<and> map fst (sec_string_data x) = map fst (sec_string_data y))"

text \<open>C34: Listing the secrets gives no value away: two clusters whose Secrets differ only in the values
  behind the same keys get the same answer.\<close>

theorem list_secrets_hides_values:
  assumes "list_all2 same_shape (ad_secrets s) (ad_secrets t)" "k_replies s = k_replies t"
  shows "fst (list_secrets s) = fst (list_secrets t)"
proof -
  have "map secret_info_of (filter (\<lambda>x. sec_type x \<noteq> Some ''kubernetes.io/service-account-token'') xs)
      = map secret_info_of (filter (\<lambda>x. sec_type x \<noteq> Some ''kubernetes.io/service-account-token'') ys)"
    if "list_all2 same_shape xs ys" for xs ys
    using that by (induction rule: list_all2_induct) (auto simp: same_shape_def secret_info_of_def)
  from this [OF assms(1)] show ?thesis
    using assms(2)
    by (cases "k_replies t"; cases "hd (k_replies t)")
       (simp_all add: list_secrets_def act_simps api_list_def api_call_def Let_def)
qed

definition keeps_name :: "(secret option \<Rightarrow> secret \<Rightarrow> secret) \<Rightarrow> bool" where
  "keeps_name stored = (\<forall>old x. sec_name (stored old x) = sec_name x)"

lemma apply_secret_frame:
  assumes "keeps_name stored" "apply_secret stored x s = (r, s')"
  shows "m \<noteq> sec_name x \<Longrightarrow> obj_get sec_name (ad_secrets s') m = obj_get sec_name (ad_secrets s) m"
    and "r = Inr y \<Longrightarrow> obj_get sec_name (ad_secrets s') (sec_name x) = Some y"
proof -
  let ?st = "\<lambda>xs. case obj_get sec_name xs (sec_name x) of
        None \<Rightarrow> xs @ [stored None x]
      | Some y \<Rightarrow> obj_update sec_name (sec_name x) (\<lambda>_. stored (obj_get sec_name xs (sec_name x)) x) xs"
  have nm: "sec_name (stored old x) = sec_name x" for old using assms(1) by (simp add: keeps_name_def)
  have get: "obj_get sec_name (?st xs) m = (if m = sec_name x then Some (stored (obj_get sec_name xs (sec_name x)) x)
      else obj_get sec_name xs m)" for xs m
    by (cases "obj_get sec_name xs (sec_name x)")
       (simp_all add: user_secrets.get_update nm, auto simp: obj_get_def find_append nm split: option.splits)
  have "(\<exists>e. r = Inl e \<and> ad_secrets s' = ad_secrets s) \<or> (\<exists>e. r = Inl e \<and> ad_secrets s' = ?st (ad_secrets s))
      \<or> r = Inr (stored (obj_get sec_name (ad_secrets s) (sec_name x)) x) \<and> ad_secrets s' = ?st (ad_secrets s)"
    using assms(2) by (auto simp: apply_secret_def api_call_def Let_def ad_secrets_over_def split: list.splits reply.splits option.splits)
  then show "m \<noteq> sec_name x \<Longrightarrow> obj_get sec_name (ad_secrets s') m = obj_get sec_name (ad_secrets s) m"
    "r = Inr y \<Longrightarrow> obj_get sec_name (ad_secrets s') (sec_name x) = Some y"
    using get by (elim disjE exE conjE; simp)+
qed

lemma put_eval:
  "put_secret stored n data s =
    (case validate_secret_name (trim n) of
       Inl e \<Rightarrow> (Inl e, s)
     | Inr _ \<Rightarrow>
         (case find (\<lambda>k. \<not> valid_secret_key k) (map fst (btree_extend [] data)) of
            Some key \<Rightarrow> (Inl (InvalidArgument (''invalid secret key '' @ key)), s)
          | None \<Rightarrow>
              (case apply_secret stored \<lparr>sec_name = trim n, sec_type = None, sec_data = [], sec_string_data = btree_extend [] data\<rparr> s of
                 (r, s') \<Rightarrow> (case r of
                    Inl e \<Rightarrow> Inl (Internal (''failed to write secret '' @ trim n @ '': '' @ kube_text e))
                  | Inr applied \<Rightarrow> Inr (secret_info_of applied), s'))))"
  by (simp add: put_secret_def act_simps Let_def split: sum.split option.split prod.split)

lemma extend_keys: "distinct (map fst data) \<Longrightarrow> fst ` set (btree_extend [] data) = fst ` set data"
proof -
  assume "distinct (map fst data)"
  then have "map_of (btree_extend [] data) = map_of data"
    using map_of_btree_extend [of "[]" data] by simp
  then have "dom (map_of (btree_extend [] data)) = dom (map_of data)" by simp
  then show ?thesis by (simp only: dom_map_of_conv_image_fst)
qed

text \<open>\<open>PutSecret\<close> reaches the API server only with a valid name and valid keys, and then writes the one
  Secret of that name; the answer names keys and no value.\<close>

theorem put_secret_touches_one_valid_secret:
  assumes "keeps_name stored" "distinct (map fst data)" "put_secret stored n data s = (r, s')"
  shows "(s' \<noteq> s \<longrightarrow> validate_secret_name (trim n) = Inr () \<and> (\<forall>k \<in> fst ` set data. valid_secret_key k))
    \<and> (\<forall>m. m \<noteq> trim n \<longrightarrow> obj_get sec_name (ad_secrets s') m = obj_get sec_name (ad_secrets s) m)
    \<and> (\<forall>info. r = Inr info \<longrightarrow> map_option secret_info_of (obj_get sec_name (ad_secrets s') (trim n)) = Some info)"
proof (cases "validate_secret_name (trim n)")
  case (Inr u)
  show ?thesis
  proof (cases "find (\<lambda>k. \<not> valid_secret_key k) (map fst (btree_extend [] data))")
    case None
    then have keys: "\<forall>k \<in> fst ` set data. valid_secret_key k"
      using extend_keys [OF assms(2)] by (auto simp: find_None_iff)
    let ?x = "\<lparr>sec_name = trim n, sec_type = None, sec_data = [], sec_string_data = btree_extend [] data\<rparr>"
    obtain q t where q: "apply_secret stored ?x s = (q, t)" by force
    have st: "s' = t" "r = (case q of Inl e \<Rightarrow> Inl (Internal (''failed to write secret '' @ trim n @ '': '' @ kube_text e))
                  | Inr applied \<Rightarrow> Inr (secret_info_of applied))"
      using assms(3) Inr None q by (simp_all add: put_eval)
    show ?thesis
      using apply_secret_frame [OF assms(1) q] Inr keys by (auto simp: st split: sum.splits)
  qed (use assms(3) Inr in \<open>auto simp: put_eval\<close>)
qed (use assms(3) in \<open>auto simp: put_eval\<close>)

text \<open>No legal Secret name is refused: every DNS-1123 subdomain passes the check. (The converse fails:
  an empty label passes too and is left to the API server.)\<close>

definition dns1123_label :: "string \<Rightarrow> bool" where
  "dns1123_label l = (l \<noteq> [] \<and> list_all (\<lambda>c. is_lower c \<or> is_digit c \<or> c = CHR ''-'') l
     \<and> hd l \<noteq> CHR ''-'' \<and> last l \<noteq> CHR ''-'')"

definition dns1123_subdomain :: "string \<Rightarrow> bool" where
  "dns1123_subdomain n = (length n \<le> 253 \<and> list_all dns1123_label (split_on CHR ''.'' n))"

lemma join_labels:
  "ls \<noteq> [] \<Longrightarrow> list_all dns1123_label ls \<Longrightarrow> join ''.'' ls \<noteq> []
    \<and> list_all (\<lambda>c. is_lower c \<or> is_digit c \<or> c \<in> set ''-.'') (join ''.'' ls)
    \<and> hd (join ''.'' ls) = hd (hd ls) \<and> last (join ''.'' ls) = last (last ls)"
proof (induction "''.''" ls rule: join.induct)
  case (2 x)
  then show ?case by (auto simp: dns1123_label_def list_all_iff)
next
  case (3 x y ys)
  then show ?case by (auto simp: dns1123_label_def list_all_iff)
qed simp

lemma legal_name_passes:
  assumes "dns1123_subdomain n"
  shows "validate_secret_name n = Inr ()"
proof -
  let ?ls = "split_on CHR ''.'' n"
  have ls: "?ls \<noteq> []" "list_all dns1123_label ?ls" using assms by (simp_all add: dns1123_subdomain_def)
  note j = join_labels [OF ls, unfolded join_split_on]
  have "dns1123_label (hd ?ls)" "dns1123_label (last ?ls)" using ls by (auto simp: list_all_iff)
  then have "is_lower (hd n) \<or> is_digit (hd n)" "is_lower (last n) \<or> is_digit (last n)"
    using j by (auto simp: dns1123_label_def list_all_iff)
  then show ?thesis using j assms by (auto simp: validate_secret_name_def dns1123_subdomain_def)
qed

lemma empty_label_passes: "validate_secret_name ''a..b'' = Inr () \<and> \<not> dns1123_subdomain ''a..b''"
  by code_simp

text \<open>What the API server documents for \<open>stringData\<close>, which it takes over into \<open>data\<close> and never keeps, also
  under server-side apply: a key that is no longer applied stays in \<open>data\<close>.\<close>

definition string_data_merged :: "(secret option \<Rightarrow> secret \<Rightarrow> secret) \<Rightarrow> bool" where
  "string_data_merged stored = (\<forall>old x. sec_name (stored old x) = sec_name x \<and> sec_string_data (stored old x) = []
     \<and> map_of (sec_data (stored old x)) = (case old of None \<Rightarrow> Map.empty | Some y \<Rightarrow> map_of (sec_data y)) ++ map_of (sec_string_data x))"

theorem dropped_secret_key_survives:
  assumes "string_data_merged stored" "obj_get sec_name (ad_secrets s) (trim n) = Some old" "k \<in> fst ` set (sec_data old)"
    "put_secret stored n data s = (Inr info, s')"
  shows "k \<in> set (sin_keys info)"
proof -
  let ?x = "\<lparr>sec_name = trim n, sec_type = None, sec_data = [], sec_string_data = btree_extend [] data\<rparr>"
  have "apply_secret stored ?x s = (Inr y, t) \<Longrightarrow> y = stored (Some old) ?x" for y t
    using assms(2) by (auto simp: apply_secret_def api_call_def Let_def split: list.splits reply.splits)
  then have "info = secret_info_of (stored (Some old) ?x)"
    using assms(4) by (auto simp: put_eval split: sum.splits option.splits prod.splits)
  moreover have "dom (map_of (sec_data old)) \<subseteq> dom (map_of (sec_data (stored (Some old) ?x)))"
    using assms(1) by (auto simp: string_data_merged_def)
  ultimately show ?thesis
    using assms(3) by (auto simp: secret_info_of_def dom_map_of_conv_image_fst)
qed

section \<open>Concrete runs\<close>

definition demo_secret :: "string \<Rightarrow> secret" where
  "demo_secret v = \<lparr>sec_name = ''discord'', sec_type = Some ''Opaque'', sec_data = [(''token'', v), (''hook'', v)], sec_string_data = []\<rparr>"

definition demo_admin :: "string \<Rightarrow> admin" where
  "demo_admin v = \<lparr>k_servers = [], k_sources = [], k_replies = [], k_sync_log = [],
     ad_db = empty_db\<lparr>users := [(''u1'', 1)]\<rparr>, ad_secrets = [demo_secret v]\<rparr>"

text \<open>An API server that takes \<open>stringData\<close> over into \<open>data\<close>.\<close>

definition demo_stored :: "secret option \<Rightarrow> secret \<Rightarrow> secret" where
  "demo_stored old x = x\<lparr>sec_data := sec_string_data x @ (case old of None \<Rightarrow> [] | Some y \<Rightarrow> sec_data y), sec_string_data := []\<rparr>"

lemma demo_stored_ok: "keeps_name demo_stored" "string_data_merged demo_stored"
  by (auto simp: keeps_name_def string_data_merged_def demo_stored_def split: option.splits)

text \<open>The operator puts the secret again, with the key \<open>hook\<close> left out.\<close>

definition demo_put :: "admin" where
  "demo_put = (demo_admin ''old'')\<lparr>ad_secrets := [\<lparr>sec_name = ''discord'', sec_type = None,
     sec_data = [(''token'', ''new''), (''token'', ''old''), (''hook'', ''old'')], sec_string_data = []\<rparr>]\<rparr>"

lemma demo_put_run:
  "put_secret demo_stored '' discord'' [(''token'', ''new'')] (demo_admin ''old'') =
     (Inr \<lparr>sin_name = ''discord'', sin_keys = [''hook'', ''token'']\<rparr>, demo_put)"
proof -
  have "trim '' discord'' = ''discord''" "validate_secret_name ''discord'' = Inr ()" "valid_secret_key ''token''" by code_simp+
  moreover have "btree_extend [] [(''token'', ''new'')] = [(''token'', ''new'')]" by code_simp
  moreover have "remdups_adj (sort [''token'', ''token'', ''hook'']) = [''hook'', ''token'']" by code_simp
  ultimately show ?thesis
    by (simp add: put_eval apply_secret_def api_call_def Let_def demo_admin_def demo_secret_def demo_put_def demo_stored_def
        ad_secrets_over_def obj_get_def obj_update_def secret_info_of_def)
qed

theorem put_secret_touches_one_valid_secret_witness:
  "validate_secret_name (trim '' discord'') = Inr () \<and> (\<forall>k \<in> fst ` set [(''token'', ''new'')]. valid_secret_key k)"
proof -
  have "demo_put \<noteq> demo_admin ''old''" by (simp add: demo_put_def demo_admin_def demo_secret_def)
  then show ?thesis
    using put_secret_touches_one_valid_secret [OF demo_stored_ok(1) _ demo_put_run] by simp
qed

theorem dropped_secret_key_survives_witness: "''hook'' \<in> set [''hook'', ''token'']"
proof -
  have "trim '' discord'' = ''discord''" by code_simp
  then have "obj_get sec_name (ad_secrets (demo_admin ''old'')) (trim '' discord'') = Some (demo_secret ''old'')"
    by (simp add: demo_admin_def demo_secret_def obj_get_def)
  from dropped_secret_key_survives [OF demo_stored_ok(2) this _ demo_put_run, of "''hook''"] show ?thesis
    by (simp add: demo_secret_def)
qed

theorem list_secrets_hides_values_witness:
  "fst (list_secrets (demo_admin ''swordfish'')) = fst (list_secrets (demo_admin ''xyzzy''))"
  by (rule list_secrets_hides_values) (simp_all add: demo_admin_def demo_secret_def same_shape_def)
end
