(* ===== verification/Startup.thy ===== *)
theory Startup
  imports Authz
begin

text \<open>
  What the services do before they serve: the configuration the gateway and the registry read from the
  environment (\<open>services/gateway/src/config.rs\<close>, \<open>services/registry/src/config.rs\<close>) and the Postgres role the
  controller creates for the game servers (\<open>services/controller/src/postgres_bootstrap.rs\<close>). Postgres is
  its roles, databases and grants, with the documented rule that a role also has what is granted to
  \<open>PUBLIC\<close>. The names of role and database are taken to hold no quote, so that the text sent is the three
  statements it is written as.
\<close>

section \<open>Configuration\<close>

definition service_require_env :: "(string \<rightharpoonup> string) \<Rightarrow> string \<Rightarrow> string + string" where
  "service_require_env env key = ok_or (env key) (''missing required env var '' @ key)"

record jwt_settings =
  js_jwks_url :: string
  js_issuer :: string
  js_audience :: string

definition jwt_from_env :: "(string \<rightharpoonup> string) \<Rightarrow> string + jwt_settings" where
  "jwt_from_env env =
    rbind (service_require_env env ''JWKS_URL'') (\<lambda>jwks_url.
    rbind (service_require_env env ''JWT_ISSUER'') (\<lambda>issuer.
    rbind (service_require_env env ''JWT_AUDIENCE'') (\<lambda>audience.
    Inr \<lparr>js_jwks_url = jwks_url, js_issuer = issuer, js_audience = audience\<rparr>)))"

record gateway_config =
  gc_namespace :: string
  gc_listen_addr :: string
  gc_database_url :: string
  gc_sync_daemon_url :: string
  gc_ui_dir :: "string option"
  gc_jwt :: jwt_settings

definition gateway_config_from_env :: "(string \<Rightarrow> bool) \<Rightarrow> (string \<rightharpoonup> string) \<Rightarrow> string + gateway_config" where
  "gateway_config_from_env is_dir env =
    rbind (service_require_env env ''DATABASE_URL'') (\<lambda>database_url.
    rbind (jwt_from_env env) (\<lambda>jwt.
    Inr \<lparr>gc_namespace = env_or env ''NAMESPACE'' ''default'', gc_listen_addr = env_or env ''LISTEN_ADDR'' ''0.0.0.0:8443'',
         gc_database_url = database_url, gc_sync_daemon_url = env_or env ''SYNC_DAEMON_URL'' ''http://sync-daemon:8080'',
         gc_ui_dir = (case env ''UI_DIR'' of None \<Rightarrow> None | Some d \<Rightarrow> if d \<noteq> [] \<and> is_dir d then Some d else None),
         gc_jwt = jwt\<rparr>))"

record registry_config =
  rc_user_secrets_namespace :: string
  rc_local_content_root :: string
  rc_listen_addr :: string
  rc_database_url :: string
  rc_sync_daemon_url :: string
  rc_namespace :: string
  rc_armaserver_namespace :: string
  rc_arma_config_baseline :: string
  rc_jwt :: jwt_settings

definition registry_config_from_env :: "(string \<rightharpoonup> string) \<Rightarrow> string + registry_config" where
  "registry_config_from_env env =
    (let namespace = env_or env ''NAMESPACE'' ''default'' in
     rbind (service_require_env env ''DATABASE_URL'') (\<lambda>database_url.
     rbind (service_require_env env ''ARMA_CONFIG_BASELINE_CONFIGMAP'') (\<lambda>baseline.
     rbind (jwt_from_env env) (\<lambda>jwt.
     Inr \<lparr>rc_user_secrets_namespace = env_or env ''USER_SECRETS_NAMESPACE'' ''magpie-user-secrets'',
          rc_local_content_root = env_or env ''LOCAL_CONTENT_ROOT'' ''/local-content'',
          rc_listen_addr = env_or env ''LISTEN_ADDR'' ''0.0.0.0:8444'', rc_database_url = database_url,
          rc_sync_daemon_url = env_or env ''SYNC_DAEMON_URL'' ''http://sync-daemon:8080'', rc_namespace = namespace,
          rc_armaserver_namespace = env_or env ''ARMASERVER_NAMESPACE'' namespace,
          rc_arma_config_baseline = baseline, rc_jwt = jwt\<rparr>))))"

section \<open>The role of the game servers\<close>

datatype grantee = PublicRole | Role string
datatype pg_object = Database string | Schema string
datatype pg_privilege = PgConnect | PgCreate | PgUsage

record pg =
  pg_up :: bool
  pg_roles :: "(string \<times> string) list"
  pg_databases :: "string list"
  pg_grants :: "(grantee \<times> pg_object \<times> pg_privilege) list"

datatype pg_stmt =
    CreateRole string string
  | GrantOnDatabase "pg_privilege list" string string
  | RevokeAllOnSchema string string

fun exec_stmt :: "pg_stmt \<Rightarrow> pg \<Rightarrow> string + pg" where
  "exec_stmt (CreateRole role password) d =
     (if role \<in> fst ` set (pg_roles d) then Inl ''role already exists'' else Inr (d\<lparr>pg_roles := (role, password) # pg_roles d\<rparr>))"
| "exec_stmt (GrantOnDatabase ps db role) d =
     (if db \<notin> set (pg_databases d) then Inl ''database does not exist''
      else if role \<notin> fst ` set (pg_roles d) then Inl ''role does not exist''
      else Inr (d\<lparr>pg_grants := map (\<lambda>p. (Role role, Database db, p)) ps @ pg_grants d\<rparr>))"
| "exec_stmt (RevokeAllOnSchema schema role) d =
     (if role \<notin> fst ` set (pg_roles d) then Inl ''role does not exist''
      else Inr (d\<lparr>pg_grants := filter (\<lambda>(g, obj, p). \<not> (g = Role role \<and> obj = Schema schema)) (pg_grants d)\<rparr>))"

text \<open>Statements sent in one text run in one transaction.\<close>

fun exec_stmts :: "pg_stmt list \<Rightarrow> pg \<Rightarrow> string + pg" where
  "exec_stmts [] d = Inr d"
| "exec_stmts (st # sts) d = rbind (exec_stmt st d) (exec_stmts sts)"

definition raw_sql :: "pg_stmt list \<Rightarrow> pg \<Rightarrow> (string + unit) \<times> pg" where
  "raw_sql sts d = (case exec_stmts sts d of Inl e \<Rightarrow> (Inl e, d) | Inr d' \<Rightarrow> (Inr (), d'))"

definition app_role_sql :: "string \<Rightarrow> string \<Rightarrow> string \<Rightarrow> pg_stmt list" where
  "app_role_sql role database password =
    [CreateRole role password, GrantOnDatabase [PgConnect, PgCreate] database role, RevokeAllOnSchema ''public'' role]"

record app_postgres_config =
  ap_role :: string
  ap_database :: string
  ap_secret_name :: string

text \<open>\<open>secret\<close> is the API server's answer for the Secret: its data, if it has any.\<close>

definition ensure_app_role :: "string + (string, string) hashmap option \<Rightarrow> app_postgres_config \<Rightarrow> pg \<Rightarrow> (string + unit) \<times> pg" where
  "ensure_app_role secret cfg d =
    (case rbind secret (\<lambda>data.
       rbind (ok_or (Option.bind data (\<lambda>kvs. map_of kvs ''POSTGRES_PASSWORD''))
                (ap_secret_name cfg @ '' has no POSTGRES_PASSWORD key'')) (\<lambda>password.
       rbind (ensure (valid_utf8 password) ''invalid utf-8 sequence'') (\<lambda>_.
       rbind (ensure (pg_up d) ''database unavailable'') (\<lambda>_. Inr password)))) of
       Inl e \<Rightarrow> (Inl e, d)
     | Inr password \<Rightarrow>
         if ap_role cfg \<in> fst ` set (pg_roles d) then (Inr (), d)
         else raw_sql (app_role_sql (ap_role cfg) (ap_database cfg) password) d)"

text \<open>A role has what is granted to it and what is granted to everyone.\<close>

definition has_privilege :: "string \<Rightarrow> pg_object \<Rightarrow> pg_privilege \<Rightarrow> pg \<Rightarrow> bool" where
  "has_privilege role obj p d = ((Role role, obj, p) \<in> set (pg_grants d) \<or> (PublicRole, obj, p) \<in> set (pg_grants d))"

section \<open>Properties\<close>

lemma ensure_cases:
  assumes "ensure_app_role secret cfg d = (r, d')"
  obtains (unchanged) "d' = d"
  | (created) password where "ap_role cfg \<notin> fst ` set (pg_roles d)" "r = Inr ()" "ap_database cfg \<in> set (pg_databases d)"
      "pg_roles d' = (ap_role cfg, password) # pg_roles d" "pg_databases d' = pg_databases d"
      "set (pg_grants d') = {(Role (ap_role cfg), Database (ap_database cfg), PgConnect),
         (Role (ap_role cfg), Database (ap_database cfg), PgCreate)}
       \<union> (set (pg_grants d) - {(Role (ap_role cfg), Schema ''public'', p) | p. True})"
proof -
  have "d' = d \<or> (\<exists>password. ap_role cfg \<notin> fst ` set (pg_roles d)
      \<and> raw_sql (app_role_sql (ap_role cfg) (ap_database cfg) password) d = (r, d'))"
    using assms by (auto simp: ensure_app_role_def split: sum.splits if_splits)
  then show thesis
  proof (elim disjE exE conjE)
    fix password
    assume new: "ap_role cfg \<notin> fst ` set (pg_roles d)"
      and run: "raw_sql (app_role_sql (ap_role cfg) (ap_database cfg) password) d = (r, d')"
    show thesis
    proof (cases "ap_database cfg \<in> set (pg_databases d)")
      case True
      then have "r = Inr ()" "d' = d\<lparr>pg_roles := (ap_role cfg, password) # pg_roles d,
          pg_grants := filter (\<lambda>(g, obj, p). \<not> (g = Role (ap_role cfg) \<and> obj = Schema ''public''))
            ([(Role (ap_role cfg), Database (ap_database cfg), PgConnect), (Role (ap_role cfg), Database (ap_database cfg), PgCreate)]
             @ pg_grants d)\<rparr>"
        using run new by (simp_all add: raw_sql_def app_role_sql_def)
      then show thesis using created [of password] new True by auto
    next
      case False
      then have "d' = d" using run new by (simp add: raw_sql_def app_role_sql_def)
      then show thesis by (rule unchanged)
    qed
  qed (rule unchanged)
qed

lemma app_role_exists:
  assumes "ensure_app_role secret cfg d = (Inr (), d')"
  shows "ap_role cfg \<in> fst ` set (pg_roles d')"
  using assms
proof (cases rule: ensure_cases)
  case unchanged
  then show ?thesis
    using assms by (auto simp: ensure_app_role_def raw_sql_def app_role_sql_def split: sum.splits if_splits dest: arg_cong [where f = pg_roles])
qed simp

text \<open>The bootstrap happens once: from the second start on nothing changes, whatever has been granted or
  revoked since.\<close>

theorem app_role_created_once:
  assumes "ensure_app_role secret cfg d = (Inr (), d')" "pg_roles d2 = pg_roles d'"
  shows "snd (ensure_app_role secret' cfg d2) = d2"
  using app_role_exists [OF assms(1)] assms(2) by (auto simp: ensure_app_role_def split: sum.splits)

text \<open>The new role has two grants of its own. What everyone may do in the schema \<open>public\<close> it may do as
  well: revoking from the role takes nothing from \<open>PUBLIC\<close>.\<close>

theorem new_role_keeps_public_schema:
  assumes "ensure_app_role secret cfg d = (Inr (), d')" "ap_role cfg \<notin> fst ` set (pg_roles d)"
    "\<forall>obj p. (Role (ap_role cfg), obj, p) \<notin> set (pg_grants d)"
  shows "(Role (ap_role cfg), obj, p) \<in> set (pg_grants d') \<longleftrightarrow> obj = Database (ap_database cfg) \<and> p \<in> {PgConnect, PgCreate}"
    and "has_privilege (ap_role cfg) (Schema ''public'') p d' \<longleftrightarrow> (PublicRole, Schema ''public'', p) \<in> set (pg_grants d)"
proof -
  have "ap_role cfg \<in> fst ` set (pg_roles d')" by (rule app_role_exists [OF assms(1)])
  then have new: "d' \<noteq> d" using assms(2) by auto
  from assms(1) show "(Role (ap_role cfg), obj, p) \<in> set (pg_grants d') \<longleftrightarrow> obj = Database (ap_database cfg) \<and> p \<in> {PgConnect, PgCreate}"
    "has_privilege (ap_role cfg) (Schema ''public'') p d' \<longleftrightarrow> (PublicRole, Schema ''public'', p) \<in> set (pg_grants d)"
    by (cases rule: ensure_cases; use new assms(3) in \<open>auto simp: has_privilege_def\<close>)+
qed

definition demo_pg :: pg where
  "demo_pg = \<lparr>pg_up = True, pg_roles = [(''admin'', ''x'')], pg_databases = [''arma''],
     pg_grants = [(PublicRole, Schema ''public'', PgCreate)]\<rparr>"

definition demo_app :: app_postgres_config where
  "demo_app = \<lparr>ap_role = ''app'', ap_database = ''arma'', ap_secret_name = ''app-postgres''\<rparr>"

lemma demo_role_created:
  "ensure_app_role (Inr (Some [(''POSTGRES_PASSWORD'', ''pw'')])) demo_app demo_pg =
    (Inr (), demo_pg\<lparr>pg_roles := [(''app'', ''pw''), (''admin'', ''x'')],
       pg_grants := [(Role ''app'', Database ''arma'', PgConnect), (Role ''app'', Database ''arma'', PgCreate),
         (PublicRole, Schema ''public'', PgCreate)]\<rparr>)"
  by code_simp

theorem new_role_keeps_public_schema_witness:
  "has_privilege ''app'' (Schema ''public'') PgCreate
     (snd (ensure_app_role (Inr (Some [(''POSTGRES_PASSWORD'', ''pw'')])) demo_app demo_pg))"
  unfolding demo_role_created snd_conv
  using new_role_keeps_public_schema(2) [OF demo_role_created, of PgCreate]
  by (simp add: demo_app_def demo_pg_def)
end
