(* ===== verification/Spec2Isabelle.thy ===== *)
theory Spec2Isabelle
  imports RegistryDb Authz Crd WorkshopParse SyncCache Resolve ArmaConfig Gateway Controller Lowercase Identity ModSources ClusterState Launcher Collections Download ContentPass SteamPool Missions Admin Startup
begin

text \<open>
  Verification of magpie, which runs Arma 3 servers on Kubernetes. The program is a set of Rust services
  around a few shared stores; this root theory holds the property that spans two of its reconcilers and
  this description.

  \<^bold>\<open>The program.\<close> The gateway (\<open>services/gateway\<close>) and the registry (\<open>services/registry\<close>) are the RPC
  front ends. Both let a request in only through the scope middleware of \<open>crates/authn\<close>, whose tokens
  the identity service (\<open>services/identity\<close>) issues after a Steam login and whose grants are rows of the
  registry database (\<open>crates/registry-db\<close>). The front ends write \<open>ArmaServer\<close> and \<open>ModSource\<close> objects
  (\<open>crates/crd\<close>) into the Kubernetes API. The controller (\<open>services/controller\<close>) reconciles servers and
  headless clients to Deployments whose Pods run the launcher (\<open>services/launcher\<close>). The sync daemon
  (\<open>services/sync-daemon\<close>) reconciles mod sources: it turns links and presets (\<open>crates/workshop-parse\<close>)
  into workshop ids, resolves and downloads them through Steam (\<open>crates/steam-sync\<close>) and records what is
  on disk in the sync cache, which is also what the controller waits for before it deploys a server.

  \<^bold>\<open>Theories and the code they model.\<close>
  \<^item> \<open>Prelude\<close>: machine integers, results, UTF-8 strings, decimal numbers, ordered maps and list loops.
  \<^item> \<open>Effect\<close>: fallible operations on a state, \<open>act\<close>, with bind, error mapping and loops, and the
    triples \<open>triple\<close> and \<open>keeps\<close> by which invariants of handlers are proved.
  \<^item> \<open>Kube\<close>: the Kubernetes API as an object store. Each call is answered, refused, or carried out while
    its reply is lost. The locale \<open>object_kind\<close> states what a kind of object with finalizers promises; it
    is interpreted for servers, mod sources, headless clients, Deployments and user secrets.
  \<^item> \<open>Crd\<close>: the custom resources and the port arithmetic (\<open>crates/crd/src/lib.rs\<close>).
  \<^item> \<open>RegistryDb\<close>: the tables and every query of \<open>crates/registry-db/src/lib.rs\<close>, their reachable states
    and the locale \<open>scope_store\<close> of grants.
  \<^item> \<open>Authz\<close>: \<open>jwt.rs\<close>, \<open>authz.rs\<close> and the scope tables of both front ends.
  \<^item> \<open>WorkshopParse\<close>: link scanning and preset files (\<open>crates/workshop-parse/src/lib.rs\<close>).
  \<^item> \<open>SyncCache\<close>: \<open>crates/steam-sync/src/cache.rs\<close>, with the cross-process lock as a step relation and
    the locale \<open>marker_store\<close> of sync marks.
  \<^item> \<open>Resolve\<close>: \<open>resolve_source_ids\<close> and its helpers in \<open>crates/steam-sync/src/steam.rs\<close>.
  \<^item> \<open>Lowercase\<close>: \<open>crates/steam-sync/src/lowercase.rs\<close> on directory trees with inodes.
  \<^item> \<open>Content\<close>: which depots and mods a pass downloads (\<open>resolve_wanted_depots\<close>, \<open>spawn_plan_downloads\<close>,
    \<open>resolve_workshop_items\<close> in \<open>steam.rs\<close>, \<open>sync_mods\<close> in \<open>workshop.rs\<close>).
  \<^item> \<open>Download\<close>: one download on a directory tree (\<open>download_one_depot\<close>, \<open>finalize_synced_tree\<close>) and the
    metadata patches of \<open>workshop.rs\<close>.
  \<^item> \<open>ArmaConfig\<close>: \<open>services/controller/src/arma_config.rs\<close>.
  \<^item> \<open>Gateway\<close>: every RPC of \<open>services/gateway/src/service.rs\<close>.
  \<^item> \<open>Deploy\<close> and \<open>Controller\<close>: the controller's configuration, the objects it writes and both
    reconcilers (\<open>config.rs\<close>, \<open>reconcile.rs\<close>).
  \<^item> \<open>Identity\<close>: signing key, tokens, Steam login, account linking (\<open>services/identity/src\<close>).
  \<^item> \<open>ModSources\<close> and \<open>ClusterState\<close>: \<open>mod_source.rs\<close>, \<open>preset_export.rs\<close>, uploaded mods in
    \<open>storage.rs\<close>, and \<open>state.rs\<close> of \<open>services/registry\<close>.
  \<^item> \<open>Launcher\<close>: \<open>services/launcher/src\<close>.
  \<^item> \<open>Collections\<close>: \<open>collection.rs\<close> and the retry rules of \<open>crates/steam-sync\<close>, and the collection RPCs
    of sync daemon and registry.
  \<^item> \<open>SyncDaemon\<close>: the rest of \<open>services/sync-daemon/src\<close>: sources, content passes, RPCs, the reconciler of
    mod sources, the session Secret and the QR login.
  \<^item> \<open>ContentPass\<close>: the daemon's content pass over the resolution of \<open>Content\<close>.
  \<^item> \<open>SteamPool\<close>: login, token negotiation and \<open>CmPool\<close> of \<open>steam.rs\<close>, and the start of the daemon with
    it (\<open>main.rs\<close>). The operations of the pool are functions on its state; the callers of \<open>acquire\<close>, the
    dropped guards, the re-logins and the retry gate interleave in two step relations.
  \<^item> \<open>Missions\<close> and \<open>Admin\<close>: \<open>mission.rs\<close> with its half of \<open>storage.rs\<close>, and the disk usage, access list,
    user secrets and passed-on calls of \<open>admin.rs\<close>.
  \<^item> \<open>Startup\<close>: \<open>config.rs\<close> of gateway and registry, and \<open>postgres_bootstrap.rs\<close> of the controller.

  \<^bold>\<open>How state and operations correspond.\<close> A struct is a record and an enum a datatype with its
  constructors. A Rust \<open>String\<close> is its UTF-8 bytes. Integers are words of their width; the wrap-around of
  \<open>as\<close> casts is that of the words. A \<open>Result\<close> is a sum with the error on the left, and every \<open>?\<close>,
  \<open>bail!\<close> and early return is a branch. An \<open>async\<close> handler is an action on the state of its component: its
  stored objects, tables, caches or files. Between two API calls of one handler other handlers may run;
  where a property depends on it, the steps are those of an inductive relation or the handler is split at
  the call. A \<open>HashMap\<close> whose order the code can observe is a list in some order, so that a fact holds for
  all orders.

  \<^bold>\<open>Parameters.\<close> Code outside the repository is an argument: Steam's answers, HTTP and file contents,
  token signatures, hashes, fresh ids, the clock, Unicode case mapping, zip reading, and the merge that a
  server-side apply computes. What a property needs of them (an idempotent case mapping, an unforgeable
  signature, answers of Steam that do not change within a call) is a named hypothesis of it.

  \<^bold>\<open>Bounds.\<close> No definition takes fuel that the code does not have. \<open>resolve_rounds\<close> makes the at most eight
  rounds of \<open>MAX_COLLECTION_DEPTH\<close>. \<open>list_pages\<close> ends because a further page needs a hundred times its
  number below a 32-bit total, so there are at most 42949673. The launcher's waiting loops end at their
  deadlines, \<open>with_retry\<close> and \<open>login_with_retry\<close> after their three attempts, and every other loop recurs on the data it walks.

  \<^bold>\<open>What is shown.\<close> Access: no request reaches a handler without a verified token and a current grant, a
  refresh token works once, tokens go to the proved account and redirects stay where they are allowed.
  Servers: running servers created through the gateway never share a port, a server is deployed only
  through its gates and reaches \<open>Running\<close> when they open, phases follow their machine, headless clients
  converge to the wanted number, a Pod starts with exactly the settings its server object has, and
  rendered configurations read back. Content: at most one process holds a sync lock, source membership
  refines a map of sets, candidate ids resolve to the reachable mods in order, case repair keeps every
  path and converges, a content pass marks what it synced, a quiet recheck stays quiet, only collections
  of the account are changed and each is published once. Stores: account linking merges, every reachable
  database is well formed, exported state imports again, an upload replaces one mission and touches no
  other, missions and their directories stay in step, scopes are set exactly as asked, and listing secrets
  shows no value. Steam: the concurrent logins of the pool always end, each slot is in exactly one place
  however its users interleave, a permit always finds a connection, and a caller waits only for slots in
  use or lost. Some theorems state behaviour a reader would not expect: a port is cut to 16 bits, a refused upload destroys the mod or the mission it names, a refused request
  marks a connection bad, an authenticated pool hands out an anonymous connection, a failed first download leaves its source \<open>Synced\<close>, and two objects can share
  one Deployment.

  \<^bold>\<open>Not modelled.\<close> The generated protocol code and the RPC transport (\<open>crates/protocol\<close>,
  \<open>crates/sync-client\<close>); logs, traces and metrics (\<open>crates/observability\<close>, the \<open>metrics.rs\<close> files); the
  CSI driver and capacity reservations, which act on block devices; the frames and the cryptography of the
  Steam protocol, which are \<open>steamdepot\<close>'s; the wiring in the other \<open>main.rs\<close> files; the command line client,
  the web interface and the charts, which are not Rust.
\<close>

section \<open>One Deployment for two objects\<close>

lemma hc_object_name_label:
  assumes "validate_k8s_name n = Inr ()" "length (hc_object_name n i) \<le> 63"
  shows "validate_k8s_name (hc_object_name n i) = Inr ()"
proof -
  have "list_all is_label_char (show_word i)"
    using show_word_digits [of i] by (auto simp: list_all_iff is_label_char_def)
  moreover have "last (show_word i) \<noteq> CHR ''-''"
  proof
    assume "last (show_word i) = CHR ''-''"
    then have "CHR ''-'' \<in> set (show_word i)" by (metis last_in_set show_nat_nonempty show_word_def)
    then show False using show_word_no_char [of "CHR ''-''" i] by (simp add: is_digit_def)
  qed
  moreover have "list_all is_label_char ''-hc-''" by (simp add: is_label_char_def is_lower_def)
  ultimately show ?thesis
    using assms by (simp add: validate_k8s_name_iff dns_label_def hc_object_name_def show_word_def)
qed

lemma triple_delete_hc_deployment:
  "triple (\<lambda>_. True) (delete_hc_deployment n) (\<lambda>_ s. obj_get dep_name (c_deployments s) n = None) (\<lambda>_ _. True)"
  unfolding delete_hc_deployment_def api_delete_def
  by (rule triple_ignore_404 [where E = "\<lambda>_ _. True"], rule triple_api_call_err)
     (auto simp: triple_def stable_def deployments.get_delete split: option.splits)

text \<open>C21: a headless client and a server can own one Deployment. The name of a client of a server is
  itself a server name the gateway accepts, both objects render a Deployment of that name, and cleaning
  up the client deletes it, whichever of the two it belongs to.\<close>

theorem headless_client_shares_server_deployment:
  assumes "validate_k8s_name n = Inr ()" "length (hc_object_name n i) \<le> 63" "srv_name other = hc_object_name n i"
    and "hc_cleanup (new_headless_client n i) s = (Inr a, s')"
  shows "validate_k8s_name (srv_name other) = Inr ()
    \<and> dep_name (hc_deployment cfg u (new_headless_client n i) owner ps lc) = dep_name (server_deployment cfg u other ps' ex)
    \<and> obj_get dep_name (c_deployments s') (dep_name (server_deployment cfg u other ps' ex)) = None"
proof -
  have "triple (\<lambda>_. True) (hc_cleanup (new_headless_client n i))
      (\<lambda>_ s. obj_get dep_name (c_deployments s) (hc_object_name n i) = None) (\<lambda>_ _. True)"
    unfolding hc_cleanup_def
    by (rule triple_bind [OF triple_delete_hc_deployment]) (auto simp: new_headless_client_def intro: triple_intros)
  from triple_okD [OF this _ assms(4)] hc_object_name_label [OF assms(1,2)] assms(3) show ?thesis
    by (simp add: new_headless_client_def)
qed

theorem headless_client_shares_server_deployment_witness:
  "let other = demo_server\<lparr>srv_name := ''ops-hc-0''\<rparr>;
       d = server_deployment (x_cfg demo_ctx) ''gen-1'' other [] [];
       s = (demo_ctl [other] [])\<lparr>c_deployments := [d]\<rparr> in
     obj_get dep_name (c_deployments s) ''ops-hc-0'' = Some d
     \<and> obj_get dep_name (c_deployments (snd (hc_cleanup (new_headless_client ''ops'' 0) s))) ''ops-hc-0'' = None"
proof -
  define other where "other = demo_server\<lparr>srv_name := ''ops-hc-0''\<rparr>"
  define d where "d = server_deployment (x_cfg demo_ctx) ''gen-1'' other [] []"
  define s where "s = (demo_ctl [other] [])\<lparr>c_deployments := [d]\<rparr>"
  have name: "hc_object_name ''ops'' 0 = ''ops-hc-0''" "srv_name other = ''ops-hc-0''" "dep_name d = ''ops-hc-0''"
    by (simp_all add: hc_object_name_def show_word_def show_nat.simps digit_char_def char_of_def bit_0 other_def d_def)
  have valid: "validate_k8s_name ''ops'' = Inr ()"
    by (simp add: validate_k8s_name_def is_label_char_def is_alnum_def is_alpha_def is_lower_def is_digit_def)
  have s: "k_replies s = []" "obj_get dep_name (c_deployments s) ''ops-hc-0'' = Some d"
    by (simp_all add: s_def demo_ctl_def obj_get_def name)
  then obtain a s' where run: "hc_cleanup (new_headless_client ''ops'' 0) s = (Inr a, s')"
    by (simp add: hc_cleanup_def delete_hc_deployment_def ignore_404_def api_delete_def act_simps new_headless_client_def name)
  from headless_client_shares_server_deployment [OF valid _ _ run, of other "x_cfg demo_ctx" "''gen-1''" demo_server "[]" undefined "[]" "[]"]
  have "obj_get dep_name (c_deployments s') ''ops-hc-0'' = None" by (simp add: name)
  then show ?thesis
    unfolding Let_def other_def [symmetric] d_def [symmetric] s_def [symmetric] using run s by simp
qed

end
